(* ===== verification/Prelude.thy ===== *)
theory Prelude
  imports Complex_Main "HOL-Library.Word" "HOL-Library.List_Lexorder" "HOL-Library.Product_Lexorder"
begin

text \<open>
  What every theory of the development shares: Python's bytes, exceptions and list
  indexing; effects as state transformers that may raise; the collections of facts
  the component proofs draw on.

  A Python statement that mutates an object and may raise is a function
  \<open>'s \<Rightarrow> (py_error + 'a) \<times> 's\<close>: the exception is a value, and the state it leaves
  behind is kept, because a mutation done before a \<open>raise\<close> stays done.
\<close>

named_theorems eff_simps \<open>evaluation of the effect combinators\<close>
named_theorems frame \<open>fields an operation leaves alone\<close>

section \<open>Bytes, exceptions\<close>

type_synonym byte = "8 word"
type_synonym bytes = "byte list"

datatype py_error =
    KeyError | IndexError | ValueError | AttributeError | TypeError
  | AssertionError | RuntimeError | UnboundLocalError | ZeroDivisionError
  | StructError | InvalidTransactionError | QueueFull | QueueEmpty | WrongVersion | FileNotFound
  | UnknownAddress | SocketError | BindError

section \<open>Python list indexing\<close>

text \<open>
  \<open>xs[i]\<close> counts a negative \<open>i\<close> from the end and raises IndexError outside
  \<open>-len(xs) .. len(xs)-1\<close>; \<open>None\<close> is that error. \<open>xs[i] = v\<close> has the same bounds.
\<close>

definition py_pos :: "'a list \<Rightarrow> int \<Rightarrow> nat option" where
  "py_pos xs i =
     (let n = int (length xs); j = (if i < 0 then n + i else i)
      in if 0 \<le> j \<and> j < n then Some (nat j) else None)"

definition py_get :: "'a list \<Rightarrow> int \<Rightarrow> 'a option" where
  "py_get xs i = map_option (\<lambda>j. xs ! j) (py_pos xs i)"

definition py_set :: "'a list \<Rightarrow> int \<Rightarrow> 'a \<Rightarrow> 'a list option" where
  "py_set xs i v = map_option (\<lambda>j. xs[j := v]) (py_pos xs i)"

lemma py_pos_bound: "py_pos xs i = Some j \<Longrightarrow> j < length xs"
  by (auto simp: py_pos_def Let_def split: if_splits)

lemma py_pos_cong_length: "length xs = length ys \<Longrightarrow> py_pos xs i = py_pos ys i"
  by (simp add: py_pos_def)

lemma py_pos_nonneg: "0 \<le> i \<Longrightarrow> py_pos xs i = (if nat i < length xs then Some (nat i) else None)"
  by (auto simp: py_pos_def Let_def)

lemma py_get_nth: "py_get xs i = Some x \<longleftrightarrow> (\<exists>j. py_pos xs i = Some j \<and> x = xs ! j)"
  by (auto simp: py_get_def)

lemma py_get_None_iff: "py_get xs i = None \<longleftrightarrow> py_pos xs i = None"
  by (simp add: py_get_def)

lemma py_set_length: "py_set xs i v = Some ys \<Longrightarrow> length ys = length xs"
  by (auto simp: py_set_def)

section \<open>Effects\<close>

type_synonym ('s, 'a) eff = "'s \<Rightarrow> (py_error + 'a) \<times> 's"

definition ret :: "'a \<Rightarrow> ('s, 'a) eff" where
  "ret x s = (Inr x, s)"

definition raise :: "py_error \<Rightarrow> ('s, 'a) eff" where
  "raise e s = (Inl e, s)"

definition bindE :: "('s, 'a) eff \<Rightarrow> ('a \<Rightarrow> ('s, 'b) eff) \<Rightarrow> ('s, 'b) eff" where
  "bindE m k s = (case m s of (Inl e, t) \<Rightarrow> (Inl e, t) | (Inr x, t) \<Rightarrow> k x t)"

definition getE :: "('s \<Rightarrow> 'a) \<Rightarrow> ('s, 'a) eff" where
  "getE f s = (Inr (f s), s)"

definition modE :: "('s \<Rightarrow> 's) \<Rightarrow> ('s, unit) eff" where
  "modE f s = (Inr (), f s)"

text \<open>\<open>for x in xs: body\<close>: the first exception ends the loop.\<close>

fun forE :: "('x \<Rightarrow> ('s, unit) eff) \<Rightarrow> 'x list \<Rightarrow> ('s, unit) eff" where
  "forE f [] = ret ()"
| "forE f (x # xs) = bindE (f x) (\<lambda>_. forE f xs)"

lemma ret_eff [simp, eff_simps]: "ret x s = (Inr x, s)"
  by (simp add: ret_def)

lemma raise_eff [simp, eff_simps]: "raise e s = (Inl e, s)"
  by (simp add: raise_def)

lemma getE_eff [simp, eff_simps]: "getE f s = (Inr (f s), s)"
  by (simp add: getE_def)

lemma modE_eff [simp, eff_simps]: "modE f s = (Inr (), f s)"
  by (simp add: modE_def)

lemma bindE_ok [eff_simps]: "m s = (Inr x, t) \<Longrightarrow> bindE m k s = k x t"
  by (simp add: bindE_def)

lemma bindE_err [eff_simps]: "m s = (Inl e, t) \<Longrightarrow> bindE m k s = (Inl e, t)"
  by (simp add: bindE_def)

lemma bindE_modE [eff_simps]: "bindE (modE f) k s = k () (f s)"
  by (simp add: bindE_def)

lemma bindE_ret [eff_simps]: "bindE (ret x) k s = k x s"
  by (simp add: bindE_def)

lemma bindE_InrD:
  assumes "bindE m k s = (Inr y, u)"
  obtains x t where "m s = (Inr x, t)" and "k x t = (Inr y, u)"
  using assms by (auto simp: bindE_def split: prod.splits sum.splits)

text \<open>
  A loop keeps what its body keeps, on the normal and the exceptional exit alike. The
  induction is made once here; the component proofs only look at one iteration.
\<close>

lemma forE_inv:
  assumes "I s"
    and "\<And>x t r u. x \<in> set xs \<Longrightarrow> I t \<Longrightarrow> f x t = (r, u) \<Longrightarrow> I u"
    and "forE f xs s = (r, u)"
  shows "I u"
  using assms
proof (induction xs arbitrary: s)
  case Nil
  then show ?case by simp
next
  case (Cons x xs)
  obtain r1 t where st: "f x s = (r1, t)" by (cases "f x s")
  have It: "I t" using Cons.prems(1,2) st by (auto intro: Cons.prems(2))
  show ?case
  proof (cases r1)
    case (Inl e)
    with st Cons.prems(3) It show ?thesis by (simp add: bindE_def)
  next
    case (Inr v)
    with st Cons.prems(3) have "forE f xs t = (r, u)" by (simp add: bindE_def)
    with It show ?thesis
      using Cons.IH[of t] Cons.prems(2) by (metis list.set_intros(2))
  qed
qed

lemma forE_cong:
  "(\<And>x. x \<in> set xs \<Longrightarrow> f x = g x) \<Longrightarrow> forE f xs = forE g xs"
  by (induction xs) simp_all

text \<open>A loop whose body always returns is a fold of the state change.\<close>

lemma forE_total:
  assumes "\<And>x s. x \<in> set xs \<Longrightarrow> f x s = (Inr (), g x s)"
  shows "forE f xs s = (Inr (), fold g xs s)"
  using assms by (induction xs arbitrary: s) (simp_all add: bindE_def)

text \<open>The same for a loop that only reads and collects a value per element.\<close>

fun mapR :: "('a \<Rightarrow> py_error + 'b) \<Rightarrow> 'a list \<Rightarrow> py_error + 'b list" where
  "mapR f [] = Inr []"
| "mapR f (x # xs) =
     (case f x of
        Inl e \<Rightarrow> Inl e
      | Inr y \<Rightarrow> (case mapR f xs of Inl e \<Rightarrow> Inl e | Inr ys \<Rightarrow> Inr (y # ys)))"

lemma mapR_all: "(\<And>x. x \<in> set xs \<Longrightarrow> f x = Inr (g x)) \<Longrightarrow> mapR f xs = Inr (map g xs)"
  by (induction xs) auto

lemma mapR_Inr: "mapR f xs = Inr ys \<Longrightarrow> list_all2 (\<lambda>x y. f x = Inr y) xs ys"
  by (induction xs arbitrary: ys) (auto split: sum.splits)

lemma mapR_err:
  "x \<in> set xs \<Longrightarrow> f x = Inl e \<Longrightarrow> \<exists>e'. mapR f xs = Inl e'"
  by (induction xs) (auto split: sum.splits)

section \<open>Lists\<close>

lemma take_drop_split: "i \<le> length xs \<Longrightarrow> take i xs @ drop i xs = xs"
  by simp

lemma sum_list_map_filter_split:
  "sum_list (map f xs) = sum_list (map f (filter P xs)) + sum_list (map f (filter (\<lambda>x. \<not> P x) xs))"
  for f :: "'a \<Rightarrow> int"
  by (induction xs) auto

lemma fold_inv: "I s \<Longrightarrow> (\<And>x t. x \<in> set xs \<Longrightarrow> I t \<Longrightarrow> I (g x t)) \<Longrightarrow> I (fold g xs s)"
  by (induction xs arbitrary: s) auto

lemma fold_frame: "(\<And>x t. p (g x t) = p t) \<Longrightarrow> p (fold g xs s) = p s"
  by (induction xs arbitrary: s) auto

end
