(* ===== verification/Stores.thy ===== *)
theory Stores
  imports Prelude
begin

text \<open>
  Keyed stores: the contents of a LevelDB database (\<open>plyvel.DB\<close>, a third-party package of
  which only the contents are modelled) and of the Python dictionaries that index outputs by
  public key. A store is the list of its entries in key order, which is the order a
  \<open>plyvel\<close> iteration visits them in. What the clients rely on is the locale \<open>kv_store\<close>;
  they reason from its laws, never from the representation.
\<close>

section \<open>The interface\<close>

locale kv_store =
  fixes get :: "'s \<Rightarrow> 'k \<Rightarrow> 'v option"
    and put :: "'k \<Rightarrow> 'v \<Rightarrow> 's \<Rightarrow> 's"
    and del :: "'k \<Rightarrow> 's \<Rightarrow> 's"
    and items :: "'s \<Rightarrow> ('k \<times> 'v) list"
    and ok :: "'s \<Rightarrow> bool"
  assumes get_put: "get (put k v s) k' = (if k' = k then Some v else get s k')"
    and get_del: "get (del k s) k' = (if k' = k then None else get s k')"
    and ok_put: "ok s \<Longrightarrow> ok (put k v s)"
    and ok_del: "ok s \<Longrightarrow> ok (del k s)"
    and items_get: "ok s \<Longrightarrow> (k, v) \<in> set (items s) \<longleftrightarrow> get s k = Some v"
    and items_distinct: "ok s \<Longrightarrow> distinct (map fst (items s))"
begin

lemma dom_items: "ok s \<Longrightarrow> dom (get s) = fst ` set (items s)"
  by (force simp: items_get[symmetric])

lemma finite_dom: "ok s \<Longrightarrow> finite (dom (get s))"
  by (simp add: dom_items)

text \<open>The total weight of the entries of a store, and how one update changes it.\<close>

definition total :: "('k \<Rightarrow> 'v \<Rightarrow> int) \<Rightarrow> 's \<Rightarrow> int" where
  "total w s = sum_list (map (\<lambda>(k, v). w k v) (items s))"

lemma total_dom: "ok s \<Longrightarrow> total w s = (\<Sum>k\<in>dom (get s). w k (the (get s k)))"
proof -
  assume ok: "ok s"
  have inj: "inj_on fst (set (items s))" and dist: "distinct (items s)"
    using items_distinct[OF ok] by (simp_all add: distinct_map)
  have "total w s = (\<Sum>e\<in>set (items s). w (fst e) (snd e))"
    using dist by (simp add: total_def sum_list_distinct_conv_sum_set case_prod_beta)
  also have "\<dots> = (\<Sum>e\<in>set (items s). w (fst e) (the (get s (fst e))))"
    by (rule sum.cong) (auto simp: items_get[OF ok])
  also have "\<dots> = (\<Sum>k\<in>fst ` set (items s). w k (the (get s k)))"
    by (simp add: sum.reindex[OF inj])
  finally show ?thesis by (simp add: dom_items[OF ok])
qed

lemma total_put:
  assumes "ok s"
  shows "total w (put k v s) = total w s - (case get s k of None \<Rightarrow> 0 | Some u \<Rightarrow> w k u) + w k v"
proof -
  let ?D = "dom (get s)"
  have D: "dom (get (put k v s)) = insert k ?D"
    by (auto simp: get_put dom_def)
  have fin: "finite ?D" using assms by (rule finite_dom)
  have "total w (put k v s) = (\<Sum>j\<in>insert k (?D - {k}). w j (the (get (put k v s) j)))"
    using assms by (simp add: total_dom ok_put D)
  also have "\<dots> = w k v + (\<Sum>j\<in>?D - {k}. w j (the (get s j)))"
    using fin by (subst sum.insert) (auto simp: get_put intro!: sum.cong)
  also have "(\<Sum>j\<in>?D - {k}. w j (the (get s j))) =
      total w s - (case get s k of None \<Rightarrow> 0 | Some u \<Rightarrow> w k u)"
    using assms fin by (auto simp: total_dom sum_diff1 split: option.split)
  finally show ?thesis by simp
qed

lemma total_del:
  assumes "ok s"
  shows "total w (del k s) = total w s - (case get s k of None \<Rightarrow> 0 | Some u \<Rightarrow> w k u)"
proof -
  let ?D = "dom (get s)"
  have D: "dom (get (del k s)) = ?D - {k}"
    by (auto simp: get_del dom_def split: if_splits)
  have fin: "finite ?D" using assms by (rule finite_dom)
  have "total w (del k s) = (\<Sum>j\<in>?D - {k}. w j (the (get (del k s) j)))"
    using assms by (simp add: total_dom ok_del D)
  also have "\<dots> = (\<Sum>j\<in>?D - {k}. w j (the (get s j)))"
    by (rule sum.cong) (auto simp: get_del)
  also have "\<dots> = total w s - (case get s k of None \<Rightarrow> 0 | Some u \<Rightarrow> w k u)"
    using assms fin by (auto simp: total_dom sum_diff1 split: option.split)
  finally show ?thesis .
qed

end

section \<open>Stores as sorted entry lists\<close>

type_synonym ('k, 'v) store = "('k \<times> 'v) list"

fun store_put :: "'k::linorder \<Rightarrow> 'v \<Rightarrow> ('k, 'v) store \<Rightarrow> ('k, 'v) store" where
  "store_put k v [] = [(k, v)]"
| "store_put k v ((a, b) # s) =
     (if k < a then (k, v) # (a, b) # s
      else if k = a then (k, v) # s
      else (a, b) # store_put k v s)"

definition store_get :: "('k, 'v) store \<Rightarrow> 'k \<Rightarrow> 'v option" where
  "store_get s k = map_of s k"

definition store_del :: "'k \<Rightarrow> ('k, 'v) store \<Rightarrow> ('k, 'v) store" where
  "store_del k s = filter (\<lambda>e. fst e \<noteq> k) s"

definition store_items :: "('k, 'v) store \<Rightarrow> ('k \<times> 'v) list" where
  "store_items s = s"

definition store_ok :: "('k::linorder, 'v) store \<Rightarrow> bool" where
  "store_ok s \<longleftrightarrow> sorted_wrt (<) (map fst s)"

lemma store_get_put: "store_get (store_put k v s) k' = (if k' = k then Some v else store_get s k')"
  by (induction k v s rule: store_put.induct) (auto simp: store_get_def)

lemma store_get_del: "store_get (store_del k s) k' = (if k' = k then None else store_get s k')"
  by (induction s) (auto simp: store_get_def store_del_def)

lemma fst_set_store_put: "fst ` set (store_put k v s) = insert k (fst ` set s)"
  by (induction k v s rule: store_put.induct) auto

lemma store_ok_put: "store_ok s \<Longrightarrow> store_ok (store_put k v s)"
proof (induction k v s rule: store_put.induct)
  case (2 k v a b s)
  have "set (map fst (store_put k v s)) = insert k (fst ` set s)"
    by (simp add: fst_set_store_put)
  with 2 show ?case by (force simp: store_ok_def)
qed (simp add: store_ok_def)

lemma store_ok_del: "store_ok s \<Longrightarrow> store_ok (store_del k s)"
  unfolding store_ok_def store_del_def by (induction s) auto

lemma store_ok_distinct: "store_ok s \<Longrightarrow> distinct (map fst s)"
  unfolding store_ok_def by (simp add: strict_sorted_iff)

interpretation kv: kv_store store_get store_put store_del store_items store_ok
proof unfold_locales
  fix s :: "('k::linorder, 'v) store" and k v
  assume "store_ok s"
  then show "(k, v) \<in> set (store_items s) \<longleftrightarrow> store_get s k = Some v"
    by (simp add: store_items_def store_get_def store_ok_distinct)
qed (simp_all add: store_get_put store_get_del store_ok_put store_ok_del
      store_items_def store_ok_distinct)

declare kv.get_put [simp] kv.get_del [simp] kv.ok_put [simp] kv.ok_del [simp]

lemma store_ok_Nil [simp]: "store_ok []"
  by (simp add: store_ok_def)

lemma store_get_Nil [simp]: "store_get [] k = None"
  by (simp add: store_get_def)

lemma store_get_items: "store_ok s \<Longrightarrow> (k, v) \<in> set s \<longleftrightarrow> store_get s k = Some v"
  using kv.items_get[of s k v] by (simp add: store_items_def)

text \<open>Stores are canonical: two well-formed stores with the same lookups are equal.\<close>

lemma store_eqI:
  assumes "store_ok s" "store_ok t" "\<And>k. store_get s k = store_get t k"
  shows "s = t"
proof (rule map_sorted_distinct_set_unique[where f = fst])
  show eq: "set s = set t"
    using assms by (auto simp: store_get_items)
  then show "inj_on fst (set s \<union> set t)"
    using store_ok_distinct[OF assms(1)] by (simp add: distinct_map)
qed (use assms store_ok_distinct in \<open>auto simp: store_ok_def strict_sorted_iff\<close>)

lemma store_del_put_fresh: "store_ok s \<Longrightarrow> store_get s k = None \<Longrightarrow> store_del k (store_put k v s) = s"
  by (rule store_eqI) (auto simp: store_ok_put store_ok_del store_get_put store_get_del)

section \<open>Sets as sorted lists\<close>

text \<open>
  A Python \<open>set\<close> of output references, as the sorted list of its elements: \<open>add\<close> and
  \<open>remove\<close> (which raises KeyError on an absent element).
\<close>

definition set_add :: "'a::linorder \<Rightarrow> 'a list \<Rightarrow> 'a list" where
  "set_add x xs = (if x \<in> set xs then xs else insort x xs)"

definition set_remove :: "'a \<Rightarrow> 'a list \<Rightarrow> py_error + 'a list" where
  "set_remove x xs = (if x \<in> set xs then Inr (remove1 x xs) else Inl KeyError)"

lemma set_set_add [simp]: "set (set_add x xs) = insert x (set xs)"
  by (auto simp: set_add_def set_insort_key)

lemma distinct_set_add: "distinct xs \<Longrightarrow> distinct (set_add x xs)"
  by (simp add: set_add_def distinct_insort)

lemma set_remove_Inr:
  "distinct xs \<Longrightarrow> set_remove x xs = Inr ys \<Longrightarrow> set ys = set xs - {x} \<and> distinct ys"
  by (auto simp: set_remove_def split: if_splits)

end
