(* ===== verification/Txn.thy ===== *)
theory Txn
  imports Stores
begin

text \<open>
  Transactions and the records the node keeps of them (\<open>belcoin_node/txnwrapper.py\<close>), the
  mempool and the pending database (\<open>mempool.py\<close>, \<open>pendingdb.py\<close>) and the signature check
  (\<open>crypto/crypto.py\<close>).

  \<open>Transaction\<close>, \<open>Input\<close> and \<open>Output\<close> are classes of the package \<open>tesseract\<close>, which is not
  part of the repository: their records hold the attributes the repository's code reads, and
  everything computed by the package (serialisation, hashes, \<open>get_pubkeys\<close>, Ed25519) is a
  parameter.
\<close>

record txn_output =
  amount :: int
  pubkey :: bytes
  pubkey2 :: bytes
  htlc_timeout :: int
  htlc_hashlock :: bytes
  htlc_pubkey :: bytes

record txn_input =
  inp_txid :: bytes
  inp_index :: int
  signature :: bytes
  signature2 :: bytes
  htlc_preimage :: bytes
  htlc_signature :: bytes

record transaction =
  txid :: bytes
  inputs :: "txn_input list"
  outputs :: "txn_output list"
  seq :: int
  timelock :: int

text \<open>The third-party functions the node calls.\<close>

record env =
  no_hash :: bytes
  crypto_sign_open :: "bytes \<Rightarrow> bytes \<Rightarrow> bytes option"  \<comment> \<open>None is its ValueError\<close>
  sha256 :: "bytes \<Rightarrow> bytes"
  get_pubkeys :: "txn_output \<Rightarrow> bytes list"

section \<open>crypto.py\<close>

definition verify_sig :: "env \<Rightarrow> bytes \<Rightarrow> bytes \<Rightarrow> bytes \<Rightarrow> bool" where
  "verify_sig E msg pub_key sg =
     (case crypto_sign_open E (sg @ msg) pub_key of
        None \<Rightarrow> False
      | Some verified \<Rightarrow> verified = msg)"

section \<open>txnwrapper.py\<close>

record txn_wrapper =
  txn :: transaction
  timestamp :: int
  utxos :: "bool list"

definition TxnWrapper :: "transaction \<Rightarrow> int \<Rightarrow> bool list option \<Rightarrow> txn_wrapper" where
  "TxnWrapper tx ts us =
     \<lparr>txn = tx, timestamp = ts,
      utxos = (case us of None \<Rightarrow> map (\<lambda>_. True) (outputs tx) | Some u \<Rightarrow> u)\<rparr>"

text \<open>
  The byte form. The buffer operations are \<open>tesseract\<close>'s; a flag is written with
  \<open>write_num(1, i)\<close>, so that \<open>True\<close> is the number 1, and read back as a number that Python
  takes for true when it is not 0.
\<close>

record codec =
  write_txn :: "transaction \<Rightarrow> bytes"
  read_txn :: "bytes \<Rightarrow> (transaction \<times> bytes) option"
  write_varuint :: "int \<Rightarrow> bytes"
  read_varuint :: "bytes \<Rightarrow> (int \<times> bytes) option"
  write_num :: "int \<Rightarrow> int \<Rightarrow> bytes"
  read_num :: "int \<Rightarrow> bytes \<Rightarrow> (int \<times> bytes) option"

definition txnw_serialize :: "codec \<Rightarrow> txn_wrapper \<Rightarrow> bytes" where
  "txnw_serialize C w =
     write_txn C (txn w) @ write_varuint C (timestamp w) @ write_varuint C (int (length (utxos w)))
     @ concat (map (\<lambda>i. write_num C 1 (of_bool i)) (utxos w))"

fun read_flags :: "codec \<Rightarrow> nat \<Rightarrow> bytes \<Rightarrow> (bool list \<times> bytes) option" where
  "read_flags C 0 buf = Some ([], buf)"
| "read_flags C (Suc n) buf =
     (case read_num C 1 buf of
        None \<Rightarrow> None
      | Some (i, buf1) \<Rightarrow> map_option (\<lambda>(us, b). ((i \<noteq> 0) # us, b)) (read_flags C n buf1))"

definition txnw_unserialize :: "codec \<Rightarrow> bytes \<Rightarrow> (txn_wrapper \<times> bytes) option" where
  "txnw_unserialize C buf =
     (case read_txn C buf of
        None \<Rightarrow> None
      | Some (t, buf1) \<Rightarrow>
          (case read_varuint C buf1 of
             None \<Rightarrow> None
           | Some (ts, buf2) \<Rightarrow>
               (case read_varuint C buf2 of
                  None \<Rightarrow> None
                | Some (n, buf3) \<Rightarrow>
                    map_option (\<lambda>(us, b). (TxnWrapper t ts (Some us), b))
                      (read_flags C (nat n) buf3))))"

text \<open>The documented contract of the buffer operations: what is written is read back.\<close>

definition codec_ok :: "transaction set \<Rightarrow> codec \<Rightarrow> bool" where
  "codec_ok T C \<longleftrightarrow>
     (\<forall>t\<in>T. \<forall>r. read_txn C (write_txn C t @ r) = Some (t, r)) \<and>
     (\<forall>n r. 0 \<le> n \<longrightarrow> read_varuint C (write_varuint C n @ r) = Some (n, r)) \<and>
     (\<forall>n r. 0 \<le> n \<and> n < 256 \<longrightarrow> read_num C 1 (write_num C 1 n @ r) = Some (n, r))"

lemma read_flags_write:
  "codec_ok T C \<Longrightarrow>
   read_flags C (length us) (concat (map (\<lambda>i. write_num C 1 (of_bool i)) us) @ r) = Some (us, r)"
  by (induction us) (auto simp: codec_ok_def)

lemma TxnWrapper_sel [simp]:
  "txn (TxnWrapper t ts us) = t" "timestamp (TxnWrapper t ts us) = ts"
  "utxos (TxnWrapper t ts (Some u)) = u"
  "utxos (TxnWrapper t ts None) = replicate (length (outputs t)) True"
  by (simp_all add: TxnWrapper_def map_replicate_const)

lemma txnw_unserialize_serialize:
  assumes "codec_ok T C" and "txn w \<in> T" and "0 \<le> timestamp w"
  shows "txnw_unserialize C (txnw_serialize C w @ r) = Some (w, r)"
  using assms read_flags_write[OF assms(1), of "utxos w" r]
  by (simp add: txnw_unserialize_def txnw_serialize_def codec_ok_def TxnWrapper_def)

section \<open>mempool.py and pendingdb.py\<close>

text \<open>
  Both classes are dictionaries over a database. They differ in one operation: the mempool's
  \<open>__getitem__\<close> returns \<open>None\<close> for an absent key, the pending database's raises KeyError.
\<close>

definition mempool_getitem :: "(bytes, transaction) store \<Rightarrow> bytes \<Rightarrow> transaction option" where
  "mempool_getitem m key = store_get m key"

definition mempool_setitem :: "bytes \<Rightarrow> transaction \<Rightarrow> (bytes, transaction) store \<Rightarrow> (bytes, transaction) store" where
  "mempool_setitem key obj m = store_put key obj m"

definition mempool_contains :: "(bytes, transaction) store \<Rightarrow> bytes \<Rightarrow> bool" where
  "mempool_contains m key \<longleftrightarrow> store_get m key \<noteq> None"

definition mempool_delitem :: "bytes \<Rightarrow> (bytes, transaction) store \<Rightarrow> (bytes, transaction) store" where
  "mempool_delitem key m = store_del key m"

definition pend_get :: "(bytes, txn_wrapper) store \<Rightarrow> bytes \<Rightarrow> txn_wrapper option" where
  "pend_get p key = store_get p key"

definition pend_getitem :: "(bytes, txn_wrapper) store \<Rightarrow> bytes \<Rightarrow> py_error + txn_wrapper" where
  "pend_getitem p key = (case pend_get p key of None \<Rightarrow> Inl KeyError | Some obj \<Rightarrow> Inr obj)"

definition pend_setitem :: "bytes \<Rightarrow> txn_wrapper \<Rightarrow> (bytes, txn_wrapper) store \<Rightarrow> (bytes, txn_wrapper) store" where
  "pend_setitem key obj p = store_put key obj p"

definition pend_contains :: "(bytes, txn_wrapper) store \<Rightarrow> bytes \<Rightarrow> bool" where
  "pend_contains p key \<longleftrightarrow> store_get p key \<noteq> None"

definition pend_delitem :: "bytes \<Rightarrow> (bytes, txn_wrapper) store \<Rightarrow> (bytes, txn_wrapper) store" where
  "pend_delitem key p = store_del key p"

lemma mempool_get_set [simp]:
  "mempool_getitem (mempool_setitem k t m) k' = (if k' = k then Some t else mempool_getitem m k')"
  by (simp add: mempool_getitem_def mempool_setitem_def)

lemma mempool_get_del [simp]:
  "mempool_getitem (mempool_delitem k m) k' = (if k' = k then None else mempool_getitem m k')"
  by (simp add: mempool_getitem_def mempool_delitem_def)

lemma mempool_contains_iff: "mempool_contains m k \<longleftrightarrow> mempool_getitem m k \<noteq> None"
  by (simp add: mempool_contains_def mempool_getitem_def)

end
