(* ===== verification/Ledger.thy ===== *)
theory Ledger
  imports Txn
begin

text \<open>
  The state of \<open>belcoin_node/storage.py\<close>'s \<open>Storage\<close> (with the fields of \<open>SyncObj\<close> it shares:
  \<open>mempool_list\<close>, \<open>processing\<close>, \<open>current_block\<close>, \<open>adding_block\<close>), its dictionary access, the
  index from public keys to outputs, and the queries that read it.
\<close>

section \<open>config.py\<close>

definition TIME_MULTIPLIER :: int where "TIME_MULTIPLIER = 1000000000"
definition TIMEOUT_CONST :: int where "TIMEOUT_CONST = 1000000000"
definition TIMELOCK_CONST :: int where "TIMELOCK_CONST = 1000000000"
definition BLOCK_SIZE :: nat where "BLOCK_SIZE = 5000"
definition BLOCK_TIMEOUT :: nat where "BLOCK_TIMEOUT = 1000000000"
definition BACKOFF_AMOUNT :: nat where "BACKOFF_AMOUNT = 300"

section \<open>State\<close>

type_synonym outref = "bytes \<times> int"
type_synonym index = "(bytes, outref list) store"

record block =
  block_time :: rat
  block_txns :: "bytes list"

text \<open>
  Functions handed to the reactor with \<open>reactor.callFromThread\<close>, in the order they will run,
  and the calls to the RPC interface of another node they make.
\<close>

datatype task =
    Task_send_txn string bytes
  | Task_send_txn_batch string "bytes list"
  | Task_req_txn bytes nat

datatype rpc_call =
    Call_puttxn string bytes
  | Call_puttxn_batch string "bytes list"
  | Call_req_txn string bytes nat

text \<open>
  \<open>current_time\<close> is a Python float of seconds; it is a rational here, so products with
  \<open>TIME_MULTIPLIER\<close> are exact. Statistics that are only printed are left out.
\<close>

record storage =
  db :: "(bytes, txn_wrapper) store"
  pend :: "(bytes, txn_wrapper) store"
  mempool :: "(bytes, transaction) store"
  mempool_list :: "bytes list"
  pub_outs :: index
  pub_outs_pend :: index
  txns_processed :: nat
  txns_accepted :: nat
  missing_txns :: "bytes list"
  block_queue :: "block list"
  processing :: bool
  processing_block :: bool
  adding_block :: bool
  current_block :: "bytes list"
  current_time :: rat
  invalid_txns :: "bytes list"
  txns_received :: nat
  missed_counter :: nat
  rpc_peers :: "string list"
  reactor_queue :: "task list"
  calls :: "rpc_call list"

text \<open>\<open>Storage\<close> is itself a dictionary over its database; \<open>[ ]\<close> raises on an absent key.\<close>

definition storage_get :: "storage \<Rightarrow> bytes \<Rightarrow> txn_wrapper option" where
  "storage_get s key = store_get (db s) key"

definition storage_getitem :: "storage \<Rightarrow> bytes \<Rightarrow> py_error + txn_wrapper" where
  "storage_getitem s key = (case storage_get s key of None \<Rightarrow> Inl KeyError | Some obj \<Rightarrow> Inr obj)"

definition storage_setitem :: "bytes \<Rightarrow> txn_wrapper \<Rightarrow> storage \<Rightarrow> storage" where
  "storage_setitem key obj s = s\<lparr>db := store_put key obj (db s)\<rparr>"

definition storage_contains :: "storage \<Rightarrow> bytes \<Rightarrow> bool" where
  "storage_contains s key \<longleftrightarrow> store_get (db s) key \<noteq> None"

section \<open>The index from public keys to outputs\<close>

definition index_add :: "bytes \<Rightarrow> outref \<Rightarrow> index \<Rightarrow> index" where
  "index_add p r idx =
     (case store_get idx p of
        Some refs \<Rightarrow> store_put p (set_add r refs) idx
      | None \<Rightarrow> store_put p [r] idx)"

definition add_txn_to_balance_index :: "env \<Rightarrow> transaction \<Rightarrow> index \<Rightarrow> index" where
  "add_txn_to_balance_index E t idx =
     fold (\<lambda>(i, out) idx1. fold (\<lambda>p. index_add p (txid t, int i)) (get_pubkeys E out) idx1)
       (enumerate 0 (outputs t)) idx"

definition index_del :: "outref \<Rightarrow> bytes \<Rightarrow> index \<Rightarrow> index" where
  "index_del r p idx =
     (case store_get idx p of
        None \<Rightarrow> idx
      | Some refs \<Rightarrow> (case set_remove r refs of Inl _ \<Rightarrow> idx | Inr refs' \<Rightarrow> store_put p refs' idx))"

definition del_out_from_balance_index :: "bytes list \<Rightarrow> bytes \<Rightarrow> int \<Rightarrow> index \<Rightarrow> index" where
  "del_out_from_balance_index pubkeys t i idx = fold (index_del (t, i)) pubkeys idx"

text \<open>The references an index holds for a key, and when an index is well formed.\<close>

definition refs_of :: "index \<Rightarrow> bytes \<Rightarrow> outref set" where
  "refs_of idx p = (case store_get idx p of None \<Rightarrow> {} | Some refs \<Rightarrow> set refs)"

definition index_ok :: "index \<Rightarrow> bool" where
  "index_ok idx \<longleftrightarrow> store_ok idx \<and> (\<forall>p refs. store_get idx p = Some refs \<longrightarrow> distinct refs)"

lemma index_ok_Nil [simp]: "index_ok []"
  by (simp add: index_ok_def)

lemma refs_of_Nil [simp]: "refs_of [] p = {}"
  by (simp add: refs_of_def)

lemma index_ok_add: "index_ok idx \<Longrightarrow> index_ok (index_add p r idx)"
  by (auto simp: index_ok_def index_add_def distinct_set_add split: option.splits if_splits)

lemma refs_of_index_add:
  "refs_of (index_add p r idx) q = (if q = p then insert r (refs_of idx p) else refs_of idx q)"
  by (auto simp: refs_of_def index_add_def split: option.splits)

lemma index_ok_del: "index_ok idx \<Longrightarrow> index_ok (index_del r p idx)"
  by (auto simp: index_ok_def index_del_def set_remove_def split: option.splits if_splits)

lemma refs_of_index_del:
  "index_ok idx \<Longrightarrow>
   refs_of (index_del r p idx) q = (if q = p then refs_of idx p - {r} else refs_of idx q)"
  by (auto simp: refs_of_def index_del_def index_ok_def set_remove_def split: option.splits)

lemma index_add_many:
  "index_ok idx \<Longrightarrow> index_ok (fold (\<lambda>p. index_add p r) ps idx) \<and>
     refs_of (fold (\<lambda>p. index_add p r) ps idx) q = refs_of idx q \<union> (if q \<in> set ps then {r} else {})"
  by (induction ps arbitrary: idx) (auto simp: index_ok_add refs_of_index_add)

lemma index_del_many:
  "index_ok idx \<Longrightarrow> index_ok (fold (index_del r) ps idx) \<and>
     refs_of (fold (index_del r) ps idx) q = refs_of idx q - (if q \<in> set ps then {r} else {})"
  by (induction ps arbitrary: idx) (auto simp: index_ok_del refs_of_index_del)

lemma del_out_index_ok: "index_ok idx \<Longrightarrow> index_ok (del_out_from_balance_index ps t i idx)"
  by (simp add: del_out_from_balance_index_def index_del_many)

lemma del_out_refs:
  "index_ok idx \<Longrightarrow>
   refs_of (del_out_from_balance_index ps t i idx) q =
     refs_of idx q - (if q \<in> set ps then {(t, i)} else {})"
  by (simp add: del_out_from_balance_index_def index_del_many)

text \<open>The references the outputs of a transaction contribute to a key.\<close>

definition txn_refs :: "env \<Rightarrow> transaction \<Rightarrow> bytes \<Rightarrow> outref set" where
  "txn_refs E t p =
     {(txid t, int i) | i. i < length (outputs t) \<and> p \<in> set (get_pubkeys E (outputs t ! i))}"

lemma add_index_fold:
  assumes "index_ok idx"
  shows "index_ok (fold (\<lambda>(i, out) idx1. fold (\<lambda>p. index_add p (t, int i)) (get_pubkeys E out) idx1) ios idx)
    \<and> refs_of (fold (\<lambda>(i, out) idx1. fold (\<lambda>p. index_add p (t, int i)) (get_pubkeys E out) idx1) ios idx) q
        = refs_of idx q \<union> {(t, int i) | i out. (i, out) \<in> set ios \<and> q \<in> set (get_pubkeys E out)}"
  using assms
proof (induction ios arbitrary: idx)
  case (Cons x ios)
  obtain i out where x: "x = (i, out)" by (cases x)
  let ?idx = "fold (\<lambda>p. index_add p (t, int i)) (get_pubkeys E out) idx"
  have ok: "index_ok ?idx" using Cons.prems by (simp add: index_add_many)
  have "refs_of ?idx q = refs_of idx q \<union> (if q \<in> set (get_pubkeys E out) then {(t, int i)} else {})"
    using Cons.prems by (simp add: index_add_many)
  with Cons.IH[OF ok] show ?case by (auto simp: x)
qed simp

lemma add_txn_index_ok: "index_ok idx \<Longrightarrow> index_ok (add_txn_to_balance_index E t idx)"
  unfolding add_txn_to_balance_index_def by (simp add: add_index_fold)

lemma add_txn_refs:
  assumes "index_ok idx"
  shows "refs_of (add_txn_to_balance_index E t idx) q = refs_of idx q \<union> txn_refs E t q"
proof -
  have "{(txid t, int i) | i out. (i, out) \<in> set (enumerate 0 (outputs t)) \<and> q \<in> set (get_pubkeys E out)}
      = txn_refs E t q"
    by (auto simp: txn_refs_def in_set_enumerate_eq)
  with add_index_fold[OF assms, of "txid t" E "enumerate 0 (outputs t)" q] show ?thesis
    by (simp add: add_txn_to_balance_index_def)
qed

section \<open>Queries\<close>

text \<open>\<open>self.current_time * TIME_MULTIPLIER - timestamp\<close>, and the two deadlines tested with it.\<close>

definition age :: "storage \<Rightarrow> int \<Rightarrow> rat" where
  "age s ts = current_time s * of_int TIME_MULTIPLIER - of_int ts"

definition timeout_reached :: "storage \<Rightarrow> int \<Rightarrow> txn_output \<Rightarrow> bool" where
  "timeout_reached s ts out \<longleftrightarrow> age s ts \<ge> of_int (htlc_timeout out * TIMEOUT_CONST)"

definition timelock_expired :: "storage \<Rightarrow> int \<Rightarrow> transaction \<Rightarrow> bool" where
  "timelock_expired s ts t \<longleftrightarrow> age s ts > of_int (timelock t * TIMELOCK_CONST)"

definition dict_get :: "index \<Rightarrow> bytes \<Rightarrow> outref list" where
  "dict_get idx p = (case store_get idx p of None \<Rightarrow> [] | Some refs \<Rightarrow> refs)"

definition utxo_entry :: "storage \<Rightarrow> outref \<Rightarrow> py_error + (bytes \<times> int \<times> rat)" where
  "utxo_entry s r =
     (case storage_getitem s (fst r) of
        Inl e \<Rightarrow> Inl e
      | Inr w \<Rightarrow> Inr (fst r, snd r, of_int (timestamp w) / of_int TIME_MULTIPLIER))"

text \<open>Both loops of \<open>utxos_for_pubkey\<close> look the transaction up in the main database.\<close>

definition utxos_for_pubkey :: "storage \<Rightarrow> bytes \<Rightarrow> py_error + (bytes \<times> int \<times> rat) list" where
  "utxos_for_pubkey s p =
     (case mapR (utxo_entry s) (dict_get (pub_outs s) p) of
        Inl e \<Rightarrow> Inl e
      | Inr us \<Rightarrow>
          (case mapR (utxo_entry s) (dict_get (pub_outs_pend s) p) of
             Inl e \<Rightarrow> Inl e
           | Inr vs \<Rightarrow> Inr (us @ vs)))"

definition grpc_entry :: "(bytes \<Rightarrow> py_error + txn_wrapper) \<Rightarrow> outref \<Rightarrow> py_error + (bytes \<times> int \<times> txn_output \<times> int)" where
  "grpc_entry lookup r =
     (case lookup (fst r) of
        Inl e \<Rightarrow> Inl e
      | Inr w \<Rightarrow>
          (case py_get (outputs (txn w)) (snd r) of
             None \<Rightarrow> Inl IndexError
           | Some out \<Rightarrow> Inr (fst r, snd r, out, timestamp w)))"

definition utxos_for_pubkey_grpc :: "storage \<Rightarrow> bytes \<Rightarrow> py_error + (bytes \<times> int \<times> txn_output \<times> int) list" where
  "utxos_for_pubkey_grpc s p =
     (case mapR (grpc_entry (storage_getitem s)) (dict_get (pub_outs s) p) of
        Inl e \<Rightarrow> Inl e
      | Inr us \<Rightarrow>
          (case mapR (grpc_entry (pend_getitem (pend s))) (dict_get (pub_outs_pend s) p) of
             Inl e \<Rightarrow> Inl e
           | Inr vs \<Rightarrow> Inr (us @ vs)))"

text \<open>
  \<open>get_balance\<close> is called with one of the two indexes and recognises which by comparing
  dictionaries (\<open>index == self.pub_outs\<close>); stores are canonical, so their equality is the
  dictionaries' equality.
\<close>

definition balance_step :: "storage \<Rightarrow> bytes \<Rightarrow> txn_wrapper \<Rightarrow> txn_output \<Rightarrow> int \<times> int \<times> int \<Rightarrow> int \<times> int \<times> int" where
  "balance_step s p w out acc =
     (let (bal, bal_partial, bal_htlc) = acc;
          reached = timeout_reached s (timestamp w) out;
          (bal, bal_partial) =
            (if p \<in> {pubkey out, pubkey2 out} \<and> reached
             then if pubkey out = pubkey2 out then (bal + amount out, bal_partial)
                  else (bal, bal_partial + amount out)
             else (bal, bal_partial));
          bal_htlc = (if p = htlc_pubkey out \<and> \<not> reached then bal_htlc + amount out else bal_htlc)
      in (bal, bal_partial, bal_htlc))"

fun balance_loop ::
  "storage \<Rightarrow> (bytes \<Rightarrow> py_error + txn_wrapper) \<Rightarrow> bytes \<Rightarrow> outref list \<Rightarrow> int \<times> int \<times> int
    \<Rightarrow> py_error + int \<times> int \<times> int" where
  "balance_loop s lookup p [] acc = Inr acc"
| "balance_loop s lookup p ((t, i) # refs) acc =
     (case lookup t of
        Inl e \<Rightarrow> Inl e
      | Inr w \<Rightarrow>
          (case py_get (outputs (txn w)) i of
             None \<Rightarrow> Inl IndexError
           | Some out \<Rightarrow> balance_loop s lookup p refs (balance_step s p w out acc)))"

definition get_balance :: "storage \<Rightarrow> bytes \<Rightarrow> index \<Rightarrow> py_error + int \<times> int \<times> int" where
  "get_balance s p idx =
     (case store_get idx p of
        None \<Rightarrow> Inr (0, 0, 0)
      | Some refs \<Rightarrow>
          balance_loop s
            (if idx = pub_outs s then storage_getitem s else pend_getitem (pend s)) p refs (0, 0, 0))"

end
