(* ===== verification/Verify.thy ===== *)
theory Verify
  imports Ledger
begin

text \<open>
  The acceptance test of \<open>storage.py\<close>: \<open>check_pend_replacement\<close>, \<open>verify_txn\<close>, the mempool
  operations it performs on rejection and \<open>del_from_pending\<close>, which it performs on a
  replacement. The reference is \<open>acceptable\<close>: what a transaction must satisfy, with no loop
  and no early return; \<open>verify_txn\<close> is shown to decide it.
\<close>

section \<open>Mempool\<close>

definition add_to_mempool :: "transaction \<Rightarrow> storage \<Rightarrow> storage" where
  "add_to_mempool t s =
     s\<lparr>mempool := mempool_setitem (txid t) t (mempool s),
       mempool_list := mempool_list s @ [txid t]\<rparr>"

text \<open>\<open>list.remove\<close> drops the first occurrence; its ValueError is swallowed.\<close>

definition remove_from_mempool :: "bytes \<Rightarrow> storage \<Rightarrow> storage" where
  "remove_from_mempool i s =
     s\<lparr>mempool := mempool_delitem i (mempool s),
       mempool_list := remove1 i (mempool_list s)\<rparr>"

definition remove_invalid_txn_from_mempool :: "bytes \<Rightarrow> storage \<Rightarrow> storage" where
  "remove_invalid_txn_from_mempool i s =
     remove_from_mempool i (s\<lparr>invalid_txns := invalid_txns s @ [i]\<rparr>)"

section \<open>Pending transactions\<close>

definition comparable_input :: "txn_input \<Rightarrow> bytes \<times> int" where
  "comparable_input inp = (inp_txid inp, inp_index inp)"

definition same_inputs :: "transaction \<Rightarrow> transaction \<Rightarrow> bool" where
  "same_inputs t u \<longleftrightarrow>
     set (map comparable_input (inputs t)) = set (map comparable_input (inputs u))"

text \<open>
  The tuples of \<open>check_pend_replacement\<close>: \<open>(True, False)\<close>, \<open>(False, True)\<close> and
  \<open>(True, True, tx)\<close>.
\<close>

datatype pend_check = No_conflict | Blocked | Replaces transaction

fun check_pend_loop :: "storage \<Rightarrow> transaction \<Rightarrow> (bytes \<times> txn_wrapper) list \<Rightarrow> pend_check" where
  "check_pend_loop s t [] = No_conflict"
| "check_pend_loop s t ((k, w) # rest) =
     (let tx = txn w in
      if same_inputs tx t then
        if timelock_expired s (timestamp w) tx then Blocked
        else if seq t \<le> seq tx then Blocked
        else Replaces tx
      else check_pend_loop s t rest)"

definition check_pend_replacement :: "storage \<Rightarrow> transaction \<Rightarrow> pend_check" where
  "check_pend_replacement s t = check_pend_loop s t (store_items (pend s))"

definition del_from_pending :: "env \<Rightarrow> transaction \<Rightarrow> storage \<Rightarrow> storage" where
  "del_from_pending E t s =
     s\<lparr>pend := pend_delitem (txid t) (pend s),
       pub_outs_pend :=
         fold (\<lambda>(i, out). del_out_from_balance_index (get_pubkeys E out) (txid t) (int i))
           (enumerate 0 (outputs t)) (pub_outs_pend s)\<rparr>"

section \<open>verify_txn\<close>

definition input_authorised :: "env \<Rightarrow> storage \<Rightarrow> transaction \<Rightarrow> txn_wrapper \<Rightarrow> txn_output \<Rightarrow> txn_input \<Rightarrow> bool" where
  "input_authorised E s t w out inp =
     (if timeout_reached s (timestamp w) out
      then verify_sig E (txid t) (pubkey out) (signature inp)
         \<and> verify_sig E (txid t) (pubkey2 out) (signature2 inp)
      else sha256 E (htlc_preimage inp) = htlc_hashlock out
         \<and> verify_sig E (txid t) (htlc_pubkey out) (htlc_signature inp))"

text \<open>
  One round of the loop over the inputs, for an input that is not a dummy: the amount it
  contributes and the value of the local \<open>check\<close>; \<open>None\<close> is \<open>return False\<close>.
\<close>

definition verify_input ::
  "env \<Rightarrow> storage \<Rightarrow> transaction \<Rightarrow> bool \<Rightarrow> txn_input \<Rightarrow> py_error + (int \<times> pend_check option) option" where
  "verify_input E s t check_pend inp =
     (case storage_getitem s (inp_txid inp) of
        Inl _ \<Rightarrow> Inr None
      | Inr w \<Rightarrow>
          (case py_get (outputs (txn w)) (inp_index inp) of
             None \<Rightarrow> Inr None
           | Some out \<Rightarrow>
               if \<not> input_authorised E s t w out inp then Inr None
               else if \<not> check_pend then Inr (Some (amount out, None))
               else
                 (case check_pend_replacement s t of
                    Blocked \<Rightarrow> Inr None
                  | Replaces tx \<Rightarrow> Inr (Some (amount out, Some (Replaces tx)))
                  | No_conflict \<Rightarrow>
                      (case py_get (utxos w) (inp_index inp) of
                         None \<Rightarrow> Inl IndexError
                       | Some unspent \<Rightarrow>
                           if \<not> unspent then Inr None
                           else Inr (Some (amount out, Some No_conflict))))))"

fun verify_inputs ::
  "env \<Rightarrow> storage \<Rightarrow> transaction \<Rightarrow> bool \<Rightarrow> txn_input list \<Rightarrow> int \<Rightarrow> pend_check option
    \<Rightarrow> py_error + (int \<times> pend_check option) option" where
  "verify_inputs E s t check_pend [] has_coins chk = Inr (Some (has_coins, chk))"
| "verify_inputs E s t check_pend (inp # inps) has_coins chk =
     (if inp_txid inp = no_hash E then verify_inputs E s t check_pend inps has_coins chk
      else
        (case verify_input E s t check_pend inp of
           Inl e \<Rightarrow> Inl e
         | Inr None \<Rightarrow> Inr None
         | Inr (Some (n, c)) \<Rightarrow>
             verify_inputs E s t check_pend inps (has_coins + n) (if check_pend then c else chk)))"

definition verify_txn :: "env \<Rightarrow> bool \<Rightarrow> transaction \<Rightarrow> (storage, bool) eff" where
  "verify_txn E check_pend t s =
     (if storage_contains s (txid t) then (Inr False, remove_from_mempool (txid t) s)
      else
        (case verify_inputs E s t check_pend (inputs t) 0 None of
           Inl e \<Rightarrow> (Inl e, s)
         | Inr None \<Rightarrow> (Inr False, remove_invalid_txn_from_mempool (txid t) s)
         | Inr (Some (has_coins, chk)) \<Rightarrow>
             if has_coins \<noteq> sum_list (map amount (outputs t))
             then (Inr False, remove_invalid_txn_from_mempool (txid t) s)
             else if check_pend then
               (case chk of
                  None \<Rightarrow> (Inl UnboundLocalError, s)
                | Some (Replaces tx) \<Rightarrow> (Inr True, del_from_pending E tx s)
                | Some _ \<Rightarrow> (Inr True, s))
             else (Inr True, s)))"

section \<open>Reference\<close>

text \<open>The inputs that are not dummies, the output one refers to, and its amount.\<close>

definition real_inputs :: "env \<Rightarrow> transaction \<Rightarrow> txn_input list" where
  "real_inputs E t = filter (\<lambda>i. inp_txid i \<noteq> no_hash E) (inputs t)"

definition spent_output :: "storage \<Rightarrow> txn_input \<Rightarrow> (txn_wrapper \<times> txn_output) option" where
  "spent_output s inp =
     (case storage_get s (inp_txid inp) of
        None \<Rightarrow> None
      | Some w \<Rightarrow> map_option (Pair w) (py_get (outputs (txn w)) (inp_index inp)))"

definition input_amount :: "storage \<Rightarrow> txn_input \<Rightarrow> int" where
  "input_amount s inp = (case spent_output s inp of None \<Rightarrow> 0 | Some (w, out) \<Rightarrow> amount out)"

definition input_unspent :: "storage \<Rightarrow> txn_input \<Rightarrow> bool" where
  "input_unspent s inp =
     (case storage_get s (inp_txid inp) of
        None \<Rightarrow> False
      | Some w \<Rightarrow> py_get (utxos w) (inp_index inp) = Some True)"

definition input_signed :: "env \<Rightarrow> storage \<Rightarrow> transaction \<Rightarrow> txn_input \<Rightarrow> bool" where
  "input_signed E s t inp =
     (case spent_output s inp of
        None \<Rightarrow> False
      | Some (w, out) \<Rightarrow> input_authorised E s t w out inp)"

text \<open>Every record keeps one flag per output.\<close>

definition flags_ok :: "(bytes, txn_wrapper) store \<Rightarrow> bool" where
  "flags_ok d \<longleftrightarrow> (\<forall>k w. store_get d k = Some w \<longrightarrow> length (utxos w) = length (outputs (txn w)))"

definition acceptable :: "env \<Rightarrow> storage \<Rightarrow> transaction \<Rightarrow> bool" where
  "acceptable E s t \<longleftrightarrow>
     storage_get s (txid t) = None \<and>
     real_inputs E t \<noteq> [] \<and>
     (\<forall>inp\<in>set (real_inputs E t). input_signed E s t inp) \<and>
     (case check_pend_replacement s t of
        Blocked \<Rightarrow> False
      | Replaces _ \<Rightarrow> True
      | No_conflict \<Rightarrow> \<forall>inp\<in>set (real_inputs E t). input_unspent s inp) \<and>
     sum_list (map (input_amount s) (real_inputs E t)) = sum_list (map amount (outputs t))"

text \<open>When one input passes, with the pending check on and off.\<close>

lemma verify_input_Some:
  "verify_input E s t True inp = Inr (Some (n, c)) \<longleftrightarrow>
     input_signed E s t inp \<and> n = input_amount s inp \<and>
     check_pend_replacement s t \<noteq> Blocked \<and>
     (check_pend_replacement s t = No_conflict \<longrightarrow> input_unspent s inp) \<and>
     c = Some (check_pend_replacement s t)"
  by (cases "check_pend_replacement s t")
     (auto simp: verify_input_def input_signed_def input_amount_def spent_output_def
        storage_getitem_def input_unspent_def split: option.splits)

lemma verify_input_Some_nopend:
  "verify_input E s t False inp = Inr (Some (n, c)) \<longleftrightarrow>
     input_signed E s t inp \<and> n = input_amount s inp \<and> c = None"
  by (auto simp: verify_input_def input_signed_def input_amount_def spent_output_def
        storage_getitem_def split: option.splits)

lemma verify_inputs_Some:
  "verify_inputs E s t True inps n0 chk = Inr (Some (n, c)) \<longleftrightarrow>
     (let rs = filter (\<lambda>i. inp_txid i \<noteq> no_hash E) inps in
      (\<forall>inp\<in>set rs. input_signed E s t inp \<and> check_pend_replacement s t \<noteq> Blocked \<and>
         (check_pend_replacement s t = No_conflict \<longrightarrow> input_unspent s inp)) \<and>
      n = n0 + sum_list (map (input_amount s) rs) \<and>
      c = (if rs = [] then chk else Some (check_pend_replacement s t)))"
proof (induction inps arbitrary: n0 chk)
  case (Cons inp inps)
  show ?case
  proof (cases "inp_txid inp = no_hash E")
    case True
    then show ?thesis by (simp add: Cons.IH)
  next
    case False
    show ?thesis
    proof (cases "\<exists>m d. verify_input E s t True inp = Inr (Some (m, d))")
      case True
      then obtain m d where v: "verify_input E s t True inp = Inr (Some (m, d))" by blast
      with False show ?thesis
        using v[unfolded verify_input_Some] by (auto simp: Cons.IH Let_def)
    next
      case nv: False
      then have "\<not> (input_signed E s t inp \<and> check_pend_replacement s t \<noteq> Blocked \<and>
          (check_pend_replacement s t = No_conflict \<longrightarrow> input_unspent s inp))"
        by (simp add: verify_input_Some)
      moreover have "verify_inputs E s t True (inp # inps) n0 chk \<noteq> Inr (Some (n, c))"
        using False nv by (auto split: sum.splits option.splits)
      ultimately show ?thesis using False by (auto simp: Let_def)
    qed
  qed
qed auto

lemma verify_inputs_Some_nopend:
  "verify_inputs E s t False inps n0 chk = Inr (Some (n, c)) \<longleftrightarrow>
     (let rs = filter (\<lambda>i. inp_txid i \<noteq> no_hash E) inps in
      (\<forall>inp\<in>set rs. input_signed E s t inp) \<and>
      n = n0 + sum_list (map (input_amount s) rs) \<and> c = chk)"
proof (induction inps arbitrary: n0 chk)
  case (Cons inp inps)
  show ?case
  proof (cases "inp_txid inp = no_hash E")
    case True
    then show ?thesis by (simp add: Cons.IH)
  next
    case False
    show ?thesis
    proof (cases "\<exists>m d. verify_input E s t False inp = Inr (Some (m, d))")
      case True
      then obtain m d where v: "verify_input E s t False inp = Inr (Some (m, d))" by blast
      with False show ?thesis
        using v[unfolded verify_input_Some_nopend] by (auto simp: Cons.IH Let_def)
    next
      case nv: False
      then have "\<not> input_signed E s t inp"
        by (simp add: verify_input_Some_nopend)
      moreover have "verify_inputs E s t False (inp # inps) n0 chk \<noteq> Inr (Some (n, c))"
        using False nv by (auto split: sum.splits option.splits)
      ultimately show ?thesis using False by (auto simp: Let_def)
    qed
  qed
qed auto

section \<open>The test and the reference\<close>

lemma verify_txn_acceptable: "fst (verify_txn E True t s) = Inr True \<longleftrightarrow> acceptable E s t"
proof -
  let ?R = "real_inputs E t" and ?P = "check_pend_replacement s t"
  let ?V = "verify_inputs E s t True (inputs t) 0 None"
  have some: "?V = Inr (Some (n, c)) \<longleftrightarrow>
      (\<forall>inp\<in>set ?R. input_signed E s t inp \<and> ?P \<noteq> Blocked \<and> (?P = No_conflict \<longrightarrow> input_unspent s inp)) \<and>
      n = sum_list (map (input_amount s) ?R) \<and> c = (if ?R = [] then None else Some ?P)" for n c
    by (simp add: verify_inputs_Some Let_def real_inputs_def)
  have "fst (verify_txn E True t s) = Inr True \<longleftrightarrow>
      \<not> storage_contains s (txid t) \<and>
      (\<exists>n k. ?V = Inr (Some (n, Some k)) \<and> n = sum_list (map amount (outputs t)))"
    by (auto simp: verify_txn_def split: sum.splits option.splits pend_check.splits)
  also have "\<dots> \<longleftrightarrow> acceptable E s t"
    unfolding some acceptable_def storage_contains_def storage_get_def
    by (cases ?P; cases ?R) auto
  finally show ?thesis .
qed

lemma verify_txn_state:
  "verify_txn E True t s = (Inr b, s') \<Longrightarrow>
   s' = (if b then (case check_pend_replacement s t of Replaces tx \<Rightarrow> del_from_pending E tx s | _ \<Rightarrow> s)
         else if storage_contains s (txid t) then remove_from_mempool (txid t) s
         else remove_invalid_txn_from_mempool (txid t) s)"
  by (auto simp: verify_txn_def verify_inputs_Some Let_def
      split: if_splits sum.splits option.splits pend_check.splits)

lemma verify_input_err: "flags_ok (db s) \<Longrightarrow> verify_input E s t cp inp \<noteq> Inl e"
  by (auto simp: verify_input_def storage_getitem_def storage_get_def flags_ok_def py_get_def
      py_pos_def Let_def split: option.splits pend_check.splits sum.splits if_splits)

lemma verify_inputs_err: "flags_ok (db s) \<Longrightarrow> verify_inputs E s t cp inps n chk \<noteq> Inl e"
  by (induction inps arbitrary: n chk)
     (auto simp: verify_input_err split: option.splits sum.splits)

lemma verify_txn_error_iff:
  assumes "flags_ok (db s)"
  shows "fst (verify_txn E True t s) = Inl e \<longleftrightarrow>
    e = UnboundLocalError \<and> storage_get s (txid t) = None \<and> real_inputs E t = [] \<and>
    sum_list (map amount (outputs t)) = 0"
proof (cases "verify_inputs E s t True (inputs t) 0 None")
  case (Inl e')
  with verify_inputs_err[OF assms] show ?thesis by blast
next
  case (Inr r)
  show ?thesis
  proof (cases r)
    case None
    have "real_inputs E t = [] \<Longrightarrow> verify_inputs E s t True (inputs t) 0 None = Inr (Some (0, None))"
      by (simp add: verify_inputs_Some Let_def real_inputs_def)
    with None Inr have "real_inputs E t \<noteq> []" by auto
    with None Inr show ?thesis by (auto simp: verify_txn_def)
  next
    case (Some nc)
    with Inr have "fst nc = sum_list (map (input_amount s) (real_inputs E t)) \<and>
        snd nc = (if real_inputs E t = [] then None else Some (check_pend_replacement s t))"
      using verify_inputs_Some[of E s t "inputs t" 0 None "fst nc" "snd nc"]
      by (simp add: real_inputs_def Let_def)
    with Some Inr show ?thesis
      by (cases nc) (auto simp: verify_txn_def storage_contains_def storage_get_def
          split: pend_check.splits)
  qed
qed

lemma verify_txn_nopend:
  assumes "flags_ok (db s)"
  shows "fst (verify_txn E False t s) =
    Inr (storage_get s (txid t) = None \<and>
      (\<forall>inp\<in>set (real_inputs E t). input_signed E s t inp) \<and>
      sum_list (map (input_amount s) (real_inputs E t)) = sum_list (map amount (outputs t)))"
proof (cases "verify_inputs E s t False (inputs t) 0 None")
  case (Inl e')
  with verify_inputs_err[OF assms] show ?thesis by blast
next
  case (Inr r)
  note some = verify_inputs_Some_nopend[of E s t "inputs t" 0 None, folded real_inputs_def]
  show ?thesis
  proof (cases r)
    case None
    then have "\<not> (\<forall>inp\<in>set (real_inputs E t). input_signed E s t inp)"
      using Inr some[of "sum_list (map (input_amount s) (real_inputs E t))" None]
      by (auto simp: real_inputs_def Let_def)
    with None Inr show ?thesis by (auto simp: verify_txn_def)
  next
    case (Some nc)
    with Inr have "(\<forall>inp\<in>set (real_inputs E t). input_signed E s t inp) \<and>
        fst nc = sum_list (map (input_amount s) (real_inputs E t))"
      using some[of "fst nc" "snd nc"] by (simp add: Let_def real_inputs_def)
    with Some Inr show ?thesis
      by (cases nc) (auto simp: verify_txn_def storage_contains_def storage_get_def)
  qed
qed

lemma check_pend_loop_spec:
  "(check_pend_loop s t ps = No_conflict \<longleftrightarrow> (\<forall>(k, w)\<in>set ps. \<not> same_inputs (txn w) t)) \<and>
   (check_pend_loop s t ps = Replaces tx \<longrightarrow>
     (\<exists>k w. (k, w) \<in> set ps \<and> txn w = tx \<and> same_inputs tx t \<and>
        \<not> timelock_expired s (timestamp w) tx \<and> seq tx < seq t))"
proof (induction ps)
  case (Cons p ps)
  obtain k w where p: "p = (k, w)" by (cases p)
  show ?case
  proof (cases "same_inputs (txn w) t")
    case True
    then show ?thesis by (auto simp: p Let_def intro!: exI[of _ k] exI[of _ w])
  next
    case False
    with Cons.IH show ?thesis by (auto simp: p Let_def)
  qed
qed simp

end
