(* ===== verification/Blocks.thy ===== *)
theory Blocks
  imports Verify
begin

text \<open>
  The block pipeline of \<open>storage.py\<close>: \<open>write_txn_to_db\<close>, \<open>process_block\<close>, \<open>update_pend\<close>, the
  block queue, \<open>try_process\<close> with its back-off, the requests for missing transactions and
  their callbacks, \<open>send_block\<close>.
\<close>

section \<open>Writing a transaction\<close>

text \<open>Python's \<open>int\<close> of a float truncates towards zero.\<close>

definition py_int :: "rat \<Rightarrow> int" where
  "py_int q = (if q < 0 then - \<lfloor>- q\<rfloor> else \<lfloor>q\<rfloor>)"

text \<open>
  One round of the loop that marks the outputs an accepted transaction spends; the same loop
  stands in \<open>write_txn_to_db\<close> and in the pending branch of \<open>process_block\<close>.
\<close>

definition spend_input :: "env \<Rightarrow> txn_input \<Rightarrow> (storage, unit) eff" where
  "spend_input E inp s =
     (case storage_getitem s (inp_txid inp) of
        Inl e \<Rightarrow> (Inl e, s)
      | Inr w \<Rightarrow>
          (case py_set (utxos w) (inp_index inp) False of
             None \<Rightarrow> (Inl IndexError, s)
           | Some us \<Rightarrow>
               let s1 = storage_setitem (inp_txid inp) (w\<lparr>utxos := us\<rparr>) s in
               (case py_get (outputs (txn w)) (inp_index inp) of
                  None \<Rightarrow> (Inl IndexError, s1)
                | Some out \<Rightarrow>
                    (Inr (), s1\<lparr>pub_outs :=
                       del_out_from_balance_index (get_pubkeys E out) (inp_txid inp) (inp_index inp)
                         (pub_outs s1)\<rparr>))))"

definition write_txn_to_db :: "env \<Rightarrow> transaction \<Rightarrow> int \<Rightarrow> (storage, unit) eff" where
  "write_txn_to_db E t ts =
     bindE (forE (spend_input E) (inputs t)) (\<lambda>_.
       modE (\<lambda>s. let s1 = storage_setitem (txid t) (TxnWrapper t ts None) s
                 in s1\<lparr>pub_outs := add_txn_to_balance_index E t (pub_outs s1)\<rparr>))"

definition write_txn_to_pend :: "env \<Rightarrow> transaction \<Rightarrow> int \<Rightarrow> (storage, unit) eff" where
  "write_txn_to_pend E t ts =
     bindE (modE (\<lambda>s. s\<lparr>pend := pend_setitem (txid t) (TxnWrapper t ts None) (pend s),
                        pub_outs_pend := add_txn_to_balance_index E t (pub_outs_pend s)\<rparr>)) (\<lambda>_.
       forE (spend_input E) (inputs t))"

section \<open>process_block\<close>

definition accept_txn :: "env \<Rightarrow> transaction \<Rightarrow> int \<Rightarrow> (storage, unit) eff" where
  "accept_txn E t ts =
     bindE (if timelock t \<noteq> 0 then write_txn_to_pend E t ts else write_txn_to_db E t ts) (\<lambda>_.
       modE (\<lambda>s. s\<lparr>txns_accepted := Suc (txns_accepted s)\<rparr>))"

definition process_txn :: "env \<Rightarrow> bytes \<Rightarrow> (storage, unit) eff" where
  "process_txn E i s =
     (case mempool_getitem (mempool s) i of
        None \<Rightarrow> (Inl InvalidTransactionError, s)
      | Some t \<Rightarrow>
          let ts = py_int (current_time s * of_int TIME_MULTIPLIER) in
          bindE (verify_txn E True t) (\<lambda>valid.
            bindE (if valid then accept_txn E t ts else ret ()) (\<lambda>_.
              modE (\<lambda>s1. remove_from_mempool i (s1\<lparr>txns_processed := Suc (txns_processed s1)\<rparr>)))) s)"

definition finish_block :: "(storage, unit) eff" where
  "finish_block s =
     (case block_queue s of
        [] \<Rightarrow> (Inl IndexError, s)
      | _ # q \<Rightarrow> (Inr (), s\<lparr>block_queue := q, current_block := [], processing := False,
                           processing_block := False\<rparr>))"

definition process_block :: "env \<Rightarrow> bytes list \<Rightarrow> (storage, unit) eff" where
  "process_block E blk =
     bindE (modE (\<lambda>s. s\<lparr>processing_block := True\<rparr>)) (\<lambda>_.
       bindE (forE (process_txn E) blk) (\<lambda>_. finish_block))"

section \<open>update_pend and the block queue\<close>

text \<open>The loop runs over a snapshot of the pending database.\<close>

definition update_pend_step :: "env \<Rightarrow> bytes \<times> txn_wrapper \<Rightarrow> (storage, unit) eff" where
  "update_pend_step E kw s =
     (let w = snd kw in
      if timelock_expired s (timestamp w) (txn w) then
        bindE (modE (del_from_pending E (txn w))) (\<lambda>_.
          bindE (verify_txn E False (txn w)) (\<lambda>valid.
            if valid then write_txn_to_db E (txn w) (timestamp w) else ret ())) s
      else (Inr (), s))"

definition update_pend :: "env \<Rightarrow> (storage, unit) eff" where
  "update_pend E s = forE (update_pend_step E) (store_items (pend s)) s"

definition add_block_to_queue :: "env \<Rightarrow> block \<Rightarrow> (storage, unit) eff" where
  "add_block_to_queue E blk =
     bindE (update_pend E) (\<lambda>_. modE (\<lambda>s. s\<lparr>block_queue := block_queue s @ [blk]\<rparr>))"

section \<open>Missing transactions\<close>

definition missing_in :: "storage \<Rightarrow> bytes list \<Rightarrow> bytes list" where
  "missing_in s blk = filter (\<lambda>i. mempool_getitem (mempool s) i = None) blk"

definition request_missing_transaction :: "env \<Rightarrow> bytes \<Rightarrow> nat \<Rightarrow> (storage, unit) eff" where
  "request_missing_transaction E i n s =
     (let found = n mod 5 = 0 \<and> mempool_getitem (mempool s) i \<noteq> None;
          s1 = (if found then s\<lparr>missing_txns := remove1 i (missing_txns s)\<rparr> else s)
      in if found \<and> missing_txns s1 = [] \<and> \<not> processing_block s1
         then process_block E (current_block s1) s1
         else (Inr (), s1\<lparr>reactor_queue := reactor_queue s1 @ [Task_req_txn i n]\<rparr>))"

definition request_missing_transactions :: "env \<Rightarrow> (storage, unit) eff" where
  "request_missing_transactions E s =
     forE (\<lambda>i. request_missing_transaction E i 0) (missing_txns s) s"

definition find_missing_transactions :: "env \<Rightarrow> bytes list \<Rightarrow> (storage, unit) eff" where
  "find_missing_transactions E blk s =
     (let s1 = s\<lparr>missing_txns := missing_in s blk\<rparr> in
      if missing_txns s1 \<noteq> [] then request_missing_transactions E s1
      else process_block E blk s1)"

definition try_process :: "env \<Rightarrow> (storage, unit) eff" where
  "try_process E s =
     (if processing s then (Inr (), s)
      else
        (case block_queue s of
           [] \<Rightarrow> (Inr (), s)
         | blk # _ \<Rightarrow>
             let s1 = s\<lparr>current_time := block_time blk, current_block := block_txns blk,
                        processing := True, adding_block := False,
                        missing_txns := missing_in s (block_txns blk)\<rparr>
             in if missing_txns s1 \<noteq> [] then
                  let s2 = s1\<lparr>missed_counter := Suc (missed_counter s1)\<rparr> in
                  if missed_counter s2 > BACKOFF_AMOUNT
                  then find_missing_transactions E (current_block s2) (s2\<lparr>missed_counter := 0\<rparr>)
                  else (Inr (), s2\<lparr>processing := False\<rparr>)
                else process_block E (current_block s1) s1))"

text \<open>
  What a peer answers to \<open>req_txn\<close>: 0 (not found), None (marked invalid there) or the
  transaction. An exception of the callback goes to the errback, as \<open>addCallback\<close> followed by
  \<open>addErrback\<close> has it.
\<close>

datatype req_reply = Reply_0 | Reply_None | Reply_txn transaction

definition transaction_received :: "env \<Rightarrow> req_reply \<Rightarrow> nat \<Rightarrow> bytes \<Rightarrow> (storage, unit) eff" where
  "transaction_received E reply n i =
     (if reply = Reply_0 then request_missing_transaction E i n
      else
        bindE (\<lambda>s. if mempool_getitem (mempool s) i = None
                   then (case reply of
                           Reply_txn t \<Rightarrow> (Inr (), add_to_mempool t s)
                         | _ \<Rightarrow> (Inl AttributeError, s))
                   else (Inr (), s)) (\<lambda>_.
          bindE (modE (\<lambda>s. s\<lparr>missing_txns := remove1 i (missing_txns s)\<rparr>)) (\<lambda>_ s.
            if missing_txns s = [] \<and> \<not> processing_block s
            then process_block E (current_block s) s else (Inr (), s))))"

definition transaction_receive_error :: "env \<Rightarrow> nat \<Rightarrow> bytes \<Rightarrow> (storage, unit) eff" where
  "transaction_receive_error E n i = request_missing_transaction E i n"

definition req_txn_callbacks :: "env \<Rightarrow> req_reply \<Rightarrow> nat \<Rightarrow> bytes \<Rightarrow> (storage, unit) eff" where
  "req_txn_callbacks E reply n i s =
     (case transaction_received E reply n i s of
        (Inl _, s1) \<Rightarrow> transaction_receive_error E n i s1
      | r \<Rightarrow> r)"

section \<open>Sending\<close>

definition broadcast_txn :: "bytes \<Rightarrow> storage \<Rightarrow> storage" where
  "broadcast_txn t s =
     s\<lparr>reactor_queue := reactor_queue s @ map (\<lambda>a. Task_send_txn a t) (rpc_peers s)\<rparr>"

definition broadcast_txn_batch :: "bytes list \<Rightarrow> storage \<Rightarrow> storage" where
  "broadcast_txn_batch ts s =
     s\<lparr>reactor_queue := reactor_queue s @ map (\<lambda>a. Task_send_txn_batch a ts) (rpc_peers s)\<rparr>"

definition req_txn :: "bytes \<Rightarrow> nat \<Rightarrow> (storage, unit) eff" where
  "req_txn i n s =
     (let n1 = Suc n; peers = rpc_peers s in
      if length peers = 0 then (Inl ZeroDivisionError, s)
      else (Inr (), s\<lparr>calls := calls s @ [Call_req_txn (peers ! (n1 mod length peers)) i n1]\<rparr>))"

fun run_task :: "task \<Rightarrow> (storage, unit) eff" where
  "run_task (Task_send_txn a t) s = (Inr (), s\<lparr>calls := calls s @ [Call_puttxn a t]\<rparr>)"
| "run_task (Task_send_txn_batch a ts) s = (Inr (), s\<lparr>calls := calls s @ [Call_puttxn_batch a ts]\<rparr>)"
| "run_task (Task_req_txn i n) s = req_txn i n s"

text \<open>
  \<open>send_block\<close> reads the clock twice, for the test and for the value; the block it returns is
  handed to the replicated \<open>add_block_to_queue\<close>.
\<close>

definition send_block :: "rat \<Rightarrow> rat \<Rightarrow> storage \<Rightarrow> block option" where
  "send_block clock_test clock_value s =
     (let txs = take BLOCK_SIZE (mempool_list s);
          now = (if clock_test > current_time s then clock_value else current_time s)
      in if set txs \<inter> set (current_block s) = {}
         then Some \<lparr>block_time = now, block_txns = txs\<rparr> else None)"

end
