(* ===== verification/LedgerInv.thy ===== *)
theory LedgerInv
  imports Blocks
begin

text \<open>
  What the ledger keeps: the well-formedness of the databases, the agreement of the two
  public-key indexes with them, and the value held in unspent and pending outputs.
\<close>

section \<open>Invariants\<close>

definition keyed :: "(bytes, txn_wrapper) store \<Rightarrow> bool" where
  "keyed d \<longleftrightarrow> (\<forall>k w. store_get d k = Some w \<longrightarrow> txid (txn w) = k)"

text \<open>The outputs a record keeps unspent that name a public key.\<close>

definition unspent_refs :: "env \<Rightarrow> (bytes, txn_wrapper) store \<Rightarrow> bytes \<Rightarrow> outref set" where
  "unspent_refs E d p =
     {(k, int i) | k w i. store_get d k = Some w \<and> i < length (outputs (txn w)) \<and> utxos w ! i
        \<and> p \<in> set (get_pubkeys E (outputs (txn w) ! i))}"

definition pending_refs :: "env \<Rightarrow> (bytes, txn_wrapper) store \<Rightarrow> bytes \<Rightarrow> outref set" where
  "pending_refs E d p = (\<Union>w\<in>{w. \<exists>k. store_get d k = Some w}. txn_refs E (txn w) p)"

definition db_ok :: "env \<Rightarrow> storage \<Rightarrow> bool" where
  "db_ok E s \<longleftrightarrow> store_ok (db s) \<and> flags_ok (db s) \<and> keyed (db s) \<and> index_ok (pub_outs s)
     \<and> (\<forall>p. refs_of (pub_outs s) p = unspent_refs E (db s) p)"

definition pend_ok :: "env \<Rightarrow> storage \<Rightarrow> bool" where
  "pend_ok E s \<longleftrightarrow> store_ok (pend s) \<and> keyed (pend s) \<and> index_ok (pub_outs_pend s)
     \<and> (\<forall>p. refs_of (pub_outs_pend s) p = pending_refs E (pend s) p)"

section \<open>Updates of the database\<close>

lemma flags_okD: "flags_ok d \<Longrightarrow> store_get d k = Some w \<Longrightarrow> length (utxos w) = length (outputs (txn w))"
  by (simp add: flags_ok_def)

lemma flags_ok_put: "flags_ok d \<Longrightarrow> length (utxos w) = length (outputs (txn w)) \<Longrightarrow> flags_ok (store_put k w d)"
  by (auto simp: flags_ok_def)

lemma keyed_put: "keyed d \<Longrightarrow> txid (txn w) = k \<Longrightarrow> keyed (store_put k w d)"
  by (auto simp: keyed_def)

lemma keyed_del: "keyed d \<Longrightarrow> keyed (store_del k d)"
  by (auto simp: keyed_def split: if_splits)

text \<open>Clearing the flag of one output.\<close>

definition mark_spent :: "nat \<Rightarrow> txn_wrapper \<Rightarrow> txn_wrapper" where
  "mark_spent j w = w\<lparr>utxos := (utxos w)[j := False]\<rparr>"

lemma mark_spent_sel [simp]:
  "txn (mark_spent j w) = txn w" "timestamp (mark_spent j w) = timestamp w"
  "utxos (mark_spent j w) = (utxos w)[j := False]"
  by (simp_all add: mark_spent_def)

text \<open>What one round of the spending loop does on a well-formed database.\<close>

lemma spend_input_None:
  assumes "flags_ok (db s)" and "spent_output s inp = None"
  obtains e where "spend_input E inp s = (Inl e, s)"
proof (cases "store_get (db s) (inp_txid inp)")
  case None
  then show thesis by (intro that) (simp add: spend_input_def storage_getitem_def storage_get_def)
next
  case (Some w)
  have len: "length (utxos w) = length (outputs (txn w))"
    using assms(1) Some by (rule flags_okD)
  have "py_pos (outputs (txn w)) (inp_index inp) = None"
    using assms(2) Some by (simp add: spent_output_def storage_get_def py_get_def)
  with py_pos_cong_length[OF len] Some show thesis
    by (intro that) (simp add: spend_input_def storage_getitem_def storage_get_def py_set_def)
qed

lemma spend_input_Some:
  assumes "flags_ok (db s)" and "spent_output s inp = Some (w, out)"
  obtains j where "store_get (db s) (inp_txid inp) = Some w"
    and "py_pos (outputs (txn w)) (inp_index inp) = Some j" and "out = outputs (txn w) ! j"
    and "j < length (outputs (txn w))" and "length (utxos w) = length (outputs (txn w))"
    and "spend_input E inp s = (Inr (), s\<lparr>db := store_put (inp_txid inp) (mark_spent j w) (db s),
      pub_outs := del_out_from_balance_index (get_pubkeys E out) (inp_txid inp) (inp_index inp) (pub_outs s)\<rparr>)"
proof -
  have w: "store_get (db s) (inp_txid inp) = Some w"
    and out: "py_get (outputs (txn w)) (inp_index inp) = Some out"
    using assms(2) by (auto simp: spent_output_def storage_get_def split: option.splits)
  then obtain j where j: "py_pos (outputs (txn w)) (inp_index inp) = Some j" "out = outputs (txn w) ! j"
    by (auto simp: py_get_def)
  have len: "length (utxos w) = length (outputs (txn w))"
    using assms(1) w by (rule flags_okD)
  show thesis
    using w j out py_pos_bound[OF j(1)] len py_pos_cong_length[OF len, of "inp_index inp"]
    by (intro that)
       (simp_all add: spend_input_def storage_getitem_def storage_get_def py_set_def
          storage_setitem_def mark_spent_def)
qed

lemma mem_unspent_refs:
  "(k, i) \<in> unspent_refs E d p \<longleftrightarrow> 0 \<le> i \<and>
     (\<exists>w. store_get d k = Some w \<and> nat i < length (outputs (txn w)) \<and> utxos w ! nat i
        \<and> p \<in> set (get_pubkeys E (outputs (txn w) ! nat i)))"
  by (auto simp: unspent_refs_def intro!: exI[of _ "nat i"])

lemma unspent_refs_mark:
  assumes "store_get d k = Some w" and "length (utxos w) = length (outputs (txn w))"
    and "j < length (outputs (txn w))"
  shows "unspent_refs E (store_put k (mark_spent j w) d) p =
    unspent_refs E d p - (if p \<in> set (get_pubkeys E (outputs (txn w) ! j)) then {(k, int j)} else {})"
proof (rule set_eqI)
  fix r :: outref
  obtain k' i where r: "r = (k', i)" by (cases r)
  show "r \<in> unspent_refs E (store_put k (mark_spent j w) d) p \<longleftrightarrow>
    r \<in> unspent_refs E d p - (if p \<in> set (get_pubkeys E (outputs (txn w) ! j)) then {(k, int j)} else {})"
    using assms by (cases "k' = k") (auto simp: r mem_unspent_refs nth_list_update)
qed

text \<open>
  Spending keeps the database well formed, on both exits, for an input whose index is not
  negative (a negative index would address an output from the end of the list, and the index
  entry, which records positions from the front, would stay).
\<close>

lemma spend_input_db_ok:
  assumes "db_ok E s" and "0 \<le> inp_index inp" and "spend_input E inp s = (r, s')"
  shows "db_ok E s'"
proof (cases "spent_output s inp")
  case None
  have "flags_ok (db s)" using assms(1) by (simp add: db_ok_def)
  from spend_input_None[OF this None, of E] assms(1,3) show ?thesis by (metis prod.inject)
next
  case (Some wo)
  obtain w out where wo: "wo = (w, out)" by (cases wo)
  from assms(1) have ok: "store_ok (db s)" "flags_ok (db s)" "keyed (db s)" "index_ok (pub_outs s)"
    and refs: "\<And>p. refs_of (pub_outs s) p = unspent_refs E (db s) p"
    by (auto simp: db_ok_def)
  obtain j where j: "store_get (db s) (inp_txid inp) = Some w"
    "py_pos (outputs (txn w)) (inp_index inp) = Some j" "out = outputs (txn w) ! j"
    "j < length (outputs (txn w))" "length (utxos w) = length (outputs (txn w))"
    and st: "spend_input E inp s = (Inr (), s\<lparr>db := store_put (inp_txid inp) (mark_spent j w) (db s),
        pub_outs := del_out_from_balance_index (get_pubkeys E out) (inp_txid inp) (inp_index inp) (pub_outs s)\<rparr>)"
    using spend_input_Some[OF ok(2) Some[unfolded wo]] by metis
  have idx: "inp_index inp = int j"
    using j(2) assms(2) by (auto simp: py_pos_nonneg split: if_splits)
  have "txid (txn w) = inp_txid inp" using ok(3) j(1) by (simp add: keyed_def)
  moreover have "s' = s\<lparr>db := store_put (inp_txid inp) (mark_spent j w) (db s),
        pub_outs := del_out_from_balance_index (get_pubkeys E out) (inp_txid inp) (inp_index inp) (pub_outs s)\<rparr>"
    using st assms(3) by simp
  ultimately show ?thesis
    using ok refs j(3,4,5)
    by (simp add: db_ok_def flags_ok_put keyed_put del_out_index_ok del_out_refs
        unspent_refs_mark[OF j(1,5,4)] idx)
qed

lemma spend_inputs_db_ok:
  assumes "db_ok E s" and "\<forall>inp\<in>set inps. 0 \<le> inp_index inp"
    and "forE (spend_input E) inps s = (r, s')"
  shows "db_ok E s'"
  by (rule forE_inv[where I = "db_ok E", OF assms(1) _ assms(3)])
     (use assms(2) spend_input_db_ok in blast)

text \<open>The spending loop touches the database and its index only, and no record goes away.\<close>

definition same_txns :: "(bytes, txn_wrapper) store \<Rightarrow> (bytes, txn_wrapper) store \<Rightarrow> bool" where
  "same_txns d d' \<longleftrightarrow>
     (\<forall>k. map_option (\<lambda>w. (txn w, timestamp w)) (store_get d' k) = map_option (\<lambda>w. (txn w, timestamp w)) (store_get d k))"

lemma same_txns_refl [simp]: "same_txns d d"
  by (simp add: same_txns_def)

lemma same_txns_trans: "same_txns d e \<Longrightarrow> same_txns e f \<Longrightarrow> same_txns d f"
  by (simp add: same_txns_def)

lemma same_txns_None: "same_txns d d' \<Longrightarrow> store_get d' k = None \<longleftrightarrow> store_get d k = None"
  unfolding same_txns_def
  by (drule spec[of _ k]) (cases "store_get d' k"; cases "store_get d k"; simp)

lemma same_txns_Some:
  "same_txns d d' \<Longrightarrow> store_get d k = Some w \<Longrightarrow>
   \<exists>w'. store_get d' k = Some w' \<and> txn w' = txn w \<and> timestamp w' = timestamp w"
  unfolding same_txns_def by (drule spec[of _ k]) auto

lemma same_txns_mark: "store_get d k = Some w \<Longrightarrow> same_txns d (store_put k (mark_spent j w) d)"
  by (simp add: same_txns_def)

lemma mark_spent_len:
  "length (utxos w) = length (outputs (txn w)) \<Longrightarrow>
   length (utxos (mark_spent j w)) = length (outputs (txn (mark_spent j w)))"
  by simp

text \<open>States that differ in the database and its index at most.\<close>

definition ledger_step :: "storage \<Rightarrow> storage \<Rightarrow> bool" where
  "ledger_step s s' \<longleftrightarrow> (\<exists>d x. s' = s\<lparr>db := d, pub_outs := x\<rparr> \<and> same_txns (db s) d \<and>
     (flags_ok (db s) \<longrightarrow> flags_ok d))"

lemma ledger_step_refl [simp]: "ledger_step s s"
  unfolding ledger_step_def by (intro exI[of _ "db s"] exI[of _ "pub_outs s"]) simp

lemma ledger_step_trans: "ledger_step s t \<Longrightarrow> ledger_step t u \<Longrightarrow> ledger_step s u"
  unfolding ledger_step_def by (elim exE conjE) (auto intro: same_txns_trans)

lemma ledger_step_same: "ledger_step s s' \<Longrightarrow> same_txns (db s) (db s')"
  and ledger_step_flags: "ledger_step s s' \<Longrightarrow> flags_ok (db s) \<Longrightarrow> flags_ok (db s')"
  by (auto simp: ledger_step_def)

lemma ledger_step_fields:
  assumes "ledger_step s s'"
  shows "pend s' = pend s" "pub_outs_pend s' = pub_outs_pend s" "mempool s' = mempool s"
    "mempool_list s' = mempool_list s" "block_queue s' = block_queue s"
    "processing s' = processing s" "processing_block s' = processing_block s"
    "current_time s' = current_time s" "current_block s' = current_block s"
    "txns_processed s' = txns_processed s" "txns_accepted s' = txns_accepted s"
    "missing_txns s' = missing_txns s" "invalid_txns s' = invalid_txns s"
  using assms by (auto simp: ledger_step_def)

lemma spend_input_ledger_step:
  assumes "flags_ok (db s)" and "spend_input E inp s = (r, s')"
  shows "ledger_step s s'"
proof (cases "spent_output s inp")
  case None
  from spend_input_None[OF assms(1) None, of E] assms(2) show ?thesis
    by (metis ledger_step_refl prod.inject)
next
  case (Some wo)
  obtain w out where wo: "wo = (w, out)" by (cases wo)
  obtain j where j: "store_get (db s) (inp_txid inp) = Some w"
    "length (utxos w) = length (outputs (txn w))"
    and st: "spend_input E inp s = (Inr (), s\<lparr>db := store_put (inp_txid inp) (mark_spent j w) (db s),
        pub_outs := del_out_from_balance_index (get_pubkeys E out) (inp_txid inp) (inp_index inp) (pub_outs s)\<rparr>)"
    using spend_input_Some[OF assms(1) Some[unfolded wo]] by metis
  with assms(2) have "s' = s\<lparr>db := store_put (inp_txid inp) (mark_spent j w) (db s),
        pub_outs := del_out_from_balance_index (get_pubkeys E out) (inp_txid inp) (inp_index inp) (pub_outs s)\<rparr>"
    by simp
  with j show ?thesis
    unfolding ledger_step_def by (blast intro: same_txns_mark flags_ok_put[of _ "mark_spent j w"]
        order_refl mark_spent_len)
qed

lemma spend_inputs_ledger_step:
  assumes "flags_ok (db s)" and "forE (spend_input E) inps s = (r, s')"
  shows "ledger_step s s'"
proof -
  have "ledger_step s s' \<and> flags_ok (db s')"
  proof (rule forE_inv[where I = "\<lambda>t. ledger_step s t \<and> flags_ok (db t)", OF _ _ assms(2)])
    fix x t r u
    assume "ledger_step s t \<and> flags_ok (db t)" and "spend_input E x t = (r, u)"
    then show "ledger_step s u \<and> flags_ok (db u)"
      using spend_input_ledger_step ledger_step_trans ledger_step_flags by metis
  qed (use assms(1) in simp)
  then show ?thesis by blast
qed

section \<open>New records\<close>

lemma mem_txn_refs:
  "(k, i) \<in> txn_refs E t p \<longleftrightarrow> k = txid t \<and> 0 \<le> i \<and> nat i < length (outputs t)
     \<and> p \<in> set (get_pubkeys E (outputs t ! nat i))"
  by (auto simp: txn_refs_def intro!: exI[of _ "nat i"])

lemma unspent_refs_new:
  assumes "store_get d (txid t) = None"
  shows "unspent_refs E (store_put (txid t) (TxnWrapper t ts None) d) p = unspent_refs E d p \<union> txn_refs E t p"
proof (rule set_eqI)
  fix r :: outref
  obtain k i where r: "r = (k, i)" by (cases r)
  show "r \<in> unspent_refs E (store_put (txid t) (TxnWrapper t ts None) d) p \<longleftrightarrow>
      r \<in> unspent_refs E d p \<union> txn_refs E t p"
    using assms by (cases "k = txid t") (auto simp: r mem_unspent_refs mem_txn_refs)
qed

definition add_record :: "env \<Rightarrow> transaction \<Rightarrow> int \<Rightarrow> storage \<Rightarrow> storage" where
  "add_record E t ts s =
     s\<lparr>db := store_put (txid t) (TxnWrapper t ts None) (db s),
       pub_outs := add_txn_to_balance_index E t (pub_outs s)\<rparr>"

lemma write_txn_to_db_alt:
  "write_txn_to_db E t ts s =
     (case forE (spend_input E) (inputs t) s of
        (Inl e, s1) \<Rightarrow> (Inl e, s1)
      | (Inr _, s1) \<Rightarrow> (Inr (), add_record E t ts s1))"
  by (simp add: write_txn_to_db_def bindE_def add_record_def storage_setitem_def Let_def
      split: prod.split sum.split)

lemma add_record_db_ok:
  assumes "db_ok E s" and "store_get (db s) (txid t) = None"
  shows "db_ok E (add_record E t ts s)"
  using assms
  by (simp add: db_ok_def add_record_def flags_ok_put keyed_put add_txn_index_ok add_txn_refs
      unspent_refs_new)

text \<open>
  Writing a transaction: the spending loop, then the new record. On a normal exit every input
  named an output of the database.
\<close>

lemma write_txn_to_db_db_ok:
  assumes "db_ok E s" and "\<forall>inp\<in>set (inputs t). 0 \<le> inp_index inp"
    and "store_get (db s) (txid t) = None" and "write_txn_to_db E t ts s = (r, s')"
  shows "db_ok E s'"
proof -
  obtain r1 s1 where st: "forE (spend_input E) (inputs t) s = (r1, s1)" by (cases "forE (spend_input E) (inputs t) s")
  have fl: "flags_ok (db s)" using assms(1) by (simp add: db_ok_def)
  have ok: "db_ok E s1" using assms(1,2) st by (rule spend_inputs_db_ok)
  have "store_get (db s1) (txid t) = None"
    using ledger_step_same[OF spend_inputs_ledger_step[OF fl st]] assms(3) by (simp add: same_txns_None)
  with ok assms(4) st show ?thesis
    by (cases r1) (auto simp: write_txn_to_db_alt add_record_db_ok)
qed

section \<open>The pending set\<close>

lemma mem_pending_refs:
  "keyed d \<Longrightarrow> (k, i) \<in> pending_refs E d p \<longleftrightarrow> (\<exists>w. store_get d k = Some w \<and> (k, i) \<in> txn_refs E (txn w) p)"
  by (auto simp: pending_refs_def mem_txn_refs keyed_def)

definition add_pending :: "env \<Rightarrow> transaction \<Rightarrow> int \<Rightarrow> storage \<Rightarrow> storage" where
  "add_pending E t ts s =
     s\<lparr>pend := pend_setitem (txid t) (TxnWrapper t ts None) (pend s),
       pub_outs_pend := add_txn_to_balance_index E t (pub_outs_pend s)\<rparr>"

lemma write_txn_to_pend_alt:
  "write_txn_to_pend E t ts s = forE (spend_input E) (inputs t) (add_pending E t ts s)"
  by (simp add: write_txn_to_pend_def bindE_def add_pending_def)

lemma add_pending_pend_ok:
  assumes "pend_ok E s" and "store_get (pend s) (txid t) = None"
  shows "pend_ok E (add_pending E t ts s)"
proof -
  from assms(1) have ok: "store_ok (pend s)" "keyed (pend s)" "index_ok (pub_outs_pend s)"
    and refs: "\<And>p. refs_of (pub_outs_pend s) p = pending_refs E (pend s) p"
    by (auto simp: pend_ok_def)
  let ?d = "store_put (txid t) (TxnWrapper t ts None) (pend s)"
  have kd: "keyed ?d" using ok(2) by (simp add: keyed_put)
  have "pending_refs E ?d p = pending_refs E (pend s) p \<union> txn_refs E t p" for p
  proof (rule set_eqI)
    fix r :: outref
    obtain k i where r: "r = (k, i)" by (cases r)
    show "r \<in> pending_refs E ?d p \<longleftrightarrow> r \<in> pending_refs E (pend s) p \<union> txn_refs E t p"
      using assms(2) by (auto simp: r mem_pending_refs[OF kd] mem_pending_refs[OF ok(2)] mem_txn_refs)
  qed
  with ok kd refs show ?thesis
    by (simp add: pend_ok_def add_pending_def pend_setitem_def add_txn_index_ok add_txn_refs)
qed

lemma del_index_fold:
  assumes "index_ok idx"
  shows "index_ok (fold (\<lambda>(i, out). del_out_from_balance_index (get_pubkeys E out) t (int i)) ios idx)
    \<and> refs_of (fold (\<lambda>(i, out). del_out_from_balance_index (get_pubkeys E out) t (int i)) ios idx) q
        = refs_of idx q - {(t, int i) | i out. (i, out) \<in> set ios \<and> q \<in> set (get_pubkeys E out)}"
  using assms
proof (induction ios arbitrary: idx)
  case (Cons x ios)
  obtain i out where x: "x = (i, out)" by (cases x)
  let ?idx = "del_out_from_balance_index (get_pubkeys E out) t (int i) idx"
  have ok: "index_ok ?idx" using Cons.prems by (rule del_out_index_ok)
  from Cons.IH[OF ok] del_out_refs[OF Cons.prems, of "get_pubkeys E out" t "int i" q]
  show ?case by (auto simp: x)
qed simp

lemma del_from_pending_index:
  assumes "index_ok (pub_outs_pend s)"
  shows "index_ok (pub_outs_pend (del_from_pending E t s))"
    and "refs_of (pub_outs_pend (del_from_pending E t s)) p = refs_of (pub_outs_pend s) p - txn_refs E t p"
proof -
  have "{(txid t, int i) | i out. (i, out) \<in> set (enumerate 0 (outputs t)) \<and> p \<in> set (get_pubkeys E out)}
      = txn_refs E t p"
    by (auto simp: txn_refs_def in_set_enumerate_eq)
  with del_index_fold[OF assms, of E "txid t" "enumerate 0 (outputs t)" p]
  show "index_ok (pub_outs_pend (del_from_pending E t s))"
    and "refs_of (pub_outs_pend (del_from_pending E t s)) p = refs_of (pub_outs_pend s) p - txn_refs E t p"
    by (simp_all add: del_from_pending_def)
qed

lemma del_from_pending_pend_ok:
  assumes "pend_ok E s" and "store_get (pend s) (txid t) = Some w" and "txn w = t"
  shows "pend_ok E (del_from_pending E t s)"
proof -
  from assms(1) have ok: "store_ok (pend s)" "keyed (pend s)" "index_ok (pub_outs_pend s)"
    and refs: "\<And>p. refs_of (pub_outs_pend s) p = pending_refs E (pend s) p"
    by (auto simp: pend_ok_def)
  let ?d = "store_del (txid t) (pend s)"
  have kd: "keyed ?d" using ok(2) by (rule keyed_del)
  have eq: "pending_refs E (pend s) p - txn_refs E t p = pending_refs E ?d p" for p
  proof (rule set_eqI)
    fix r :: outref
    obtain k i where r: "r = (k, i)" by (cases r)
    show "r \<in> pending_refs E (pend s) p - txn_refs E t p \<longleftrightarrow> r \<in> pending_refs E ?d p"
      using assms(2,3)
      by (auto simp: r mem_pending_refs[OF kd] mem_pending_refs[OF ok(2)] mem_txn_refs)
  qed
  have p: "pend (del_from_pending E t s) = ?d" by (simp add: del_from_pending_def pend_delitem_def)
  show ?thesis
    unfolding pend_ok_def p del_from_pending_index(2)[OF ok(3)] refs eq
    using ok kd del_from_pending_index(1)[OF ok(3)] by simp
qed

lemma del_from_pending_fields [simp]:
  "db (del_from_pending E t s) = db s" "pub_outs (del_from_pending E t s) = pub_outs s"
  "mempool (del_from_pending E t s) = mempool s" "current_time (del_from_pending E t s) = current_time s"
  "block_queue (del_from_pending E t s) = block_queue s" "processing (del_from_pending E t s) = processing s"
  "processing_block (del_from_pending E t s) = processing_block s"
  "mempool_list (del_from_pending E t s) = mempool_list s"
  "txns_processed (del_from_pending E t s) = txns_processed s"
  "txns_accepted (del_from_pending E t s) = txns_accepted s"
  "current_block (del_from_pending E t s) = current_block s"
  "missing_txns (del_from_pending E t s) = missing_txns s"
  "pend (del_from_pending E t s) = store_del (txid t) (pend s)"
  by (simp_all add: del_from_pending_def pend_delitem_def)

lemma remove_from_mempool_fields [simp]:
  "db (remove_from_mempool i s) = db s" "pub_outs (remove_from_mempool i s) = pub_outs s"
  "pend (remove_from_mempool i s) = pend s" "pub_outs_pend (remove_from_mempool i s) = pub_outs_pend s"
  "current_time (remove_from_mempool i s) = current_time s"
  "block_queue (remove_from_mempool i s) = block_queue s" "processing (remove_from_mempool i s) = processing s"
  "processing_block (remove_from_mempool i s) = processing_block s"
  "txns_processed (remove_from_mempool i s) = txns_processed s"
  "txns_accepted (remove_from_mempool i s) = txns_accepted s"
  "current_block (remove_from_mempool i s) = current_block s"
  "missing_txns (remove_from_mempool i s) = missing_txns s"
  "mempool (remove_from_mempool i s) = mempool_delitem i (mempool s)"
  by (simp_all add: remove_from_mempool_def)

lemma remove_invalid_fields [simp]:
  "db (remove_invalid_txn_from_mempool i s) = db s"
  "pub_outs (remove_invalid_txn_from_mempool i s) = pub_outs s"
  "pend (remove_invalid_txn_from_mempool i s) = pend s"
  "pub_outs_pend (remove_invalid_txn_from_mempool i s) = pub_outs_pend s"
  "current_time (remove_invalid_txn_from_mempool i s) = current_time s"
  "block_queue (remove_invalid_txn_from_mempool i s) = block_queue s"
  "processing (remove_invalid_txn_from_mempool i s) = processing s"
  "processing_block (remove_invalid_txn_from_mempool i s) = processing_block s"
  "txns_processed (remove_invalid_txn_from_mempool i s) = txns_processed s"
  "txns_accepted (remove_invalid_txn_from_mempool i s) = txns_accepted s"
  "current_block (remove_invalid_txn_from_mempool i s) = current_block s"
  "missing_txns (remove_invalid_txn_from_mempool i s) = missing_txns s"
  "mempool (remove_invalid_txn_from_mempool i s) = mempool_delitem i (mempool s)"
  by (simp_all add: remove_invalid_txn_from_mempool_def)

end
