(* ===== verification/LedgerValue.thy ===== *)
theory LedgerValue
  imports LedgerInv
begin

text \<open>
  The value of the ledger: the amounts of the unspent outputs of the database and of all
  outputs of the pending transactions. The main result is that a block leaves it unchanged
  as long as no transaction lists an input twice.
\<close>

section \<open>Values\<close>

definition txn_amount :: "transaction \<Rightarrow> int" where
  "txn_amount t = sum_list (map amount (outputs t))"

definition unspent_amount :: "txn_wrapper \<Rightarrow> int" where
  "unspent_amount w =
     (\<Sum>i<length (outputs (txn w)). if utxos w ! i then amount (outputs (txn w) ! i) else 0)"

definition db_value :: "storage \<Rightarrow> int" where
  "db_value s = kv.total (\<lambda>_. unspent_amount) (db s)"

definition pend_value :: "storage \<Rightarrow> int" where
  "pend_value s = kv.total (\<lambda>_ w. txn_amount (txn w)) (pend s)"

definition ledger_value :: "storage \<Rightarrow> int" where
  "ledger_value s = db_value s + pend_value s"

lemma unspent_amount_mark:
  assumes "j < length (outputs (txn w))" and "length (utxos w) = length (outputs (txn w))"
  shows "unspent_amount (mark_spent j w) =
    unspent_amount w - (if utxos w ! j then amount (outputs (txn w) ! j) else 0)"
proof -
  let ?n = "length (outputs (txn w))"
  let ?f = "\<lambda>w i. if utxos w ! i then amount (outputs (txn w) ! i) else 0"
  have f: "finite {..<?n}" and j: "j \<in> {..<?n}" using assms(1) by auto
  have "(\<Sum>i\<in>{..<?n} - {j}. ?f (mark_spent j w) i) = (\<Sum>i\<in>{..<?n} - {j}. ?f w i)"
    by (rule sum.cong) (auto simp: nth_list_update)
  moreover have "?f (mark_spent j w) j = 0" using assms by simp
  ultimately show ?thesis
    unfolding unspent_amount_def
    using sum.remove[OF f j, of "?f w"] sum.remove[OF f j, of "?f (mark_spent j w)"] by simp
qed

lemma unspent_amount_new: "unspent_amount (TxnWrapper t ts None) = txn_amount t"
  by (simp add: unspent_amount_def txn_amount_def sum_list_sum_nth atLeast0LessThan)

section \<open>Spending\<close>

lemma input_unspent_pos:
  assumes "store_get (db s) (inp_txid inp) = Some w" and "py_pos (outputs (txn w)) (inp_index inp) = Some j"
    and "length (utxos w) = length (outputs (txn w))"
  shows "input_unspent s inp \<longleftrightarrow> utxos w ! j"
  using assms py_pos_cong_length[OF assms(3), of "inp_index inp"]
  by (simp add: input_unspent_def storage_get_def py_get_def)

text \<open>
  A relation between two states of the database that spending and new records respect: no
  record goes away or changes its transaction, no flag is set again.
\<close>

definition db_grows :: "storage \<Rightarrow> storage \<Rightarrow> bool" where
  "db_grows s s' \<longleftrightarrow>
     (\<forall>k w. store_get (db s) k = Some w \<longrightarrow>
        (\<exists>w'. store_get (db s') k = Some w' \<and> txn w' = txn w \<and> timestamp w' = timestamp w \<and>
           length (utxos w') = length (utxos w) \<and> (\<forall>i. i < length (utxos w) \<longrightarrow> utxos w' ! i \<longrightarrow> utxos w ! i)))"

lemma db_growsD:
  assumes "db_grows s s'" and "store_get (db s) k = Some w"
  obtains w' where "store_get (db s') k = Some w'" "txn w' = txn w" "timestamp w' = timestamp w"
    "length (utxos w') = length (utxos w)" "\<And>i. i < length (utxos w) \<Longrightarrow> utxos w' ! i \<Longrightarrow> utxos w ! i"
  using assms unfolding db_grows_def by blast

lemma db_grows_refl [simp]: "db s' = db s \<Longrightarrow> db_grows s s'"
  by (simp add: db_grows_def)

lemma db_grows_trans:
  assumes "db_grows s t" and "db_grows t u"
  shows "db_grows s u"
  unfolding db_grows_def
proof (intro allI impI)
  fix k w assume "store_get (db s) k = Some w"
  with assms(1) obtain w1 where 1: "store_get (db t) k = Some w1" "txn w1 = txn w" "timestamp w1 = timestamp w"
    "length (utxos w1) = length (utxos w)" "\<And>i. i < length (utxos w) \<Longrightarrow> utxos w1 ! i \<Longrightarrow> utxos w ! i"
    using db_growsD by metis
  with assms(2) obtain w2 where 2: "store_get (db u) k = Some w2" "txn w2 = txn w1" "timestamp w2 = timestamp w1"
    "length (utxos w2) = length (utxos w1)" "\<And>i. i < length (utxos w1) \<Longrightarrow> utxos w2 ! i \<Longrightarrow> utxos w1 ! i"
    using db_growsD[OF assms(2) 1(1)] by metis
  from 1 2 show "\<exists>w'. store_get (db u) k = Some w' \<and> txn w' = txn w \<and> timestamp w' = timestamp w \<and>
      length (utxos w') = length (utxos w) \<and> (\<forall>i. i < length (utxos w) \<longrightarrow> utxos w' ! i \<longrightarrow> utxos w ! i)"
    by (intro exI[of _ w2]) auto
qed

lemma flag_mono: "us[j := False] ! i \<Longrightarrow> i < length us \<Longrightarrow> us ! i"
  by (cases "i = j") auto

lemma db_grows_mark:
  "store_get (db s) k = Some w \<Longrightarrow> db s' = store_put k (mark_spent j w) (db s) \<Longrightarrow> db_grows s s'"
  by (auto simp: db_grows_def dest: flag_mono)

lemma db_grows_new: "store_get (db s) k = None \<Longrightarrow> db s' = store_put k w (db s) \<Longrightarrow> db_grows s s'"
  by (auto simp: db_grows_def)

lemma db_grows_output:
  assumes "db_grows s s'" and "spent_output s inp = Some (w, out)"
  obtains w' where "spent_output s' inp = Some (w', out)" and "timestamp w' = timestamp w"
proof -
  have w: "store_get (db s) (inp_txid inp) = Some w" and out: "py_get (outputs (txn w)) (inp_index inp) = Some out"
    using assms(2) by (auto simp: spent_output_def storage_get_def split: option.splits)
  from assms(1) w obtain w' where "store_get (db s') (inp_txid inp) = Some w'" "txn w' = txn w" "timestamp w' = timestamp w"
    using db_growsD by metis
  with out show thesis by (intro that[of w']) (simp_all add: spent_output_def storage_get_def)
qed

lemma db_grows_amount:
  "db_grows s s' \<Longrightarrow> spent_output s inp \<noteq> None \<Longrightarrow> input_amount s' inp = input_amount s inp"
  by (auto simp: input_amount_def elim!: db_grows_output)

lemma db_grows_spent:
  assumes "db_grows s s'" and "spent_output s inp \<noteq> None" and "flags_ok (db s)" and "\<not> input_unspent s inp"
  shows "\<not> input_unspent s' inp"
proof -
  obtain w j where w: "store_get (db s) (inp_txid inp) = Some w"
    and j: "py_pos (outputs (txn w)) (inp_index inp) = Some j"
    using assms(2) by (auto simp: spent_output_def storage_get_def py_get_def split: option.splits)
  have len: "length (utxos w) = length (outputs (txn w))" using assms(3) w by (rule flags_okD)
  from assms(1) w obtain w' where w': "store_get (db s') (inp_txid inp) = Some w'" "txn w' = txn w"
    "length (utxos w') = length (utxos w)" "\<And>i. i < length (utxos w) \<Longrightarrow> utxos w' ! i \<Longrightarrow> utxos w ! i"
    using db_growsD by metis
  have "\<not> utxos w ! j" using assms(4) input_unspent_pos[OF w j len] by simp
  moreover have "input_unspent s' inp \<longleftrightarrow> utxos w' ! j"
    using w' j len by (intro input_unspent_pos) simp_all
  ultimately show ?thesis using w'(4) py_pos_bound[OF j] len by auto
qed

text \<open>What one round does to the value, to its own input and to the others.\<close>

lemma spend_input_value:
  assumes "db_ok E s" and "spend_input E inp s = (Inr (), s')"
  shows "db_grows s s'" and "spent_output s inp \<noteq> None" and "\<not> input_unspent s' inp"
    and "db_value s' = db_value s - (if input_unspent s inp then input_amount s inp else 0)"
    and "\<And>y. 0 \<le> inp_index inp \<Longrightarrow> 0 \<le> inp_index y \<Longrightarrow> comparable_input y \<noteq> comparable_input inp
      \<Longrightarrow> input_unspent s' y = input_unspent s y"
proof -
  have fl: "flags_ok (db s)" and sok: "store_ok (db s)" using assms(1) by (simp_all add: db_ok_def)
  have "spent_output s inp \<noteq> None"
    using spend_input_None[OF fl, of inp E] assms(2) by (metis Inl_Inr_False prod.inject)
  then obtain w out where so: "spent_output s inp = Some (w, out)" by auto
  obtain j where j: "store_get (db s) (inp_txid inp) = Some w"
    "py_pos (outputs (txn w)) (inp_index inp) = Some j" "out = outputs (txn w) ! j"
    "j < length (outputs (txn w))" "length (utxos w) = length (outputs (txn w))"
    and st: "spend_input E inp s = (Inr (), s\<lparr>db := store_put (inp_txid inp) (mark_spent j w) (db s),
        pub_outs := del_out_from_balance_index (get_pubkeys E out) (inp_txid inp) (inp_index inp) (pub_outs s)\<rparr>)"
    using spend_input_Some[OF fl so] by metis
  have db': "db s' = store_put (inp_txid inp) (mark_spent j w) (db s)"
    using st assms(2) by auto
  show "db_grows s s'" using j(1) db' by (rule db_grows_mark)
  show "spent_output s inp \<noteq> None" using so by simp
  have "store_get (db s') (inp_txid inp) = Some (mark_spent j w)" by (simp add: db')
  then show "\<not> input_unspent s' inp"
    using input_unspent_pos[of s' inp "mark_spent j w" j] j by simp
  have "db_value s' = db_value s - unspent_amount w + unspent_amount (mark_spent j w)"
    using kv.total_put[OF sok, of "\<lambda>_. unspent_amount" "inp_txid inp" "mark_spent j w"] j(1)
    by (simp add: db_value_def db')
  then show "db_value s' = db_value s - (if input_unspent s inp then input_amount s inp else 0)"
    using input_unspent_pos[OF j(1,2,5)] so j(3) unspent_amount_mark[OF j(4,5)]
    by (simp add: input_amount_def)
  fix y assume nn: "0 \<le> inp_index inp" "0 \<le> inp_index y" and ne: "comparable_input y \<noteq> comparable_input inp"
  show "input_unspent s' y = input_unspent s y"
  proof (cases "inp_txid y = inp_txid inp")
    case True
    with ne have "inp_index y \<noteq> inp_index inp" by (simp add: comparable_input_def)
    moreover have "inp_index inp = int j" using j(2) nn(1) by (auto simp: py_pos_nonneg split: if_splits)
    ultimately show ?thesis
      using True j(1) nn(2)
      by (auto simp: input_unspent_def storage_get_def db' py_get_def py_pos_nonneg nth_list_update)
  qed (simp add: input_unspent_def storage_get_def db')
qed

lemma spend_inputs_value:
  assumes "db_ok E s" and "\<forall>inp\<in>set inps. 0 \<le> inp_index inp"
    and "forE (spend_input E) inps s = (Inr (), s')"
  shows "db_grows s s' \<and> (\<forall>inp\<in>set inps. spent_output s inp \<noteq> None \<and> \<not> input_unspent s' inp) \<and>
    ((\<forall>inp\<in>set inps. \<not> input_unspent s inp) \<longrightarrow> db_value s' = db_value s) \<and>
    ((\<forall>inp\<in>set inps. input_unspent s inp) \<and> distinct (map comparable_input inps) \<longrightarrow>
       db_value s' = db_value s - sum_list (map (input_amount s) inps))"
  using assms
proof (induction inps arbitrary: s)
  case (Cons x xs)
  from Cons.prems(3) obtain s1 where x: "spend_input E x s = (Inr (), s1)"
    and xs: "forE (spend_input E) xs s1 = (Inr (), s')"
    by (auto elim: bindE_InrD)
  have ok1: "db_ok E s1" using Cons.prems(1,2) x spend_input_db_ok by auto
  have fl: "flags_ok (db s)" "flags_ok (db s1)" using Cons.prems(1) ok1 by (simp_all add: db_ok_def)
  note v = spend_input_value[OF Cons.prems(1) x]
  note ih = Cons.IH[OF ok1 _ xs]
  have IH: "db_grows s1 s'" "\<And>inp. inp \<in> set xs \<Longrightarrow> spent_output s1 inp \<noteq> None \<and> \<not> input_unspent s' inp"
    "(\<forall>inp\<in>set xs. \<not> input_unspent s1 inp) \<longrightarrow> db_value s' = db_value s1"
    "(\<forall>inp\<in>set xs. input_unspent s1 inp) \<and> distinct (map comparable_input xs) \<longrightarrow>
       db_value s' = db_value s1 - sum_list (map (input_amount s1) xs)"
    using ih Cons.prems(2) by auto
  have same: "same_txns (db s) (db s1)"
    using spend_input_ledger_step[OF fl(1) x] by (rule ledger_step_same)
  have so: "spent_output s1 inp \<noteq> None \<longleftrightarrow> spent_output s inp \<noteq> None" for inp
    using same_txns_None[OF same, of "inp_txid inp"] same_txns_Some[OF same, of "inp_txid inp"]
    by (cases "store_get (db s) (inp_txid inp)") (auto simp: spent_output_def storage_get_def)
  have "spent_output s1 x \<noteq> None" using v(2) so by blast
  with IH(1) fl(2) v(3) have "\<not> input_unspent s' x" using db_grows_spent by blast
  moreover have "db_value s' = db_value s" if "\<forall>inp\<in>set (x # xs). \<not> input_unspent s inp"
  proof -
    have "\<forall>inp\<in>set xs. \<not> input_unspent s1 inp"
      using that IH(2) so db_grows_spent[OF v(1) _ fl(1)] by auto
    with IH(3) that v(4) show ?thesis by simp
  qed
  moreover have "db_value s' = db_value s - sum_list (map (input_amount s) (x # xs))"
    if all: "\<forall>inp\<in>set (x # xs). input_unspent s inp" and d: "distinct (map comparable_input (x # xs))"
  proof -
    have "\<forall>inp\<in>set xs. input_unspent s1 inp"
      using all d v(5) Cons.prems(2) by (auto simp: image_iff)
    moreover have "sum_list (map (input_amount s1) xs) = sum_list (map (input_amount s) xs)"
      using IH(2) so db_grows_amount[OF v(1)] by (intro arg_cong[where f = sum_list] map_cong) auto
    ultimately show ?thesis using IH(4) d v(4) all by simp
  qed
  ultimately show ?case
    using db_grows_trans[OF v(1) IH(1)] IH(2) so v(2) by auto
qed simp

section \<open>The invariant of the ledger\<close>

text \<open>
  What is asked of a transaction from the network: no input twice, indices that do not count
  from the end, and an id that is not the dummy id.
\<close>

definition wf_txn :: "env \<Rightarrow> transaction \<Rightarrow> bool" where
  "wf_txn E t \<longleftrightarrow> distinct (map comparable_input (inputs t)) \<and>
     (\<forall>inp\<in>set (inputs t). 0 \<le> inp_index inp) \<and> txid t \<noteq> no_hash E"

text \<open>The inputs of a transaction name outputs of the database that are spent already.\<close>

definition inputs_held :: "storage \<Rightarrow> transaction \<Rightarrow> bool" where
  "inputs_held s t \<longleftrightarrow>
     (\<forall>inp\<in>set (inputs t). spent_output s inp \<noteq> None \<and> \<not> input_unspent s inp) \<and>
     sum_list (map (input_amount s) (inputs t)) = txn_amount t"

definition pend_inv :: "env \<Rightarrow> storage \<Rightarrow> bool" where
  "pend_inv E s \<longleftrightarrow>
     (\<forall>k w. store_get (pend s) k = Some w \<longrightarrow> wf_txn E (txn w) \<and> inputs_held s (txn w)) \<and>
     (\<forall>k w k' w'. store_get (pend s) k = Some w \<and> store_get (pend s) k' = Some w' \<and>
        same_inputs (txn w) (txn w') \<longrightarrow> k = k')"

text \<open>
  The id of a transaction commits to its inputs and its sequence number, so a mempool entry
  with the id of a pending transaction agrees with it.
\<close>

definition mempool_ok :: "env \<Rightarrow> storage \<Rightarrow> bool" where
  "mempool_ok E s \<longleftrightarrow>
     (\<forall>k t. store_get (mempool s) k = Some t \<longrightarrow> txid t = k \<and> wf_txn E t \<and>
        (\<forall>w. store_get (pend s) k = Some w \<longrightarrow> same_inputs (txn w) t \<and> seq (txn w) = seq t))"

definition ledger_inv :: "env \<Rightarrow> storage \<Rightarrow> bool" where
  "ledger_inv E s \<longleftrightarrow> db_ok E s \<and> pend_ok E s \<and> pend_inv E s \<and> mempool_ok E s \<and>
     store_get (db s) (no_hash E) = None"

lemma same_inputs_refl [simp]: "same_inputs t t"
  by (simp add: same_inputs_def)

lemma same_inputs_sym: "same_inputs t u \<Longrightarrow> same_inputs u t"
  by (simp add: same_inputs_def)

lemma same_inputs_trans: "same_inputs t u \<Longrightarrow> same_inputs u v \<Longrightarrow> same_inputs t v"
  by (simp add: same_inputs_def)

text \<open>What an input names depends on its reference only.\<close>

lemma comparable_cong:
  assumes "comparable_input x = comparable_input y"
  shows "spent_output s x = spent_output s y" "input_unspent s x = input_unspent s y"
    "input_amount s x = input_amount s y"
proof -
  have eq: "inp_txid x = inp_txid y" "inp_index x = inp_index y"
    using assms by (simp_all add: comparable_input_def)
  show "spent_output s x = spent_output s y" "input_unspent s x = input_unspent s y"
    "input_amount s x = input_amount s y"
    unfolding spent_output_def input_unspent_def input_amount_def eq by (rule refl)+
qed

lemma same_inputsD:
  assumes "same_inputs t u" and "x \<in> set (inputs t)"
  shows "\<exists>y\<in>set (inputs u). comparable_input y = comparable_input x"
proof -
  have "comparable_input x \<in> comparable_input ` set (inputs u)"
    using assms by (auto simp: same_inputs_def)
  then show ?thesis by force
qed

lemma same_inputs_amount:
  assumes "same_inputs t u" and "distinct (map comparable_input (inputs t))"
    and "distinct (map comparable_input (inputs u))"
  shows "sum_list (map (input_amount s) (inputs t)) = sum_list (map (input_amount s) (inputs u))"
proof -
  define g where "g c = input_amount s (undefined\<lparr>inp_txid := fst c, inp_index := snd c\<rparr>)" for c
  have g: "input_amount s = g \<circ> comparable_input"
    unfolding g_def comp_def by (rule ext, rule comparable_cong(3)) (simp add: comparable_input_def)
  have "sum_list (map (input_amount s) (inputs v)) = sum g (set (map comparable_input (inputs v)))"
    if "distinct (map comparable_input (inputs v))" for v
    unfolding g map_map[symmetric] using that by (rule sum_list_distinct_conv_sum_set)
  with assms show ?thesis unfolding same_inputs_def by metis
qed

lemma same_inputs_held:
  assumes "same_inputs t u" and "inputs_held s u"
  shows "\<forall>inp\<in>set (inputs t). \<not> input_unspent s inp"
  using assms same_inputsD[OF assms(1)] comparable_cong unfolding inputs_held_def by metis

lemma inputs_held_grows:
  assumes "inputs_held s t" and "db_grows s s'" and "flags_ok (db s)"
  shows "inputs_held s' t"
proof -
  have so: "spent_output s' inp \<noteq> None" if "spent_output s inp \<noteq> None" for inp
  proof -
    from that obtain w out where "spent_output s inp = Some (w, out)" by auto
    with assms(2) show ?thesis by (rule db_grows_output) simp
  qed
  have "map (input_amount s') (inputs t) = map (input_amount s) (inputs t)"
    using assms(1) db_grows_amount[OF assms(2)] by (auto simp: inputs_held_def)
  with assms so db_grows_spent[OF assms(2) _ assms(3)] show ?thesis
    unfolding inputs_held_def by metis
qed

lemma ledger_inv_cong:
  assumes "ledger_inv E s" and "db s' = db s" "pub_outs s' = pub_outs s" "pend s' = pend s"
    "pub_outs_pend s' = pub_outs_pend s"
    and "\<And>k t. store_get (mempool s') k = Some t \<Longrightarrow> store_get (mempool s) k = Some t"
  shows "ledger_inv E s'"
proof -
  have eq: "spent_output s' = spent_output s" "input_unspent s' = input_unspent s" "input_amount s' = input_amount s"
    by (simp_all add: fun_eq_iff spent_output_def input_unspent_def input_amount_def storage_get_def assms(2))
  show ?thesis
    using assms(1,6)
    unfolding ledger_inv_def db_ok_def pend_ok_def pend_inv_def mempool_ok_def inputs_held_def eq assms(2-5)
    by blast
qed

lemma ledger_value_cong: "db s' = db s \<Longrightarrow> pend s' = pend s \<Longrightarrow> ledger_value s' = ledger_value s"
  by (simp add: ledger_value_def db_value_def pend_value_def)

section \<open>The operations keep it\<close>

lemma del_from_pending_inv:
  assumes "ledger_inv E s" and "store_get (pend s) (txid t) = Some w" and "txn w = t"
  shows "ledger_inv E (del_from_pending E t s)"
    and "ledger_value (del_from_pending E t s) = ledger_value s - txn_amount t"
proof -
  let ?s = "del_from_pending E t s"
  have eq: "spent_output ?s = spent_output s" "input_unspent ?s = input_unspent s" "input_amount ?s = input_amount s"
    by (simp_all add: fun_eq_iff spent_output_def input_unspent_def input_amount_def storage_get_def)
  have "pend_ok E ?s" using assms by (intro del_from_pending_pend_ok) (simp_all add: ledger_inv_def)
  moreover have "pend_inv E ?s" using assms(1)
    by (auto simp: ledger_inv_def pend_inv_def inputs_held_def eq)
  moreover have "mempool_ok E ?s" using assms(1)
    by (auto simp: ledger_inv_def mempool_ok_def)
  ultimately show "ledger_inv E ?s" using assms(1) by (simp add: ledger_inv_def db_ok_def)
  have "store_ok (pend s)" using assms(1) by (simp add: ledger_inv_def pend_ok_def)
  then show "ledger_value ?s = ledger_value s - txn_amount t"
    using assms(2,3) by (simp add: ledger_value_def pend_value_def db_value_def kv.total_del)
qed

lemma spend_inputs_inv:
  assumes "ledger_inv E s" and "\<forall>inp\<in>set inps. 0 \<le> inp_index inp"
    and "forE (spend_input E) inps s = (Inr (), s')"
  shows "ledger_inv E s'"
proof -
  from assms(1) have ok: "db_ok E s" and fl: "flags_ok (db s)" by (simp_all add: ledger_inv_def db_ok_def)
  have st: "ledger_step s s'" using fl assms(3) by (rule spend_inputs_ledger_step)
  have gr: "db_grows s s'" using spend_inputs_value[OF ok assms(2,3)] by blast
  note f = ledger_step_fields[OF st]
  have "db_ok E s'" using ok assms(2,3) by (rule spend_inputs_db_ok)
  moreover have "pend_ok E s'" using assms(1) by (simp add: ledger_inv_def pend_ok_def f)
  moreover have "pend_inv E s'" using assms(1) inputs_held_grows[OF _ gr fl]
    unfolding ledger_inv_def pend_inv_def f by blast
  moreover have "mempool_ok E s'" using assms(1) by (simp add: ledger_inv_def mempool_ok_def f)
  moreover have "store_get (db s') (no_hash E) = None"
    using assms(1) same_txns_None[OF ledger_step_same[OF st]] by (simp add: ledger_inv_def)
  ultimately show ?thesis by (simp add: ledger_inv_def)
qed

lemma add_record_inv:
  assumes "ledger_inv E s" and "store_get (db s) (txid t) = None" and "txid t \<noteq> no_hash E"
  shows "ledger_inv E (add_record E t ts s)"
    and "ledger_value (add_record E t ts s) = ledger_value s + txn_amount t"
proof -
  let ?s = "add_record E t ts s"
  from assms(1) have ok: "db_ok E s" and fl: "flags_ok (db s)" by (simp_all add: ledger_inv_def db_ok_def)
  have gr: "db_grows s ?s" using assms(2) by (rule db_grows_new) (simp add: add_record_def)
  have f: "pend ?s = pend s" "pub_outs_pend ?s = pub_outs_pend s" "mempool ?s = mempool s"
    by (simp_all add: add_record_def)
  have "db_ok E ?s" using ok assms(2) by (rule add_record_db_ok)
  moreover have "pend_ok E ?s" using assms(1) by (simp add: ledger_inv_def pend_ok_def f)
  moreover have "pend_inv E ?s" using assms(1) inputs_held_grows[OF _ gr fl]
    unfolding ledger_inv_def pend_inv_def f by blast
  moreover have "mempool_ok E ?s" using assms(1) by (simp add: ledger_inv_def mempool_ok_def f)
  moreover have "store_get (db ?s) (no_hash E) = None"
    using assms(1,3) by (simp add: ledger_inv_def add_record_def)
  ultimately show "ledger_inv E ?s" by (simp add: ledger_inv_def)
  show "ledger_value ?s = ledger_value s + txn_amount t"
    using ok assms(2) by (simp add: ledger_value_def db_value_def pend_value_def add_record_def db_ok_def
        kv.total_put unspent_amount_new)
qed

lemma add_pending_inv:
  assumes "ledger_inv E s" and "store_get (pend s) (txid t) = None" and "wf_txn E t" and "inputs_held s t"
    and "\<forall>k w. store_get (pend s) k = Some w \<longrightarrow> \<not> same_inputs (txn w) t"
    and "store_get (mempool s) (txid t) = Some t"
  shows "ledger_inv E (add_pending E t ts s)"
    and "ledger_value (add_pending E t ts s) = ledger_value s + txn_amount t"
proof -
  let ?s = "add_pending E t ts s"
  have eq: "spent_output ?s = spent_output s" "input_unspent ?s = input_unspent s" "input_amount ?s = input_amount s"
    by (simp_all add: fun_eq_iff spent_output_def input_unspent_def input_amount_def storage_get_def add_pending_def)
  have p: "pend ?s = store_put (txid t) (TxnWrapper t ts None) (pend s)"
    by (simp add: add_pending_def pend_setitem_def)
  have f: "db ?s = db s" "pub_outs ?s = pub_outs s" "mempool ?s = mempool s"
    by (simp_all add: add_pending_def)
  have "pend_ok E ?s" using assms(1,2) by (intro add_pending_pend_ok) (simp_all add: ledger_inv_def)
  moreover have "pend_inv E ?s"
  proof -
    have held: "inputs_held ?s u = inputs_held s u" for u by (simp add: inputs_held_def eq)
    have inv: "wf_txn E (txn w) \<and> inputs_held s (txn w)" if "store_get (pend s) k = Some w" for k w
      using assms(1) that by (simp add: ledger_inv_def pend_inv_def)
    have apart: "k = k'" if "store_get (pend s) k = Some w" "store_get (pend s) k' = Some w'"
      "same_inputs (txn w) (txn w')" for k k' w w'
      using assms(1) that unfolding ledger_inv_def pend_inv_def by blast
    have "\<not> same_inputs t (txn w)" if "store_get (pend s) k = Some w" for k w
      using assms(5) that same_inputs_sym by blast
    with assms(3-5) inv apart show ?thesis
      unfolding pend_inv_def held p by (simp add: split: if_split) blast
  qed
  moreover have "mempool_ok E ?s"
    unfolding mempool_ok_def f
  proof (intro allI impI)
    fix k u assume u: "store_get (mempool s) k = Some u"
    have "mempool_ok E s" using assms(1) by (simp add: ledger_inv_def)
    then have mp: "txid u = k \<and> wf_txn E u"
      "\<And>w. store_get (pend s) k = Some w \<Longrightarrow> same_inputs (txn w) u \<and> seq (txn w) = seq u"
      using u unfolding mempool_ok_def by blast+
    have "same_inputs (txn w) u \<and> seq (txn w) = seq u" if w: "store_get (pend ?s) k = Some w" for w
    proof (cases "k = txid t")
      case True
      with u assms(6) have "u = t" by simp
      with w True show ?thesis by (auto simp: p)
    next
      case False
      with w mp(2) show ?thesis by (simp add: p)
    qed
    with mp(1) show "txid u = k \<and> wf_txn E u \<and>
        (\<forall>w. store_get (pend ?s) k = Some w \<longrightarrow> same_inputs (txn w) u \<and> seq (txn w) = seq u)" by blast
  qed
  ultimately show "ledger_inv E ?s" using assms(1) by (simp add: ledger_inv_def db_ok_def f)
  show "ledger_value ?s = ledger_value s + txn_amount t"
    using assms(1,2) by (simp add: ledger_value_def db_value_def pend_value_def f p ledger_inv_def pend_ok_def
        kv.total_put)
qed

text \<open>Spending and recording a pending transaction touch different fields.\<close>

lemma spend_input_add_pending:
  "spend_input E inp (add_pending E t ts s) = apsnd (add_pending E t ts) (spend_input E inp s)"
  by (simp add: spend_input_def storage_getitem_def storage_get_def storage_setitem_def add_pending_def
      Let_def split: option.split)

lemma spend_inputs_add_pending:
  "forE (spend_input E) inps (add_pending E t ts s) = apsnd (add_pending E t ts) (forE (spend_input E) inps s)"
  by (induction inps arbitrary: s)
     (simp_all add: bindE_def spend_input_add_pending split: prod.split sum.split)

end
