(* ===== verification/BlockProps.thy ===== *)
theory BlockProps
  imports LedgerValue
begin

text \<open>
  What the block pipeline of \<open>Blocks\<close> does to the ledger: the invariant and the value are
  kept by a block, the pending set is settled by \<open>update_pend\<close>, the flags of the pipeline
  follow the block, and an exception stops it.
\<close>

section \<open>An accepted transaction\<close>

lemma no_dummy_inputs:
  assumes "store_get (db s) (no_hash E) = None" and "\<forall>inp\<in>set (inputs t). spent_output s inp \<noteq> None"
  shows "real_inputs E t = inputs t"
proof -
  have "inp_txid inp \<noteq> no_hash E" if "inp \<in> set (inputs t)" for inp
    using assms that by (auto simp: spent_output_def storage_get_def)
  then show ?thesis by (simp add: real_inputs_def)
qed

text \<open>
  The state in which an acceptable transaction is written: a replaced one is out of the
  pending set, the id is free there, and no pending transaction has the same inputs.
\<close>

lemma verify_txn_accepted:
  assumes inv: "ledger_inv E s" and mp: "store_get (mempool s) (txid t) = Some t"
    and v: "verify_txn E True t s = (Inr True, s1)"
  obtains n where "acceptable E s t" "ledger_inv E s1" "ledger_value s1 = ledger_value s - n"
    "db s1 = db s" "mempool s1 = mempool s"
    "store_get (pend s1) (txid t) = None"
    "\<forall>k w. store_get (pend s1) k = Some w \<longrightarrow> \<not> same_inputs (txn w) t"
    "(\<forall>inp\<in>set (real_inputs E t). input_unspent s inp) \<and> n = 0 \<or>
     (\<forall>inp\<in>set (inputs t). \<not> input_unspent s inp) \<and> n = sum_list (map (input_amount s) (inputs t))"
proof -
  have acc: "acceptable E s t" using v verify_txn_acceptable[of E t s] by simp
  have s1: "s1 = (case check_pend_replacement s t of Replaces tx \<Rightarrow> del_from_pending E tx s | _ \<Rightarrow> s)"
    using verify_txn_state[OF v] by simp
  from inv have pinv: "pend_inv E s" and sok: "store_ok (pend s)" and kp: "keyed (pend s)" and mok: "mempool_ok E s"
    by (simp_all add: ledger_inv_def pend_ok_def)
  have wf: "wf_txn E t" and agree: "\<And>w. store_get (pend s) (txid t) = Some w \<Longrightarrow> same_inputs (txn w) t \<and> seq (txn w) = seq t"
    using mok mp unfolding mempool_ok_def by blast+
  have apart: "k = k'" if "store_get (pend s) k = Some w" "store_get (pend s) k' = Some w'"
      "same_inputs (txn w) (txn w')" for k k' w w'
    using pinv that unfolding pend_inv_def by blast
  note spec = check_pend_loop_spec[of s t "store_items (pend s)", folded check_pend_replacement_def]
  have nc: "\<not> same_inputs (txn w) t" if "check_pend_replacement s t = No_conflict" "store_get (pend s) k = Some w" for k w
    using spec that kv.items_get[OF sok] by fastforce
  show thesis
  proof (cases "check_pend_replacement s t")
    case No_conflict
    have "store_get (pend s) (txid t) = None"
      using agree nc[OF No_conflict] by (cases "store_get (pend s) (txid t)") auto
    with acc inv nc No_conflict show thesis
      by (intro that[of 0]) (auto simp: s1 acceptable_def)
  next
    case Blocked
    with acc show thesis by (simp add: acceptable_def)
  next
    case (Replaces tx)
    then obtain k w where kw: "store_get (pend s) k = Some w" "txn w = tx" "same_inputs tx t" "seq tx < seq t"
      using spec[of tx] kv.items_get[OF sok] by auto
    have k: "k = txid tx" using kp kw(1,2) by (auto simp: keyed_def)
    have other: "k' = k" if "store_get (pend s) k' = Some w'" "same_inputs (txn w') t" for k' w'
      using apart[OF that(1) kw(1)] that(2) kw(2,3) same_inputs_trans same_inputs_sym by blast
    have free: "store_get (store_del k (pend s)) (txid t) = None"
    proof (cases "store_get (pend s) (txid t)")
      case (Some u)
      with agree[OF Some] other[OF Some] kw show ?thesis by auto
    qed simp
    have held: "inputs_held s tx" and wx: "wf_txn E tx" using pinv kw(1,2) unfolding pend_inv_def by blast+
    have val: "txn_amount tx = sum_list (map (input_amount s) (inputs t))"
      using held same_inputs_amount[OF kw(3)] wx wf by (simp add: inputs_held_def wf_txn_def)
    have unsp: "\<forall>inp\<in>set (inputs t). \<not> input_unspent s inp"
      using same_inputs_held[OF same_inputs_sym[OF kw(3)] held] .
    have s1': "s1 = del_from_pending E tx s" by (simp add: s1 Replaces)
    show thesis
    proof (rule that[of "txn_amount tx"])
      show "\<forall>k' w'. store_get (pend s1) k' = Some w' \<longrightarrow> \<not> same_inputs (txn w') t"
        using other k by (auto simp: s1' split: if_splits)
    qed (use acc free del_from_pending_inv[OF inv kw(1)[unfolded k] kw(2)] val unsp in \<open>auto simp: s1' k\<close>)
  qed
qed

text \<open>Writing it restores the value that left the inputs.\<close>

lemma spend_accepted:
  assumes inv: "ledger_inv E s1" and wf: "wf_txn E t"
    and st: "forE (spend_input E) (inputs t) s1 = (Inr (), s2)"
    and bal: "sum_list (map (input_amount s1) (real_inputs E t)) = txn_amount t"
    and un: "(\<forall>inp\<in>set (real_inputs E t). input_unspent s1 inp) \<and> n = 0 \<or>
      (\<forall>inp\<in>set (inputs t). \<not> input_unspent s1 inp) \<and> n = sum_list (map (input_amount s1) (inputs t))"
  shows "ledger_inv E s2" and "ledger_value s2 = ledger_value s1 + n - txn_amount t" and "inputs_held s2 t"
proof -
  have nn: "\<forall>inp\<in>set (inputs t). 0 \<le> inp_index inp" using wf by (simp add: wf_txn_def)
  from inv have ok: "db_ok E s1" and fl: "flags_ok (db s1)" by (simp_all add: ledger_inv_def db_ok_def)
  note v = spend_inputs_value[OF ok nn st]
  have gr: "db_grows s1 s2" using v by blast
  have real: "real_inputs E t = inputs t"
    using inv v by (intro no_dummy_inputs) (auto simp: ledger_inv_def)
  show inv2: "ledger_inv E s2" using inv nn st by (rule spend_inputs_inv)
  have so: "spent_output s2 inp \<noteq> None" if "inp \<in> set (inputs t)" for inp
  proof -
    from v that obtain w out where "spent_output s1 inp = Some (w, out)" by auto
    with gr show ?thesis by (rule db_grows_output) simp
  qed
  have "sum_list (map (input_amount s2) (inputs t)) = sum_list (map (input_amount s1) (inputs t))"
    using v db_grows_amount[OF gr] by (intro arg_cong[where f = sum_list] map_cong) auto
  with so v bal real show "inputs_held s2 t" by (simp add: inputs_held_def)
  have "pend s2 = pend s1" using spend_inputs_ledger_step[OF fl st] by (rule ledger_step_fields)
  moreover have "db_value s2 = db_value s1 + n - txn_amount t"
    using un
  proof
    assume "(\<forall>inp\<in>set (real_inputs E t). input_unspent s1 inp) \<and> n = 0"
    with v wf bal real show ?thesis by (simp add: wf_txn_def)
  next
    assume "(\<forall>inp\<in>set (inputs t). \<not> input_unspent s1 inp) \<and> n = sum_list (map (input_amount s1) (inputs t))"
    with v bal real show ?thesis by simp
  qed
  ultimately show "ledger_value s2 = ledger_value s1 + n - txn_amount t"
    by (simp add: ledger_value_def pend_value_def)
qed

lemma accept_txn_InrD:
  assumes "accept_txn E t ts s1 = (Inr (), s3)"
  obtains s2 where "forE (spend_input E) (inputs t) s1 = (Inr (), s2)"
    and "s3 = (if timelock t \<noteq> 0 then add_pending E t ts s2 else add_record E t ts s2)
                \<lparr>txns_accepted := Suc (txns_accepted s2)\<rparr>"
proof -
  obtain u where w: "(if timelock t \<noteq> 0 then write_txn_to_pend E t ts else write_txn_to_db E t ts) s1 = (Inr (), u)"
    and s3: "s3 = u\<lparr>txns_accepted := Suc (txns_accepted u)\<rparr>"
    using assms unfolding accept_txn_def by (auto elim: bindE_InrD)
  obtain r s2 where f: "forE (spend_input E) (inputs t) s1 = (r, s2)"
    by (cases "forE (spend_input E) (inputs t) s1")
  have "r = Inr () \<and> u = (if timelock t \<noteq> 0 then add_pending E t ts s2 else add_record E t ts s2)"
    using w f
    by (cases r) (auto simp: write_txn_to_db_alt write_txn_to_pend_alt spend_inputs_add_pending split: if_splits)
  moreover have "txns_accepted (add_pending E t ts s2) = txns_accepted s2"
    "txns_accepted (add_record E t ts s2) = txns_accepted s2"
    by (simp_all add: add_pending_def add_record_def)
  ultimately show thesis using f s3 by (intro that[of s2]) (auto split: if_splits)
qed

lemma accept_txn_inv:
  assumes inv: "ledger_inv E s" and mp: "store_get (mempool s) (txid t) = Some t"
    and v: "verify_txn E True t s = (Inr True, s1)" and a: "accept_txn E t ts s1 = (Inr (), s3)"
  shows "ledger_inv E s3 \<and> ledger_value s3 = ledger_value s \<and> mempool s3 = mempool s \<and> inputs_held s3 t"
proof -
  obtain n where n: "acceptable E s t" "ledger_inv E s1" "ledger_value s1 = ledger_value s - n"
    "db s1 = db s" "mempool s1 = mempool s" "store_get (pend s1) (txid t) = None"
    "\<forall>k w. store_get (pend s1) k = Some w \<longrightarrow> \<not> same_inputs (txn w) t"
    "(\<forall>inp\<in>set (real_inputs E t). input_unspent s inp) \<and> n = 0 \<or>
     (\<forall>inp\<in>set (inputs t). \<not> input_unspent s inp) \<and> n = sum_list (map (input_amount s) (inputs t))"
    using verify_txn_accepted[OF inv mp v] by blast
  obtain s2 where s2: "forE (spend_input E) (inputs t) s1 = (Inr (), s2)"
    and s3: "s3 = (if timelock t \<noteq> 0 then add_pending E t ts s2 else add_record E t ts s2)
                \<lparr>txns_accepted := Suc (txns_accepted s2)\<rparr>"
    using accept_txn_InrD[OF a] by blast
  have wf: "wf_txn E t" using inv mp unfolding ledger_inv_def mempool_ok_def by blast
  have eq: "input_unspent s1 = input_unspent s" "input_amount s1 = input_amount s"
    by (simp_all add: fun_eq_iff spent_output_def input_unspent_def input_amount_def storage_get_def n(4))
  have bal: "sum_list (map (input_amount s1) (real_inputs E t)) = txn_amount t"
    using n(1) by (simp add: acceptable_def txn_amount_def eq)
  note sp = spend_accepted[OF n(2) wf s2 bal n(8)[folded eq]]
  have st: "ledger_step s1 s2"
    using n(2) s2 by (intro spend_inputs_ledger_step) (auto simp: ledger_inv_def db_ok_def)
  note f = ledger_step_fields[OF st]
  have fresh: "store_get (db s2) (txid t) = None"
    using same_txns_None[OF ledger_step_same[OF st]] n(1,4) by (simp add: acceptable_def storage_get_def)
  let ?u = "if timelock t \<noteq> 0 then add_pending E t ts s2 else add_record E t ts s2"
  have "ledger_inv E ?u \<and> ledger_value ?u = ledger_value s2 + txn_amount t"
  proof (cases "timelock t \<noteq> 0")
    case True
    have "store_get (pend s2) (txid t) = None" "store_get (mempool s2) (txid t) = Some t"
      "\<forall>k w. store_get (pend s2) k = Some w \<longrightarrow> \<not> same_inputs (txn w) t"
      using n(5,6,7) mp f by simp_all
    with add_pending_inv[OF sp(1) _ wf sp(3)] True show ?thesis by simp
  next
    case False
    with add_record_inv[OF sp(1) fresh] wf show ?thesis by (simp add: wf_txn_def)
  qed
  moreover have "ledger_inv E s3 \<longleftrightarrow> ledger_inv E ?u" "ledger_value s3 = ledger_value ?u" "mempool s3 = mempool ?u"
    unfolding s3 by (auto intro: ledger_inv_cong ledger_value_cong elim!: ledger_inv_cong)
  moreover have "mempool ?u = mempool s" using f n(5) by (simp add: add_pending_def add_record_def)
  moreover have "db_grows s2 s3"
  proof (cases "timelock t \<noteq> 0")
    case True
    then show ?thesis by (intro db_grows_refl) (simp add: s3 add_pending_def)
  next
    case False
    with fresh show ?thesis by (rule_tac db_grows_new) (simp_all add: s3 add_record_def)
  qed
  then have "inputs_held s3 t"
    using sp(1,3) by (auto intro: inputs_held_grows simp: ledger_inv_def db_ok_def)
  ultimately show ?thesis using sp(2) n(3) by simp
qed

section \<open>The fields of the pipeline\<close>

text \<open>Processing a transaction leaves the queue, the flags and the clock to the pipeline.\<close>

definition pipe :: "storage \<Rightarrow> block list \<times> bool \<times> bool \<times> bool \<times> rat \<times> bytes list \<times> bytes list" where
  "pipe s = (block_queue s, processing s, processing_block s, adding_block s, current_time s,
     current_block s, missing_txns s)"

lemma spend_input_pipe: "spend_input E inp s = (r, s') \<Longrightarrow> pipe s' = pipe s"
  by (auto simp: spend_input_def pipe_def storage_setitem_def Let_def split: sum.splits option.splits)

lemma spend_inputs_pipe: "forE (spend_input E) inps s = (r, s') \<Longrightarrow> pipe s' = pipe s"
  using forE_inv[where I = "\<lambda>t. pipe t = pipe s" and f = "spend_input E" and xs = inps and s = s and r = r and u = s']
    spend_input_pipe by metis

lemma pipe_simps [simp]:
  "pipe (add_record E t ts s) = pipe s" "pipe (add_pending E t ts s) = pipe s"
  "pipe (del_from_pending E t s) = pipe s" "pipe (remove_from_mempool i s) = pipe s"
  "pipe (remove_invalid_txn_from_mempool i s) = pipe s" "pipe (s\<lparr>txns_accepted := n\<rparr>) = pipe s"
  "pipe (s\<lparr>txns_processed := n\<rparr>) = pipe s"
  by (simp_all add: pipe_def add_record_def add_pending_def del_from_pending_def
      remove_from_mempool_def remove_invalid_txn_from_mempool_def)

lemma write_txn_to_db_pipe: "write_txn_to_db E t ts s = (r, s') \<Longrightarrow> pipe s' = pipe s"
  by (auto simp: write_txn_to_db_alt split: prod.splits sum.splits dest: spend_inputs_pipe)

lemma write_txn_to_pend_pipe: "write_txn_to_pend E t ts s = (r, s') \<Longrightarrow> pipe s' = pipe s"
  by (auto simp: write_txn_to_pend_alt dest: spend_inputs_pipe)

lemma verify_txn_pipe: "verify_txn E cp t s = (r, s') \<Longrightarrow> pipe s' = pipe s"
  by (auto simp: verify_txn_def split: if_splits sum.splits option.splits pend_check.splits)

lemma accept_txn_pipe: "accept_txn E t ts s = (r, s') \<Longrightarrow> pipe s' = pipe s"
  by (auto simp: accept_txn_def bindE_def split: if_splits prod.splits sum.splits
      dest: write_txn_to_db_pipe write_txn_to_pend_pipe)

lemma process_txn_pipe: "process_txn E i s = (r, s') \<Longrightarrow> pipe s' = pipe s"
  by (auto simp: process_txn_def Let_def bindE_def split: option.splits if_splits prod.splits sum.splits
      dest!: verify_txn_pipe accept_txn_pipe)

lemma process_txns_pipe: "forE (process_txn E) blk s = (r, s') \<Longrightarrow> pipe s' = pipe s"
  using forE_inv[where I = "\<lambda>t. pipe t = pipe s" and f = "process_txn E" and xs = blk and s = s and r = r and u = s']
    process_txn_pipe by metis

section \<open>One transaction of a block\<close>

text \<open>The normal exit: verdict, then the state after the acceptance, then the mempool.\<close>

lemma process_txn_InrD:
  assumes "process_txn E i s = (Inr (), s')"
  obtains t b s1 s2 where "store_get (mempool s) i = Some t" "verify_txn E True t s = (Inr b, s1)"
    "(if b then accept_txn E t (py_int (current_time s * of_int TIME_MULTIPLIER)) s1 else (Inr (), s1)) = (Inr (), s2)"
    "s' = remove_from_mempool i (s2\<lparr>txns_processed := Suc (txns_processed s2)\<rparr>)"
proof (cases "mempool_getitem (mempool s) i")
  case None
  with assms show thesis by (simp add: process_txn_def)
next
  case (Some t)
  let ?ts = "py_int (current_time s * of_int TIME_MULTIPLIER)"
  from assms Some obtain b s1 where v: "verify_txn E True t s = (Inr b, s1)"
    and rest: "bindE (if b then accept_txn E t ?ts else ret ()) (\<lambda>_.
        modE (\<lambda>s1. remove_from_mempool i (s1\<lparr>txns_processed := Suc (txns_processed s1)\<rparr>))) s1 = (Inr (), s')"
    by (auto simp: process_txn_def Let_def elim: bindE_InrD)
  from rest obtain s2 where a: "(if b then accept_txn E t ?ts else ret ()) s1 = (Inr (), s2)"
    and s': "s' = remove_from_mempool i (s2\<lparr>txns_processed := Suc (txns_processed s2)\<rparr>)"
    by (auto elim: bindE_InrD)
  have "(if b then accept_txn E t ?ts s1 else (Inr (), s1)) = (Inr (), s2)"
    using a by (cases b) simp_all
  with Some v s' show thesis by (intro that) (simp_all add: mempool_getitem_def)
qed

lemma verify_txn_rejected:
  assumes "verify_txn E True t s = (Inr False, s1)"
  shows "db s1 = db s" "pub_outs s1 = pub_outs s" "pend s1 = pend s" "pub_outs_pend s1 = pub_outs_pend s"
    "mempool s1 = mempool_delitem (txid t) (mempool s)" "txns_processed s1 = txns_processed s"
  using verify_txn_state[OF assms] by (auto split: if_splits)

lemma accept_txn_fields:
  assumes "accept_txn E t ts s1 = (Inr (), s3)"
  shows "mempool s3 = mempool s1" "txns_processed s3 = txns_processed s1"
proof -
  obtain s2 where s2: "forE (spend_input E) (inputs t) s1 = (Inr (), s2)"
    and s3: "s3 = (if timelock t \<noteq> 0 then add_pending E t ts s2 else add_record E t ts s2)
                \<lparr>txns_accepted := Suc (txns_accepted s2)\<rparr>"
    using accept_txn_InrD[OF assms] by blast
  have "mempool s2 = mempool s1 \<and> txns_processed s2 = txns_processed s1"
    by (rule forE_inv[where I = "\<lambda>u. mempool u = mempool s1 \<and> txns_processed u = txns_processed s1", OF _ _ s2])
       (auto simp: spend_input_def storage_setitem_def Let_def split: sum.splits option.splits)
  then show "mempool s3 = mempool s1" "txns_processed s3 = txns_processed s1"
    by (simp_all add: s3 add_pending_def add_record_def)
qed

lemma process_txn_effect:
  assumes "ledger_inv E s" and "process_txn E i s = (Inr (), s')"
  shows "ledger_inv E s'" and "ledger_value s' = ledger_value s"
    and "mempool s' = mempool_delitem i (mempool s)" and "txns_processed s' = Suc (txns_processed s)"
proof -
  obtain t b s1 s2 where t: "store_get (mempool s) i = Some t" and v: "verify_txn E True t s = (Inr b, s1)"
    and a: "(if b then accept_txn E t (py_int (current_time s * of_int TIME_MULTIPLIER)) s1 else (Inr (), s1)) = (Inr (), s2)"
    and s': "s' = remove_from_mempool i (s2\<lparr>txns_processed := Suc (txns_processed s2)\<rparr>)"
    using process_txn_InrD[OF assms(2)] by metis
  have i: "txid t = i" using assms(1) t by (simp add: ledger_inv_def mempool_ok_def)
  have del_del: "mempool_delitem i (mempool_delitem i m) = mempool_delitem i m" for m
    by (simp add: mempool_delitem_def store_del_def)
  have s2: "ledger_inv E s2 \<and> ledger_value s2 = ledger_value s \<and>
      (mempool s2 = mempool s \<or> mempool s2 = mempool_delitem i (mempool s)) \<and> txns_processed s2 = txns_processed s"
  proof (cases b)
    case True
    from v True have vt: "verify_txn E True t s = (Inr True, s1)" by simp
    have "txns_processed s1 = txns_processed s"
      using verify_txn_state[OF vt] by (auto split: pend_check.splits)
    with accept_txn_inv[OF assms(1) _ vt, of _ s2] accept_txn_fields[of E t _ s1 s2] a True t i show ?thesis by simp
  next
    case False
    with v have vf: "verify_txn E True t s = (Inr False, s1)" by simp
    note f = verify_txn_rejected[OF vf]
    from a False have eq: "s2 = s1" by simp
    have "ledger_inv E s1"
      by (rule ledger_inv_cong[OF assms(1)]) (auto simp: f mempool_delitem_def split: if_splits)
    moreover have "ledger_value s1 = ledger_value s" by (rule ledger_value_cong) (simp_all add: f)
    ultimately show ?thesis using f eq i by simp
  qed
  show "ledger_inv E s'"
    by (rule ledger_inv_cong[OF s2[THEN conjunct1]])
       (auto simp: s' mempool_delitem_def split: if_splits)
  have "ledger_value s' = ledger_value s2" by (rule ledger_value_cong) (simp_all add: s')
  with s2 show "ledger_value s' = ledger_value s" by simp
  show "mempool s' = mempool_delitem i (mempool s)" using s2 del_del by (auto simp: s')
  show "txns_processed s' = Suc (txns_processed s)" using s2 by (simp add: s')
qed

lemma process_txns_effect:
  assumes "ledger_inv E s" and "forE (process_txn E) blk s = (Inr (), s')"
  shows "ledger_inv E s' \<and> ledger_value s' = ledger_value s \<and>
    txns_processed s' = txns_processed s + length blk \<and>
    (\<forall>i. mempool_getitem (mempool s') i = (if i \<in> set blk then None else mempool_getitem (mempool s) i))"
  using assms
proof (induction blk arbitrary: s)
  case (Cons x xs)
  from Cons.prems(2) obtain s1 where x: "process_txn E x s = (Inr (), s1)"
    and xs: "forE (process_txn E) xs s1 = (Inr (), s')"
    by (auto elim: bindE_InrD)
  note e = process_txn_effect[OF Cons.prems(1) x]
  from Cons.IH[OF e(1) xs] e show ?case by auto
qed simp

lemma process_block_InrD:
  assumes "process_block E blk s = (Inr (), s')"
  obtains s1 b q where "forE (process_txn E) blk (s\<lparr>processing_block := True\<rparr>) = (Inr (), s1)"
    "block_queue s = b # q"
    "s' = s1\<lparr>block_queue := q, current_block := [], processing := False, processing_block := False\<rparr>"
proof -
  obtain s1 where f: "forE (process_txn E) blk (s\<lparr>processing_block := True\<rparr>) = (Inr (), s1)"
    and fin: "finish_block s1 = (Inr (), s')"
    using assms by (auto simp: process_block_def bindE_modE elim: bindE_InrD)
  have "block_queue s1 = block_queue s" using process_txns_pipe[OF f] by (simp add: pipe_def)
  with fin obtain b q where "block_queue s = b # q"
    "s' = s1\<lparr>block_queue := q, current_block := [], processing := False, processing_block := False\<rparr>"
    by (auto simp: finish_block_def split: list.splits)
  with f show thesis by (rule that)
qed

lemma process_block_effect:
  assumes "ledger_inv E s" and "process_block E blk s = (Inr (), s')"
  shows "ledger_inv E s' \<and> ledger_value s' = ledger_value s \<and>
    txns_processed s' = txns_processed s + length blk \<and>
    (\<forall>i. mempool_getitem (mempool s') i = (if i \<in> set blk then None else mempool_getitem (mempool s) i)) \<and>
    block_queue s' = tl (block_queue s) \<and> current_block s' = [] \<and> \<not> processing s' \<and> \<not> processing_block s'"
proof -
  obtain s1 b q where f: "forE (process_txn E) blk (s\<lparr>processing_block := True\<rparr>) = (Inr (), s1)"
    and q: "block_queue s = b # q"
    and s': "s' = s1\<lparr>block_queue := q, current_block := [], processing := False, processing_block := False\<rparr>"
    using process_block_InrD[OF assms(2)] by metis
  have "ledger_inv E (s\<lparr>processing_block := True\<rparr>)"
    by (rule ledger_inv_cong[OF assms(1)]) simp_all
  note e = process_txns_effect[OF this f]
  have "ledger_value (s\<lparr>processing_block := True\<rparr>) = ledger_value s" by (rule ledger_value_cong) simp_all
  moreover have "ledger_value s' = ledger_value s1" by (rule ledger_value_cong) (simp_all add: s')
  moreover have "ledger_inv E s'" using e by (elim conjE, elim ledger_inv_cong) (simp_all add: s')
  ultimately show ?thesis using e q by (simp add: s')
qed

section \<open>The spending loop returns\<close>

lemma same_txns_output:
  "same_txns (db s) (db s') \<Longrightarrow> spent_output s' inp = None \<longleftrightarrow> spent_output s inp = None"
  using same_txns_None[of "db s" "db s'" "inp_txid inp"] same_txns_Some[of "db s" "db s'" "inp_txid inp"]
  by (cases "store_get (db s) (inp_txid inp)") (auto simp: spent_output_def storage_get_def)

lemma spend_inputs_returns:
  assumes "flags_ok (db s)" and "\<forall>inp\<in>set inps. spent_output s inp \<noteq> None"
  shows "\<exists>s'. forE (spend_input E) inps s = (Inr (), s')"
  using assms
proof (induction inps arbitrary: s)
  case (Cons x xs)
  then obtain w out where so: "spent_output s x = Some (w, out)" by auto
  obtain s1 where x: "spend_input E x s = (Inr (), s1)"
    using spend_input_Some[OF Cons.prems(1) so, of E thesis] by blast
  have st: "ledger_step s s1" using Cons.prems(1) x by (rule spend_input_ledger_step)
  have "\<forall>inp\<in>set xs. spent_output s1 inp \<noteq> None"
    using Cons.prems(2) same_txns_output[OF ledger_step_same[OF st]] by simp
  then show ?case
    using Cons.IH[OF ledger_step_flags[OF st Cons.prems(1)]] x by (auto simp: bindE_ok)
qed simp

lemma input_signed_output: "input_signed E s t inp \<Longrightarrow> \<exists>w out. spent_output s inp = Some (w, out)"
  by (auto simp: input_signed_def split: option.splits)

lemma process_txn_returns:
  assumes "ledger_inv E s" and t: "store_get (mempool s) i = Some t"
    and "inputs t \<noteq> []" and real: "real_inputs E t = inputs t"
  shows "\<exists>s'. process_txn E i s = (Inr (), s')"
proof -
  have fl: "flags_ok (db s)" using assms(1) by (simp add: ledger_inv_def db_ok_def)
  obtain b s1 where v: "verify_txn E True t s = (Inr b, s1)"
    using verify_txn_error_iff[OF fl, of E t] assms(3) real
    by (cases "verify_txn E True t s"; cases "fst (verify_txn E True t s)") auto
  let ?ts = "py_int (current_time s * of_int TIME_MULTIPLIER)"
  have "\<exists>s2. (if b then accept_txn E t ?ts else ret ()) s1 = (Inr (), s2)"
  proof (cases b)
    case True
    with v have v': "verify_txn E True t s = (Inr True, s1)" by simp
    have acc: "acceptable E s t" using v' verify_txn_acceptable[of E t s] by simp
    have db1: "db s1 = db s" using verify_txn_state[OF v'] by (simp split: pend_check.splits)
    have "spent_output s1 = spent_output s"
      by (simp add: fun_eq_iff spent_output_def storage_get_def db1)
    then have "\<forall>inp\<in>set (inputs t). spent_output s1 inp \<noteq> None"
      using acc real input_signed_output by (auto simp: acceptable_def)
    with fl db1 obtain s2 where "forE (spend_input E) (inputs t) s1 = (Inr (), s2)"
      using spend_inputs_returns[of s1] by metis
    with True show ?thesis
      by (auto simp: accept_txn_def bindE_def write_txn_to_db_alt write_txn_to_pend_alt spend_inputs_add_pending)
  qed simp
  with v t show ?thesis by (auto simp: process_txn_def mempool_getitem_def Let_def bindE_ok)
qed

section \<open>Settling the pending set\<close>

lemma verify_txn_state_nopend:
  "verify_txn E False t s = (Inr b, s') \<Longrightarrow>
   s' = (if b then s else if storage_contains s (txid t) then remove_from_mempool (txid t) s
         else remove_invalid_txn_from_mempool (txid t) s)"
  by (auto simp: verify_txn_def split: if_splits sum.splits option.splits)

lemma timelock_expired_cong: "current_time s' = current_time s \<Longrightarrow> timelock_expired s' = timelock_expired s"
  by (simp add: fun_eq_iff timelock_expired_def age_def)

lemma update_pend_step_effect:
  assumes inv: "ledger_inv E s" and w: "store_get (pend s) k = Some w"
  shows "\<exists>s'. update_pend_step E (k, w) s = (Inr (), s') \<and> ledger_inv E s' \<and> current_time s' = current_time s \<and>
    pend s' = (if timelock_expired s (timestamp w) (txn w) then store_del k (pend s) else pend s) \<and>
    ledger_value s' = ledger_value s -
      (if timelock_expired s (timestamp w) (txn w) \<and> fst (verify_txn E False (txn w) (del_from_pending E (txn w) s)) \<noteq> Inr True
       then txn_amount (txn w) else 0)"
proof (cases "timelock_expired s (timestamp w) (txn w)")
  case False
  with inv show ?thesis by (simp add: update_pend_step_def)
next
  case exp: True
  let ?t = "txn w" and ?s1 = "del_from_pending E (txn w) s"
  have k: "k = txid ?t" using inv w by (auto simp: ledger_inv_def pend_ok_def keyed_def)
  note d = del_from_pending_inv[OF inv w[unfolded k] refl]
  have fl: "flags_ok (db ?s1)" using d(1) by (simp add: ledger_inv_def db_ok_def)
  have wf: "wf_txn E ?t" and held: "inputs_held s ?t" using inv w unfolding ledger_inv_def pend_inv_def by blast+
  have so: "\<forall>inp\<in>set (inputs ?t). spent_output ?s1 inp \<noteq> None \<and> \<not> input_unspent ?s1 inp"
    using held by (simp add: inputs_held_def spent_output_def input_unspent_def storage_get_def)
  obtain b s2 where v: "verify_txn E False ?t ?s1 = (Inr b, s2)"
    using verify_txn_nopend[OF fl, of E ?t] by (cases "verify_txn E False ?t ?s1") auto
  have unf: "update_pend_step E (k, w) s = (if b then write_txn_to_db E ?t (timestamp w) s2 else (Inr (), s2))"
    using exp v by (simp add: update_pend_step_def Let_def bindE_modE bindE_ok)
  show ?thesis
  proof (cases b)
    case True
    with v have v': "verify_txn E False ?t ?s1 = (Inr True, s2)" by simp
    have s2: "s2 = ?s1" using verify_txn_state_nopend[OF v'] by simp
    have fresh: "store_get (db ?s1) (txid ?t) = None"
      using verify_txn_nopend[OF fl, of E ?t] v' by (simp add: storage_get_def)
    obtain s3 where s3: "forE (spend_input E) (inputs ?t) ?s1 = (Inr (), s3)"
      using spend_inputs_returns[OF fl] so by blast
    have nn: "\<forall>inp\<in>set (inputs ?t). 0 \<le> inp_index inp" using wf by (simp add: wf_txn_def)
    have inv3: "ledger_inv E s3" using d(1) nn s3 by (rule spend_inputs_inv)
    have st: "ledger_step ?s1 s3" using fl s3 by (rule spend_inputs_ledger_step)
    note f = ledger_step_fields[OF st]
    have "db_value s3 = db_value ?s1" using spend_inputs_value[OF _ nn s3] so d(1) by (simp add: ledger_inv_def)
    then have val: "ledger_value s3 = ledger_value s - txn_amount ?t"
      using d(2) f by (simp add: ledger_value_def pend_value_def)
    have "store_get (db s3) (txid ?t) = None" using fresh same_txns_None[OF ledger_step_same[OF st]] by simp
    note r = add_record_inv[OF inv3 this]
    have "update_pend_step E (k, w) s = (Inr (), add_record E ?t (timestamp w) s3)"
      using True s2 s3 by (simp add: unf write_txn_to_db_alt)
    with r wf val v' exp k f show ?thesis by (simp add: wf_txn_def add_record_def)
  next
    case False
    with v have v': "verify_txn E False ?t ?s1 = (Inr False, s2)" by simp
    have f: "db s2 = db ?s1" "pub_outs s2 = pub_outs ?s1" "pend s2 = pend ?s1" "pub_outs_pend s2 = pub_outs_pend ?s1"
      "mempool s2 = mempool_delitem (txid ?t) (mempool ?s1)" "current_time s2 = current_time ?s1"
      using verify_txn_state_nopend[OF v'] by (simp_all split: if_splits)
    have "ledger_inv E s2"
      by (rule ledger_inv_cong[OF d(1)]) (auto simp: f mempool_delitem_def split: if_splits)
    moreover have "ledger_value s2 = ledger_value ?s1" by (rule ledger_value_cong) (simp_all add: f)
    moreover have "update_pend_step E (k, w) s = (Inr (), s2)" using False unf by simp
    ultimately show ?thesis using v' exp k f d(2) by simp
  qed
qed

lemma update_pend_loop:
  assumes "ledger_inv E s" and "distinct (map fst kws)" and "\<forall>(k, w)\<in>set kws. store_get (pend s) k = Some w"
  shows "\<exists>s'. forE (update_pend_step E) kws s = (Inr (), s') \<and> ledger_inv E s' \<and> current_time s' = current_time s \<and>
    (\<forall>k w. store_get (pend s') k = Some w \<longleftrightarrow>
       store_get (pend s) k = Some w \<and> \<not> ((k, w) \<in> set kws \<and> timelock_expired s (timestamp w) (txn w)))"
  using assms
proof (induction kws arbitrary: s)
  case (Cons x xs)
  obtain k w where x: "x = (k, w)" by (cases x)
  with Cons.prems(3) have w: "store_get (pend s) k = Some w" by simp
  obtain s1 where s1: "update_pend_step E (k, w) s = (Inr (), s1)" "ledger_inv E s1" "current_time s1 = current_time s"
    "pend s1 = (if timelock_expired s (timestamp w) (txn w) then store_del k (pend s) else pend s)"
    using update_pend_step_effect[OF Cons.prems(1) w] by blast
  have kx: "k \<notin> fst ` set xs" using Cons.prems(2) x by simp
  have "\<forall>(k', w')\<in>set xs. store_get (pend s1) k' = Some w'"
    using Cons.prems(3) kx by (force simp: s1(4))
  with Cons.IH[OF s1(2)] Cons.prems(2) obtain s' where s': "forE (update_pend_step E) xs s1 = (Inr (), s')"
    "ledger_inv E s'" "current_time s' = current_time s1"
    "\<And>k' w'. store_get (pend s') k' = Some w' \<longleftrightarrow>
       store_get (pend s1) k' = Some w' \<and> \<not> ((k', w') \<in> set xs \<and> timelock_expired s1 (timestamp w') (txn w'))"
    by auto
  have "store_get (pend s') k' = Some w' \<longleftrightarrow>
      store_get (pend s) k' = Some w' \<and> \<not> ((k', w') \<in> set (x # xs) \<and> timelock_expired s (timestamp w') (txn w'))" for k' w'
    using s'(4)[of k' w'] w kx timelock_expired_cong[OF s1(3)] unfolding s1(4) x
    by (cases "k' = k") (auto simp: image_iff)
  with s' s1 show ?case by (auto simp: x bindE_ok)
qed simp

section \<open>Exceptions and missing transactions\<close>

text \<open>A block that raises stays at the head of the queue, and the flags stay up.\<close>

lemma process_block_InlD:
  assumes "process_block E blk s = (Inl e, s')"
  shows "block_queue s' = block_queue s" "processing s' = processing s" "processing_block s'"
proof -
  obtain r s1 where f: "forE (process_txn E) blk (s\<lparr>processing_block := True\<rparr>) = (r, s1)"
    by (cases "forE (process_txn E) blk (s\<lparr>processing_block := True\<rparr>)")
  have p: "block_queue s1 = block_queue s" "processing s1 = processing s" "processing_block s1"
    using process_txns_pipe[OF f] by (simp_all add: pipe_def)
  have "s' = s1"
    using assms f by (cases r) (auto simp: process_block_def bindE_modE bindE_def finish_block_def split: list.splits)
  with p show "block_queue s' = block_queue s" "processing s' = processing s" "processing_block s'" by simp_all
qed

text \<open>
  Requests for transactions that are not in the mempool only hand tasks to the reactor; the
  list the loop runs over does not change under it.
\<close>

lemma request_missing_absent:
  "mempool_getitem (mempool s) i = None \<Longrightarrow>
   request_missing_transaction E i n s = (Inr (), s\<lparr>reactor_queue := reactor_queue s @ [Task_req_txn i n]\<rparr>)"
  by (simp add: request_missing_transaction_def Let_def)

lemma request_missing_loop:
  "\<forall>i\<in>set is. mempool_getitem (mempool s) i = None \<Longrightarrow>
   forE (\<lambda>i. request_missing_transaction E i 0) is s =
     (Inr (), s\<lparr>reactor_queue := reactor_queue s @ map (\<lambda>i. Task_req_txn i 0) is\<rparr>)"
  by (induction "is" arbitrary: s) (simp_all add: bindE_def request_missing_absent)

lemma find_missing_absent:
  "missing_in s blk \<noteq> [] \<Longrightarrow>
   find_missing_transactions E blk s =
     (Inr (), s\<lparr>missing_txns := missing_in s blk,
        reactor_queue := reactor_queue s @ map (\<lambda>i. Task_req_txn i 0) (missing_in s blk)\<rparr>)"
  by (subst find_missing_transactions_def)
     (simp add: Let_def request_missing_transactions_def request_missing_loop missing_in_def)

lemma try_process_cases:
  assumes "\<not> processing s" and "block_queue s = blk # q"
  shows "try_process E s =
    (let m = missing_in s (block_txns blk);
         s1 = s\<lparr>current_time := block_time blk, current_block := block_txns blk,
               processing := True, adding_block := False, missing_txns := m\<rparr>
     in if m = [] then process_block E (block_txns blk) s1
        else if missed_counter s < BACKOFF_AMOUNT
        then (Inr (), s1\<lparr>missed_counter := Suc (missed_counter s), processing := False\<rparr>)
        else (Inr (), s1\<lparr>missed_counter := 0,
                reactor_queue := reactor_queue s @ map (\<lambda>i. Task_req_txn i 0) m\<rparr>))"
  using assms
  by (simp add: try_process_def Let_def find_missing_absent missing_in_def)

section \<open>A block returns\<close>

lemma process_block_terminates:
  assumes "ledger_inv E s" and "block_queue s \<noteq> []" and "distinct blk"
    and "\<forall>i\<in>set blk. \<exists>t. mempool_getitem (mempool s) i = Some t \<and> inputs t \<noteq> [] \<and> real_inputs E t = inputs t"
  shows "\<exists>s'. process_block E blk s = (Inr (), s')"
proof -
  have loop: "\<exists>s'. forE (process_txn E) is u = (Inr (), s')"
    if "ledger_inv E u" "distinct is"
      "\<forall>i\<in>set is. \<exists>t. mempool_getitem (mempool u) i = Some t \<and> inputs t \<noteq> [] \<and> real_inputs E t = inputs t" for "is" u
    using that
  proof (induction "is" arbitrary: u)
    case (Cons x xs)
    then obtain t where t: "store_get (mempool u) x = Some t" "inputs t \<noteq> []" "real_inputs E t = inputs t"
      by (auto simp: mempool_getitem_def)
    obtain u1 where u1: "process_txn E x u = (Inr (), u1)"
      using process_txn_returns[OF Cons.prems(1) t] by blast
    note e = process_txn_effect[OF Cons.prems(1) u1]
    have "\<exists>s'. forE (process_txn E) xs u1 = (Inr (), s')"
      using Cons.prems by (intro Cons.IH e(1)) (auto simp: e(3))
    with u1 show ?case by (auto simp: bindE_ok)
  qed simp
  have "ledger_inv E (s\<lparr>processing_block := True\<rparr>)" by (rule ledger_inv_cong[OF assms(1)]) simp_all
  with loop[of "s\<lparr>processing_block := True\<rparr>" blk] assms(3,4)
  obtain s1 where s1: "forE (process_txn E) blk (s\<lparr>processing_block := True\<rparr>) = (Inr (), s1)" by auto
  have "block_queue s1 = block_queue s" using process_txns_pipe[OF s1] by (simp add: pipe_def)
  with assms(2) s1 show ?thesis
    by (cases "block_queue s") (auto simp: process_block_def bindE_modE bindE_ok finish_block_def)
qed

end
