(* ===== verification/LedgerSpec.thy ===== *)
theory LedgerSpec
  imports BlockProps
begin

text \<open>
  The properties of the ledger: the acceptance test, the pending set, blocks, the value, the
  indexes and the queries. Each property with a hypothesis is applied to the small ledger of
  the first section.
\<close>

section \<open>A small ledger\<close>

text \<open>
  One output of 1000 owned by key 10; a payment of 600 to key 11 waits in the mempool. The
  signature scheme of the example accepts the public key itself as signature.
\<close>

definition ex_env :: env where
  "ex_env = \<lparr>no_hash = [0],
     crypto_sign_open = (\<lambda>sm pk. if take (length pk) sm = pk then Some (drop (length pk) sm) else None),
     sha256 = (\<lambda>x. x), get_pubkeys = (\<lambda>out. remdups [pubkey out, pubkey2 out])\<rparr>"

definition ex_out :: "int \<Rightarrow> bytes \<Rightarrow> txn_output" where
  "ex_out n k = \<lparr>amount = n, pubkey = k, pubkey2 = k, htlc_timeout = 0, htlc_hashlock = [], htlc_pubkey = []\<rparr>"

definition ex_in :: "bytes \<Rightarrow> int \<Rightarrow> bytes \<Rightarrow> txn_input" where
  "ex_in t i k = \<lparr>inp_txid = t, inp_index = i, signature = k, signature2 = k,
     htlc_preimage = [], htlc_signature = []\<rparr>"

definition ex_genesis :: transaction where
  "ex_genesis = \<lparr>txid = [1], inputs = [], outputs = [ex_out 1000 [10]], seq = 0, timelock = 0\<rparr>"

definition ex_pay :: transaction where
  "ex_pay = \<lparr>txid = [2], inputs = [ex_in [1] 0 [10]], outputs = [ex_out 600 [11], ex_out 400 [10]],
     seq = 0, timelock = 0\<rparr>"

definition ex_lock :: transaction where
  "ex_lock = \<lparr>txid = [3], inputs = [ex_in [1] 0 [10]], outputs = [ex_out 1000 [11]], seq = 0, timelock = 5\<rparr>"

definition ex_relock :: transaction where
  "ex_relock = \<lparr>txid = [4], inputs = [ex_in [1] 0 [10]], outputs = [ex_out 1000 [12]], seq = 1, timelock = 5\<rparr>"

definition ex_twice :: transaction where
  "ex_twice = \<lparr>txid = [5], inputs = [ex_in [1] 0 [10], ex_in [1] 0 [10]], outputs = [ex_out 2000 [10]],
     seq = 0, timelock = 0\<rparr>"

definition ex_nothing :: transaction where
  "ex_nothing = \<lparr>txid = [6], inputs = [], outputs = [], seq = 0, timelock = 0\<rparr>"

definition ex_state :: storage where
  "ex_state = \<lparr>db = [([1], TxnWrapper ex_genesis 0 None)], pend = [],
     mempool = [([2], ex_pay)], mempool_list = [[2]],
     pub_outs = [([10], [([1], 0)])], pub_outs_pend = [],
     txns_processed = 0, txns_accepted = 0, missing_txns = [],
     block_queue = [\<lparr>block_time = 1, block_txns = [[2]]\<rparr>],
     processing = False, processing_block = False, adding_block = False,
     current_block = [], current_time = 1, invalid_txns = [], txns_received = 0,
     missed_counter = 0, rpc_peers = [''a'', ''b''], reactor_queue = [], calls = []\<rparr>"

text \<open>The same ledger with the output held by a pending transaction.\<close>

definition ex_pending :: storage where
  "ex_pending = ex_state\<lparr>db := [([1], TxnWrapper ex_genesis 0 (Some [False]))],
     pub_outs := [([10], [])],
     pend := [([3], TxnWrapper ex_lock 1000000000 None)], pub_outs_pend := [([11], [([3], 0)])]\<rparr>"

lemmas ex_defs = ex_env_def ex_out_def ex_in_def ex_genesis_def ex_pay_def ex_lock_def ex_relock_def
  ex_twice_def ex_nothing_def ex_state_def ex_pending_def

lemma store_get_Cons: "store_get ((a, b) # s) k = (if k = a then Some b else store_get s k)"
  by (auto simp: store_get_def)

text \<open>Both example states satisfy the invariant of the ledger.\<close>

lemma ex_refs:
  "refs_of [([10], [([1], 0)])] p = (if p = [10] then {([1], 0)} else {})"
  "refs_of [([10], [])] p = {}"
  "refs_of [([11], [([3], 0)])] p = (if p = [11] then {([3], 0)} else {})"
  by (auto simp: refs_of_def store_get_Cons)

lemma ex_index_ok: "index_ok [([10], [([1], 0)])]" "index_ok [([10], [])]" "index_ok [([11], [([3], 0)])]"
  by (auto simp: index_ok_def store_ok_def store_get_Cons split: if_splits)

lemma ex_state_db_ok: "db_ok ex_env ex_state"
proof -
  let ?d = "[([1], TxnWrapper ex_genesis 0 None)]"
  have "unspent_refs ex_env ?d p = (if p = [10] then {([1], 0)} else {})" for p
    by (auto simp: mem_unspent_refs store_get_Cons ex_defs split: if_splits)
  moreover have "flags_ok ?d" "keyed ?d" "store_ok ?d"
    by (auto simp: flags_ok_def keyed_def store_ok_def store_get_Cons ex_defs split: if_splits)
  ultimately show ?thesis
    by (simp add: db_ok_def ex_state_def ex_index_ok ex_refs)
qed

lemma ex_state_inv: "ledger_inv ex_env ex_state"
proof -
  have "pend_ok ex_env ex_state" "pend_inv ex_env ex_state"
    by (simp_all add: pend_ok_def pend_inv_def pending_refs_def keyed_def ex_state_def)
  moreover have "mempool_ok ex_env ex_state"
    by (auto simp: mempool_ok_def wf_txn_def store_get_Cons ex_defs split: if_splits)
  ultimately show ?thesis using ex_state_db_ok
    by (simp add: ledger_inv_def store_get_Cons ex_defs)
qed

lemma ex_pending_inv: "ledger_inv ex_env ex_pending"
proof -
  let ?d = "[([1], TxnWrapper ex_genesis 0 (Some [False]))]" and ?p = "[([3], TxnWrapper ex_lock 1000000000 None)]"
  have "unspent_refs ex_env ?d p = {}" for p
    by (auto simp: mem_unspent_refs store_get_Cons ex_defs split: if_splits)
  moreover have "flags_ok ?d" "keyed ?d" "store_ok ?d"
    by (auto simp: flags_ok_def keyed_def store_ok_def store_get_Cons ex_defs split: if_splits)
  ultimately have "db_ok ex_env ex_pending"
    by (simp add: db_ok_def ex_pending_def ex_index_ok ex_refs)
  moreover have kp: "keyed ?p" by (auto simp: keyed_def store_get_Cons ex_defs split: if_splits)
  have "(k, i) \<in> pending_refs ex_env ?p p \<longleftrightarrow> p = [11] \<and> k = [3] \<and> i = 0" for p k i
    unfolding mem_pending_refs[OF kp] mem_txn_refs by (auto simp: store_get_Cons ex_defs split: if_splits)
  then have "pending_refs ex_env ?p p = (if p = [11] then {([3], 0)} else {})" for p
    by auto
  with kp have "pend_ok ex_env ex_pending"
    by (simp add: pend_ok_def ex_pending_def ex_index_ok ex_refs store_ok_def)
  moreover have "inputs_held ex_pending ex_lock" by code_simp
  then have "pend_inv ex_env ex_pending"
    by (auto simp: pend_inv_def wf_txn_def store_get_Cons ex_pending_def ex_lock_def ex_in_def ex_env_def
        split: if_splits)
  moreover have "mempool_ok ex_env ex_pending"
    by (auto simp: mempool_ok_def wf_txn_def store_get_Cons ex_defs split: if_splits)
  ultimately show ?thesis by (simp add: ledger_inv_def store_get_Cons ex_defs)
qed

lemmas ex_state_flags = ex_state_inv[unfolded ledger_inv_def db_ok_def, THEN conjunct1, THEN conjunct2, THEN conjunct1]

section \<open>The acceptance test\<close>


text \<open>
  What the test changes: an accepted transaction leaves the state alone, or removes from
  the pending set the one it replaces; a rejected one is taken out of the mempool, and
  recorded as invalid unless it was stored already.
\<close>

theorem verify_txn_effect:
  assumes "verify_txn E True t s = (Inr b, s')"
  shows "s' = (if b then (case check_pend_replacement s t of Replaces tx \<Rightarrow> del_from_pending E tx s | _ \<Rightarrow> s)
         else if storage_contains s (txid t) then remove_from_mempool (txid t) s
         else remove_invalid_txn_from_mempool (txid t) s)"
  using assms by (rule verify_txn_state)

theorem verify_txn_effect_witness:
  "verify_txn ex_env True ex_relock ex_pending = (Inr True, del_from_pending ex_env ex_lock ex_pending)"
proof -
  have r: "verify_txn ex_env True ex_relock ex_pending =
      (Inr True, snd (verify_txn ex_env True ex_relock ex_pending))"
    by (rule prod_eqI) (code_simp, simp)
  have c: "check_pend_replacement ex_pending ex_relock = Replaces ex_lock" by code_simp
  show ?thesis using verify_txn_effect[OF r] r by (simp add: c)
qed

text \<open>
  C35. The exception the test can raise: with one flag per output in the database the only
  escape is the UnboundLocalError of the local \<open>check\<close>, and it escapes exactly for a new
  transaction without a real input whose outputs sum to zero, the empty transaction among
  them.
\<close>

theorem verify_txn_raises_iff:
  assumes "flags_ok (db s)"
  shows "fst (verify_txn E True t s) = Inl e \<longleftrightarrow>
    e = UnboundLocalError \<and> storage_get s (txid t) = None \<and> real_inputs E t = [] \<and>
    sum_list (map amount (outputs t)) = 0"
  using assms by (rule verify_txn_error_iff)

theorem verify_txn_raises_iff_witness:
  "fst (verify_txn ex_env True ex_nothing ex_state) = Inl UnboundLocalError"
proof -
  have f: "flags_ok (db ex_state)" using ex_state_db_ok by (simp add: db_ok_def)
  show ?thesis
    by (subst verify_txn_raises_iff[OF f]) code_simp
qed

text \<open>
  The second test, of a pending transaction whose timelock has run out, never raises on a
  well-formed database; it checks again that the transaction is new, signed and balanced, and
  does not look at the flags, which the transaction itself has cleared.
\<close>

theorem verify_txn_pending_decides:
  assumes "flags_ok (db s)"
  shows "fst (verify_txn E False t s) =
    Inr (storage_get s (txid t) = None \<and>
      (\<forall>inp\<in>set (real_inputs E t). input_signed E s t inp) \<and>
      sum_list (map (input_amount s) (real_inputs E t)) = sum_list (map amount (outputs t)))"
  using assms by (rule verify_txn_nopend)

theorem verify_txn_pending_decides_witness:
  "fst (verify_txn ex_env False ex_lock ex_pending) = Inr True"
proof -
  have f: "flags_ok (db ex_pending)" using ex_pending_inv by (simp add: ledger_inv_def db_ok_def)
  show ?thesis
    by (subst verify_txn_pending_decides[OF f]) code_simp
qed

text \<open>
  The replacement rule: \<open>check_pend_replacement\<close> finds no conflict exactly when no pending
  transaction has the same set of inputs, and permits a replacement only of a pending
  transaction with the same inputs, a strictly lower sequence number, and a timelock that has
  not run out.
\<close>

theorem check_pend_replacement_spec:
  assumes "store_ok (pend s)"
  shows "(check_pend_replacement s t = No_conflict \<longleftrightarrow>
      (\<forall>k w. store_get (pend s) k = Some w \<longrightarrow> \<not> same_inputs (txn w) t)) \<and>
    (\<forall>tx. check_pend_replacement s t = Replaces tx \<longrightarrow>
      (\<exists>k w. store_get (pend s) k = Some w \<and> txn w = tx \<and> same_inputs tx t \<and>
        \<not> timelock_expired s (timestamp w) tx \<and> seq tx < seq t))"
  using check_pend_loop_spec[of s t "store_items (pend s)"] kv.items_get[OF assms]
  unfolding check_pend_replacement_def by fast

theorem check_pend_replacement_spec_witness:
  "check_pend_replacement ex_pending ex_relock = Replaces ex_lock \<and> seq ex_lock < seq ex_relock"
proof -
  have ok: "store_ok (pend ex_pending)" by code_simp
  have c: "check_pend_replacement ex_pending ex_relock = Replaces ex_lock" by code_simp
  show ?thesis using check_pend_replacement_spec[OF ok, of ex_relock] c by blast
qed

text \<open>
  C36. An input listed n times counts n times: a transaction that spends one output n times
  over, with outputs worth n times its amount, passes the test. The value of the ledger is
  therefore preserved only for transactions whose inputs are distinct.
\<close>

theorem duplicate_input_accepted:
  assumes "storage_get s (txid t) = None" and "inputs t = replicate (Suc n) inp"
    and "inp_txid inp \<noteq> no_hash E" and "input_signed E s t inp" and "input_unspent s inp"
    and "check_pend_replacement s t = No_conflict"
    and "sum_list (map amount (outputs t)) = int (Suc n) * input_amount s inp"
  shows "fst (verify_txn E True t s) = Inr True"
proof -
  have "real_inputs E t = replicate (Suc n) inp"
    using assms(2,3) by (simp add: real_inputs_def)
  moreover have "sum_list (map (input_amount s) (replicate (Suc n) inp)) = int (Suc n) * input_amount s inp"
    by (simp add: map_replicate_const sum_list_replicate algebra_simps)
  ultimately have "acceptable E s t"
    using assms by (auto simp: acceptable_def simp del: replicate_Suc)
  then show ?thesis by (simp add: verify_txn_acceptable)
qed

theorem duplicate_input_accepted_witness:
  "fst (verify_txn ex_env True ex_twice ex_state) = Inr True \<and>
   db_value ex_state = 1000 \<and> sum_list (map amount (outputs ex_twice)) = 2000"
proof -
  have "fst (verify_txn ex_env True ex_twice ex_state) = Inr True"
    by (rule duplicate_input_accepted[where n = 1 and inp = "ex_in [1] 0 [10]"]) code_simp+
  moreover have "db_value ex_state = 1000"
    by (simp add: db_value_def kv.total_def store_items_def unspent_amount_def ex_defs)
  moreover have "sum_list (map amount (outputs ex_twice)) = 2000" by code_simp
  ultimately show ?thesis by blast
qed

section \<open>Blocks\<close>

lemma ex_block: "process_block ex_env [[2]] ex_state = (Inr (), snd (process_block ex_env [[2]] ex_state))"
  by (rule prod_eqI) (code_simp, simp)

text \<open>
  C3. A block keeps the invariant of the ledger (well-formed databases, both indexes in exact
  agreement with them, pending transactions backed by spent outputs of equal value) and its
  value: what transactions take from unspent outputs, or from a replaced pending transaction,
  they put into new outputs.
\<close>

theorem process_block_conserves:
  assumes "ledger_inv E s" and "process_block E blk s = (Inr (), s')"
  shows "ledger_inv E s' \<and> ledger_value s' = ledger_value s"
  using process_block_effect[OF assms] by blast

theorem process_block_conserves_witness:
  "ledger_inv ex_env (snd (process_block ex_env [[2]] ex_state)) \<and>
   ledger_value (snd (process_block ex_env [[2]] ex_state)) = 1000"
proof -
  have "ledger_value ex_state = 1000"
    by (simp add: ledger_value_def db_value_def pend_value_def kv.total_def store_items_def
        unspent_amount_def ex_defs)
  with process_block_conserves[OF ex_state_inv ex_block] show ?thesis by simp
qed

text \<open>
  A block that returns is done: its transactions are out of the mempool and all others
  still in it, all of its transactions are counted, it has left the head of the queue and the
  flags are down.
\<close>

theorem process_block_done:
  assumes "ledger_inv E s" and "process_block E blk s = (Inr (), s')"
  shows "(\<forall>i. mempool_getitem (mempool s') i = (if i \<in> set blk then None else mempool_getitem (mempool s) i)) \<and>
    txns_processed s' = txns_processed s + length blk \<and>
    block_queue s' = tl (block_queue s) \<and> current_block s' = [] \<and> \<not> processing s' \<and> \<not> processing_block s'"
  using process_block_effect[OF assms] by blast

theorem process_block_done_witness:
  "mempool_getitem (mempool (snd (process_block ex_env [[2]] ex_state))) [2] = None \<and>
   txns_processed (snd (process_block ex_env [[2]] ex_state)) = 1"
  using process_block_done[OF ex_state_inv ex_block] by (simp add: ex_state_def)

text \<open>
  C20. A block at the head of the queue is processed to its end when its transactions are
  distinct, all in the mempool, and each has inputs and no dummy input.
\<close>

theorem process_block_returns:
  assumes "ledger_inv E s" and "block_queue s \<noteq> []" and "distinct blk"
    and "\<forall>i\<in>set blk. \<exists>t. mempool_getitem (mempool s) i = Some t \<and> inputs t \<noteq> [] \<and> real_inputs E t = inputs t"
  shows "\<exists>s'. process_block E blk s = (Inr (), s')"
  using assms by (rule process_block_terminates)

theorem process_block_returns_witness: "\<exists>s'. process_block ex_env [[2]] ex_state = (Inr (), s')"
  by (rule process_block_returns[OF ex_state_inv])
     (simp_all add: mempool_getitem_def store_get_Cons real_inputs_def ex_defs)



text \<open>
  An exception wedges the node: if \<open>try_process\<close> raises, the block stays at the head of
  the queue with the processing flag up, and every later \<open>try_process\<close> does nothing.
\<close>

theorem try_process_raise_wedges:
  assumes "try_process E s = (Inl e, s')"
  shows "block_queue s' = block_queue s \<and> processing s' \<and> try_process E s' = (Inr (), s')"
proof -
  have np: "\<not> processing s" using assms by (auto simp: try_process_def)
  obtain blk q where q: "block_queue s = blk # q"
    using assms np by (cases "block_queue s") (auto simp: try_process_def)
  from assms obtain s1 where "process_block E (block_txns blk) s1 = (Inl e, s')"
    and s1: "block_queue s1 = block_queue s" "processing s1"
    unfolding try_process_cases[OF np q] by (auto simp: Let_def split: if_splits)
  with process_block_InlD[of E "block_txns blk" s1 e s'] have "block_queue s' = block_queue s" "processing s'"
    by simp_all
  then show ?thesis by (simp add: try_process_def)
qed

text \<open>The empty transaction does it.\<close>

definition ex_stuck :: storage where
  "ex_stuck = ex_state\<lparr>mempool := [([6], ex_nothing)], mempool_list := [[6]],
     block_queue := [\<lparr>block_time = 1, block_txns = [[6]]\<rparr>]\<rparr>"

theorem try_process_raise_wedges_witness:
  "fst (try_process ex_env ex_stuck) = Inl UnboundLocalError \<and>
   try_process ex_env (snd (try_process ex_env ex_stuck)) = (Inr (), snd (try_process ex_env ex_stuck))"
proof -
  have f: "fst (try_process ex_env ex_stuck) = Inl UnboundLocalError" by code_simp
  then have r: "try_process ex_env ex_stuck = (Inl UnboundLocalError, snd (try_process ex_env ex_stuck))"
    by (rule prod_eqI[OF _ snd_conv[symmetric], unfolded fst_conv])
  show ?thesis using try_process_raise_wedges[OF r] f by blast
qed

text \<open>
  The back-off: with transactions of the next block missing, the first
  \<open>BACKOFF_AMOUNT\<close> attempts only count and give the flag back; the next one resets the
  counter and asks for every missing transaction, keeping the flag up until they arrive.
\<close>

theorem try_process_backoff:
  assumes "\<not> processing s" and "block_queue s = blk # q" and "missing_in s (block_txns blk) \<noteq> []"
  shows "fst (try_process E s) = Inr () \<and>
    block_queue (snd (try_process E s)) = block_queue s \<and>
    missing_txns (snd (try_process E s)) = missing_in s (block_txns blk) \<and>
    (if missed_counter s < BACKOFF_AMOUNT
     then missed_counter (snd (try_process E s)) = Suc (missed_counter s) \<and>
       \<not> processing (snd (try_process E s)) \<and> reactor_queue (snd (try_process E s)) = reactor_queue s
     else missed_counter (snd (try_process E s)) = 0 \<and> processing (snd (try_process E s)) \<and>
       reactor_queue (snd (try_process E s)) =
         reactor_queue s @ map (\<lambda>i. Task_req_txn i 0) (missing_in s (block_txns blk)))"
  using assms(3) unfolding try_process_cases[OF assms(1,2)] by (simp add: Let_def)

theorem try_process_backoff_witness:
  "reactor_queue (snd (try_process ex_env (ex_state\<lparr>mempool := [], missed_counter := 300\<rparr>))) = [Task_req_txn [2] 0]"
proof -
  let ?s = "ex_state\<lparr>mempool := [], missed_counter := 300\<rparr>"
  have "\<not> processing ?s" "block_queue ?s = \<lparr>block_time = 1, block_txns = [[2]]\<rparr> # []"
    "missing_in ?s (block_txns \<lparr>block_time = 1, block_txns = [[2]]\<rparr>) = [[2]]"
    by (simp_all add: ex_state_def missing_in_def mempool_getitem_def)
  with try_process_backoff[of ?s "\<lparr>block_time = 1, block_txns = [[2]]\<rparr>" "[]" ex_env]
  show ?thesis by (simp add: BACKOFF_AMOUNT_def) (simp add: ex_state_def)
qed

section \<open>The pending set\<close>

text \<open>
  C30. \<open>update_pend\<close> settles the pending set: it always returns, keeps the invariant of the
  ledger, and leaves pending exactly the transactions whose timelock has not run out.
\<close>

theorem update_pend_settles:
  assumes "ledger_inv E s"
  shows "\<exists>s'. update_pend E s = (Inr (), s') \<and> ledger_inv E s' \<and>
    (\<forall>k w. store_get (pend s') k = Some w \<longleftrightarrow>
       store_get (pend s) k = Some w \<and> \<not> timelock_expired s (timestamp w) (txn w))"
proof -
  have ok: "store_ok (pend s)" using assms by (simp add: ledger_inv_def pend_ok_def)
  have mem: "(k, w) \<in> set (store_items (pend s)) \<longleftrightarrow> store_get (pend s) k = Some w" for k w
    by (rule kv.items_get[OF ok])
  have d: "distinct (map fst (store_items (pend s)))" by (rule kv.items_distinct[OF ok])
  have "\<forall>(k, w)\<in>set (store_items (pend s)). store_get (pend s) k = Some w" using mem by auto
  from update_pend_loop[OF assms d this] show ?thesis
    unfolding mem update_pend_def by blast
qed

theorem update_pend_settles_witness:
  "\<exists>s'. update_pend ex_env (ex_pending\<lparr>current_time := 7\<rparr>) = (Inr (), s') \<and> store_get (pend s') [3] = None"
proof -
  let ?s = "ex_pending\<lparr>current_time := 7\<rparr>"
  have inv: "ledger_inv ex_env ?s" by (rule ledger_inv_cong[OF ex_pending_inv]) simp_all
  have "timelock_expired ?s 1000000000 ex_lock" by code_simp
  moreover have "store_get (pend ?s) [3] = Some (TxnWrapper ex_lock 1000000000 None)"
    by (simp add: ex_pending_def store_get_Cons)
  ultimately show ?thesis using update_pend_settles[OF inv]
    by (metis TxnWrapper_sel(1,2) not_None_eq option.inject)
qed

text \<open>
  A pending transaction that no longer verifies when its timelock runs out, for instance
  because the HTLC timeout of an output it spends has passed meanwhile, is dropped, and the
  outputs it spent stay spent: its whole amount leaves the ledger.
\<close>

theorem update_pend_drop_burns:
  assumes "ledger_inv E s" and "store_get (pend s) k = Some w"
    and "timelock_expired s (timestamp w) (txn w)"
    and "fst (verify_txn E False (txn w) (del_from_pending E (txn w) s)) = Inr False"
  shows "\<exists>s'. update_pend_step E (k, w) s = (Inr (), s') \<and> ledger_inv E s' \<and>
    ledger_value s' = ledger_value s - txn_amount (txn w)"
  using update_pend_step_effect[OF assms(1,2)] assms(3,4) by auto

text \<open>A pending transaction whose signature is not valid any more.\<close>

definition ex_late :: storage where
  "ex_late = ex_pending\<lparr>current_time := 7\<rparr>"

definition late_env :: env where
  "late_env = ex_env\<lparr>crypto_sign_open := (\<lambda>_ _. None)\<rparr>"

theorem update_pend_drop_burns_witness:
  "\<exists>s'. update_pend_step late_env ([3], TxnWrapper ex_lock 1000000000 None) ex_late = (Inr (), s') \<and>
     ledger_value s' = ledger_value ex_late - 1000"
proof -
  have cong: "ledger_inv late_env u \<longleftrightarrow> ledger_inv ex_env u" for u
    by (simp add: ledger_inv_def db_ok_def pend_ok_def pend_inv_def mempool_ok_def wf_txn_def
        unspent_refs_def pending_refs_def txn_refs_def late_env_def)
  have inv: "ledger_inv late_env ex_late"
    unfolding cong by (rule ledger_inv_cong[OF ex_pending_inv]) (simp_all add: ex_late_def)
  have w: "store_get (pend ex_late) [3] = Some (TxnWrapper ex_lock 1000000000 None)"
    by (simp add: ex_late_def ex_pending_def store_get_Cons)
  have "txn_amount ex_lock = 1000" by code_simp
  moreover have "timelock_expired ex_late (timestamp (TxnWrapper ex_lock 1000000000 None))
      (txn (TxnWrapper ex_lock 1000000000 None))" by code_simp
  moreover have "fst (verify_txn late_env False (txn (TxnWrapper ex_lock 1000000000 None))
      (del_from_pending late_env (txn (TxnWrapper ex_lock 1000000000 None)) ex_late)) = Inr False" by code_simp
  ultimately show ?thesis using update_pend_drop_burns[OF inv w] by auto
qed

section \<open>Queries\<close>

lemma utxo_entry_only: "utxo_entry s r \<noteq> Inl e \<or> e = KeyError"
  by (cases "utxo_entry s r")
     (auto simp: utxo_entry_def storage_getitem_def split: option.splits)

lemma mapR_only:
  assumes only: "\<And>x e. f x = Inl e \<Longrightarrow> e = e0" and err: "mapR f xs = Inl e"
  shows "e = e0"
  using err
proof (induction xs)
  case (Cons x xs)
  show ?case
  proof (cases "f x")
    case (Inl d)
    with Cons.prems have "d = e" by simp
    with only[OF Inl] show ?thesis by simp
  next
    case (Inr y)
    with Cons.prems have "mapR f xs = Inl e" by (simp split: sum.splits)
    then show ?thesis by (rule Cons.IH)
  qed
qed simp

lemma mapR_utxo_err: "mapR (utxo_entry s) rs = Inl e \<Longrightarrow> e = KeyError"
  by (rule mapR_only[where f = "utxo_entry s"]) (use utxo_entry_only in blast)+

text \<open>
  \<open>utxos_for_pubkey\<close> looks pending outputs up in the main database: for a key with an
  output of a transaction that is only pending it raises KeyError.
\<close>

theorem utxos_for_pubkey_pending_raises:
  assumes "(t, i) \<in> refs_of (pub_outs_pend s) p" and "storage_get s t = None"
  shows "utxos_for_pubkey s p = Inl KeyError"
proof -
  have m: "(t, i) \<in> set (dict_get (pub_outs_pend s) p)"
    using assms(1) by (simp add: refs_of_def dict_get_def split: option.splits)
  have u: "utxo_entry s (t, i) = Inl KeyError"
    using assms(2) by (simp add: utxo_entry_def storage_getitem_def)
  obtain e where e: "mapR (utxo_entry s) (dict_get (pub_outs_pend s) p) = Inl e"
    using mapR_err[where f = "utxo_entry s", OF m u] by (rule exE)
  have pe: "mapR (utxo_entry s) (dict_get (pub_outs_pend s) p) = Inl KeyError"
    unfolding e by (simp add: mapR_utxo_err[OF e])
  show ?thesis
  proof (cases "mapR (utxo_entry s) (dict_get (pub_outs s) p)")
    case (Inl d)
    then show ?thesis unfolding utxos_for_pubkey_def pe Inl by (simp add: mapR_utxo_err[OF Inl])
  next
    case (Inr us)
    then show ?thesis unfolding utxos_for_pubkey_def pe Inr by simp
  qed
qed

theorem utxos_for_pubkey_pending_raises_witness: "utxos_for_pubkey ex_pending [11] = Inl KeyError"
  by (rule utxos_for_pubkey_pending_raises[where t = "[3]" and i = 0])
     (simp_all add: ex_pending_def ex_state_def ex_refs storage_get_def store_get_Cons)

lemma mapR_grpc:
  assumes "\<forall>r\<in>set rs. \<exists>w out. lookup (fst r) = Inr w \<and> py_get (outputs (txn w)) (snd r) = Some out"
  shows "\<exists>us. mapR (grpc_entry lookup) rs = Inr us \<and> map (\<lambda>(t, i, _). (t, i)) us = rs"
  using assms by (induction rs) (fastforce simp: grpc_entry_def)+

lemma dict_get_refs: "set (dict_get idx p) = refs_of idx p"
  by (simp add: dict_get_def refs_of_def split: option.splits)

text \<open>
  \<open>utxos_for_pubkey_grpc\<close> returns, without raising, exactly the unspent outputs and the
  pending outputs of the key.
\<close>

theorem utxos_for_pubkey_grpc_exact:
  assumes "ledger_inv E s"
  shows "\<exists>us. utxos_for_pubkey_grpc s p = Inr us \<and>
    (\<lambda>(t, i, _). (t, i)) ` set us = unspent_refs E (db s) p \<union> pending_refs E (pend s) p"
proof -
  from assms have d: "refs_of (pub_outs s) p = unspent_refs E (db s) p"
    and p: "refs_of (pub_outs_pend s) p = pending_refs E (pend s) p" and kp: "keyed (pend s)"
    by (simp_all add: ledger_inv_def db_ok_def pend_ok_def)
  have "\<exists>us. mapR (grpc_entry (storage_getitem s)) (dict_get (pub_outs s) p) = Inr us \<and>
      map (\<lambda>(t, i, _). (t, i)) us = dict_get (pub_outs s) p"
    by (rule mapR_grpc)
       (auto simp: dict_get_refs d unspent_refs_def storage_getitem_def storage_get_def py_get_def py_pos_nonneg)
  moreover have "\<exists>us. mapR (grpc_entry (pend_getitem (pend s))) (dict_get (pub_outs_pend s) p) = Inr us \<and>
      map (\<lambda>(t, i, _). (t, i)) us = dict_get (pub_outs_pend s) p"
  proof (rule mapR_grpc, intro ballI)
    fix r assume "r \<in> set (dict_get (pub_outs_pend s) p)"
    then have "(fst r, snd r) \<in> pending_refs E (pend s) p" by (simp add: dict_get_refs p)
    then obtain w where "store_get (pend s) (fst r) = Some w" "0 \<le> snd r" "nat (snd r) < length (outputs (txn w))"
      unfolding mem_pending_refs[OF kp] mem_txn_refs by blast
    then show "\<exists>w out. pend_getitem (pend s) (fst r) = Inr w \<and> py_get (outputs (txn w)) (snd r) = Some out"
      by (simp add: pend_getitem_def pend_get_def py_get_def py_pos_nonneg)
  qed
  ultimately obtain us vs where u: "mapR (grpc_entry (storage_getitem s)) (dict_get (pub_outs s) p) = Inr us"
      "map (\<lambda>(t, i, _). (t, i)) us = dict_get (pub_outs s) p"
    and v: "mapR (grpc_entry (pend_getitem (pend s))) (dict_get (pub_outs_pend s) p) = Inr vs"
      "map (\<lambda>(t, i, _). (t, i)) vs = dict_get (pub_outs_pend s) p" by blast
  have "(\<lambda>(t, i, _). (t, i)) ` set us = unspent_refs E (db s) p"
    "(\<lambda>(t, i, _). (t, i)) ` set vs = pending_refs E (pend s) p"
    using arg_cong[OF u(2), of set] arg_cong[OF v(2), of set] by (simp_all add: dict_get_refs d p)
  with u v show ?thesis by (simp add: utxos_for_pubkey_grpc_def image_Un)
qed

theorem utxos_for_pubkey_grpc_exact_witness:
  "\<exists>us. utxos_for_pubkey_grpc ex_pending [11] = Inr us \<and> (\<lambda>(t, i, _). (t, i)) ` set us = {([3], 0)}"
proof -
  have "unspent_refs ex_env (db ex_pending) [11] \<union> pending_refs ex_env (pend ex_pending) [11] =
      refs_of (pub_outs ex_pending) [11] \<union> refs_of (pub_outs_pend ex_pending) [11]"
    using ex_pending_inv by (simp add: ledger_inv_def db_ok_def pend_ok_def)
  also have "\<dots> = {([3], 0)}" by (simp add: ex_pending_def ex_refs)
  finally show ?thesis using utxos_for_pubkey_grpc_exact[OF ex_pending_inv, of "[11]"] by simp
qed

text \<open>What one reference adds to the three balances of a key.\<close>

definition balance_share :: "storage \<Rightarrow> bytes \<Rightarrow> outref \<Rightarrow> int \<times> int \<times> int" where
  "balance_share s p r =
     (case storage_get s (fst r) of
        None \<Rightarrow> (0, 0, 0)
      | Some w \<Rightarrow> balance_step s p w (outputs (txn w) ! nat (snd r)) (0, 0, 0))"

lemma balance_step_add:
  "balance_step s p w out (a, b, c) =
     (case balance_step s p w out (0, 0, 0) of (x, y, z) \<Rightarrow> (a + x, b + y, c + z))"
  by (simp add: balance_step_def Let_def)

lemma balance_loop_shares:
  assumes "\<forall>r\<in>set rs. \<exists>w. storage_get s (fst r) = Some w \<and> 0 \<le> snd r \<and> nat (snd r) < length (outputs (txn w))"
  shows "balance_loop s (storage_getitem s) p rs (a, b, c) =
    Inr (a + sum_list (map (\<lambda>r. fst (balance_share s p r)) rs),
         b + sum_list (map (\<lambda>r. fst (snd (balance_share s p r))) rs),
         c + sum_list (map (\<lambda>r. snd (snd (balance_share s p r))) rs))"
  using assms
proof (induction rs arbitrary: a b c)
  case (Cons r rs)
  obtain t i where r: "r = (t, i)" by (cases r)
  with Cons.prems obtain w where w: "storage_get s t = Some w" "0 \<le> i" "nat i < length (outputs (txn w))" by auto
  obtain x y z where sh: "balance_share s p r = (x, y, z)" by (cases "balance_share s p r")
  then have "balance_step s p w (outputs (txn w) ! nat i) (a, b, c) = (a + x, b + y, c + z)"
    using w(1) by (subst balance_step_add) (simp add: balance_share_def r)
  moreover have "storage_getitem s t = Inr w" "py_get (outputs (txn w)) i = Some (outputs (txn w) ! nat i)"
    using w by (simp_all add: storage_getitem_def py_get_def py_pos_nonneg)
  moreover have "balance_share s p (t, i) = (x, y, z)" using sh r by simp
  ultimately show ?case using Cons.IH[of "a + x" "b + y" "c + z"] Cons.prems by (simp add: r add.assoc)
qed simp

text \<open>
  \<open>get_balance\<close> on the main index never raises and returns the sums, over the unspent
  outputs that name the key, of what each adds to the total, the partial and the HTLC
  balance.
\<close>

theorem get_balance_exact:
  assumes "ledger_inv E s"
  shows "get_balance s p (pub_outs s) =
    Inr (\<Sum>r\<in>unspent_refs E (db s) p. fst (balance_share s p r),
         \<Sum>r\<in>unspent_refs E (db s) p. fst (snd (balance_share s p r)),
         \<Sum>r\<in>unspent_refs E (db s) p. snd (snd (balance_share s p r)))"
proof -
  from assms have d: "refs_of (pub_outs s) p = unspent_refs E (db s) p" and iok: "index_ok (pub_outs s)"
    by (simp_all add: ledger_inv_def db_ok_def)
  show ?thesis
  proof (cases "store_get (pub_outs s) p")
    case None
    then have "unspent_refs E (db s) p = {}" using d by (simp add: refs_of_def)
    with None show ?thesis by (simp add: get_balance_def)
  next
    case (Some rs)
    with d iok have rs: "set rs = unspent_refs E (db s) p" "distinct rs"
      by (simp_all add: refs_of_def index_ok_def)
    have "\<forall>r\<in>set rs. \<exists>w. storage_get s (fst r) = Some w \<and> 0 \<le> snd r \<and> nat (snd r) < length (outputs (txn w))"
      by (auto simp: rs(1) unspent_refs_def storage_get_def)
    from balance_loop_shares[OF this, of p 0 0 0] Some show ?thesis
      unfolding rs(1)[symmetric] by (simp add: get_balance_def sum_list_distinct_conv_sum_set[OF rs(2)])
  qed
qed

theorem get_balance_exact_witness: "get_balance ex_state [10] (pub_outs ex_state) = Inr (1000, 0, 0)"
proof -
  have "unspent_refs ex_env (db ex_state) [10] = refs_of (pub_outs ex_state) [10]"
    using ex_state_db_ok by (simp add: db_ok_def)
  also have "\<dots> = {([1], 0)}" by (simp add: ex_state_def ex_refs)
  finally have r: "unspent_refs ex_env (db ex_state) [10] = {([1], 0)}" .
  have "balance_share ex_state [10] ([1], 0) = (1000, 0, 0)" by code_simp
  with get_balance_exact[OF ex_state_inv, of "[10]"] show ?thesis by (simp add: r)
qed

end
