(* ===== verification/Node.thy ===== *)
theory Node
  imports BlockProps
begin

text \<open>
  A node around its storage: how \<open>Storage.__init__\<close> rebuilds its state from the databases, the
  JSON-RPC interface (\<open>rpcserver.py\<close>) and the GRPC interface (\<open>grpcinterface.py\<close>).
\<close>

section \<open>Start\<close>

text \<open>
  \<open>Storage.__init__\<close>: coinbase transactions that are not stored are written with timestamp 0,
  and the two indexes are rebuilt from the databases. The three databases survive a restart;
  \<open>mempool_list\<close>, the queue and the clock do not.
\<close>

definition add_coinbase :: "transaction list \<Rightarrow> (bytes, txn_wrapper) store \<Rightarrow> (bytes, txn_wrapper) store" where
  "add_coinbase coinbase d =
     fold (\<lambda>t d. if store_get d (txid t) \<noteq> None then d else store_put (txid t) (TxnWrapper t 0 None) d)
       coinbase d"

definition build_index :: "env \<Rightarrow> (bytes, txn_wrapper) store \<Rightarrow> index" where
  "build_index E d = fold (\<lambda>(k, w) idx. add_txn_to_balance_index E (txn w) idx) (store_items d) []"

definition storage_init ::
  "env \<Rightarrow> transaction list \<Rightarrow> string list \<Rightarrow> (bytes, txn_wrapper) store \<Rightarrow> (bytes, txn_wrapper) store
    \<Rightarrow> (bytes, transaction) store \<Rightarrow> storage" where
  "storage_init E coinbase peers d p m =
     (let d' = add_coinbase coinbase d in
      \<lparr>db = d', pend = p, mempool = m, mempool_list = [],
       pub_outs = build_index E d', pub_outs_pend = build_index E p,
       txns_processed = 0, txns_accepted = 0, missing_txns = [], block_queue = [],
       processing = False, processing_block = False, adding_block = False,
       current_block = [], current_time = 0, invalid_txns = [], txns_received = 0,
       missed_counter = 0, rpc_peers = peers, reactor_queue = [], calls = []\<rparr>)"

section \<open>rpcserver.py\<close>

text \<open>
  The bytes of a transaction on the wire are the third-party serialisation; \<open>from_wire\<close> also
  stands for the exception it raises on other bytes. \<open>rewrap\<close> is what decoding an object that
  is a \<open>TxnWrapper\<close> already does.
\<close>

record wire =
  from_wire :: "bytes \<Rightarrow> py_error + transaction"
  to_wire :: "transaction \<Rightarrow> bytes"
  rewrap :: "txn_wrapper \<Rightarrow> py_error + transaction"

definition wire_ok :: "wire \<Rightarrow> bool" where
  "wire_ok W \<longleftrightarrow> (\<forall>t. from_wire W (to_wire W t) = Inr t)"

definition count_first :: "storage \<Rightarrow> storage" where
  "count_first s = (if txns_received s = 0 then s\<lparr>txns_received := 1\<rparr> else s)"

definition jsonrpc_puttxn :: "wire \<Rightarrow> bytes \<Rightarrow> bool \<Rightarrow> (storage, nat) eff" where
  "jsonrpc_puttxn W raw broadcast s =
     (let s1 = count_first s in
      (case from_wire W raw of
         Inl e \<Rightarrow> (Inl e, s1)
       | Inr t \<Rightarrow>
           let fresh = (mempool_getitem (mempool s1) (txid t) = None);
               s2 = (if fresh then add_to_mempool t s1 else s1);
               s3 = (if broadcast then broadcast_txn raw s2 else s2)
           in (Inr (if fresh then 1 else 0), s3)))"

definition jsonrpc_puttxn_batch :: "wire \<Rightarrow> bytes list \<Rightarrow> bool \<Rightarrow> (storage, unit) eff" where
  "jsonrpc_puttxn_batch W raws broadcast =
     bindE (modE (\<lambda>s. let s1 = count_first s
                       in if broadcast then broadcast_txn_batch raws s1 else s1)) (\<lambda>_.
       forE (\<lambda>raw. bindE (jsonrpc_puttxn W raw False) (\<lambda>_. ret ())) raws)"

definition jsonrpc_req_txn :: "wire \<Rightarrow> bytes \<Rightarrow> storage \<Rightarrow> py_error + req_reply" where
  "jsonrpc_req_txn W i s =
     (if i \<in> set (invalid_txns s) then Inr Reply_None
      else
        (case mempool_getitem (mempool s) i of
           Some t \<Rightarrow> Inr (Reply_txn t)
         | None \<Rightarrow>
             (case storage_get s i of
                Some w \<Rightarrow> Inr (Reply_txn (txn w))
              | None \<Rightarrow>
                  (case pend_get (pend s) i of
                     None \<Rightarrow> Inr Reply_0
                   | Some w \<Rightarrow>
                       (case rewrap W w of Inl e \<Rightarrow> Inl e | Inr t \<Rightarrow> Inr (Reply_txn t))))))"

definition jsonrpc_getutxos ::
  "(bytes \<Rightarrow> bytes) \<Rightarrow> bytes list \<Rightarrow> storage \<Rightarrow> py_error + (bytes \<times> (bytes \<times> int \<times> rat) list) list" where
  "jsonrpc_getutxos address_to_pubkey addresses s =
     mapR (\<lambda>a. case utxos_for_pubkey s (address_to_pubkey a) of
                  Inl e \<Rightarrow> Inl e | Inr us \<Rightarrow> Inr (a, us)) addresses"

definition jsonrpc_sendrawtx :: "wire \<Rightarrow> bytes \<Rightarrow> bool \<Rightarrow> (storage, bool \<times> bytes) eff" where
  "jsonrpc_sendrawtx W raw broadcast =
     bindE (jsonrpc_puttxn W raw broadcast) (\<lambda>i s.
       case from_wire W raw of Inl e \<Rightarrow> (Inl e, s) | Inr t \<Rightarrow> (Inr (i = 1, txid t), s))"

definition jsonrpc_gettx :: "bytes \<Rightarrow> storage \<Rightarrow> (transaction \<times> rat) option" where
  "jsonrpc_gettx i s =
     (case storage_get s i of
        None \<Rightarrow> None
      | Some w \<Rightarrow> Some (txn w, of_int (timestamp w) / of_int TIME_MULTIPLIER))"

definition jsonrpc_getblockheight :: "storage \<Rightarrow> rat" where
  "jsonrpc_getblockheight s = current_time s"

section \<open>grpcinterface.py\<close>

definition GetTX :: "bytes \<Rightarrow> storage \<Rightarrow> transaction option \<times> int" where
  "GetTX i s =
     (case storage_get s i of
        None \<Rightarrow> (None, 0)
      | Some w \<Rightarrow> (Some (txn w), py_int (of_int (timestamp w) / of_int TIME_MULTIPLIER)))"

definition GetUTXOs :: "bytes \<Rightarrow> storage \<Rightarrow> py_error + (bytes \<times> int \<times> txn_output \<times> int) list" where
  "GetUTXOs p s =
     (case utxos_for_pubkey_grpc s p of
        Inl e \<Rightarrow> Inl e
      | Inr us \<Rightarrow> Inr (map (\<lambda>(t, i, out, ts). (t, i, out, py_int (of_int ts / of_int TIME_MULTIPLIER))) us))"

definition SendTX :: "wire \<Rightarrow> bytes \<Rightarrow> (storage, unit) eff" where
  "SendTX W raw = bindE (jsonrpc_puttxn W raw True) (\<lambda>_. ret ())"

section \<open>The indexes after a restart\<close>

text \<open>All outputs a database stores for a key, spent or not.\<close>

definition stored_refs :: "env \<Rightarrow> (bytes, txn_wrapper) store \<Rightarrow> bytes \<Rightarrow> outref set" where
  "stored_refs E d p = (\<Union>w\<in>{w. \<exists>k. store_get d k = Some w}. txn_refs E (txn w) p)"

lemma stored_refs_pending: "stored_refs = pending_refs"
  by (intro ext) (simp add: stored_refs_def pending_refs_def)

lemma build_index_fold:
  "index_ok idx \<Longrightarrow> index_ok (fold (\<lambda>(k, w) idx. add_txn_to_balance_index E (txn w) idx) kws idx) \<and>
     refs_of (fold (\<lambda>(k, w) idx. add_txn_to_balance_index E (txn w) idx) kws idx) p =
       refs_of idx p \<union> (\<Union>(k, w)\<in>set kws. txn_refs E (txn w) p)"
  by (induction kws arbitrary: idx) (auto simp: add_txn_index_ok add_txn_refs split: prod.split)

lemma build_index_ok: "index_ok (build_index E d)"
  unfolding build_index_def by (rule build_index_fold[OF index_ok_Nil, THEN conjunct1])

lemma build_index_refs:
  assumes "store_ok d"
  shows "refs_of (build_index E d) p = stored_refs E d p"
proof -
  have "refs_of (build_index E d) p = (\<Union>(k, w)\<in>set (store_items d). txn_refs E (txn w) p)"
    unfolding build_index_def by (subst build_index_fold[OF index_ok_Nil, THEN conjunct2]) simp
  also have "\<dots> = stored_refs E d p"
    using kv.items_get[OF assms] by (auto simp: stored_refs_def)
  finally show ?thesis .
qed

lemma add_coinbase_stored:
  "\<forall>t\<in>set coinbase. store_get d (txid t) \<noteq> None \<Longrightarrow> add_coinbase coinbase d = d"
  unfolding add_coinbase_def by (induction coinbase arbitrary: d) auto

lemma add_coinbase_ok: "store_ok d \<Longrightarrow> store_ok (add_coinbase coinbase d)"
  unfolding add_coinbase_def by (induction coinbase arbitrary: d) auto

end
