(* ===== verification/NodeRun.thy ===== *)
theory NodeRun
  imports Node
begin

text \<open>
  Runs of a node. An event is one whole operation: a call of the RPC interface, a block handed
  over by the replication, a round of \<open>try_process\<close>, a reply to a request, a task of the
  reactor. An operation that raises leaves the state it had reached. What every run keeps is
  proved from one relation between states, \<open>evolves\<close>.
\<close>

datatype event =
    Ev_puttxn bytes bool
  | Ev_puttxn_batch "bytes list" bool
  | Ev_block block
  | Ev_try_process
  | Ev_reply req_reply nat bytes
  | Ev_reactor

fun node_event :: "env \<Rightarrow> wire \<Rightarrow> event \<Rightarrow> (storage, unit) eff" where
  "node_event E W (Ev_puttxn raw b) = bindE (jsonrpc_puttxn W raw b) (\<lambda>_. ret ())"
| "node_event E W (Ev_puttxn_batch raws b) = jsonrpc_puttxn_batch W raws b"
| "node_event E W (Ev_block blk) = add_block_to_queue E blk"
| "node_event E W Ev_try_process = try_process E"
| "node_event E W (Ev_reply reply n i) = req_txn_callbacks E reply n i"
| "node_event E W Ev_reactor =
     (\<lambda>s. case reactor_queue s of [] \<Rightarrow> (Inr (), s) | t # q \<Rightarrow> run_task t (s\<lparr>reactor_queue := q\<rparr>))"

text \<open>
  The transactions that can arrive. Each has distinct inputs that are not dummies and name an
  output from the front, amounts that are not negative (they are unsigned on the wire), and an
  id that commits to its inputs and its sequence number.
\<close>

definition genuine :: "env \<Rightarrow> transaction set \<Rightarrow> bool" where
  "genuine E U \<longleftrightarrow>
     (\<forall>t\<in>U. wf_txn E t \<and> real_inputs E t = inputs t \<and> (\<forall>out\<in>set (outputs t). 0 \<le> amount out)) \<and>
     (\<forall>t\<in>U. \<forall>u\<in>U. txid t = txid u \<longrightarrow> same_inputs t u \<and> seq t = seq u)"

fun arrives :: "wire \<Rightarrow> transaction set \<Rightarrow> event \<Rightarrow> bool" where
  "arrives W U (Ev_puttxn raw b) \<longleftrightarrow> (\<forall>t. from_wire W raw = Inr t \<longrightarrow> t \<in> U)"
| "arrives W U (Ev_puttxn_batch raws b) \<longleftrightarrow> (\<forall>raw\<in>set raws. \<forall>t. from_wire W raw = Inr t \<longrightarrow> t \<in> U)"
| "arrives W U (Ev_reply reply n i) \<longleftrightarrow> (\<forall>t. reply = Reply_txn t \<longrightarrow> t \<in> U \<and> txid t = i)"
| "arrives W U _ \<longleftrightarrow> True"

inductive node_run :: "env \<Rightarrow> wire \<Rightarrow> transaction set \<Rightarrow> storage \<Rightarrow> storage \<Rightarrow> bool"
  for E W U where
  start: "node_run E W U s s"
| event: "node_run E W U s t \<Longrightarrow> arrives W U ev \<Longrightarrow> node_run E W U s (snd (node_event E W ev t))"

section \<open>What an operation may do\<close>

text \<open>\<open>mempool_list\<close>: no repetition, and only ids of the mempool.\<close>

definition listed :: "storage \<Rightarrow> bool" where
  "listed s \<longleftrightarrow> distinct (mempool_list s) \<and> (\<forall>i\<in>set (mempool_list s). mempool_getitem (mempool s) i \<noteq> None)"

definition node_inv :: "env \<Rightarrow> transaction set \<Rightarrow> storage \<Rightarrow> bool" where
  "node_inv E U s \<longleftrightarrow> ledger_inv E s \<and> listed s \<and>
     (\<forall>k t. store_get (mempool s) k = Some t \<longrightarrow> t \<in> U) \<and>
     (\<forall>k w. store_get (pend s) k = Some w \<longrightarrow> txn w \<in> U)"

definition evolves :: "env \<Rightarrow> transaction set \<Rightarrow> storage \<Rightarrow> storage \<Rightarrow> bool" where
  "evolves E U s s' \<longleftrightarrow>
     (node_inv E U s \<longrightarrow> node_inv E U s' \<and> db_grows s s' \<and> ledger_value s' \<le> ledger_value s)"

lemma evolvesI:
  assumes "node_inv E U s \<Longrightarrow> node_inv E U s' \<and> db_grows s s' \<and> ledger_value s' \<le> ledger_value s"
  shows "evolves E U s s'"
  using assms by (simp add: evolves_def)

lemma evolves_if: "(node_inv E U s \<Longrightarrow> evolves E U s s') \<Longrightarrow> evolves E U s s'"
  unfolding evolves_def by blast

lemma evolves_trans: "evolves E U s t \<Longrightarrow> evolves E U t u \<Longrightarrow> evolves E U s u"
  unfolding evolves_def using db_grows_trans order.trans by blast

text \<open>Changes outside the databases, the indexes and the mempool do not matter.\<close>

definition core :: "storage \<Rightarrow> _" where
  "core s = (db s, pub_outs s, pend s, pub_outs_pend s, mempool s, mempool_list s)"

lemma node_inv_core: "core s' = core s \<Longrightarrow> node_inv E U s \<Longrightarrow> node_inv E U s'"
  unfolding node_inv_def core_def listed_def by (auto intro: ledger_inv_cong)

lemma evolves_core: "core s' = core s \<Longrightarrow> evolves E U s s'"
proof (rule evolvesI)
  assume c: "core s' = core s" and i: "node_inv E U s"
  have "ledger_value s' = ledger_value s" by (rule ledger_value_cong) (use c in \<open>simp_all add: core_def\<close>)
  then show "node_inv E U s' \<and> db_grows s s' \<and> ledger_value s' \<le> ledger_value s"
    using node_inv_core[OF c i] c by (simp add: core_def)
qed

lemma evolves_refl [simp]: "evolves E U s s"
  by (rule evolves_core) simp

section \<open>The mempool\<close>

lemma listed_remove: "listed s \<Longrightarrow> listed (remove_from_mempool i s)"
  by (auto simp: listed_def remove_from_mempool_def)

lemma node_inv_remove: "node_inv E U s \<Longrightarrow> node_inv E U (remove_from_mempool i s)"
  unfolding node_inv_def
  by (intro conjI listed_remove)
     (auto simp: remove_from_mempool_def mempool_delitem_def split: if_splits elim: ledger_inv_cong)

lemma evolves_remove: "evolves E U s (remove_from_mempool i s)"
proof (rule evolvesI)
  assume i: "node_inv E U s"
  have "ledger_value (remove_from_mempool i s) = ledger_value s"
    by (rule ledger_value_cong) (simp_all add: remove_from_mempool_def)
  then show "node_inv E U (remove_from_mempool i s) \<and> db_grows s (remove_from_mempool i s) \<and>
      ledger_value (remove_from_mempool i s) \<le> ledger_value s"
    using node_inv_remove[OF i] by (simp add: remove_from_mempool_def)
qed

lemma evolves_add:
  assumes g: "genuine E U" and t: "t \<in> U" and fresh: "mempool_getitem (mempool s) (txid t) = None"
  shows "evolves E U s (add_to_mempool t s)"
proof (rule evolvesI)
  let ?s = "add_to_mempool t s"
  assume i: "node_inv E U s"
  have eq: "spent_output ?s = spent_output s" "input_unspent ?s = input_unspent s" "input_amount ?s = input_amount s"
    by (simp_all add: fun_eq_iff spent_output_def input_unspent_def input_amount_def storage_get_def add_to_mempool_def)
  have f: "db ?s = db s" "pub_outs ?s = pub_outs s" "pend ?s = pend s" "pub_outs_pend ?s = pub_outs_pend s"
    "mempool ?s = store_put (txid t) t (mempool s)"
    by (simp_all add: add_to_mempool_def mempool_setitem_def)
  have wf: "wf_txn E t" using g t by (simp add: genuine_def)
  have p: "same_inputs (txn w) t \<and> seq (txn w) = seq t" if "store_get (pend s) (txid t) = Some w" for w
  proof -
    have "txn w \<in> U" "txid (txn w) = txid t"
      using i that by (auto simp: node_inv_def ledger_inv_def pend_ok_def keyed_def)
    with g t show ?thesis unfolding genuine_def by blast
  qed
  have "mempool_ok E ?s"
    using i p wf by (auto simp: node_inv_def ledger_inv_def mempool_ok_def f split: if_splits)
  then have "ledger_inv E ?s"
    using i unfolding node_inv_def ledger_inv_def db_ok_def pend_ok_def pend_inv_def inputs_held_def eq f
    by blast
  moreover have "listed ?s"
    using i fresh by (auto simp: node_inv_def listed_def add_to_mempool_def)
  ultimately have "node_inv E U ?s" using i t by (auto simp: node_inv_def f split: if_splits)
  moreover have "ledger_value ?s = ledger_value s" by (rule ledger_value_cong) (simp_all add: f)
  ultimately show "node_inv E U ?s \<and> db_grows s ?s \<and> ledger_value ?s \<le> ledger_value s" by (simp add: f)
qed

section \<open>A transaction of a block\<close>

lemma verify_txn_error_state: "verify_txn E cp t s = (Inl e, s') \<Longrightarrow> s' = s"
  by (auto simp: verify_txn_def split: if_splits sum.splits option.splits pend_check.splits)

text \<open>The only exceptions leave the state alone.\<close>

lemma process_txn_InlD:
  assumes inv: "ledger_inv E s" and p: "process_txn E i s = (Inl e, s')"
    and real: "\<And>t. store_get (mempool s) i = Some t \<Longrightarrow> real_inputs E t = inputs t"
  shows "s' = s"
proof (cases "store_get (mempool s) i")
  case None
  with p show ?thesis by (simp add: process_txn_def mempool_getitem_def)
next
  case (Some t)
  show ?thesis
  proof (cases "inputs t = []")
    case False
    with process_txn_returns[OF inv Some False real[OF Some]] p show ?thesis by auto
  next
    case True
    then have "\<not> acceptable E s t" by (simp add: acceptable_def real_inputs_def)
    then have nt: "fst (verify_txn E True t s) \<noteq> Inr True" by (simp add: verify_txn_acceptable)
    obtain r s1 where v: "verify_txn E True t s = (r, s1)" by (cases "verify_txn E True t s")
    show ?thesis
    proof (cases r)
      case (Inl d)
      with v Some p verify_txn_error_state[of E True t s d s1] show ?thesis
        by (auto simp: process_txn_def mempool_getitem_def Let_def bindE_def)
    next
      case (Inr b)
      with v nt have "b = False" by auto
      with v Inr Some p show ?thesis by (simp add: process_txn_def mempool_getitem_def Let_def bindE_def)
    qed
  qed
qed

lemma accept_txn_grows:
  assumes inv: "ledger_inv E s" and mp: "store_get (mempool s) (txid t) = Some t"
    and v: "verify_txn E True t s = (Inr True, s1)" and a: "accept_txn E t ts s1 = (Inr (), s3)"
  shows "db_grows s s3" and "mempool_list s3 = mempool_list s"
    and "store_get (pend s3) k = Some w \<Longrightarrow> store_get (pend s) k = Some w \<or> txn w = t"
proof -
  have s1: "s1 = (case check_pend_replacement s t of Replaces tx \<Rightarrow> del_from_pending E tx s | _ \<Rightarrow> s)"
    using verify_txn_state[OF v] by simp
  have f1: "db s1 = db s" "mempool_list s1 = mempool_list s"
    and p1: "\<And>k w. store_get (pend s1) k = Some w \<Longrightarrow> store_get (pend s) k = Some w"
    by (auto simp: s1 split: pend_check.splits if_splits)
  obtain s2 where s2: "forE (spend_input E) (inputs t) s1 = (Inr (), s2)"
    and s3: "s3 = (if timelock t \<noteq> 0 then add_pending E t ts s2 else add_record E t ts s2)
                \<lparr>txns_accepted := Suc (txns_accepted s2)\<rparr>"
    using accept_txn_InrD[OF a] by blast
  have "ledger_inv E s1" using verify_txn_accepted[OF inv mp v] by blast
  then have ok: "db_ok E s1" and fl: "flags_ok (db s1)" by (simp_all add: ledger_inv_def db_ok_def)
  have nn: "\<forall>inp\<in>set (inputs t). 0 \<le> inp_index inp"
    using inv mp unfolding ledger_inv_def mempool_ok_def wf_txn_def by blast
  have st: "ledger_step s1 s2" using fl s2 by (rule spend_inputs_ledger_step)
  have g2: "db_grows s1 s2" using spend_inputs_value[OF ok nn s2] by blast
  have fresh: "store_get (db s2) (txid t) = None"
    using same_txns_None[OF ledger_step_same[OF st]] verify_txn_acceptable[of E t s] v f1
    by (simp add: acceptable_def storage_get_def)
  have g3: "db_grows s2 s3"
  proof (cases "timelock t \<noteq> 0")
    case True
    then show ?thesis by (intro db_grows_refl) (simp add: s3 add_pending_def)
  next
    case False
    with fresh show ?thesis by (rule_tac db_grows_new) (simp_all add: s3 add_record_def)
  qed
  have "db_grows s s1" using f1 by simp
  then show "db_grows s s3" using g2 g3 db_grows_trans by blast
  have "mempool_list s2 = mempool_list s1 \<and> pend s2 = pend s1"
    by (rule forE_inv[where I = "\<lambda>u. mempool_list u = mempool_list s1 \<and> pend u = pend s1", OF _ _ s2])
       (auto simp: spend_input_def storage_setitem_def Let_def split: sum.splits option.splits)
  then show "mempool_list s3 = mempool_list s"
    "store_get (pend s3) k = Some w \<Longrightarrow> store_get (pend s) k = Some w \<or> txn w = t"
    using f1 p1 by (auto simp: s3 add_pending_def add_record_def pend_setitem_def split: if_splits)
qed

lemma evolves_process_txn:
  assumes g: "genuine E U"
  shows "evolves E U s (snd (process_txn E i s))"
proof (rule evolvesI)
  assume i: "node_inv E U s"
  then have inv: "ledger_inv E s" by (simp add: node_inv_def)
  let ?s' = "snd (process_txn E i s)"
  show "node_inv E U ?s' \<and> db_grows s ?s' \<and> ledger_value ?s' \<le> ledger_value s"
  proof (cases "fst (process_txn E i s)")
    case (Inl e)
    then have p: "process_txn E i s = (Inl e, ?s')" by (intro prod_eqI) simp_all
    have "?s' = s"
      by (rule process_txn_InlD[OF inv p]) (use i g in \<open>auto simp: node_inv_def genuine_def\<close>)
    with i show ?thesis by simp
  next
    case (Inr u)
    then have p: "process_txn E i s = (Inr (), ?s')" by (intro prod_eqI) simp_all
    note eff = process_txn_effect[OF inv p]
    obtain t b s1 s2 where t: "store_get (mempool s) i = Some t" and v: "verify_txn E True t s = (Inr b, s1)"
      and a: "(if b then accept_txn E t (py_int (current_time s * of_int TIME_MULTIPLIER)) s1 else (Inr (), s1)) = (Inr (), s2)"
      and s': "?s' = remove_from_mempool i (s2\<lparr>txns_processed := Suc (txns_processed s2)\<rparr>)"
      using process_txn_InrD[OF p] by metis
    have ti: "txid t = i" and tU: "t \<in> U"
      using i t by (auto simp: node_inv_def ledger_inv_def mempool_ok_def)
    have s2: "db_grows s s2 \<and> (listed s2 \<or> mempool_list s2 = mempool_list s) \<and>
        (\<forall>k w. store_get (pend s2) k = Some w \<longrightarrow> txn w \<in> U)"
    proof (cases b)
      case True
      from v True have v': "verify_txn E True t s = (Inr True, s1)" by simp
      from a True have a': "accept_txn E t (py_int (current_time s * of_int TIME_MULTIPLIER)) s1 = (Inr (), s2)" by simp
      have mp: "store_get (mempool s) (txid t) = Some t" using t ti by simp
      show ?thesis using accept_txn_grows[OF inv mp v' a'] i tU unfolding node_inv_def by blast
    next
      case False
      with v a have v': "verify_txn E True t s = (Inr False, s2)" by simp
      have "listed s2"
        using verify_txn_state[OF v'] listed_remove i
        by (auto simp: node_inv_def remove_invalid_txn_from_mempool_def listed_def remove_from_mempool_def split: if_splits)
      then show ?thesis using verify_txn_rejected[OF v'] i by (simp add: node_inv_def)
    qed
    have m: "mempool ?s' = store_del i (mempool s)" using eff(3) by (simp add: mempool_delitem_def)
    have ml: "mempool_list ?s' = remove1 i (mempool_list s2)" by (simp add: s' remove_from_mempool_def)
    have "listed ?s'"
      using s2
    proof (elim conjE disjE)
      assume "listed s2"
      then have "listed (s2\<lparr>txns_processed := Suc (txns_processed s2)\<rparr>)" by (simp add: listed_def)
      then show ?thesis unfolding s' by (rule listed_remove)
    next
      assume "mempool_list s2 = mempool_list s"
      with i show ?thesis unfolding node_inv_def listed_def ml m
        by (auto simp: mempool_getitem_def)
    qed
    moreover have "store_get (pend ?s') k = Some w \<Longrightarrow> txn w \<in> U" for k w
      using s2 by (auto simp: s' remove_from_mempool_def)
    moreover have "store_get (mempool ?s') k = Some u \<Longrightarrow> u \<in> U" for k u
      using i by (auto simp: m node_inv_def split: if_splits)
    moreover have "db_grows s ?s'" using s2 by (simp add: s' db_grows_def remove_from_mempool_def)
    ultimately show ?thesis using eff(1,2) by (simp add: node_inv_def)
  qed
qed

section \<open>The pending set\<close>

lemma update_pend_step_grows:
  assumes i: "node_inv E U s" and w: "store_get (pend s) k = Some w"
    and p: "update_pend_step E (k, w) s = (Inr (), s')"
  shows "db_grows s s' \<and> listed s' \<and> (\<forall>k u. store_get (mempool s') k = Some u \<longrightarrow> u \<in> U)"
proof (cases "timelock_expired s (timestamp w) (txn w)")
  case False
  with p i show ?thesis by (simp add: update_pend_step_def node_inv_def)
next
  case exp: True
  from i have inv: "ledger_inv E s" by (simp add: node_inv_def)
  let ?t = "txn w" and ?s1 = "del_from_pending E (txn w) s"
  have k: "k = txid ?t" using inv w by (auto simp: ledger_inv_def pend_ok_def keyed_def)
  have inv1: "ledger_inv E ?s1" using del_from_pending_inv[OF inv w[unfolded k] refl] by simp
  have f1: "db ?s1 = db s" "mempool ?s1 = mempool s" "mempool_list ?s1 = mempool_list s"
    by (simp_all add: del_from_pending_def)
  have l1: "listed ?s1" using i f1 by (simp add: node_inv_def listed_def)
  have fl: "flags_ok (db ?s1)" using inv1 by (simp add: ledger_inv_def db_ok_def)
  obtain b s2 where v: "verify_txn E False ?t ?s1 = (Inr b, s2)"
    using verify_txn_nopend[OF fl, of E ?t] by (cases "verify_txn E False ?t ?s1") auto
  have unf: "(if b then write_txn_to_db E ?t (timestamp w) s2 else (Inr (), s2)) = (Inr (), s')"
    using p exp v by (cases b) (simp_all add: update_pend_step_def Let_def bindE_modE bindE_ok)
  note vs = verify_txn_state_nopend[OF v]
  show ?thesis
  proof (cases b)
    case False
    then have s': "s' = (if storage_contains ?s1 (txid ?t) then remove_from_mempool (txid ?t) ?s1
        else remove_invalid_txn_from_mempool (txid ?t) ?s1)" using vs unf by simp
    have "db s' = db s" using f1 by (simp add: s')
    moreover have "listed s'"
      using listed_remove l1 by (simp add: s' remove_invalid_txn_from_mempool_def listed_def remove_from_mempool_def)
    moreover have "mempool s' = store_del (txid ?t) (mempool s)"
      by (simp add: s' mempool_delitem_def f1)
    ultimately show ?thesis using i by (auto simp: node_inv_def split: if_splits)
  next
    case True
    then have s2: "s2 = ?s1" using vs by simp
    have fresh: "store_get (db ?s1) (txid ?t) = None"
      using verify_txn_nopend[OF fl, of E ?t] v True by (simp add: storage_get_def)
    have nn: "\<forall>inp\<in>set (inputs ?t). 0 \<le> inp_index inp"
      using inv w unfolding ledger_inv_def pend_inv_def wf_txn_def by blast
    obtain r s3 where f: "forE (spend_input E) (inputs ?t) ?s1 = (r, s3)" by (cases "forE (spend_input E) (inputs ?t) ?s1")
    have r: "r = Inr ()" and s': "s' = add_record E ?t (timestamp w) s3"
      using unf True s2 f by (auto simp: write_txn_to_db_alt split: sum.splits)
    note f' = f[unfolded r]
    have st: "ledger_step ?s1 s3" using fl f' by (rule spend_inputs_ledger_step)
    have "db_grows ?s1 s3" using spend_inputs_value[OF _ nn f'] inv1 by (simp add: ledger_inv_def)
    then have g: "db_grows s s3" using f1 by (simp add: db_grows_def)
    have "store_get (db s3) (txid ?t) = None" using fresh same_txns_None[OF ledger_step_same[OF st]] by simp
    then have "db_grows s3 s'" by (rule db_grows_new) (simp add: s' add_record_def)
    with g have "db_grows s s'" using db_grows_trans by blast
    moreover have "mempool_list s3 = mempool_list ?s1 \<and> mempool s3 = mempool ?s1"
      by (rule forE_inv[where I = "\<lambda>u. mempool_list u = mempool_list ?s1 \<and> mempool u = mempool ?s1", OF _ _ f'])
         (auto simp: spend_input_def storage_setitem_def Let_def split: sum.splits option.splits)
    then have "mempool_list s' = mempool_list s" "mempool s' = mempool s"
      by (simp_all add: s' add_record_def f1)
    ultimately show ?thesis using i by (simp add: node_inv_def listed_def)
  qed
qed

lemma txn_amount_nonneg: "genuine E U \<Longrightarrow> t \<in> U \<Longrightarrow> 0 \<le> txn_amount t"
  unfolding txn_amount_def by (rule sum_list_nonneg) (auto simp: genuine_def)

text \<open>One round on a pending transaction, and the rounds \<open>update_pend\<close> makes.\<close>

definition pend_round :: "env \<Rightarrow> transaction set \<Rightarrow> storage \<Rightarrow> storage \<Rightarrow> bool" where
  "pend_round E U s s' \<longleftrightarrow> node_inv E U s \<and>
     (\<exists>k w. store_get (pend s) k = Some w \<and> update_pend_step E (k, w) s = (Inr (), s'))"

lemma update_pend_round:
  assumes g: "genuine E U" and n: "node_inv E U s" and w: "store_get (pend s) k = Some w"
  obtains s1 where "update_pend_step E (k, w) s = (Inr (), s1)" "evolves E U s s1" "node_inv E U s1"
    "pend s1 = (if timelock_expired s (timestamp w) (txn w) then store_del k (pend s) else pend s)"
proof -
  from n have inv: "ledger_inv E s" by (simp add: node_inv_def)
  obtain s1 where st: "update_pend_step E (k, w) s = (Inr (), s1)" and inv1: "ledger_inv E s1"
    and p1: "pend s1 = (if timelock_expired s (timestamp w) (txn w) then store_del k (pend s) else pend s)"
    and v1: "ledger_value s1 = ledger_value s -
      (if timelock_expired s (timestamp w) (txn w) \<and> fst (verify_txn E False (txn w) (del_from_pending E (txn w) s)) \<noteq> Inr True
       then txn_amount (txn w) else 0)"
    using update_pend_step_effect[OF inv w] by blast
  note gr = update_pend_step_grows[OF n w st]
  have "txn w \<in> U" using n w by (auto simp: node_inv_def)
  then have "ledger_value s1 \<le> ledger_value s"
    using v1 txn_amount_nonneg[OF g] by (simp split: if_splits)
  moreover have "node_inv E U s1" using n inv1 gr by (auto simp: node_inv_def p1 split: if_splits)
  ultimately show thesis using st p1 gr by (intro that) (simp_all add: evolves_def)
qed

lemma pend_rounds:
  assumes "genuine E U" and "node_inv E U s" and "distinct (map fst kws)"
    and "\<forall>(k, w)\<in>set kws. store_get (pend s) k = Some w"
  shows "\<exists>s'. forE (update_pend_step E) kws s = (Inr (), s') \<and> (pend_round E U)\<^sup>*\<^sup>* s s'"
  using assms(2-)
proof (induction kws arbitrary: s)
  case (Cons x xs)
  obtain k w where x: "x = (k, w)" by (cases x)
  with Cons.prems have w: "store_get (pend s) k = Some w" by simp
  obtain s1 where st: "update_pend_step E (k, w) s = (Inr (), s1)" and n1: "node_inv E U s1"
    and p1: "pend s1 = (if timelock_expired s (timestamp w) (txn w) then store_del k (pend s) else pend s)"
    using update_pend_round[OF assms(1) Cons.prems(1) w] by blast
  have "\<forall>(k', w')\<in>set xs. store_get (pend s1) k' = Some w'"
    using Cons.prems(2,3) x by (force simp: p1)
  with Cons.IH[OF n1] Cons.prems(2) obtain s' where "forE (update_pend_step E) xs s1 = (Inr (), s')"
    "(pend_round E U)\<^sup>*\<^sup>* s1 s'" by auto
  moreover have "pend_round E U s s1" using Cons.prems(1) w st by (auto simp: pend_round_def)
  ultimately show ?case using st by (auto simp: x bindE_ok intro: converse_rtranclp_into_rtranclp)
qed simp

lemma update_pend_rounds:
  assumes "genuine E U" and i: "node_inv E U s"
  shows "(pend_round E U)\<^sup>*\<^sup>* s (snd (update_pend E s))"
proof -
  from i have ok: "store_ok (pend s)" by (simp add: node_inv_def ledger_inv_def pend_ok_def)
  have "distinct (map fst (store_items (pend s)))" using ok by (rule kv.items_distinct)
  moreover have "\<forall>(k, w)\<in>set (store_items (pend s)). store_get (pend s) k = Some w"
    using kv.items_get[OF ok] by auto
  ultimately show ?thesis
    using pend_rounds[OF assms, of "store_items (pend s)"] by (auto simp: update_pend_def)
qed

lemma evolves_update_pend:
  assumes g: "genuine E U"
  shows "evolves E U s (snd (update_pend E s))"
proof (rule evolves_if)
  assume "node_inv E U s"
  then have "(pend_round E U)\<^sup>*\<^sup>* s (snd (update_pend E s))" by (rule update_pend_rounds[OF g])
  then show "evolves E U s (snd (update_pend E s))"
  proof induction
    case (step t u)
    then obtain k w where n: "node_inv E U t" and w: "store_get (pend t) k = Some w"
      and st: "update_pend_step E (k, w) t = (Inr (), u)" unfolding pend_round_def by blast
    have "evolves E U t u" using update_pend_round[OF g n w] st by auto
    with step.IH show ?case by (rule evolves_trans)
  qed simp
qed

section \<open>Composition\<close>

text \<open>
  What a relation between states must satisfy to hold along every run: the interface between the
  ledger and the events. The operations the events are made of appear in it once.
\<close>

locale node_frame =
  fixes E :: env and U :: "transaction set" and R :: "storage \<Rightarrow> storage \<Rightarrow> bool"
  assumes trans: "R s s1 \<Longrightarrow> R s1 s2 \<Longrightarrow> R s s2"
    and core_R: "core s' = core s \<Longrightarrow> R s s'"
    and add: "t \<in> U \<Longrightarrow> mempool_getitem (mempool s) (txid t) = None \<Longrightarrow> R s (add_to_mempool t s)"
    and process: "R s (snd (process_txn E i s))"
    and pending: "R s (snd (update_pend E s))"
begin

lemma frame_refl [simp]: "R s s"
  by (rule core_R) simp

lemma frame_core_left: "R s' u \<Longrightarrow> core s' = core s \<Longrightarrow> R s u"
  by (rule trans[OF core_R])

lemma frame_core_right: "R s u \<Longrightarrow> core u' = core u \<Longrightarrow> R s u'"
  by (rule trans[OF _ core_R])

lemma frame_forE:
  assumes "\<And>x t. x \<in> set xs \<Longrightarrow> R t (snd (f x t))"
  shows "R s (snd (forE f xs s))"
proof (rule forE_inv[where I = "R s" and f = f and xs = xs and s = s])
  show "forE f xs s = (fst (forE f xs s), snd (forE f xs s))" by simp
  fix x t r u assume "x \<in> set xs" "R s t" "f x t = (r, u)"
  with assms[of x t] show "R s u" by (simp add: trans)
qed simp

lemma frame_bindE:
  assumes "R s (snd (m s))" and "\<And>x t. m s = (Inr x, t) \<Longrightarrow> R t (snd (k x t))"
  shows "R s (snd (bindE m k s))"
proof (cases "m s")
  case (Pair r t)
  with assms show ?thesis by (cases r) (auto simp: bindE_def intro: trans)
qed

lemma frame_process_block: "R s (snd (process_block E blk s))"
  unfolding process_block_def
proof (rule frame_bindE, goal_cases)
  case 1
  show ?case by (simp add: core_R core_def)
next
  case (2 x t)
  show ?case
  proof (rule frame_bindE, goal_cases)
    case 1
    show ?case by (rule frame_forE) (rule process)
  next
    case (2 y u)
    show ?case by (rule core_R) (simp add: finish_block_def core_def split: list.split)
  qed
qed

lemma frame_enqueue: "R s (snd (add_block_to_queue E blk s))"
  unfolding add_block_to_queue_def
proof (rule frame_bindE, goal_cases)
  case 1
  show ?case by (rule pending)
next
  case (2 x t)
  show ?case by (rule core_R) (simp add: core_def)
qed

lemma frame_request: "R s (snd (request_missing_transaction E i n s))"
  unfolding request_missing_transaction_def Let_def
  by (auto simp: core_def intro!: core_R frame_core_left[OF frame_process_block])

lemma frame_find_missing: "R s (snd (find_missing_transactions E blk s))"
proof -
  have r: "R u (snd (request_missing_transactions E u))" for u
    unfolding request_missing_transactions_def by (rule frame_forE) (rule frame_request)
  show ?thesis
    unfolding find_missing_transactions_def Let_def
    by (auto simp: core_def intro!: frame_core_left[OF frame_process_block]
        frame_core_left[OF r])
qed

lemma frame_try_process: "R s (snd (try_process E s))"
  unfolding try_process_def Let_def
  by (auto simp: core_def split: list.split intro!: core_R
      frame_core_left[OF frame_process_block]
      frame_core_left[OF frame_find_missing])

lemma frame_puttxn:
  assumes "\<And>t. from_wire W raw = Inr t \<Longrightarrow> t \<in> U"
  shows "R s (snd (jsonrpc_puttxn W raw b s))"
proof (cases "from_wire W raw")
  case (Inl e)
  then show ?thesis by (simp add: jsonrpc_puttxn_def Let_def count_first_def core_R core_def)
next
  case (Inr t)
  let ?s1 = "count_first s"
  have c1: "core ?s1 = core s" by (simp add: count_first_def core_def)
  have "R ?s1 (if mempool_getitem (mempool ?s1) (txid t) = None then add_to_mempool t ?s1 else ?s1)"
    using add assms[OF Inr] by simp
  then have "R s (if mempool_getitem (mempool ?s1) (txid t) = None then add_to_mempool t ?s1 else ?s1)"
    using c1 by (rule frame_core_left)
  then show ?thesis
    using Inr by (auto simp: jsonrpc_puttxn_def Let_def broadcast_txn_def core_def elim: frame_core_right)
qed

lemma frame_puttxn_batch:
  assumes "\<And>raw t. raw \<in> set raws \<Longrightarrow> from_wire W raw = Inr t \<Longrightarrow> t \<in> U"
  shows "R s (snd (jsonrpc_puttxn_batch W raws b s))"
  unfolding jsonrpc_puttxn_batch_def
proof (rule frame_bindE, goal_cases)
  case 1
  show ?case by (auto simp: core_def broadcast_txn_batch_def count_first_def Let_def intro!: core_R)
next
  case (2 x t)
  show ?case
  proof (rule frame_forE)
    fix raw u assume "raw \<in> set raws"
    then have "R u (snd (jsonrpc_puttxn W raw False u))"
      using assms by (intro frame_puttxn)
    then show "R u (snd (bindE (jsonrpc_puttxn W raw False) (\<lambda>_. ret ()) u))"
      by (rule frame_bindE) simp
  qed
qed

lemma frame_received:
  assumes "\<And>t. reply = Reply_txn t \<Longrightarrow> t \<in> U \<and> txid t = i"
  shows "R s (snd (transaction_received E reply n i s))"
proof (cases "reply = Reply_0")
  case True
  then show ?thesis by (simp add: transaction_received_def frame_request)
next
  case False
  show ?thesis
    unfolding transaction_received_def if_not_P[OF False]
  proof (rule frame_bindE, goal_cases)
    case 1
    show ?case using assms add by (cases reply) auto
  next
    case (2 x t)
    show ?case
      by (auto simp: bindE_modE core_def intro!: core_R frame_core_left[OF frame_process_block])
  qed
qed

lemma frame_reply:
  assumes "\<And>t. reply = Reply_txn t \<Longrightarrow> t \<in> U \<and> txid t = i"
  shows "R s (snd (req_txn_callbacks E reply n i s))"
proof -
  obtain r s1 where r: "transaction_received E reply n i s = (r, s1)" by (cases "transaction_received E reply n i s")
  have "R s (snd (transaction_received E reply n i s))"
    by (rule frame_received) (rule assms)
  then have "R s s1" using r by simp
  then show ?thesis
    using trans frame_request
    by (cases r) (auto simp: req_txn_callbacks_def r transaction_receive_error_def)
qed

lemma frame_task: "R s (snd (run_task t s))"
  by (cases t) (auto simp: req_txn_def Let_def core_def intro!: core_R)

lemma frame_event:
  assumes "arrives W U ev"
  shows "R s (snd (node_event E W ev s))"
proof (cases ev)
  case (Ev_puttxn raw b)
  then show ?thesis using assms
    by (auto intro!: frame_bindE frame_puttxn)
next
  case Ev_reactor
  then show ?thesis
    by (auto simp: core_def split: list.split intro: frame_core_left[OF frame_task])
qed (use assms in \<open>auto intro!: frame_puttxn_batch frame_enqueue frame_try_process frame_reply\<close>)

lemma frame_run: "node_run E W U s s' \<Longrightarrow> R s s'"
proof (induction rule: node_run.induct)
  case (event s t ev)
  then show ?case using trans frame_event by blast
qed simp

end

section \<open>Every run evolves the node\<close>

interpretation evolving: node_frame E U "\<lambda>s s'. genuine E U \<longrightarrow> evolves E U s s'" for E U
  by unfold_locales
     (blast intro: evolves_trans evolves_core evolves_add evolves_process_txn evolves_update_pend)+

lemma node_run_evolves: "node_run E W U s s' \<Longrightarrow> genuine E U \<Longrightarrow> evolves E U s s'"
  using evolving.frame_run by blast

end
