(* ===== verification/NodeSpec.thy ===== *)
theory NodeSpec
  imports LedgerSpec NodeRun
begin

text \<open>
  The properties of a node: what every run keeps, the supply of a fresh node, the start from
  the databases, the requests for missing transactions, the blocks a leader sends and the
  record format.
\<close>

section \<open>Runs\<close>

definition ex_wire :: wire where
  "ex_wire = \<lparr>from_wire = (\<lambda>raw. if raw = [2] then Inr ex_pay else Inl ValueError),
     to_wire = (\<lambda>t. txid t), rewrap = (\<lambda>_. Inl TypeError)\<rparr>"

lemma ex_genuine: "genuine ex_env {ex_pay}"
  by (auto simp: genuine_def wf_txn_def real_inputs_def ex_defs comparable_input_def)

lemma ex_state_node_inv: "node_inv ex_env {ex_pay} ex_state"
  using ex_state_inv
  by (auto simp: node_inv_def listed_def mempool_getitem_def ex_state_def store_get_Cons split: if_splits)

lemma ex_run: "node_run ex_env ex_wire {ex_pay} ex_state (snd (try_process ex_env ex_state))"
  using node_run.event[OF node_run.start, where ev = Ev_try_process] by simp



section \<open>A fresh node\<close>

lemma add_coinbase_inv:
  assumes "\<forall>t\<in>set cb. txid t \<noteq> no_hash E"
    and "store_ok d" "flags_ok d" "keyed d" "store_get d (no_hash E) = None"
    and "\<forall>k w. store_get d k = Some w \<longrightarrow> utxos w = replicate (length (outputs (txn w))) True"
  shows "store_ok (add_coinbase cb d) \<and> flags_ok (add_coinbase cb d) \<and> keyed (add_coinbase cb d) \<and>
    store_get (add_coinbase cb d) (no_hash E) = None \<and>
    (\<forall>k w. store_get (add_coinbase cb d) k = Some w \<longrightarrow> utxos w = replicate (length (outputs (txn w))) True)"
  using assms
proof (induction cb arbitrary: d)
  case (Cons t cb)
  let ?d = "if store_get d (txid t) \<noteq> None then d else store_put (txid t) (TxnWrapper t 0 None) d"
  have "add_coinbase (t # cb) d = add_coinbase cb ?d" by (simp add: add_coinbase_def)
  moreover have "store_ok ?d" "flags_ok ?d" "keyed ?d" "store_get ?d (no_hash E) = None"
    "\<forall>k w. store_get ?d k = Some w \<longrightarrow> utxos w = replicate (length (outputs (txn w))) True"
    using Cons.prems by (auto simp: flags_ok_put keyed_put split: if_splits)
  ultimately show ?case using Cons.IH[of ?d] Cons.prems(1) by simp
qed (simp add: add_coinbase_def)

lemma unspent_refs_fresh:
  assumes "\<forall>k w. store_get d k = Some w \<longrightarrow> utxos w = replicate (length (outputs (txn w))) True"
    and "keyed d"
  shows "unspent_refs E d p = stored_refs E d p"
proof (rule set_eqI)
  fix r :: outref
  obtain k i where r: "r = (k, i)" by (cases r)
  have "utxos w ! nat i" if "store_get d k = Some w" "nat i < length (outputs (txn w))" for w
    using that assms(1) by (metis nth_replicate)
  then show "r \<in> unspent_refs E d p \<longleftrightarrow> r \<in> stored_refs E d p"
    unfolding r stored_refs_pending mem_unspent_refs mem_pending_refs[OF assms(2)] mem_txn_refs
    using assms(2) unfolding keyed_def by blast
qed

lemma storage_init_fresh_inv:
  assumes "\<forall>t\<in>set cb. txid t \<noteq> no_hash E"
  shows "node_inv E U (storage_init E cb peers [] [] [])"
proof -
  note c = add_coinbase_inv[OF assms, of "[]", simplified flags_ok_def[of "[]"] keyed_def[of "[]"], simplified]
  let ?d = "add_coinbase cb []"
  have "unspent_refs E ?d p = stored_refs E ?d p" for p
    by (rule unspent_refs_fresh) (use c in blast)+
  then have "db_ok E (storage_init E cb peers [] [] [])"
    using c by (simp add: db_ok_def storage_init_def Let_def build_index_ok build_index_refs)
  moreover have "pend_ok E (storage_init E cb peers [] [] [])"
    by (simp add: pend_ok_def storage_init_def Let_def build_index_ok build_index_refs stored_refs_pending keyed_def)
  ultimately show ?thesis using c
    by (simp add: node_inv_def ledger_inv_def pend_inv_def mempool_ok_def listed_def storage_init_def Let_def)
qed

lemma add_coinbase_total:
  assumes "store_ok d" and "distinct (map txid cb)" and "\<forall>t\<in>set cb. store_get d (txid t) = None"
  shows "kv.total (\<lambda>_. unspent_amount) (add_coinbase cb d) =
    kv.total (\<lambda>_. unspent_amount) d + sum_list (map txn_amount cb)"
  using assms
proof (induction cb arbitrary: d)
  case (Cons t cb)
  let ?d = "store_put (txid t) (TxnWrapper t 0 None) d"
  have "add_coinbase (t # cb) d = add_coinbase cb ?d"
    using Cons.prems(3) by (simp add: add_coinbase_def)
  moreover have "kv.total (\<lambda>_. unspent_amount) ?d = kv.total (\<lambda>_. unspent_amount) d + txn_amount t"
    using Cons.prems kv.total_put[of d "\<lambda>_. unspent_amount" "txid t" "TxnWrapper t 0 None"]
    by (simp add: unspent_amount_new)
  moreover have "\<forall>u\<in>set cb. store_get ?d (txid u) = None"
    using Cons.prems(2,3) by (force simp: image_iff)
  ultimately show ?case using Cons.IH[of ?d] Cons.prems(1,2) by simp
qed (simp add: add_coinbase_def)



section \<open>Restart\<close>

text \<open>The databases of a ledger in which a payment was processed, and their restart.\<close>

definition ex_paid :: storage where
  "ex_paid = snd (try_process ex_env ex_state)"

definition ex_restarted :: storage where
  "ex_restarted = storage_init ex_env [ex_genesis] [] (db ex_paid) (pend ex_paid) (mempool ex_paid)"

text \<open>
  A restart puts spent outputs back into the index: \<open>__init__\<close> rebuilds \<open>pub_outs\<close> from all
  outputs of all stored transactions and does not look at the flags, so a key's entry holds its
  unspent outputs and the spent ones.
\<close>

theorem restart_index_counts_spent:
  assumes "ledger_inv E s" and "\<forall>t\<in>set cb. storage_contains s (txid t)"
  shows "refs_of (pub_outs (storage_init E cb peers (db s) (pend s) (mempool s))) p = stored_refs E (db s) p \<and>
    refs_of (pub_outs s) p \<subseteq> stored_refs E (db s) p"
proof -
  have ok: "store_ok (db s)" "keyed (db s)" and r: "refs_of (pub_outs s) p = unspent_refs E (db s) p"
    using assms(1) by (simp_all add: ledger_inv_def db_ok_def)
  have "add_coinbase cb (db s) = db s"
    using assms(2) by (intro add_coinbase_stored) (simp add: storage_contains_def)
  then have "refs_of (pub_outs (storage_init E cb peers (db s) (pend s) (mempool s))) p = stored_refs E (db s) p"
    by (simp add: storage_init_def Let_def build_index_refs[OF ok(1)])
  moreover have "unspent_refs E (db s) p \<subseteq> stored_refs E (db s) p"
  proof
    fix r :: outref assume a: "r \<in> unspent_refs E (db s) p"
    obtain k i where "r = (k, i)" by (cases r)
    with a show "r \<in> stored_refs E (db s) p"
      using ok(2) unfolding stored_refs_pending mem_unspent_refs mem_pending_refs[OF ok(2)] mem_txn_refs keyed_def
      by (simp add: mem_unspent_refs mem_pending_refs[OF ok(2)] mem_txn_refs) blast
  qed
  ultimately show ?thesis using r by simp
qed

theorem restart_index_counts_spent_witness:
  "refs_of (pub_outs ex_restarted) [10] = stored_refs ex_env (db ex_paid) [10] \<and>
   get_balance ex_paid [10] (pub_outs ex_paid) = Inr (400, 0, 0) \<and>
   get_balance (ex_restarted\<lparr>current_time := 1\<rparr>) [10] (pub_outs ex_restarted) = Inr (1400, 0, 0)"
proof -
  have inv: "ledger_inv ex_env ex_paid"
    using node_run_evolves[OF ex_run ex_genuine] ex_state_node_inv
    unfolding evolves_def node_inv_def ex_paid_def by blast
  have c: "\<forall>t\<in>set [ex_genesis]. storage_contains ex_paid (txid t)" by code_simp
  have "get_balance ex_paid [10] (pub_outs ex_paid) = Inr (400, 0, 0)"
    "get_balance (ex_restarted\<lparr>current_time := 1\<rparr>) [10] (pub_outs ex_restarted) = Inr (1400, 0, 0)"
    by code_simp+
  with restart_index_counts_spent[OF inv c, of "[]" "[10]"] show ?thesis
    unfolding ex_restarted_def by blast
qed

text \<open>
  A restart forgets the mempool's order: the transactions of the mempool database stay
  known, \<open>puttxn\<close> answers 0 for them and does not list them again, so this node never puts
  them into a block.
\<close>

theorem restart_strands_mempool:
  assumes "store_get m (txid t) = Some u" and "from_wire W raw = Inr t"
  shows "fst (jsonrpc_puttxn W raw b (storage_init E cb peers d p m)) = Inr 0 \<and>
    mempool_list (snd (jsonrpc_puttxn W raw b (storage_init E cb peers d p m))) = []"
  using assms
  by (simp add: jsonrpc_puttxn_def count_first_def storage_init_def Let_def mempool_getitem_def broadcast_txn_def)

theorem restart_strands_mempool_witness:
  "mempool_list (snd (jsonrpc_puttxn ex_wire [2] True
     (storage_init ex_env [ex_genesis] [] (db ex_state) [] (mempool ex_state)))) = []"
proof -
  have "store_get (mempool ex_state) (txid ex_pay) = Some ex_pay" "from_wire ex_wire [2] = Inr ex_pay"
    by (simp_all add: ex_state_def ex_pay_def store_get_Cons ex_wire_def)
  from restart_strands_mempool[OF this] show ?thesis by blast
qed

section \<open>Requests\<close>

text \<open>
  Rounds of a request that the asked peers answer with None because they hold the transaction
  for invalid: the reactor task, then the callbacks on the answer.
\<close>

fun none_rounds :: "env \<Rightarrow> nat \<Rightarrow> (storage, unit) eff" where
  "none_rounds E 0 = ret ()"
| "none_rounds E (Suc k) =
     bindE (none_rounds E k) (\<lambda>_ s.
       case reactor_queue s of
         [Task_req_txn i n] \<Rightarrow>
           bindE (run_task (Task_req_txn i n)) (\<lambda>_. req_txn_callbacks E Reply_None (Suc n) i)
             (s\<lparr>reactor_queue := []\<rparr>)
       | _ \<Rightarrow> (Inr (), s))"

lemma reply_none_again:
  assumes "mempool_getitem (mempool s) i = None"
  shows "req_txn_callbacks E Reply_None n i s =
    (Inr (), s\<lparr>reactor_queue := reactor_queue s @ [Task_req_txn i n]\<rparr>)"
  using assms
  by (simp add: req_txn_callbacks_def transaction_received_def bindE_def transaction_receive_error_def
      request_missing_absent)

text \<open>
  The answer None, that the transaction is invalid on the other node, never ends a request:
  after any number of such answers the node has only made as many calls more and the same
  request waits in the reactor, the block unprocessed.
\<close>

theorem reply_none_requests_forever:
  assumes "mempool_getitem (mempool s) i = None" and "rpc_peers s \<noteq> []"
    and "reactor_queue s = [Task_req_txn i n]"
  shows "none_rounds E k s = (Inr (), s\<lparr>reactor_queue := [Task_req_txn i (n + k)],
    calls := calls s @ map (\<lambda>j. Call_req_txn (rpc_peers s ! (j mod length (rpc_peers s))) i j) [Suc n..<Suc (n + k)]\<rparr>)"
proof (induction k)
  case 0
  then show ?case using assms(3) by simp
next
  case (Suc k)
  then show ?case using assms(1,2)
    by (simp add: bindE_def req_txn_def Let_def reply_none_again)
qed

theorem reply_none_requests_forever_witness:
  "\<exists>s'. none_rounds ex_env 1000 (ex_state\<lparr>reactor_queue := [Task_req_txn [9] 0]\<rparr>) = (Inr (), s') \<and>
     reactor_queue s' = [Task_req_txn [9] 1000] \<and> block_queue s' = block_queue ex_state"
  using reply_none_requests_forever[of "ex_state\<lparr>reactor_queue := [Task_req_txn [9] 0]\<rparr>" "[9]" 0 ex_env 1000]
  by (simp add: ex_state_def mempool_getitem_def store_get_Cons)

text \<open>
  The answer to the last missing transaction completes the block: when the transaction
  arrives, and all transactions of the current block have inputs, the block is processed to its
  end and leaves the queue, and the node is ready for the next one.
\<close>

theorem last_reply_completes:
  assumes g: "genuine E U" and inv: "node_inv E U s" and t: "t \<in> U" "txid t = i" "inputs t \<noteq> []"
    and m: "mempool_getitem (mempool s) i = None" "missing_txns s = [i]" "\<not> processing_block s"
    and q: "block_queue s \<noteq> []" "distinct (current_block s)"
    and held: "\<forall>j\<in>set (current_block s). j = i \<or> (\<exists>u. mempool_getitem (mempool s) j = Some u \<and> inputs u \<noteq> [])"
  shows "\<exists>s'. transaction_received E (Reply_txn t) n i s = (Inr (), s') \<and>
    block_queue s' = tl (block_queue s) \<and> \<not> processing s' \<and> ledger_value s' = ledger_value s"
proof -
  let ?s1 = "(add_to_mempool t s)\<lparr>missing_txns := []\<rparr>"
  have "evolves E U s (add_to_mempool t s)" using evolves_add[OF g t(1)] m(1) t(2) by simp
  then have n1: "node_inv E U (add_to_mempool t s)" using inv by (simp add: evolves_def)
  have c1: "node_inv E U ?s1" by (rule node_inv_core[OF _ n1]) (simp add: core_def)
  then have i1: "ledger_inv E ?s1" by (simp add: node_inv_def)
  have f: "block_queue ?s1 = block_queue s" "current_block ?s1 = current_block s"
    "processing_block ?s1 = processing_block s" "mempool ?s1 = mempool_setitem i t (mempool s)"
    using t(2) by (simp_all add: add_to_mempool_def)
  have real: "real_inputs E u = inputs u" if "mempool_getitem (mempool ?s1) j = Some u" for j u
    using c1 g that unfolding node_inv_def genuine_def mempool_getitem_def by blast
  have all: "\<forall>j\<in>set (current_block s). \<exists>u. mempool_getitem (mempool ?s1) j = Some u \<and>
      inputs u \<noteq> [] \<and> real_inputs E u = inputs u"
  proof
    fix j assume "j \<in> set (current_block s)"
    with held t(3) obtain u where "mempool_getitem (mempool ?s1) j = Some u" "inputs u \<noteq> []"
      by (cases "j = i") (auto simp: f)
    with real show "\<exists>u. mempool_getitem (mempool ?s1) j = Some u \<and> inputs u \<noteq> [] \<and> real_inputs E u = inputs u"
      by blast
  qed
  obtain s' where p: "process_block E (current_block s) ?s1 = (Inr (), s')"
    using process_block_terminates[OF i1 _ q(2) all] q(1) f(1) by auto
  have "transaction_received E (Reply_txn t) n i s = process_block E (current_block s) ?s1"
    using m t(2) by (simp add: transaction_received_def bindE_def add_to_mempool_def)
  moreover have "ledger_value ?s1 = ledger_value s"
    by (rule ledger_value_cong) (simp_all add: add_to_mempool_def)
  ultimately show ?thesis using p process_block_effect[OF i1 p] f by auto
qed

text \<open>The payment of the example arrives by request.\<close>

definition ex_waiting :: storage where
  "ex_waiting = ex_state\<lparr>mempool := [], mempool_list := [], processing := True, current_block := [[2]],
     missing_txns := [[2]]\<rparr>"

theorem last_reply_completes_witness:
  "\<exists>s'. transaction_received ex_env (Reply_txn ex_pay) 1 [2] ex_waiting = (Inr (), s') \<and>
     block_queue s' = [] \<and> \<not> processing s'"
proof -
  have "node_inv ex_env {ex_pay} ex_waiting"
    using ex_state_node_inv ledger_inv_cong[of ex_env ex_state ex_waiting]
    by (auto simp: node_inv_def listed_def ex_waiting_def ex_state_def)
  from last_reply_completes[OF ex_genuine this, of ex_pay "[2]" 1]
  have "\<exists>s'. transaction_received ex_env (Reply_txn ex_pay) 1 [2] ex_waiting = (Inr (), s') \<and>
      block_queue s' = tl (block_queue ex_waiting) \<and> \<not> processing s' \<and> ledger_value s' = ledger_value ex_waiting"
    by (simp add: ex_waiting_def ex_state_def ex_pay_def mempool_getitem_def)
  then show ?thesis by (auto simp: ex_waiting_def ex_state_def)
qed

section \<open>Blocks and records\<close>

text \<open>
  The block a leader sends holds the oldest listed transactions of its mempool, at most
  \<open>BLOCK_SIZE\<close> of them, none twice, all of them in the mempool, none of the block being
  processed, and its time is not before the time of the last block; none is sent when the
  oldest transactions overlap with the block being processed.
\<close>

theorem send_block_spec:
  assumes "listed s" and "clock_test \<le> clock_value"
  shows "case send_block clock_test clock_value s of
      None \<Rightarrow> set (take BLOCK_SIZE (mempool_list s)) \<inter> set (current_block s) \<noteq> {}
    | Some blk \<Rightarrow> block_txns blk = take BLOCK_SIZE (mempool_list s) \<and> length (block_txns blk) \<le> BLOCK_SIZE \<and>
        distinct (block_txns blk) \<and> missing_in s (block_txns blk) = [] \<and>
        set (block_txns blk) \<inter> set (current_block s) = {} \<and> current_time s \<le> block_time blk"
  using assms
  by (auto simp: send_block_def Let_def listed_def missing_in_def filter_empty_conv dest: in_set_takeD)

theorem send_block_spec_witness:
  "\<exists>blk. send_block 5 5 ex_state = Some blk \<and> block_txns blk = [[2]] \<and> current_time ex_state \<le> block_time blk"
proof -
  have l: "listed ex_state" using ex_state_node_inv by (simp add: node_inv_def)
  have b: "send_block 5 5 ex_state = Some \<lparr>block_time = 5, block_txns = [[2]]\<rparr>" by code_simp
  from send_block_spec[OF l, of 5 5] b show ?thesis by simp
qed

text \<open>
  Round trip of the record format: \<open>unserialize\<close> reads back what \<open>serialize\<close> writes, with
  one flag per entry of \<open>utxos\<close>, and leaves the rest of the buffer, given that the third-party
  buffer reads back the numbers and transactions it writes.
\<close>

theorem txnw_roundtrip:
  assumes "codec_ok T C" and "txn w \<in> T" and "0 \<le> timestamp w"
  shows "txnw_unserialize C (txnw_serialize C w @ r) = Some (w, r)"
  using assms by (rule txnw_unserialize_serialize)

text \<open>A codec for one transaction: numbers in unary, ended by 0.\<close>

definition ex_codec :: codec where
  "ex_codec = \<lparr>write_txn = (\<lambda>_. [7]), read_txn = (\<lambda>buf. case buf of [] \<Rightarrow> None | _ # r \<Rightarrow> Some (ex_pay, r)),
     write_varuint = (\<lambda>n. replicate (nat n) 1 @ [0]),
     read_varuint = (\<lambda>buf. let ones = takeWhile (\<lambda>b. b = 1) buf
                           in Some (int (length ones), drop (Suc (length ones)) buf)),
     write_num = (\<lambda>_ n. [of_int n]),
     read_num = (\<lambda>_ buf. case buf of [] \<Rightarrow> None | b # r \<Rightarrow> Some (uint b, r))\<rparr>"

lemma ex_codec_ok: "codec_ok {ex_pay} ex_codec"
proof -
  have "takeWhile (\<lambda>b. b = 1) (replicate n (1::byte) @ 0 # r) = replicate n 1" for n r
    by (simp add: takeWhile_append)
  moreover have "uint (word_of_int n :: byte) = n" if "0 \<le> n" "n < 256" for n
    using that by (simp add: uint_word_of_int)
  ultimately show ?thesis by (simp add: codec_ok_def ex_codec_def Let_def)
qed

theorem txnw_roundtrip_witness:
  "txnw_serialize ex_codec (TxnWrapper ex_pay 3 (Some [True, False])) = [7, 1, 1, 1, 0, 1, 1, 0, 1, 0] \<and>
   txnw_unserialize ex_codec ([7, 1, 1, 1, 0, 1, 1, 0, 1, 0] @ [42]) = Some (TxnWrapper ex_pay 3 (Some [True, False]), [42])"
proof -
  have e: "txnw_serialize ex_codec (TxnWrapper ex_pay 3 (Some [True, False])) = [7, 1, 1, 1, 0, 1, 1, 0, 1, 0]"
    by code_simp
  show ?thesis
    using txnw_roundtrip[OF ex_codec_ok, of "TxnWrapper ex_pay 3 (Some [True, False])" "[42]"] unfolding e by simp
qed

end
