(* ===== verification/Coins.thy ===== *)
theory Coins
  imports NodeSpec
begin

text \<open>
  The ledger as an abstract machine, and the refinement of it by the node. The machine has coins,
  some of them spendable, transactions that hold coins until a time, and a clock; it knows no
  mempool, no index, no block, no request and no exception. A transaction spends coins only when
  each carries the authorisation its output asks for.
\<close>

section \<open>The machine\<close>

record coin_state =
  coin :: "outref \<rightharpoonup> txn_output \<times> int"
  ledger :: "bytes \<rightharpoonup> transaction"
  spendable :: "outref set"
  locked :: "bytes \<rightharpoonup> transaction \<times> int"
  clock :: rat

definition spends :: "transaction \<Rightarrow> outref set" where
  "spends t = comparable_input ` set (inputs t)"

definition new_coins :: "transaction \<Rightarrow> int \<Rightarrow> outref \<rightharpoonup> txn_output \<times> int" where
  "new_coins t ts r =
     (if fst r = txid t \<and> 0 \<le> snd r \<and> nat (snd r) < length (outputs t)
      then Some (outputs t ! nat (snd r), ts) else None)"

definition mint :: "transaction \<Rightarrow> int \<Rightarrow> coin_state \<Rightarrow> coin_state" where
  "mint t ts c = c\<lparr>coin := coin c ++ new_coins t ts, ledger := (ledger c)(txid t \<mapsto> t),
     spendable := spendable c \<union> dom (new_coins t ts)\<rparr>"

definition unlock :: "bytes \<Rightarrow> coin_state \<Rightarrow> coin_state" where
  "unlock k c = c\<lparr>locked := (locked c)(k := None)\<rparr>"

text \<open>A transaction takes its coins; its outputs are new coins at once, or after its time lock.\<close>

definition take_in :: "transaction \<Rightarrow> int \<Rightarrow> coin_state \<Rightarrow> coin_state" where
  "take_in t ts c =
     (let c1 = c\<lparr>spendable := spendable c - spends t\<rparr> in
      if timelock t = 0 then mint t ts c1 else c1\<lparr>locked := (locked c1)(txid t \<mapsto> (t, ts))\<rparr>)"

text \<open>A replaced transaction gives its coins back.\<close>

definition give_back :: "transaction \<Rightarrow> coin_state \<Rightarrow> coin_state" where
  "give_back u c = (unlock (txid u) c)\<lparr>spendable := spendable c \<union> spends u\<rparr>"

definition elapsed :: "coin_state \<Rightarrow> int \<Rightarrow> rat" where
  "elapsed c ts = clock c * of_int TIME_MULTIPLIER - of_int ts"

definition ripe :: "coin_state \<Rightarrow> transaction \<Rightarrow> int \<Rightarrow> bool" where
  "ripe c t ts \<longleftrightarrow> elapsed c ts > of_int (timelock t * TIMELOCK_CONST)"

text \<open>
  The authorisation of a coin: both owners after its timeout, before it the preimage of the hash
  lock and the signature of the key that goes with it.
\<close>

definition owners_agree :: "env \<Rightarrow> bytes \<Rightarrow> txn_output \<Rightarrow> txn_input \<Rightarrow> bool" where
  "owners_agree E i out inp \<longleftrightarrow>
     verify_sig E i (pubkey out) (signature inp) \<and> verify_sig E i (pubkey2 out) (signature2 inp)"

definition preimage_shown :: "env \<Rightarrow> bytes \<Rightarrow> txn_output \<Rightarrow> txn_input \<Rightarrow> bool" where
  "preimage_shown E i out inp \<longleftrightarrow>
     sha256 E (htlc_preimage inp) = htlc_hashlock out \<and> verify_sig E i (htlc_pubkey out) (htlc_signature inp)"

definition coin_authorised :: "env \<Rightarrow> coin_state \<Rightarrow> transaction \<Rightarrow> txn_input \<Rightarrow> bool" where
  "coin_authorised E c t inp \<longleftrightarrow>
     (case coin c (comparable_input inp) of
        None \<Rightarrow> False
      | Some (out, ts) \<Rightarrow>
          if elapsed c ts \<ge> of_int (htlc_timeout out * TIMEOUT_CONST) then owners_agree E (txid t) out inp
          else preimage_shown E (txid t) out inp)"

definition authorised :: "env \<Rightarrow> coin_state \<Rightarrow> transaction \<Rightarrow> bool" where
  "authorised E c t \<longleftrightarrow> (\<forall>inp\<in>set (inputs t). coin_authorised E c t inp)"

definition coin_amount :: "coin_state \<Rightarrow> outref \<Rightarrow> int" where
  "coin_amount c r = (case coin c r of None \<Rightarrow> 0 | Some (out, ts) \<Rightarrow> amount out)"

definition admissible :: "env \<Rightarrow> coin_state \<Rightarrow> transaction \<Rightarrow> bool" where
  "admissible E c t \<longleftrightarrow> ledger c (txid t) = None \<and> locked c (txid t) = None \<and> inputs t \<noteq> [] \<and>
     spends t \<subseteq> spendable c \<and> authorised E c t \<and> (\<Sum>r\<in>spends t. coin_amount c r) = txn_amount t"

inductive coin_step :: "env \<Rightarrow> transaction set \<Rightarrow> coin_state \<Rightarrow> coin_state \<Rightarrow> bool" for E U where
  tick: "coin_step E U c (c\<lparr>clock := now\<rparr>)"
| spend: "t \<in> U \<Longrightarrow> admissible E c t \<Longrightarrow> coin_step E U c (take_in t ts c)"
| replace: "t \<in> U \<Longrightarrow> locked c (txid u) = Some (u, ts') \<Longrightarrow> \<not> ripe c u ts' \<Longrightarrow> spends u = spends t \<Longrightarrow>
    seq u < seq t \<Longrightarrow> admissible E (give_back u c) t \<Longrightarrow> coin_step E U c (take_in t ts (give_back u c))"
| mature: "t \<in> U \<Longrightarrow> locked c (txid t) = Some (t, ts) \<Longrightarrow> ripe c t ts \<Longrightarrow> ledger c (txid t) = None \<Longrightarrow>
    authorised E c t \<Longrightarrow> coin_step E U c (mint t ts (unlock (txid t) c))"
| burn: "locked c (txid t) = Some (t, ts) \<Longrightarrow> ripe c t ts \<Longrightarrow> ledger c (txid t) \<noteq> None \<or> \<not> authorised E c t \<Longrightarrow>
    coin_step E U c (unlock (txid t) c)"

section \<open>The ledger as a machine state\<close>

definition stored_coin :: "(bytes, txn_wrapper) store \<Rightarrow> outref \<rightharpoonup> txn_output \<times> int" where
  "stored_coin d r =
     (case store_get d (fst r) of
        None \<Rightarrow> None
      | Some w \<Rightarrow> if 0 \<le> snd r \<and> nat (snd r) < length (outputs (txn w))
                  then Some (outputs (txn w) ! nat (snd r), timestamp w) else None)"

definition stored_flag :: "(bytes, txn_wrapper) store \<Rightarrow> outref \<Rightarrow> bool" where
  "stored_flag d r \<longleftrightarrow>
     (case store_get d (fst r) of
        None \<Rightarrow> False
      | Some w \<Rightarrow> 0 \<le> snd r \<and> nat (snd r) < length (utxos w) \<and> utxos w ! nat (snd r))"

definition coins_of :: "storage \<Rightarrow> coin_state" where
  "coins_of s =
     \<lparr>coin = stored_coin (db s), ledger = (\<lambda>k. map_option txn (store_get (db s) k)), spendable = {r. stored_flag (db s) r},
      locked = (\<lambda>k. map_option (\<lambda>w. (txn w, timestamp w)) (store_get (pend s) k)), clock = current_time s\<rparr>"

lemma coins_of_cong: "db s' = db s \<Longrightarrow> pend s' = pend s \<Longrightarrow> coins_of s' = (coins_of s)\<lparr>clock := current_time s'\<rparr>"
  by (simp add: coins_of_def storage_contains_def)

lemma coins_of_ledger:
  "db s' = db s \<Longrightarrow> pend s' = pend s \<Longrightarrow> current_time s' = current_time s \<Longrightarrow> coins_of s' = coins_of s"
  by (simp add: coins_of_def storage_contains_def)

text \<open>What the acceptance test reads is what the machine reads.\<close>

lemma spent_output_coin:
  assumes "0 \<le> inp_index inp"
  shows "stored_coin (db s) (comparable_input inp) = map_option (\<lambda>(w, out). (out, timestamp w)) (spent_output s inp)"
  using assms
  by (auto simp: stored_coin_def spent_output_def storage_get_def py_get_def py_pos_nonneg comparable_input_def
      split: option.split)

lemma input_signed_coin:
  assumes "0 \<le> inp_index inp"
  shows "input_signed E s t inp = coin_authorised E (coins_of s) t inp"
  using spent_output_coin[OF assms, of s]
  by (auto simp: input_signed_def coin_authorised_def coins_of_def input_authorised_def timeout_reached_def
      age_def elapsed_def owners_agree_def preimage_shown_def split: option.split prod.split)

lemma input_amount_coin:
  assumes "0 \<le> inp_index inp"
  shows "input_amount s inp = coin_amount (coins_of s) (comparable_input inp)"
  using spent_output_coin[OF assms, of s]
  by (auto simp: input_amount_def coin_amount_def coins_of_def split: option.split prod.split)

lemma input_unspent_coin:
  assumes "0 \<le> inp_index inp"
  shows "input_unspent s inp = (comparable_input inp \<in> spendable (coins_of s))"
  using assms
  by (auto simp: input_unspent_def coins_of_def stored_flag_def storage_get_def py_get_def py_pos_nonneg
      comparable_input_def split: option.split)

lemma timelock_expired_ripe: "timelock_expired s ts t = ripe (coins_of s) t ts"
  by (simp add: timelock_expired_def ripe_def elapsed_def age_def coins_of_def)

lemma same_inputs_spends: "same_inputs t u \<longleftrightarrow> spends t = spends u"
  by (simp add: same_inputs_def spends_def)

lemma wf_authorised: "wf_txn E t \<Longrightarrow> authorised E (coins_of s) t \<longleftrightarrow> (\<forall>inp\<in>set (inputs t). input_signed E s t inp)"
  by (simp add: wf_txn_def authorised_def input_signed_coin)

lemma wf_spendable: "wf_txn E t \<Longrightarrow> spends t \<subseteq> spendable (coins_of s) \<longleftrightarrow> (\<forall>inp\<in>set (inputs t). input_unspent s inp)"
  by (auto simp: wf_txn_def spends_def input_unspent_coin)

lemma wf_amount:
  assumes "wf_txn E t"
  shows "(\<Sum>r\<in>spends t. coin_amount (coins_of s) r) = sum_list (map (input_amount s) (inputs t))"
proof -
  have d: "distinct (map comparable_input (inputs t))" and nn: "\<forall>inp\<in>set (inputs t). 0 \<le> inp_index inp"
    using assms by (simp_all add: wf_txn_def)
  have "(\<Sum>r\<in>spends t. coin_amount (coins_of s) r) =
      sum_list (map (coin_amount (coins_of s)) (map comparable_input (inputs t)))"
    unfolding spends_def set_map[symmetric] using d by (rule sum_list_distinct_conv_sum_set[symmetric])
  also have "\<dots> = sum_list (map (input_amount s) (inputs t))"
    using nn by (auto simp: input_amount_coin comp_def intro!: arg_cong[where f = sum_list])
  finally show ?thesis .
qed

section \<open>The operations on the machine\<close>

lemma spend_input_coins:
  assumes "flags_ok (db s)" and "0 \<le> inp_index inp" and "spend_input E inp s = (Inr (), s')"
  shows "coins_of s' = (coins_of s)\<lparr>spendable := spendable (coins_of s) - {comparable_input inp}\<rparr>"
proof -
  have "spent_output s inp \<noteq> None"
    using spend_input_None[OF assms(1), of inp E] assms(3) by (metis Inl_Inr_False prod.inject)
  then obtain w out where so: "spent_output s inp = Some (w, out)" by auto
  obtain j where j: "store_get (db s) (inp_txid inp) = Some w" "py_pos (outputs (txn w)) (inp_index inp) = Some j"
    "j < length (utxos w)"
    and st: "spend_input E inp s = (Inr (), s\<lparr>db := store_put (inp_txid inp) (mark_spent j w) (db s),
        pub_outs := del_out_from_balance_index (get_pubkeys E out) (inp_txid inp) (inp_index inp) (pub_outs s)\<rparr>)"
    using spend_input_Some[OF assms(1) so] by metis
  note [simp] = nth_list_update[OF j(3)]
  have idx: "inp_index inp = int j" using j(2) assms(2) by (auto simp: py_pos_nonneg split: if_splits)
  have d: "db s' = store_put (inp_txid inp) (mark_spent j w) (db s)" "pend s' = pend s" "current_time s' = current_time s"
    using st assms(3) by auto
  have "stored_coin (db s') = stored_coin (db s)"
    using j(1) by (auto simp: fun_eq_iff d stored_coin_def)
  moreover have "{r. stored_flag (db s') r} = {r. stored_flag (db s) r} - {comparable_input inp}"
    using j(1) idx by (auto simp: d stored_flag_def comparable_input_def split: option.splits if_splits)
  moreover have "map_option txn (store_get (db s') k) = map_option txn (store_get (db s) k)" for k
    using j(1) by (simp add: d)
  ultimately show ?thesis by (simp add: coins_of_def d)
qed

lemma spend_inputs_coins:
  assumes "flags_ok (db s)" and "\<forall>inp\<in>set inps. 0 \<le> inp_index inp" and "forE (spend_input E) inps s = (Inr (), s')"
  shows "coins_of s' = (coins_of s)\<lparr>spendable := spendable (coins_of s) - comparable_input ` set inps\<rparr>"
  using assms
proof (induction inps arbitrary: s)
  case (Cons x xs)
  obtain s1 where x: "spend_input E x s = (Inr (), s1)" and xs: "forE (spend_input E) xs s1 = (Inr (), s')"
    using Cons.prems(3) by (auto elim: bindE_InrD)
  have "flags_ok (db s1)"
    using ledger_step_flags[OF spend_input_ledger_step[OF Cons.prems(1) x] Cons.prems(1)] .
  then have a: "coins_of s' = (coins_of s1)\<lparr>spendable := spendable (coins_of s1) - comparable_input ` set xs\<rparr>"
    using Cons.IH xs Cons.prems(2) by simp
  have b: "coins_of s1 = (coins_of s)\<lparr>spendable := spendable (coins_of s) - {comparable_input x}\<rparr>"
    by (rule spend_input_coins[OF Cons.prems(1) _ x]) (use Cons.prems(2) in simp)
  show ?case unfolding a b by (simp add: Diff_insert2[symmetric])
qed simp

lemma add_record_coins:
  assumes "store_get (db s) (txid t) = None"
  shows "coins_of (add_record E t ts s) = mint t ts (coins_of s)"
proof -
  let ?d = "store_put (txid t) (TxnWrapper t ts None) (db s)"
  have "stored_coin ?d = stored_coin (db s) ++ new_coins t ts"
    using assms by (auto simp: fun_eq_iff stored_coin_def new_coins_def map_add_def split: option.splits)
  moreover have "{r. stored_flag ?d r} = {r. stored_flag (db s) r} \<union> dom (new_coins t ts)"
    using assms by (auto simp: stored_flag_def new_coins_def dom_def split: option.splits if_splits)
  ultimately show ?thesis
    by (auto simp: coins_of_def mint_def add_record_def storage_contains_def)
qed

lemma add_pending_coins:
  "coins_of (add_pending E t ts s) = (coins_of s)\<lparr>locked := (locked (coins_of s))(txid t \<mapsto> (t, ts))\<rparr>"
  by (auto simp: coins_of_def add_pending_def pend_setitem_def storage_contains_def fun_eq_iff)

lemma del_from_pending_coins: "coins_of (del_from_pending E t s) = unlock (txid t) (coins_of s)"
  by (auto simp: coins_of_def unlock_def storage_contains_def fun_eq_iff)

lemma elapsed_update [simp]:
  "elapsed (c\<lparr>locked := l\<rparr>) = elapsed c" "elapsed (c\<lparr>locked := l, spendable := f\<rparr>) = elapsed c"
  by (simp_all add: fun_eq_iff elapsed_def)

lemma give_back_reads [simp]:
  "authorised E (give_back u c) = authorised E c" "coin_amount (give_back u c) = coin_amount c"
  "ledger (give_back u c) = ledger c" "spendable (give_back u c) = spendable c \<union> spends u"
  by (simp_all add: fun_eq_iff authorised_def coin_authorised_def coin_amount_def give_back_def unlock_def
      cong: option.case_cong)

text \<open>An accepted transaction is one step, with or without a replacement.\<close>

lemma accept_txn_coins:
  assumes inv: "ledger_inv E s1" and wf: "wf_txn E t" and fresh: "\<not> storage_contains s1 (txid t)"
    and a: "accept_txn E t ts s1 = (Inr (), s3)"
  shows "coins_of s3 = take_in t ts (coins_of s1)"
proof -
  obtain s2 where s2: "forE (spend_input E) (inputs t) s1 = (Inr (), s2)"
    and s3: "s3 = (if timelock t \<noteq> 0 then add_pending E t ts s2 else add_record E t ts s2)
                \<lparr>txns_accepted := Suc (txns_accepted s2)\<rparr>"
    using accept_txn_InrD[OF a] by blast
  have fl: "flags_ok (db s1)" using inv by (simp add: ledger_inv_def db_ok_def)
  have nn: "\<forall>inp\<in>set (inputs t). 0 \<le> inp_index inp" using wf by (simp add: wf_txn_def)
  have c2: "coins_of s2 = (coins_of s1)\<lparr>spendable := spendable (coins_of s1) - spends t\<rparr>"
    using spend_inputs_coins[OF fl nn s2] by (simp add: spends_def)
  have "store_get (db s2) (txid t) = None"
    using fresh same_txns_None[OF ledger_step_same[OF spend_inputs_ledger_step[OF fl s2]]]
    by (simp add: storage_contains_def)
  note r = add_record_coins[OF this, of E ts]
  have "coins_of s3 = coins_of (if timelock t \<noteq> 0 then add_pending E t ts s2 else add_record E t ts s2)"
    unfolding s3 by (rule coins_of_ledger) simp_all
  then show ?thesis
    by (simp add: take_in_def Let_def r add_pending_coins c2)
qed

lemma verified_step:
  assumes inv: "ledger_inv E s" and mp: "store_get (mempool s) (txid t) = Some t" and t: "t \<in> U"
    and real: "real_inputs E t = inputs t"
    and v: "verify_txn E True t s = (Inr True, s1)" and a: "accept_txn E t ts s1 = (Inr (), s3)"
  shows "coin_step E U (coins_of s) (coins_of s3)"
proof -
  obtain n where n: "acceptable E s t" "ledger_inv E s1" "db s1 = db s" "store_get (pend s1) (txid t) = None"
    using verify_txn_accepted[OF inv mp v] by metis
  have wf: "wf_txn E t" using inv mp unfolding ledger_inv_def mempool_ok_def by blast
  have s1: "s1 = (case check_pend_replacement s t of Replaces tx \<Rightarrow> del_from_pending E tx s | _ \<Rightarrow> s)"
    using verify_txn_state[OF v] by simp
  have new: "\<not> storage_contains s1 (txid t)"
    using n(1,3) by (simp add: acceptable_def storage_contains_def storage_get_def)
  note c3 = accept_txn_coins[OF n(2) wf new a]
  have read: "ledger (coins_of s) (txid t) = None" "inputs t \<noteq> []" "authorised E (coins_of s) t"
    "(\<Sum>r\<in>spends t. coin_amount (coins_of s) r) = txn_amount t"
    using n(1) new n(3)
    by (simp_all add: acceptable_def real wf_authorised[OF wf] wf_amount[OF wf] txn_amount_def)
       (simp add: coins_of_def storage_contains_def)
  have free: "locked (coins_of s1) (txid t) = None" using n(4) by (simp add: coins_of_def)
  show ?thesis
  proof (cases "check_pend_replacement s t")
    case No_conflict
    then have "spends t \<subseteq> spendable (coins_of s)"
      using n(1) by (simp add: acceptable_def real wf_spendable[OF wf])
    with read free No_conflict have "admissible E (coins_of s) t" by (simp add: admissible_def s1)
    with t have "coin_step E U (coins_of s) (take_in t ts (coins_of s))" by (rule coin_step.spend)
    with No_conflict show ?thesis by (simp add: c3 s1)
  next
    case Blocked
    with n(1) show ?thesis by (simp add: acceptable_def)
  next
    case (Replaces u)
    have ok: "store_ok (pend s)" "keyed (pend s)" using inv by (simp_all add: ledger_inv_def pend_ok_def)
    obtain k w where kw: "(k, w) \<in> set (store_items (pend s))" "txn w = u" "same_inputs u t"
      "\<not> timelock_expired s (timestamp w) u" "seq u < seq t"
      using check_pend_loop_spec[of s t "store_items (pend s)" u] Replaces
      unfolding check_pend_replacement_def by blast
    have w: "store_get (pend s) k = Some w" using kw(1) kv.items_get[OF ok(1)] by blast
    then have k: "k = txid u" using ok(2) kw(2) by (auto simp: keyed_def)
    have sp: "spends u = spends t" using kw(3) by (simp add: same_inputs_spends)
    have c1: "coins_of s1 = unlock (txid u) (coins_of s)" by (simp add: s1 Replaces del_from_pending_coins)
    have e: "take_in t ts (unlock (txid u) c) = take_in t ts (give_back u c)" for c
      by (simp add: take_in_def Let_def give_back_def sp mint_def unlock_def Un_Diff)
    have "admissible E (give_back u (coins_of s)) t"
      using read free unfolding c1
      by (simp add: admissible_def sp unlock_def) (simp add: give_back_def unlock_def)
    moreover have "locked (coins_of s) (txid u) = Some (u, timestamp w)"
      using w kw(2) by (simp add: coins_of_def k)
    ultimately show ?thesis
      unfolding c3 c1 e using t kw(4,5) sp
      by (intro coin_step.replace) (auto simp: timelock_expired_ripe)
  qed
qed

definition refines :: "env \<Rightarrow> transaction set \<Rightarrow> storage \<Rightarrow> storage \<Rightarrow> bool" where
  "refines E U s s' \<longleftrightarrow>
     (genuine E U \<and> node_inv E U s \<longrightarrow> node_inv E U s' \<and> (coin_step E U)\<^sup>*\<^sup>* (coins_of s) (coins_of s'))"

lemma refinesI:
  assumes "genuine E U \<Longrightarrow> node_inv E U s \<Longrightarrow> (coin_step E U)\<^sup>*\<^sup>* (coins_of s) (coins_of s')"
    and "genuine E U \<Longrightarrow> evolves E U s s'"
  shows "refines E U s s'"
  using assms by (simp add: refines_def evolves_def)

lemma refines_process_txn: "refines E U s (snd (process_txn E i s))"
proof (rule refinesI)
  assume g: "genuine E U" and n: "node_inv E U s"
  from n have inv: "ledger_inv E s" by (simp add: node_inv_def)
  have U: "u \<in> U" if "store_get (mempool s) k = Some u" for k u using n that by (auto simp: node_inv_def)
  with g have real: "real_inputs E u = inputs u" if "store_get (mempool s) k = Some u" for k u
    using that unfolding genuine_def by blast
  obtain r s' where p: "process_txn E i s = (r, s')" by (cases "process_txn E i s")
  show "(coin_step E U)\<^sup>*\<^sup>* (coins_of s) (coins_of (snd (process_txn E i s)))"
  proof (cases r)
    case (Inl e)
    with p have "process_txn E i s = (Inl e, s')" by simp
    from process_txn_InlD[OF inv this real] show ?thesis using p by simp
  next
    case (Inr u)
    then have p': "process_txn E i s = (Inr (), s')" using p by simp
    obtain t b s1 s2 where t: "store_get (mempool s) i = Some t" and v: "verify_txn E True t s = (Inr b, s1)"
      and a: "(if b then accept_txn E t (py_int (current_time s * of_int TIME_MULTIPLIER)) s1 else (Inr (), s1)) = (Inr (), s2)"
      and s': "s' = remove_from_mempool i (s2\<lparr>txns_processed := Suc (txns_processed s2)\<rparr>)"
      using process_txn_InrD[OF p'] by metis
    have i: "txid t = i" using inv t by (simp add: ledger_inv_def mempool_ok_def)
    have c': "coins_of s' = coins_of s2" unfolding s' by (rule coins_of_ledger) simp_all
    show ?thesis
    proof (cases b)
      case True
      with v a t i have "coin_step E U (coins_of s) (coins_of s2)"
        using verified_step[OF inv _ U[OF t] real[OF t], of s1 _ s2] by simp
      then show ?thesis using p c' by simp
    next
      case False
      with v a have v': "verify_txn E True t s = (Inr False, s2)" by simp
      have "current_time s2 = current_time s" using verify_txn_pipe[OF v'] by (simp add: pipe_def)
      with verify_txn_rejected[OF v'] have "coins_of s2 = coins_of s" by (intro coins_of_ledger) simp_all
      then show ?thesis using p c' by simp
    qed
  qed
qed (rule evolves_process_txn)

text \<open>A round of \<open>update_pend\<close> on a ripe transaction: its outputs are minted, or it is burnt.\<close>

lemma unlock_reads [simp]: "authorised E (unlock k c) = authorised E c" "ledger (unlock k c) = ledger c"
  by (simp_all add: fun_eq_iff authorised_def coin_authorised_def unlock_def cong: option.case_cong)

lemma pend_round_coins:
  assumes g: "genuine E U" and p: "pend_round E U s s'"
  shows "(coin_step E U)\<^sup>=\<^sup>= (coins_of s) (coins_of s')"
proof -
  obtain k w where n: "node_inv E U s" and w: "store_get (pend s) k = Some w"
    and st: "update_pend_step E (k, w) s = (Inr (), s')" using p unfolding pend_round_def by blast
  let ?t = "txn w" and ?s1 = "del_from_pending E (txn w) s" and ?c = "coins_of s"
  from n have inv: "ledger_inv E s" and U: "?t \<in> U" using w by (auto simp: node_inv_def)
  then have k: "k = txid ?t" and held: "inputs_held s ?t" and wf: "wf_txn E ?t"
    using w by (auto simp: ledger_inv_def pend_ok_def keyed_def pend_inv_def)
  have real: "real_inputs E ?t = inputs ?t" using g U by (simp add: genuine_def)
  show ?thesis
  proof (cases "timelock_expired s (timestamp w) ?t")
    case False
    with st show ?thesis by (simp add: update_pend_step_def)
  next
    case exp: True
    have fl: "flags_ok (db ?s1)" using inv by (simp add: ledger_inv_def db_ok_def)
    have c1: "coins_of ?s1 = unlock (txid ?t) ?c" by (rule del_from_pending_coins)
    have lk: "locked ?c (txid ?t) = Some (?t, timestamp w)" and rp: "ripe ?c ?t (timestamp w)"
      using w k exp by (simp_all add: coins_of_def timelock_expired_ripe)
    obtain b s2 where v: "verify_txn E False ?t ?s1 = (Inr b, s2)"
      using verify_txn_nopend[OF fl, of E ?t] by (cases "verify_txn E False ?t ?s1") auto
    have same: "input_amount ?s1 = input_amount s"
      by (simp add: fun_eq_iff input_amount_def spent_output_def storage_get_def)
    have amt: "sum_list (map (input_amount ?s1) (inputs ?t)) = sum_list (map amount (outputs ?t))"
      using held by (simp add: inputs_held_def txn_amount_def same)
    have b: "b \<longleftrightarrow> ledger ?c (txid ?t) = None \<and> authorised E ?c ?t"
      using verify_txn_nopend[OF fl, of E ?t] v amt wf_authorised[OF wf, of ?s1]
      by (simp add: real c1) (simp add: coins_of_def storage_contains_def storage_get_def)
    have run: "(if b then write_txn_to_db E ?t (timestamp w) s2 else (Inr (), s2)) = (Inr (), s')"
      using st exp v by (cases b) (simp_all add: update_pend_step_def Let_def bindE_modE bindE_ok)
    note vs = verify_txn_state_nopend[OF v]
    show ?thesis
    proof (cases b)
      case False
      then have "coins_of s' = coins_of ?s1"
        using vs run verify_txn_pipe[OF v] by (intro coins_of_ledger) (auto simp: pipe_def split: if_splits)
      with coin_step.burn[OF lk rp] b False show ?thesis by (simp add: c1)
    next
      case True
      then have s2: "s2 = ?s1" using vs by simp
      have nn: "\<forall>inp\<in>set (inputs ?t). 0 \<le> inp_index inp" using wf by (simp add: wf_txn_def)
      obtain r s3 where f: "forE (spend_input E) (inputs ?t) ?s1 = (r, s3)" by (cases "forE (spend_input E) (inputs ?t) ?s1")
      have f': "forE (spend_input E) (inputs ?t) ?s1 = (Inr (), s3)" and s': "s' = add_record E ?t (timestamp w) s3"
        using run True s2 f by (auto simp: write_txn_to_db_alt split: sum.splits)
      have "spendable ?c \<inter> spends ?t = {}"
        using held nn by (auto simp: inputs_held_def spends_def input_unspent_coin[symmetric])
      then have c3: "coins_of s3 = coins_of ?s1"
        using spend_inputs_coins[OF fl nn f'] by (simp add: c1 unlock_def spends_def Diff_triv)
      have "store_get (db s3) (txid ?t) = None"
        using b True same_txns_None[OF ledger_step_same[OF spend_inputs_ledger_step[OF fl f']]]
        by (simp add: coins_of_def storage_contains_def)
      then have "coins_of s' = mint ?t (timestamp w) (unlock (txid ?t) ?c)"
        by (simp add: s' add_record_coins c3 c1)
      with coin_step.mature[OF U lk rp] b True show ?thesis by simp
    qed
  qed
qed

lemma refines_update_pend: "refines E U s (snd (update_pend E s))"
proof (rule refinesI)
  assume g: "genuine E U" and "node_inv E U s"
  then have "(pend_round E U)\<^sup>*\<^sup>* s (snd (update_pend E s))" by (rule update_pend_rounds)
  then show "(coin_step E U)\<^sup>*\<^sup>* (coins_of s) (coins_of (snd (update_pend E s)))"
  proof induction
    case (step t u)
    with pend_round_coins[OF g step.hyps(2)] show ?case by auto
  qed simp
qed (rule evolves_update_pend)

section \<open>The refinement\<close>

lemma refines_trans: "refines E U s t \<Longrightarrow> refines E U t u \<Longrightarrow> refines E U s u"
  unfolding refines_def by (blast intro: rtranclp_trans)

lemma refines_core: "core s' = core s \<Longrightarrow> refines E U s s'"
proof (rule refinesI)
  assume "core s' = core s"
  then have "coins_of s' = (coins_of s)\<lparr>clock := current_time s'\<rparr>" by (intro coins_of_cong) (simp_all add: core_def)
  then show "(coin_step E U)\<^sup>*\<^sup>* (coins_of s) (coins_of s')"
    using coin_step.tick[of E U "coins_of s" "current_time s'"] by auto
qed (rule evolves_core)

lemma refines_add:
  assumes "t \<in> U" and "mempool_getitem (mempool s) (txid t) = None"
  shows "refines E U s (add_to_mempool t s)"
proof (rule refinesI)
  have "coins_of (add_to_mempool t s) = coins_of s" by (rule coins_of_ledger) (simp_all add: add_to_mempool_def)
  then show "(coin_step E U)\<^sup>*\<^sup>* (coins_of s) (coins_of (add_to_mempool t s))" by simp
qed (use assms in \<open>blast intro: evolves_add\<close>)

interpretation refining: node_frame E U "refines E U" for E U
  by unfold_locales (fact refines_trans refines_core refines_add refines_process_txn refines_update_pend)+



end
