(* ===== verification/CoinSafety.thy ===== *)
theory CoinSafety
  imports Coins
begin

text \<open>
  What the coin machine keeps, and with it every run of a node: a coin is spent only with its
  authorisation, and never twice.
\<close>

section \<open>Nothing is spent without its authorisation\<close>

text \<open>Coins never change, and a coin only leaves the spendable ones with a transaction that is authorised for it.\<close>

definition coin_inv :: "coin_state \<Rightarrow> bool" where
  "coin_inv c \<longleftrightarrow> (\<forall>r\<in>dom (coin c). ledger c (fst r) \<noteq> None)"

lemma coin_inv_of: "coin_inv (coins_of s)"
  by (auto simp: coin_inv_def coins_of_def stored_coin_def storage_contains_def split: option.splits)

lemma mint_coin:
  assumes "coin_inv c" and "ledger c (txid t) = None"
  shows "coin_inv (mint t ts c)" and "coin c \<subseteq>\<^sub>m coin (mint t ts c)"
proof -
  have "dom (coin c) \<inter> dom (new_coins t ts) = {}"
  proof -
    have "r \<notin> dom (coin c)" if "r \<in> dom (new_coins t ts)" for r
    proof -
      have "fst r = txid t" using that by (auto simp: new_coins_def split: if_splits)
      with assms show ?thesis unfolding coin_inv_def by metis
    qed
    then show ?thesis by blast
  qed
  then show "coin c \<subseteq>\<^sub>m coin (mint t ts c)" unfolding mint_def
    by (simp add: map_add_comm[of "coin c"] map_le_map_add)
  show "coin_inv (mint t ts c)"
    using assms(1) by (auto simp: coin_inv_def mint_def new_coins_def split: if_splits)
qed

lemma take_in_coin:
  assumes "coin_inv c" and "ledger c (txid t) = None"
  shows "coin_inv (take_in t ts c)" and "coin c \<subseteq>\<^sub>m coin (take_in t ts c)"
  using mint_coin[of "c\<lparr>spendable := spendable c - spends t\<rparr>" t ts] assms
  by (auto simp: coin_inv_def take_in_def Let_def)

lemma coin_step_keeps:
  assumes "coin_step E U c c'" and "coin_inv c"
  shows "coin_inv c' \<and> coin c \<subseteq>\<^sub>m coin c'"
  using assms
proof cases
  case (spend t ts)
  with take_in_coin[OF assms(2), of t ts] show ?thesis by (simp add: admissible_def)
next
  case (replace t u ts' ts)
  have "coin_inv (give_back u c)" "coin (give_back u c) = coin c"
    using assms(2) by (simp_all add: coin_inv_def give_back_def unlock_def)
  with replace take_in_coin[of "give_back u c" t ts] show ?thesis by (simp add: admissible_def)
next
  case (mature t ts)
  have "coin_inv (unlock (txid t) c)" "coin (unlock (txid t) c) = coin c"
    using assms(2) by (simp_all add: coin_inv_def unlock_def)
  with mature mint_coin[of "unlock (txid t) c" t ts] show ?thesis by simp
qed (use assms(2) in \<open>auto simp: coin_inv_def unlock_def\<close>)

lemma coin_step_leaves:
  assumes "coin_step E U c c'" and "r \<in> spendable c" and "r \<notin> spendable c'"
  shows "\<exists>t\<in>U. r \<in> spends t \<and> authorised E c t"
  using assms
proof cases
  case (spend t ts)
  then show ?thesis using assms(2,3)
    by (auto simp: take_in_def Let_def mint_def admissible_def split: if_splits)
next
  case (replace t u ts' ts)
  then show ?thesis using assms(2,3)
    by (auto simp: take_in_def Let_def mint_def admissible_def split: if_splits)
qed (use assms(2,3) in \<open>auto simp: mint_def unlock_def\<close>)

lemma coin_steps_leaves:
  assumes "(coin_step E U)\<^sup>*\<^sup>* c c'" and "coin_inv c" and "coin c r = Some (out, ts)"
    and "r \<in> spendable c" and "r \<notin> spendable c'"
  shows "\<exists>t\<in>U. \<exists>inp\<in>set (inputs t). comparable_input inp = r \<and>
    (owners_agree E (txid t) out inp \<or> preimage_shown E (txid t) out inp)"
  using assms
proof (induction rule: converse_rtranclp_induct)
  case (step c d)
  note keep = coin_step_keeps[OF step.hyps(1) step.prems(1)]
  show ?case
  proof (cases "r \<in> spendable d")
    case True
    have "coin d r = Some (out, ts)" using keep step.prems(2) by (metis domI map_le_def)
    with step.IH keep True step.prems(4) show ?thesis by blast
  next
    case False
    with coin_step_leaves[OF step.hyps(1) step.prems(3)] obtain t where "t \<in> U" "r \<in> spends t" "authorised E c t"
      by blast
    with step.prems(2) show ?thesis
      by (force simp: spends_def authorised_def coin_authorised_def split: if_splits)
  qed
qed simp

text \<open>
  C5. Nothing is spent without its authorisation: if an output is unspent at some time and spent at
  a later time of a run, one of the transactions that arrived names it with signatures of both its
  owners, or with the preimage of its hash lock and the signature of the key that goes with it.
  Peers, leaders and the order of events play no part.
\<close>

theorem no_theft:
  assumes "genuine E U" and "node_inv E U s" and "node_run E W U s s'"
    and "stored_coin (db s) r = Some (out, ts)" and "stored_flag (db s) r" and "\<not> stored_flag (db s') r"
  shows "\<exists>t\<in>U. \<exists>inp\<in>set (inputs t). comparable_input inp = r \<and>
    (owners_agree E (txid t) out inp \<or> preimage_shown E (txid t) out inp)"
proof (rule coin_steps_leaves)
  show "(coin_step E U)\<^sup>*\<^sup>* (coins_of s) (coins_of s')"
    using refining.frame_run[OF assms(3)] assms(1,2) by (simp add: refines_def)
  show "coin_inv (coins_of s)" by (rule coin_inv_of)
qed (use assms(4-6) in \<open>simp_all add: coins_of_def\<close>)

theorem no_theft_witness:
  "\<exists>inp\<in>set (inputs ex_pay). comparable_input inp = ([1], 0) \<and>
    (owners_agree ex_env [2] (ex_out 1000 [10]) inp \<or> preimage_shown ex_env [2] (ex_out 1000 [10]) inp)"
proof -
  have f: "stored_coin (db ex_state) ([1], 0) = Some (ex_out 1000 [10], 0)" "stored_flag (db ex_state) ([1], 0)"
    "\<not> stored_flag (db (snd (try_process ex_env ex_state))) ([1], 0)"
    by code_simp+
  from no_theft[OF ex_genuine ex_state_node_inv ex_run f] show ?thesis by (simp add: ex_pay_def)
qed

section \<open>Nothing is spent twice\<close>

text \<open>The transactions that hold their inputs: those of the ledger and the locked ones.\<close>

definition spender_of :: "coin_state \<Rightarrow> bytes \<rightharpoonup> transaction" where
  "spender_of c k = (case ledger c k of Some t \<Rightarrow> Some t | None \<Rightarrow> map_option fst (locked c k))"

lemma spender_of_sel [simp]: "spender_of (c\<lparr>spendable := f\<rparr>) = spender_of c" "spender_of (c\<lparr>clock := now\<rparr>) = spender_of c"
  by (simp_all add: fun_eq_iff spender_of_def cong: option.case_cong)

definition settled :: "coin_state \<Rightarrow> bool" where
  "settled c \<longleftrightarrow> coin_inv c \<and> spendable c \<subseteq> dom (coin c) \<and> (\<forall>k. ledger c k = None \<or> locked c k = None) \<and>
     (\<forall>k t. spender_of c k = Some t \<longrightarrow> txid t = k \<and> spends t \<subseteq> dom (coin c) - spendable c) \<and>
     (\<forall>k k' t u. k \<noteq> k' \<longrightarrow> spender_of c k = Some t \<longrightarrow> spender_of c k' = Some u \<longrightarrow> spends t \<inter> spends u = {})"

text \<open>\<open>free_for\<close>: the inputs of a new holder are coins that no one holds and that are not spendable.\<close>

definition free_for :: "coin_state \<Rightarrow> transaction \<Rightarrow> bool" where
  "free_for c t \<longleftrightarrow> spender_of c (txid t) = None \<and> spends t \<subseteq> dom (coin c) - spendable c \<and>
     (\<forall>k u. spender_of c k = Some u \<longrightarrow> spends t \<inter> spends u = {})"

lemma settledD:
  assumes "settled c"
  shows "coin_inv c" "spendable c \<subseteq> dom (coin c)" "ledger c k = None \<or> locked c k = None"
    "spender_of c k = Some t \<Longrightarrow> txid t = k \<and> spends t \<subseteq> dom (coin c) - spendable c"
    "k \<noteq> k' \<Longrightarrow> spender_of c k = Some t \<Longrightarrow> spender_of c k' = Some u \<Longrightarrow> spends t \<inter> spends u = {}"
  using assms by (simp_all only: settled_def)

lemma settledI:
  assumes "coin_inv c" and "spendable c \<subseteq> dom (coin c)" and "\<And>k. ledger c k = None \<or> locked c k = None"
    and "\<And>k t. spender_of c k = Some t \<Longrightarrow> txid t = k \<and> spends t \<subseteq> dom (coin c) - spendable c"
    and "\<And>k k' t u. k \<noteq> k' \<Longrightarrow> spender_of c k = Some t \<Longrightarrow> spender_of c k' = Some u \<Longrightarrow> spends t \<inter> spends u = {}"
  shows "settled c"
  using assms unfolding settled_def by blast

lemma unlock_sel [simp]:
  "coin (unlock k c) = coin c" "spendable (unlock k c) = spendable c" "locked (unlock k c) = (locked c)(k := None)"
  "coin_inv (unlock k c) = coin_inv c"
  by (simp_all add: unlock_def coin_inv_def)

lemma settled_unlock:
  assumes s: "settled c"
  shows "settled (unlock k c)"
proof -
  have h: "spender_of (unlock k c) k' = Some t \<Longrightarrow> spender_of c k' = Some t" for k' t
    by (auto simp: spender_of_def split: option.splits if_splits)
  show ?thesis
  proof (rule settledI)
    fix k' t assume "spender_of (unlock k c) k' = Some t"
    from settledD(4)[OF s h[OF this]]
    show "txid t = k' \<and> spends t \<subseteq> dom (coin (unlock k c)) - spendable (unlock k c)" by simp
  next
    fix k1 k2 t u assume "k1 \<noteq> k2" "spender_of (unlock k c) k1 = Some t" "spender_of (unlock k c) k2 = Some u"
    then show "spends t \<inter> spends u = {}" using settledD(5)[OF s] h by metis
  qed (use settledD(1-3)[OF s] in auto)
qed

lemma settled_free:
  assumes s: "settled c" and l: "locked c (txid u) = Some (u, ts)"
  shows "free_for (unlock (txid u) c) u"
proof -
  let ?k = "txid u"
  have n: "ledger c ?k = None" using settledD(3)[OF s, of ?k] l by simp
  then have u: "spender_of c ?k = Some u" using l by (simp add: spender_of_def)
  have o: "spender_of (unlock ?k c) k' = (if k' = ?k then None else spender_of c k')" for k'
    using n by (simp add: spender_of_def split: option.split)
  have "\<forall>k' t. spender_of (unlock ?k c) k' = Some t \<longrightarrow> spends u \<inter> spends t = {}"
    unfolding o using settledD(5)[OF s _ u] by (metis option.distinct(1))
  then show ?thesis using settledD(4)[OF s u] o[of ?k] by (simp add: free_for_def)
qed

text \<open>A new holder, whether its outputs are minted or it is locked.\<close>

lemma settled_new:
  assumes s: "settled c" and f: "free_for c t" and h: "spender_of c' = (spender_of c)(txid t \<mapsto> t)"
    and d: "dom (coin c) - spendable c \<subseteq> dom (coin c') - spendable c'"
    and "coin_inv c'" "spendable c' \<subseteq> dom (coin c')" "\<And>k. ledger c' k = None \<or> locked c' k = None"
  shows "settled c'"
proof (rule settledI)
  fix k u assume "spender_of c' k = Some u"
  then have "txid u = k \<and> spends u \<subseteq> dom (coin c) - spendable c"
    using settledD(4)[OF s, of k u] f by (cases "k = txid t") (simp_all add: h free_for_def)
  with d show "txid u = k \<and> spends u \<subseteq> dom (coin c') - spendable c'" by blast
next
  fix k k' u v
  assume "k \<noteq> k'" "spender_of c' k = Some u" "spender_of c' k' = Some v"
  then show "spends u \<inter> spends v = {}"
    using settledD(5)[OF s, of k k' u v] f by (auto simp: h free_for_def split: if_splits)
qed fact+

lemma settled_mint:
  assumes s: "settled c" and f: "free_for c t"
  shows "settled (mint t ts c)"
proof (rule settled_new[OF s f])
  have n: "ledger c (txid t) = None" "locked c (txid t) = None"
    using f by (auto simp: free_for_def spender_of_def split: option.splits)
  show "coin_inv (mint t ts c)" using settledD(1)[OF s] n(1) by (rule mint_coin)
  show "spender_of (mint t ts c) = (spender_of c)(txid t \<mapsto> t)"
    by (auto simp: fun_eq_iff spender_of_def mint_def split: option.split)
  have "r \<notin> dom (coin c)" if "r \<in> dom (new_coins t ts)" for r
  proof -
    have "fst r = txid t" using that by (auto simp: new_coins_def split: if_splits)
    with settledD(1)[OF s] n(1) show ?thesis unfolding coin_inv_def by metis
  qed
  then show "dom (coin c) - spendable c \<subseteq> dom (coin (mint t ts c)) - spendable (mint t ts c)"
    by (auto simp: mint_def)
  show "spendable (mint t ts c) \<subseteq> dom (coin (mint t ts c))" using settledD(2)[OF s] by (auto simp: mint_def)
  show "ledger (mint t ts c) k = None \<or> locked (mint t ts c) k = None" for k
    using settledD(3)[OF s, of k] n by (auto simp: mint_def)
qed

lemma settled_lock:
  assumes s: "settled c" and f: "free_for c t"
  shows "settled (c\<lparr>locked := (locked c)(txid t \<mapsto> (t, ts))\<rparr>)"
proof (rule settled_new[OF s f])
  have n: "ledger c (txid t) = None" using f by (auto simp: free_for_def spender_of_def split: option.splits)
  then show "spender_of (c\<lparr>locked := (locked c)(txid t \<mapsto> (t, ts))\<rparr>) = (spender_of c)(txid t \<mapsto> t)"
    by (auto simp: fun_eq_iff spender_of_def split: option.split)
  show "ledger (c\<lparr>locked := (locked c)(txid t \<mapsto> (t, ts))\<rparr>) k = None \<or>
      locked (c\<lparr>locked := (locked c)(txid t \<mapsto> (t, ts))\<rparr>) k = None" for k
    using settledD(3)[OF s, of k] n by auto
qed (use settledD(1,2)[OF s] in \<open>simp_all add: coin_inv_def\<close>)

lemma settled_fewer:
  assumes s: "settled c" and f: "f \<subseteq> spendable c"
  shows "settled (c\<lparr>spendable := f\<rparr>)"
proof (rule settledI)
  fix k t assume "spender_of (c\<lparr>spendable := f\<rparr>) k = Some t"
  then have "txid t = k \<and> spends t \<subseteq> dom (coin c) - spendable c" using settledD(4)[OF s] by simp
  with f show "txid t = k \<and> spends t \<subseteq> dom (coin (c\<lparr>spendable := f\<rparr>)) - spendable (c\<lparr>spendable := f\<rparr>)" by auto
next
  fix k k' t u
  assume "k \<noteq> k'" "spender_of (c\<lparr>spendable := f\<rparr>) k = Some t" "spender_of (c\<lparr>spendable := f\<rparr>) k' = Some u"
  then show "spends t \<inter> spends u = {}" using settledD(5)[OF s, of k k' t u] by simp
qed (use settledD(1-3)[OF s] f in \<open>auto simp: coin_inv_def\<close>)

lemma settled_take_in:
  assumes s: "settled c" and a: "admissible E c t"
  shows "settled (take_in t ts c)"
proof -
  let ?c = "c\<lparr>spendable := spendable c - spends t\<rparr>"
  have h: "spender_of ?c = spender_of c" by simp
  have sp: "spends t \<subseteq> spendable c" using a by (simp add: admissible_def)
  have "settled ?c" using s by (rule settled_fewer) blast
  moreover have "spends t \<inter> spends u = {}" if "spender_of c k = Some u" for k u
    using settledD(4)[OF s that] sp by blast
  then have "free_for ?c t"
    using sp settledD(2)[OF s] a by (auto simp: free_for_def h spender_of_def admissible_def)
  ultimately show ?thesis
    using settled_mint[of ?c t ts] settled_lock[of ?c t ts] by (simp add: take_in_def Let_def)
qed

lemma settled_give_back:
  assumes s: "settled c" and l: "locked c (txid u) = Some (u, ts)"
  shows "settled (give_back u c)"
proof (rule settledI)
  have f: "free_for (unlock (txid u) c) u" using s l by (rule settled_free)
  have s1: "settled (unlock (txid u) c)" using s by (rule settled_unlock)
  have h: "spender_of (give_back u c) = spender_of (unlock (txid u) c)" by (simp add: give_back_def)
  have d: "coin (give_back u c) = coin c" "locked (give_back u c) = locked (unlock (txid u) c)"
    by (simp_all add: give_back_def)
  show "coin_inv (give_back u c)" using settledD(1)[OF s] by (simp add: coin_inv_def d)
  show "spendable (give_back u c) \<subseteq> dom (coin (give_back u c))"
    using settledD(2)[OF s] f by (auto simp: d free_for_def)
  show "ledger (give_back u c) k = None \<or> locked (give_back u c) k = None" for k
    using settledD(3)[OF s1, of k] by (simp add: d)
  show "txid t = k \<and> spends t \<subseteq> dom (coin (give_back u c)) - spendable (give_back u c)"
    if "spender_of (give_back u c) k = Some t" for k t
  proof -
    have t: "spender_of (unlock (txid u) c) k = Some t" using that by (simp add: h)
    then have "spends u \<inter> spends t = {}" using f unfolding free_for_def by blast
    with settledD(4)[OF s1 t] show ?thesis by (auto simp: d)
  qed
  show "spends t \<inter> spends v = {}"
    if "k \<noteq> k'" "spender_of (give_back u c) k = Some t" "spender_of (give_back u c) k' = Some v" for k k' t v
    using settledD(5)[OF s1] that unfolding h by blast
qed

lemma coin_step_settled:
  assumes "coin_step E U c c'" and s: "settled c"
  shows "settled c'"
  using assms(1)
proof cases
  case (tick now)
  with s show ?thesis by (simp add: settled_def coin_inv_def)
next
  case (spend t ts)
  with s show ?thesis by (auto intro: settled_take_in)
next
  case (replace t u ts' ts)
  with s show ?thesis by (auto intro: settled_take_in settled_give_back)
next
  case (mature t ts)
  with settled_mint[OF settled_unlock[OF s] settled_free[OF s mature(3)]] show ?thesis by simp
next
  case (burn t ts)
  with s show ?thesis by (auto intro: settled_unlock)
qed

lemma coin_steps_settled: "(coin_step E U)\<^sup>*\<^sup>* c c' \<Longrightarrow> settled c \<Longrightarrow> settled c'"
  by (induction rule: rtranclp_induct) (auto intro: coin_step_settled)

text \<open>A fresh node: the coinbase transactions have no inputs.\<close>

lemma add_coinbase_from:
  assumes "store_get (add_coinbase cb d) k = Some w"
  shows "txn w \<in> set cb \<or> store_get d k = Some w"
  using assms
proof (induction cb arbitrary: d)
  case (Cons t cb)
  let ?d = "if store_get d (txid t) \<noteq> None then d else store_put (txid t) (TxnWrapper t 0 None) d"
  have "add_coinbase (t # cb) d = add_coinbase cb ?d" by (simp add: add_coinbase_def)
  with Cons.IH[of ?d] Cons.prems show ?case by (auto split: if_splits)
qed (simp add: add_coinbase_def)

lemma fresh_settled:
  assumes "\<forall>t\<in>set cb. inputs t = [] \<and> txid t \<noteq> no_hash E"
  shows "settled (coins_of (storage_init E cb peers [] [] []))" (is "settled (coins_of ?s)")
proof -
  have inv: "db_ok E ?s"
    using storage_init_fresh_inv[of cb E] assms by (simp add: node_inv_def ledger_inv_def)
  have p: "pend ?s = []" and d: "db ?s = add_coinbase cb []" by (simp_all add: storage_init_def Let_def)
  have h: "spender_of (coins_of ?s) k = Some t \<Longrightarrow> txid t = k \<and> spends t = {}" for k t
    using add_coinbase_from[of cb "[]" k] inv assms
    by (auto simp: spender_of_def coins_of_def p d db_ok_def keyed_def spends_def split: option.splits)
  have "spendable (coins_of ?s) \<subseteq> dom (coin (coins_of ?s))"
    using inv by (auto simp: coins_of_def stored_flag_def stored_coin_def db_ok_def flags_ok_def split: option.splits)
  moreover have "locked (coins_of ?s) k = None" for k by (simp add: coins_of_def p)
  ultimately show ?thesis
  proof (intro settledI)
    fix k t assume "spender_of (coins_of ?s) k = Some t"
    from h[OF this] show "txid t = k \<and> spends t \<subseteq> dom (coin (coins_of ?s)) - spendable (coins_of ?s)" by simp
  next
    fix k k' t u assume "spender_of (coins_of ?s) k = Some t"
    from h[OF this] show "spends t \<inter> spends u = {}" by simp
  qed (auto simp: coin_inv_of)
qed

text \<open>
  C2. Nothing is ever spent twice: in the database of a node that started from the coinbase, no two
  transactions spend the same output, and every output that a transaction of the database spends is
  an output of a transaction of the database, marked as spent. This holds after every run, whatever
  arrived, in whatever order, with replacements and time locks.
\<close>

theorem ledger_never_double_spends:
  assumes "genuine E U" and "\<forall>t\<in>set cb. inputs t = [] \<and> txid t \<noteq> no_hash E"
    and "node_run E W U (storage_init E cb peers [] [] []) s"
    and "store_get (db s) k = Some w" and "store_get (db s) k' = Some w'" and "k \<noteq> k'"
  shows "spends (txn w) \<inter> spends (txn w') = {} \<and>
    (\<forall>r\<in>spends (txn w). stored_coin (db s) r \<noteq> None \<and> \<not> stored_flag (db s) r)"
proof -
  have "node_inv E U (storage_init E cb peers [] [] [])" using assms(2) by (intro storage_init_fresh_inv) simp
  then have "(coin_step E U)\<^sup>*\<^sup>* (coins_of (storage_init E cb peers [] [] [])) (coins_of s)"
    using refining.frame_run[OF assms(3)] assms(1) by (simp add: refines_def)
  then have s: "settled (coins_of s)" using fresh_settled[OF assms(2)] by (rule coin_steps_settled)
  have h: "spender_of (coins_of s) k = Some (txn w)" "spender_of (coins_of s) k' = Some (txn w')"
    using assms(4,5) by (simp_all add: spender_of_def coins_of_def)
  have "spends (txn w) \<inter> spends (txn w') = {}" using s h assms(6) unfolding settled_def by blast
  moreover have "spends (txn w) \<subseteq> dom (coin (coins_of s)) - spendable (coins_of s)" using s h unfolding settled_def by blast
  then have "\<forall>r\<in>spends (txn w). stored_coin (db s) r \<noteq> None \<and> \<not> stored_flag (db s) r"
    by (auto simp: coins_of_def)
  ultimately show ?thesis by blast
qed

text \<open>The payment of the example arrives at a fresh node and is processed with a block.\<close>

definition ex_fresh :: storage where
  "ex_fresh = storage_init ex_env [ex_genesis] [] [] [] []"

definition ex_after :: storage where
  "ex_after = snd (node_event ex_env ex_wire Ev_try_process (snd (node_event ex_env ex_wire
     (Ev_block \<lparr>block_time = 1, block_txns = [[2]]\<rparr>) (snd (node_event ex_env ex_wire (Ev_puttxn [2] True) ex_fresh)))))"

lemma ex_after_run: "node_run ex_env ex_wire {ex_pay} ex_fresh ex_after"
  unfolding ex_after_def by (intro node_run.intros) (simp_all add: ex_wire_def)

theorem ledger_never_double_spends_witness:
  "storage_contains ex_after [2] \<and> spends ex_pay \<inter> spends ex_genesis = {} \<and>
    spends ex_pay = {([1], 0)} \<and> stored_coin (db ex_after) ([1], 0) \<noteq> None \<and> \<not> stored_flag (db ex_after) ([1], 0)"
proof -
  have "map_option txn (store_get (db ex_after) [2]) = Some ex_pay" "map_option txn (store_get (db ex_after) [1]) = Some ex_genesis"
    by code_simp+
  then obtain w w' where w: "store_get (db ex_after) [2] = Some w" "txn w = ex_pay"
    "store_get (db ex_after) [1] = Some w'" "txn w' = ex_genesis" by auto
  have c: "\<forall>t\<in>set [ex_genesis]. inputs t = [] \<and> txid t \<noteq> no_hash ex_env" by (simp add: ex_genesis_def ex_env_def)
  have ne: "([2] :: bytes) \<noteq> [1]" by simp
  have "storage_contains ex_after [2]" using w by (simp add: storage_contains_def)
  moreover have "spends ex_pay = {([1], 0)}" by (auto simp: spends_def ex_pay_def comparable_input_def ex_in_def)
  ultimately show ?thesis
    using ledger_never_double_spends[OF ex_genuine c ex_after_run[unfolded ex_fresh_def] w(1,3) ne] w by simp
qed

end
