(* ===== verification/Crypto.thy ===== *)
theory Crypto
  imports Txn
begin

text \<open>
  Signing, \<open>belcoin_node/crypto/crypto.py\<close>. The library returns the signature followed by the message;
  \<open>sign\<close> takes the message away by replacing every place where it occurs. Verification is in \<open>Txn\<close>.
\<close>

text \<open>\<open>bytes.replace(msg, b'')\<close>: occurrences from the left, none that overlap; an empty message leaves everything.\<close>

function remove_all :: "bytes \<Rightarrow> bytes \<Rightarrow> bytes" where
  "remove_all m [] = []"
| "remove_all m (x # xs) =
     (if m \<noteq> [] \<and> take (length m) (x # xs) = m then remove_all m (drop (length m) (x # xs))
      else x # remove_all m xs)"
  by pat_completeness auto
termination by (relation "measure (length \<circ> snd)") auto

declare remove_all.simps(2) [simp del]

text \<open>\<open>crypto_sign\<close> is that of the library.\<close>

definition sign :: "(bytes \<Rightarrow> bytes \<Rightarrow> bytes) \<Rightarrow> bytes \<Rightarrow> bytes \<Rightarrow> bytes" where
  "sign crypto_sign msg priv_key = remove_all msg (crypto_sign msg priv_key)"

lemma remove_all_end:
  assumes "\<And>i. i < length s \<Longrightarrow> take (length m) (drop i (s @ m)) \<noteq> m"
  shows "remove_all m (s @ m) = s"
  using assms
proof (induction s)
  case Nil
  show ?case
  proof (cases m)
    case (Cons x xs)
    then show ?thesis by (simp add: remove_all.simps(2))
  qed simp
next
  case (Cons x s)
  have "take (length m) (x # s @ m) \<noteq> m" using Cons.prems[of 0] by simp
  moreover have "remove_all m (s @ m) = s"
  proof (rule Cons.IH)
    fix i assume "i < length s"
    then show "take (length m) (drop i (s @ m)) \<noteq> m" using Cons.prems[of "Suc i"] by simp
  qed
  ultimately show ?case by (simp add: remove_all.simps(2))
qed

text \<open>
  A signature verifies when the message does not occur in it, nor across its end; where it does, \<open>sign\<close>
  returns something shorter or different that does not.
\<close>

lemma sign_verifies:
  assumes "crypto_sign m priv_key = s @ m" and "crypto_sign_open E (s @ m) pub_key = Some m"
    and "\<And>i. i < length s \<Longrightarrow> take (length m) (drop i (s @ m)) \<noteq> m"
  shows "verify_sig E m pub_key (sign crypto_sign m priv_key)"
  using assms by (simp add: sign_def verify_sig_def remove_all_end)

lemma sign_damaged: "sign (\<lambda>m k. [1, 7, 2] @ m) [7] k = [1, 2]"
  by (simp add: sign_def remove_all.simps)

end
