(* ===== verification/Client.thy ===== *)
theory Client
  imports Node
begin

text \<open>
  The client of \<open>belcoin_node/client.py\<close>: it loads the network with transactions, singly or in
  batches, asks the nodes for their balances, and has a console. Its functions run as tasks of a
  reactor and as callbacks of the answers; the answers come in any order.
\<close>

section \<open>State\<close>

definition BASE_PORT_RPC :: int where "BASE_PORT_RPC = 7080"
definition BATCH_SIZE :: nat where "BATCH_SIZE = 1000"

text \<open>What \<open>reactor.callLater(0, ...)\<close> has queued, and the remote calls that were made.\<close>

datatype client_job =
    T_txn int bytes
  | T_txn_batch int "bytes list"
  | T_bal int
  | T_utxos int bytes
  | T_gettx int string

datatype remote_call =
    R_sendrawtx int bytes
  | R_puttxn_batch int "bytes list"
  | R_print_balances int
  | R_getutxos int bytes
  | R_gettx int string

text \<open>
  \<open>client_k\<close> and \<open>client_b\<close> (\<open>k\<close> and \<open>b\<close>), \<open>num_txns\<close> and \<open>num_bal\<close> are the globals of the module; \<open>waiting\<close> holds the calls that are
  not answered yet, \<open>console_lines\<close> what will be typed, split into words, and \<open>at_prompt\<close> that the
  program stands in \<open>input\<close> with nothing typed.
\<close>

record client =
  client_k :: nat
  client_b :: nat
  num_txns :: nat
  num_bal :: nat
  scheduled :: "client_job list"
  remote_calls :: "remote_call list"
  waiting :: "remote_call list"
  console_lines :: "string list list"
  at_prompt :: bool

text \<open>
  The serialised test transactions, the empty transaction the console sends, \<open>int\<close> of a word, and
  \<open>pubkey_to_address(PUBS[i])\<close>.
\<close>

record client_env =
  test_transactions :: "bytes list"
  empty_txn :: bytes
  parse_int :: "string \<Rightarrow> py_error + int"
  pub_address :: "int \<Rightarrow> py_error + bytes"

definition call_later :: "client_job \<Rightarrow> client \<Rightarrow> client" where
  "call_later t c = c\<lparr>scheduled := scheduled c @ [t]\<rparr>"

definition call_remote :: "remote_call \<Rightarrow> client \<Rightarrow> client" where
  "call_remote r c = c\<lparr>remote_calls := remote_calls c @ [r], waiting := waiting c @ [r]\<rparr>"

section \<open>The loads\<close>

text \<open>\<open>rnd\<close> is what \<open>randint\<close> returns.\<close>

definition test_txns :: "client_env \<Rightarrow> nat \<Rightarrow> client \<Rightarrow> client" where
  "test_txns V rnd c =
     (if client_k c < length (test_transactions V)
      then (call_later (T_txn (BASE_PORT_RPC + int rnd) (test_transactions V ! client_k c)) c)\<lparr>client_k := client_k c + 1\<rparr>
      else c)"

definition test_txns_batch :: "client_env \<Rightarrow> nat \<Rightarrow> client \<Rightarrow> client" where
  "test_txns_batch V rnd c =
     (if client_k c < length (test_transactions V) \<and> client_k c mod BATCH_SIZE = 0
      then (call_later (T_txn_batch (BASE_PORT_RPC + int rnd) (take BATCH_SIZE (drop (client_k c) (test_transactions V)))) c)
             \<lparr>client_k := client_k c + BATCH_SIZE\<rparr>
      else c)"

definition client_balances :: "client \<Rightarrow> client" where
  "client_balances c =
     (if client_b c < 4 then (call_later (T_bal (BASE_PORT_RPC + int (client_b c))) c)\<lparr>client_b := client_b c + 1\<rparr> else c)"

section \<open>The console\<close>

text \<open>\<open>None\<close>: \<open>run\<close> calls itself again. Exceptions of the loads are printed; theirs cannot occur.\<close>

definition console_command :: "client_env \<Rightarrow> nat \<Rightarrow> string list \<Rightarrow> client \<Rightarrow> ((py_error + unit) \<times> client) option" where
  "console_command V rnd cmd c =
     (let word = (\<lambda>i. if i < length cmd then Inr (cmd ! i) else Inl IndexError);
          number = (\<lambda>i. case word i of Inl e \<Rightarrow> Inl e | Inr w \<Rightarrow> parse_int V w) in
      (case cmd of
         [] \<Rightarrow> None
       | c0 # _ \<Rightarrow>
           if c0 = ''bal'' then Some (Inr (), client_balances (c\<lparr>num_bal := 0, client_b := 0\<rparr>))
           else if c0 = ''txn'' then
             Some (case number 1 of Inl e \<Rightarrow> (Inl e, c) | Inr port \<Rightarrow> (Inr (), call_later (T_txn port (empty_txn V)) c))
           else if c0 = ''utxos'' then
             Some (case number 1 of
                     Inl e \<Rightarrow> (Inl e, c)
                   | Inr port \<Rightarrow>
                       (case number 2 of
                          Inl e \<Rightarrow> (Inl e, c)
                        | Inr i \<Rightarrow>
                            (case pub_address V i of
                               Inl e \<Rightarrow> (Inl e, c)
                             | Inr a \<Rightarrow> (Inr (), call_later (T_utxos port a) c))))
           else if c0 = ''gettx'' then
             Some (case number 1 of
                     Inl e \<Rightarrow> (Inl e, c)
                   | Inr port \<Rightarrow> (case word 2 of Inl e \<Rightarrow> (Inl e, c) | Inr i \<Rightarrow> (Inr (), call_later (T_gettx port i) c)))
           else if c0 = ''txns'' then Some (Inr (), test_txns_batch V rnd (c\<lparr>num_txns := 0, client_k := 0\<rparr>))
           else None))"

fun run_console :: "client_env \<Rightarrow> nat \<Rightarrow> string list list \<Rightarrow> (client, unit) eff" where
  "run_console V rnd [] c = (Inr (), c\<lparr>console_lines := [], at_prompt := True\<rparr>)"
| "run_console V rnd (cmd # rest) c =
     (case console_command V rnd cmd (c\<lparr>console_lines := rest\<rparr>) of
        None \<Rightarrow> run_console V rnd rest c
      | Some r \<Rightarrow> r)"

definition run_client :: "client_env \<Rightarrow> nat \<Rightarrow> (client, unit) eff" where
  "run_client V rnd c = run_console V rnd (console_lines c) c"

section \<open>Tasks and answers\<close>

fun client_task :: "client_env \<Rightarrow> nat \<Rightarrow> client_job \<Rightarrow> client \<Rightarrow> client" where
  "client_task V rnd (T_txn port t) c = test_txns V rnd (call_remote (R_sendrawtx port t) c)"
| "client_task V rnd (T_txn_batch port ts) c = test_txns_batch V rnd (call_remote (R_puttxn_batch port ts) c)"
| "client_task V rnd (T_bal port) c = client_balances (call_remote (R_print_balances port) c)"
| "client_task V rnd (T_utxos port a) c = call_remote (R_getutxos port a) c"
| "client_task V rnd (T_gettx port i) c = call_remote (R_gettx port i) c"

definition cont_txn :: "client_env \<Rightarrow> nat \<Rightarrow> (client, unit) eff" where
  "cont_txn V rnd c =
     (let c1 = c\<lparr>num_txns := num_txns c + 1\<rparr> in
      if num_txns c1 = length (test_transactions V) then run_client V rnd c1 else (Inr (), test_txns V rnd c1))"

definition cont_txn_batch :: "client_env \<Rightarrow> nat \<Rightarrow> client \<Rightarrow> client" where
  "cont_txn_batch V rnd c =
     (let c1 = c\<lparr>num_txns := num_txns c + BATCH_SIZE\<rparr> in
      if num_txns c1 = length (test_transactions V) then c1 else test_txns_batch V rnd c1)"

text \<open>The exceptions of the console are caught and printed here.\<close>

definition cont_bal :: "client_env \<Rightarrow> nat \<Rightarrow> client \<Rightarrow> client" where
  "cont_bal V rnd c =
     (let c1 = c\<lparr>num_bal := num_bal c + 1\<rparr> in
      if num_bal c1 = 4 then snd (run_client V rnd c1) else client_balances c1)"

text \<open>What the answer to a call does, whether it is a value or an error (\<open>addBoth\<close>).\<close>

fun on_answer :: "client_env \<Rightarrow> nat \<Rightarrow> remote_call \<Rightarrow> (client, unit) eff" where
  "on_answer V rnd (R_sendrawtx port t) c = cont_txn V rnd c"
| "on_answer V rnd (R_puttxn_batch port ts) c = (Inr (), cont_txn_batch V rnd c)"
| "on_answer V rnd (R_print_balances port) c = (Inr (), cont_bal V rnd c)"
| "on_answer V rnd _ c = (Inr (), c)"

text \<open>The start of the program: \<open>reactor.callWhenRunning(test_txns_batch)\<close>.\<close>

definition client_init :: "client_env \<Rightarrow> nat \<Rightarrow> string list list \<Rightarrow> client" where
  "client_init V rnd typed =
     test_txns_batch V rnd \<lparr>client_k = 0, client_b = 0, num_txns = 0, num_bal = 0, scheduled = [], remote_calls = [], waiting = [],
       console_lines = typed, at_prompt = False\<rparr>"

inductive client_run :: "client_env \<Rightarrow> client \<Rightarrow> client \<Rightarrow> bool" for V c0 where
  start: "client_run V c0 c0"
| task: "client_run V c0 c \<Longrightarrow> \<not> at_prompt c \<Longrightarrow> scheduled c = t # ts \<Longrightarrow>
    client_run V c0 (client_task V rnd t (c\<lparr>scheduled := ts\<rparr>))"
| answer: "client_run V c0 c \<Longrightarrow> \<not> at_prompt c \<Longrightarrow> r \<in> set (waiting c) \<Longrightarrow>
    client_run V c0 (snd (on_answer V rnd r (c\<lparr>waiting := remove1 r (waiting c)\<rparr>)))"

section \<open>The batches\<close>

text \<open>The transactions that were sent in batches, and those in the queue.\<close>

fun sent_batch :: "remote_call \<Rightarrow> bytes list" where
  "sent_batch (R_puttxn_batch port ts) = ts"
| "sent_batch _ = []"

fun queued_batch :: "client_job \<Rightarrow> bytes list" where
  "queued_batch (T_txn_batch port ts) = ts"
| "queued_batch _ = []"

definition sent_txns :: "client \<Rightarrow> bytes list" where
  "sent_txns c = concat (map sent_batch (remote_calls c))"

definition is_batch :: "remote_call \<Rightarrow> bool" where
  "is_batch r \<longleftrightarrow> (\<exists>port ts. r = R_puttxn_batch port ts \<and> ts \<noteq> [] \<and> length ts \<le> BATCH_SIZE)"

definition queued_ok :: "client_job \<Rightarrow> bool" where
  "queued_ok t \<longleftrightarrow> (\<exists>port ts. t = T_txn_batch port ts \<and> ts \<noteq> [] \<and> length ts \<le> BATCH_SIZE)"

definition loading :: "client_env \<Rightarrow> client \<Rightarrow> bool" where
  "loading V c \<longleftrightarrow> \<not> at_prompt c \<and> BATCH_SIZE dvd client_k c \<and>
     sent_txns c @ concat (map queued_batch (scheduled c)) = take (client_k c) (test_transactions V) \<and>
     (scheduled c = [] \<longrightarrow> length (test_transactions V) \<le> client_k c) \<and>
     (\<forall>r\<in>set (remote_calls c) \<union> set (waiting c). is_batch r) \<and> (\<forall>t\<in>set (scheduled c). queued_ok t)"

lemma batch_size_pos: "0 < BATCH_SIZE"
  by (simp add: BATCH_SIZE_def)

text \<open>\<open>test_txns_batch\<close> queues the next slice; before it, the queue may be empty.\<close>

lemma loading_next:
  assumes "\<not> at_prompt c" and "BATCH_SIZE dvd client_k c"
    and "sent_txns c @ concat (map queued_batch (scheduled c)) = take (client_k c) (test_transactions V)"
    and "\<forall>r\<in>set (remote_calls c) \<union> set (waiting c). is_batch r" and "\<forall>t\<in>set (scheduled c). queued_ok t"
  shows "loading V (test_txns_batch V rnd c)"
proof (cases "client_k c < length (test_transactions V)")
  case False
  with assms show ?thesis by (simp add: loading_def test_txns_batch_def)
next
  case True
  let ?new = "take BATCH_SIZE (drop (client_k c) (test_transactions V))"
  have m: "client_k c mod BATCH_SIZE = 0" using assms(2) by simp
  have "?new \<noteq> []" using True batch_size_pos by simp
  moreover have "take (client_k c) (test_transactions V) @ ?new = take (client_k c + BATCH_SIZE) (test_transactions V)"
    by (simp add: take_add)
  ultimately show ?thesis
    using assms True m
    by (auto simp: loading_def test_txns_batch_def call_later_def sent_txns_def queued_ok_def)
       (metis append_assoc)
qed

lemma loading_start: "loading V (client_init V rnd typed)"
  unfolding client_init_def by (rule loading_next) (simp_all add: sent_txns_def)

lemma loading_run:
  assumes "client_run V (client_init V rnd typed) c"
  shows "loading V c"
  using assms
proof induction
  case start
  show ?case by (rule loading_start)
next
  case (task c t ts rnd)
  then obtain port xs where t: "t = T_txn_batch port xs" "queued_ok t" by (auto simp: loading_def queued_ok_def)
  show ?case
    unfolding t client_task.simps
    by (rule loading_next)
       (use task t in \<open>auto simp: loading_def call_remote_def sent_txns_def is_batch_def queued_ok_def\<close>)
next
  case (answer c r rnd)
  then obtain port xs where r: "r = R_puttxn_batch port xs" unfolding loading_def is_batch_def by blast
  let ?c = "c\<lparr>waiting := remove1 r (waiting c), num_txns := num_txns c + BATCH_SIZE\<rparr>"
  have w: "\<forall>x\<in>set (remove1 r (waiting c)). is_batch x"
    using answer.IH set_remove1_subset[of r "waiting c"] by (auto simp: loading_def)
  have "loading V ?c" using answer.IH w by (auto simp: loading_def sent_txns_def)
  moreover have "loading V (test_txns_batch V rnd ?c)"
    by (rule loading_next) (use answer.IH w in \<open>auto simp: loading_def sent_txns_def\<close>)
  moreover have "cont_txn_batch V rnd (c\<lparr>waiting := remove1 r (waiting c)\<rparr>) \<in> {?c, test_txns_batch V rnd ?c}"
    by (simp add: cont_txn_batch_def Let_def)
  ultimately show ?case by (auto simp: r)
qed

text \<open>
  The load of the client: in whatever order tasks run and answers come back, the batches
  that were sent are a prefix of the test transactions, in their order, none left out and none sent
  twice, each batch of at most \<open>BATCH_SIZE\<close>; as long as transactions are missing a task is queued, so when
  the queue is empty all of them have been sent.
\<close>

theorem client_load:
  assumes "client_run V (client_init V rnd typed) c"
  shows "\<exists>rest. test_transactions V = sent_txns c @ rest \<and> (rest = [] \<or> scheduled c \<noteq> []) \<and>
    (\<forall>r\<in>set (remote_calls c). is_batch r)"
proof -
  have l: "loading V c" using assms by (rule loading_run)
  let ?q = "concat (map queued_batch (scheduled c))"
  have e: "sent_txns c @ ?q = take (client_k c) (test_transactions V)" using l by (simp add: loading_def)
  have "test_transactions V = sent_txns c @ (?q @ drop (client_k c) (test_transactions V))"
    unfolding append_assoc[symmetric] e by simp
  then show ?thesis using l by (auto simp: loading_def intro!: exI[of _ "?q @ drop (client_k c) (test_transactions V)"])
qed

definition ex_client_env :: client_env where
  "ex_client_env = \<lparr>test_transactions = [[1], [2], [3]], empty_txn = [], parse_int = (\<lambda>_. Inl ValueError), pub_address = (\<lambda>_. Inl IndexError)\<rparr>"

theorem client_load_witness:
  "\<exists>c. client_run ex_client_env (client_init ex_client_env 2 []) c \<and> sent_txns c = [[1], [2], [3]] \<and> scheduled c = []"
proof -
  let ?s = "client_init ex_client_env 2 []"
  have s: "scheduled ?s = [T_txn_batch 7082 [[1], [2], [3]]]" "\<not> at_prompt ?s"
    by (simp_all add: client_init_def test_txns_batch_def ex_client_env_def call_later_def BASE_PORT_RPC_def BATCH_SIZE_def)
  let ?c = "client_task ex_client_env 0 (T_txn_batch 7082 [[1], [2], [3]]) (?s\<lparr>scheduled := []\<rparr>)"
  have r: "client_run ex_client_env ?s ?c" using client_run.task[OF client_run.start s(2,1)] .
  have k: "client_k ?s = 1000" "remote_calls ?s = []"
    by (simp_all add: client_init_def test_txns_batch_def ex_client_env_def call_later_def BATCH_SIZE_def)
  have e: "test_transactions ex_client_env = [[1], [2], [3]]" by (simp add: ex_client_env_def)
  then have "scheduled ?c = []" by (simp add: call_remote_def test_txns_batch_def k)
  with e client_load[OF r] r show ?thesis by auto
qed

section \<open>The balances\<close>

text \<open>\<open>bal\<close> asks the four nodes once each, in the order of their ports, if nothing comes in between.\<close>

fun run_tasks :: "client_env \<Rightarrow> nat list \<Rightarrow> client \<Rightarrow> client" where
  "run_tasks V [] c = c"
| "run_tasks V (rnd # rs) c =
     (case scheduled c of [] \<Rightarrow> c | t # ts \<Rightarrow> run_tasks V rs (client_task V rnd t (c\<lparr>scheduled := ts\<rparr>)))"

lemma balances_asked:
  assumes "scheduled c = []" and "console_lines c = [''bal''] # rest"
  shows "remote_calls (run_tasks V [0, 0, 0, 0] (snd (run_client V rnd c))) =
    remote_calls c @ map (\<lambda>i. R_print_balances (BASE_PORT_RPC + i)) [0, 1, 2, 3]"
  using assms
  by (simp add: run_client_def console_command_def client_balances_def call_later_def call_remote_def Let_def)

end
