(* ===== verification/FastQueue.thy ===== *)
theory FastQueue
  imports Prelude
begin

text \<open>
  The bounded queue of commands, \<open>pysyncobjbc/fast_queue.py\<close>. Its contract is the locale
  \<open>bounded_fifo\<close>: a provider that keeps the order and refuses an element only when full. The
  lock makes each operation atomic, so an operation is one function.
\<close>

record 'a fast_queue =
  queue :: "'a list"
  max_size :: int

definition FastQueue :: "int \<Rightarrow> 'a fast_queue" where
  "FastQueue n = \<lparr>queue = [], max_size = n\<rparr>"

definition put_nowait :: "'a \<Rightarrow> ('a fast_queue, unit) eff" where
  "put_nowait v q =
     (if int (length (queue q)) > max_size q then (Inl QueueFull, q)
      else (Inr (), q\<lparr>queue := queue q @ [v]\<rparr>))"

definition get_nowait :: "('a fast_queue, 'a) eff" where
  "get_nowait q =
     (case queue q of
        [] \<Rightarrow> (Inl QueueEmpty, q)
      | v # vs \<Rightarrow> (Inr v, q\<lparr>queue := vs\<rparr>))"

section \<open>The contract\<close>

locale bounded_fifo =
  fixes items :: "'q \<Rightarrow> 'a list"
    and bound :: "'q \<Rightarrow> int"
    and put :: "'a \<Rightarrow> ('q, unit) eff"
    and take_first :: "('q, 'a) eff"
  assumes put_ok: "put v q = (Inr (), q') \<Longrightarrow> items q' = items q @ [v] \<and> bound q' = bound q \<and> int (length (items q)) < bound q"
    and put_err: "put v q = (Inl e, q') \<Longrightarrow> e = QueueFull \<and> q' = q \<and> bound q \<le> int (length (items q))"
    and take_ok: "take_first q = (Inr v, q') \<Longrightarrow> items q = v # items q' \<and> bound q' = bound q"
    and take_err: "take_first q = (Inl e, q') \<Longrightarrow> e = QueueEmpty \<and> q' = q \<and> items q = []"
begin

text \<open>A burst of puts and one of gets, and what they leave.\<close>

primrec put_all :: "'a list \<Rightarrow> ('q, unit) eff" where
  "put_all [] = ret ()"
| "put_all (v # vs) = bindE (put v) (\<lambda>_. put_all vs)"

primrec take_n :: "nat \<Rightarrow> ('q, 'a list) eff" where
  "take_n 0 = ret []"
| "take_n (Suc n) = bindE take_first (\<lambda>v. bindE (take_n n) (\<lambda>vs. ret (v # vs)))"

lemma put_all_ok:
  "int (length (items q) + length vs) \<le> bound q \<Longrightarrow>
   \<exists>q'. put_all vs q = (Inr (), q') \<and> items q' = items q @ vs \<and> bound q' = bound q"
proof (induction vs arbitrary: q)
  case (Cons v vs)
  obtain r q1 where p: "put v q = (r, q1)" by (cases "put v q")
  with put_err[of v q _ q1] Cons.prems have r: "r = Inr ()" by (cases r) auto
  with p have "items q1 = items q @ [v]" "bound q1 = bound q" using put_ok by blast+
  with Cons.IH[of q1] Cons.prems r p show ?case by (auto simp: bindE_ok)
qed simp

lemma take_n_ok:
  "n \<le> length (items q) \<Longrightarrow>
   \<exists>q'. take_n n q = (Inr (take n (items q)), q') \<and> items q' = drop n (items q) \<and> bound q' = bound q"
proof (induction n arbitrary: q)
  case (Suc n)
  obtain r q1 where t: "take_first q = (r, q1)" by (cases "take_first q")
  with take_err[of q _ q1] Suc.prems obtain v where r: "r = Inr v" by (cases r) auto
  with t have q1: "items q = v # items q1" "bound q1 = bound q" using take_ok by blast+
  with Suc.IH[of q1] Suc.prems obtain q' where "take_n n q1 = (Inr (take n (items q1)), q')"
    "items q' = drop n (items q1)" "bound q' = bound q1" by auto
  with t r q1 show ?case by (auto simp: bindE_ok)
qed simp

lemma burst_in_order:
  assumes "items q = []" and "int (length vs) \<le> bound q"
  shows "\<exists>q' q''. put_all vs q = (Inr (), q') \<and> take_n (length vs) q' = (Inr vs, q'') \<and> items q'' = []"
  using put_all_ok[of q vs] take_n_ok[of "length vs"] assms by fastforce

end

text \<open>
  The queue of the code meets the contract with a bound of one more element than
  \<open>maxSize\<close>: the test is \<open>len > maxSize\<close>.
\<close>

definition queue_bound :: "'a fast_queue \<Rightarrow> int" where
  "queue_bound q = max 0 (max_size q + 1)"

interpretation fq: bounded_fifo queue queue_bound put_nowait get_nowait
  by unfold_locales (auto simp: put_nowait_def get_nowait_def queue_bound_def split: if_splits list.splits)

text \<open>
  C40. The queue delivers a burst in order, and holds \<open>maxSize + 1\<close> commands before it refuses
  one: the bound is one higher than its name says.
\<close>

theorem queue_burst:
  fixes vs :: "'a list"
  assumes "0 \<le> n" and "length vs = Suc (nat n)"
  shows "\<exists>q q'. fq.put_all vs (FastQueue n) = (Inr (), q) \<and> put_nowait v q = (Inl QueueFull, q) \<and>
    fq.take_n (length vs) q = (Inr vs, q') \<and> queue q' = []"
proof -
  let ?q0 = "FastQueue n :: 'a fast_queue"
  have b: "int (length (queue ?q0) + length vs) \<le> queue_bound ?q0"
    using assms by (simp add: FastQueue_def queue_bound_def)
  obtain q where q: "fq.put_all vs ?q0 = (Inr (), q)" "queue q = queue ?q0 @ vs"
    "queue_bound q = queue_bound ?q0"
    using fq.put_all_ok[OF b] by blast
  then have e: "queue q = vs" by (simp add: FastQueue_def)
  obtain r q1 where p: "put_nowait v q = (r, q1)" by (cases "put_nowait v q")
  have len: "queue_bound q = int (length (queue q))"
    using q(3) e assms by (simp add: FastQueue_def queue_bound_def)
  have "r = Inl QueueFull \<and> q1 = q"
  proof (cases r)
    case (Inl d)
    with p have "put_nowait v q = (Inl d, q1)" by simp
    from fq.put_err[OF this] Inl show ?thesis by blast
  next
    case (Inr u)
    with p have "put_nowait v q = (Inr (), q1)" by simp
    from fq.put_ok[OF this] len show ?thesis by linarith
  qed
  with p have full: "put_nowait v q = (Inl QueueFull, q)" by simp
  obtain q' where "fq.take_n (length vs) q = (Inr vs, q')" "queue q' = []"
    using fq.take_n_ok[of "length vs" q] e by auto
  with q(1) full show ?thesis by blast
qed

theorem queue_burst_witness:
  "\<exists>q q'. fq.put_all [1, 2, 3] (FastQueue 2) = (Inr (), q) \<and> put_nowait (4::nat) q = (Inl QueueFull, q) \<and>
     fq.take_n (length [1, 2, 3 :: nat]) q = (Inr [1, 2, 3], q') \<and> queue q' = []"
  by (rule queue_burst) simp_all

end
