(* ===== verification/Config.thy ===== *)
theory Config
  imports Prelude
begin

text \<open>
  The configuration object of the replication library, \<open>pysyncobjbc/config.py\<close>: its fields with
  their defaults, and \<open>validate\<close>. Times are Python floats, rationals here; callbacks are left
  out.
\<close>

datatype fail_reason =
    SUCCESS | QUEUE_FULL | MISSING_LEADER | DISCARDED | NOT_LEADER | LEADER_CHANGED | REQUEST_DENIED

datatype serializer_state = NOT_SERIALIZING | SERIALIZING | SUCCESS_SERIALIZED | FAILED

record sync_obj_conf =
  autoTick :: bool
  autoTickPeriod :: rat
  commandsQueueSize :: int
  raftMinTimeout :: rat
  raftMaxTimeout :: rat
  appendEntriesPeriod :: rat
  connectionTimeout :: rat
  connectionRetryTime :: rat
  leaderFallbackTimeout :: rat
  appendEntriesUseBatch :: bool
  appendEntriesBatchSizeBytes :: int
  preferredAddrType :: "string option"
  sendBufferSize :: int
  recvBufferSize :: int
  dnsCacheTime :: rat
  dnsFailCacheTime :: rat
  logCompactionMinEntries :: int
  logCompactionMinTime :: rat
  logCompactionSplit :: bool
  logCompactionBatchSize :: int
  commandsWaitLeader :: bool
  fullDumpFile :: "string option"
  journalFile :: "string option"
  bindRetryTime :: rat
  maxBindRetries :: int
  dynamicMembershipChange :: bool
  pollerType :: string
  useFork :: bool
  has_serializer :: bool
  has_deserializer :: bool

definition default_conf :: sync_obj_conf where
  "default_conf =
     \<lparr>autoTick = True, autoTickPeriod = 5 / 100, commandsQueueSize = 100000,
      raftMinTimeout = 4 / 10, raftMaxTimeout = 14 / 10, appendEntriesPeriod = 1 / 10,
      connectionTimeout = 35 / 10, connectionRetryTime = 5, leaderFallbackTimeout = 30,
      appendEntriesUseBatch = True, appendEntriesBatchSizeBytes = 2 ^ 20,
      preferredAddrType = Some ''ipv4'', sendBufferSize = 2 ^ 16, recvBufferSize = 2 ^ 16,
      dnsCacheTime = 600, dnsFailCacheTime = 30, logCompactionMinEntries = 5000,
      logCompactionMinTime = 300, logCompactionSplit = False, logCompactionBatchSize = 2 ^ 16,
      commandsWaitLeader = True, fullDumpFile = None, journalFile = None, bindRetryTime = 1,
      maxBindRetries = 0, dynamicMembershipChange = False, pollerType = ''auto'', useFork = True,
      has_serializer = False, has_deserializer = False\<rparr>"

text \<open>\<open>Storage\<close> passes \<open>dynamicMembershipChange=True\<close> and leaves the rest.\<close>

definition belcoin_conf :: sync_obj_conf where
  "belcoin_conf = default_conf\<lparr>dynamicMembershipChange := True\<rparr>"

definition py_assert :: "bool \<Rightarrow> py_error + unit" where
  "py_assert b = (if b then Inr () else Inl AssertionError)"

definition valid_conf :: "sync_obj_conf \<Rightarrow> bool" where
  "valid_conf c \<longleftrightarrow>
     autoTickPeriod c > 0 \<and> commandsQueueSize c \<ge> 0 \<and>
     raftMinTimeout c > appendEntriesPeriod c * 3 \<and> raftMaxTimeout c > raftMinTimeout c \<and>
     appendEntriesPeriod c > 0 \<and> leaderFallbackTimeout c > appendEntriesPeriod c \<and>
     connectionTimeout c \<ge> raftMaxTimeout c \<and> connectionRetryTime c \<ge> 0 \<and>
     appendEntriesBatchSizeBytes c > 0 \<and> sendBufferSize c > 0 \<and> recvBufferSize c > 0 \<and>
     dnsCacheTime c \<ge> 0 \<and> dnsFailCacheTime c \<ge> 0 \<and> logCompactionMinEntries c \<ge> 2 \<and>
     logCompactionMinTime c > 0 \<and> logCompactionBatchSize c > 0 \<and> bindRetryTime c > 0 \<and>
     has_deserializer c = has_serializer c \<and>
     (has_serializer c \<longrightarrow> fullDumpFile c \<noteq> None) \<and>
     preferredAddrType c \<in> {Some ''ipv4'', Some ''ipv6'', None}"

definition conf_validate :: "sync_obj_conf \<Rightarrow> py_error + unit" where
  "conf_validate c = py_assert (valid_conf c)"

lemma belcoin_conf_valid: "conf_validate belcoin_conf = Inr ()"
  by (simp add: conf_validate_def py_assert_def valid_conf_def belcoin_conf_def default_conf_def)

end
