(* ===== verification/Serializer.thy ===== *)
theory Serializer
  imports Config Stores "HOL-Library.Char_ord"
begin

text \<open>
  The serializer of full dumps, \<open>pysyncobjbc/serializer.py\<close>: a dump is a byte string, kept in
  memory or in a file, sent to another node in batches and put together there. Pickling and
  compressing are parameters (\<open>dump_bytes\<close>, \<open>load\<close>), and so is what the operating system
  answers: the child of \<open>fork\<close>, \<open>waitpid\<close>, whether a file can be opened, written and renamed.
  \<open>pid\<close> is 0 when idle, -1 after a success, -2 after a failure, else the child that writes.
\<close>

type_synonym addr = string

record transmission =
  transmitted :: nat
  tdata :: bytes

text \<open>
  \<open>on_disk\<close> is the content of the dump file; the files are only replaced as a whole, so an open
  file keeps the content it had (\<open>tdata\<close>), and the incoming file is the bytes written so far.
\<close>

record serializer =
  has_file :: bool
  use_fork :: bool
  pid :: int
  current_id :: int
  transmissions :: "(addr, transmission) store"
  incoming :: "bytes option"
  in_memory :: "bytes option"
  on_disk :: "bytes option"
  batch_size :: nat

record disk_io =
  can_open :: bool
  can_write :: bool
  can_rename :: bool

definition Serializer :: "bool \<Rightarrow> nat \<Rightarrow> bool \<Rightarrow> bool \<Rightarrow> bytes option \<Rightarrow> serializer" where
  "Serializer file batch try_fork custom disk =
     \<lparr>has_file = file, use_fork = (try_fork \<and> \<not> custom), pid = 0, current_id = 0, transmissions = [],
      incoming = None, in_memory = None, on_disk = disk, batch_size = batch\<rparr>"

text \<open>
  \<open>checker\<close> is the answer of the configured \<open>serializeChecker\<close>, if any; \<open>wait\<close> that of
  \<open>waitpid\<close>: a process and its status, or an error.
\<close>

definition checkSerializing ::
  "serializer_state option \<Rightarrow> (int \<times> int) option \<Rightarrow> serializer \<Rightarrow> (serializer_state \<times> int option) \<times> serializer" where
  "checkSerializing checker wait z =
     (case checker of
        Some st \<Rightarrow> ((st, Some (current_id z)), if st \<in> {SUCCESS_SERIALIZED, FAILED} then z\<lparr>pid := 0\<rparr> else z)
      | None \<Rightarrow>
          if \<not> has_file z \<or> \<not> use_fork z then
            if pid z = -1 \<or> pid z = -2
            then ((if pid z = -1 then SUCCESS_SERIALIZED else FAILED, Some (current_id z)),
                  z\<lparr>pid := 0, transmissions := []\<rparr>)
            else ((NOT_SERIALIZING, None), z)
          else if pid z = 0 then ((NOT_SERIALIZING, None), z)
          else
            (case wait of
               None \<Rightarrow> ((FAILED, Some (current_id z)), z\<lparr>pid := 0\<rparr>)
             | Some (rpid, status) \<Rightarrow>
                 if rpid \<noteq> pid z then ((SERIALIZING, Some (current_id z)), z)
                 else if status = 0
                 then ((SUCCESS_SERIALIZED, Some (current_id z)), z\<lparr>pid := 0, transmissions := []\<rparr>)
                 else ((FAILED, Some (current_id z)), z\<lparr>pid := 0\<rparr>)))"

text \<open>
  With a file and \<open>fork\<close>, the child \<open>child\<close> goes on alone (\<open>child_writes\<close>); without, the file is
  written here, which may fail.
\<close>

definition serialize :: "disk_io \<Rightarrow> int \<Rightarrow> ('d \<Rightarrow> bytes) \<Rightarrow> 'd \<Rightarrow> int \<Rightarrow> serializer \<Rightarrow> serializer" where
  "serialize io child dump_bytes d i z =
     (if pid z \<noteq> 0 then z
      else
        let z1 = z\<lparr>current_id := i\<rparr> in
        if \<not> has_file z then z1\<lparr>in_memory := Some (dump_bytes d), pid := -1\<rparr>
        else if use_fork z then z1\<lparr>pid := child\<rparr>
        else if can_open io \<and> can_write io \<and> can_rename io then z1\<lparr>on_disk := Some (dump_bytes d), pid := -1\<rparr>
        else z1\<lparr>pid := -2\<rparr>)"

definition child_writes :: "disk_io \<Rightarrow> ('d \<Rightarrow> bytes) \<Rightarrow> 'd \<Rightarrow> serializer \<Rightarrow> int \<times> serializer" where
  "child_writes io dump_bytes d z =
     (if can_open io \<and> can_write io \<and> can_rename io then (0, z\<lparr>on_disk := Some (dump_bytes d)\<rparr>) else (-1, z))"

text \<open>The bytes of the last full dump.\<close>

definition stored :: "serializer \<Rightarrow> bytes option" where
  "stored z = (if has_file z then on_disk z else in_memory z)"

definition deserialize :: "(bytes \<Rightarrow> py_error + 'd) \<Rightarrow> serializer \<Rightarrow> py_error + 'd" where
  "deserialize load z =
     (case stored z of None \<Rightarrow> Inl (if has_file z then FileNotFound else TypeError) | Some b \<Rightarrow> load b)"

text \<open>
  \<open>None\<close>: nothing to send. Else the batch, whether it is the first, whether it is the last.
  Reading an open file does not fail here.
\<close>

definition getTransmissionData :: "disk_io \<Rightarrow> addr \<Rightarrow> serializer \<Rightarrow> (bytes \<times> bool \<times> bool) option \<times> serializer" where
  "getTransmissionData io a z =
     (if pid z \<noteq> 0 then (None, z)
      else
        (case (case store_get (transmissions z) a of
                 Some t \<Rightarrow> Some t
               | None \<Rightarrow>
                   if has_file z \<and> \<not> can_open io then None
                   else map_option (\<lambda>d. \<lparr>transmitted = 0, tdata = d\<rparr>) (stored z)) of
           None \<Rightarrow> (None, z\<lparr>transmissions := store_del a (transmissions z)\<rparr>)
         | Some t \<Rightarrow>
             let d = take (batch_size z) (drop (transmitted t) (tdata t));
                 is_first = (transmitted t = 0);
                 is_last = (length d = 0);
                 t' = t\<lparr>transmitted := transmitted t + length d\<rparr>
             in (Some (d, is_first, is_last),
                 z\<lparr>transmissions := (if is_last then store_del a (transmissions z)
                                      else store_put a t' (transmissions z))\<rparr>)))"

definition setTransmissionData :: "disk_io \<Rightarrow> (bytes \<times> bool \<times> bool) option \<Rightarrow> serializer \<Rightarrow> bool \<times> serializer" where
  "setTransmissionData io msg z =
     (case msg of
        None \<Rightarrow> (False, z)
      | Some (d, is_first, is_last) \<Rightarrow>
          if has_file z \<and> is_first \<and> \<not> can_open io then (False, z\<lparr>incoming := None\<rparr>)
          else
            (case (if is_first then Some [] else incoming z) of
               None \<Rightarrow> (False, z)
             | Some buf \<Rightarrow>
                 if has_file z \<and> \<not> can_write io then (False, z\<lparr>incoming := None\<rparr>)
                 else if \<not> is_last then (False, z\<lparr>incoming := Some (buf @ d)\<rparr>)
                 else if \<not> has_file z then (True, z\<lparr>in_memory := Some (buf @ d), incoming := None\<rparr>)
                 else if can_rename io then (True, z\<lparr>on_disk := Some (buf @ d), incoming := None\<rparr>)
                 else (False, z\<lparr>incoming := None\<rparr>)))"

definition cancelTransmisstion :: "addr \<Rightarrow> serializer \<Rightarrow> serializer" where
  "cancelTransmisstion a z = z\<lparr>transmissions := store_del a (transmissions z)\<rparr>"

section \<open>A whole transmission\<close>

text \<open>The batches a sender hands out to one node until the last, in \<open>n\<close> rounds at most.\<close>

fun send_all :: "nat \<Rightarrow> disk_io \<Rightarrow> addr \<Rightarrow> serializer \<Rightarrow> (bytes \<times> bool \<times> bool) list \<times> serializer" where
  "send_all 0 io a z = ([], z)"
| "send_all (Suc n) io a z =
     (case getTransmissionData io a z of
        (None, z') \<Rightarrow> ([], z')
      | (Some m, z') \<Rightarrow>
          if snd (snd m) then ([m], z')
          else let (ms, z'') = send_all n io a z' in (m # ms, z''))"

fun receive_all :: "disk_io \<Rightarrow> (bytes \<times> bool \<times> bool) list \<Rightarrow> serializer \<Rightarrow> bool \<times> serializer" where
  "receive_all io [] z = (False, z)"
| "receive_all io (m # ms) z =
     (let (don, z') = setTransmissionData io (Some m) z in if don then (True, z') else receive_all io ms z')"

text \<open>The files of a node can be used, or it has none.\<close>

definition disk_ok :: "disk_io \<Rightarrow> serializer \<Rightarrow> bool" where
  "disk_ok io z \<longleftrightarrow> (has_file z \<longrightarrow> can_open io \<and> can_write io \<and> can_rename io)"

lemma set_last:
  assumes "disk_ok io y" and "incoming y = Some buf"
  shows "\<exists>y'. setTransmissionData io (Some (d, False, True)) y = (True, y') \<and> stored y' = Some (buf @ d)"
  using assms by (auto simp: setTransmissionData_def disk_ok_def stored_def)

lemma set_more:
  assumes "disk_ok io y" and "incoming y = Some buf"
  shows "setTransmissionData io (Some (d, False, False)) y = (False, y\<lparr>incoming := Some (buf @ d)\<rparr>)"
  using assms by (auto simp: setTransmissionData_def disk_ok_def)

text \<open>The rest of a transmission that has started, met by a receiver that holds its beginning.\<close>

lemma transmission_rest:
  assumes "pid z = 0" and "store_get (transmissions z) a = Some \<lparr>transmitted = k, tdata = d\<rparr>"
    and "0 < batch_size z" and "0 < k" and "k \<le> length d" and "length d - k < n"
    and "incoming y = Some (take k d)" and "disk_ok jo y"
  shows "\<exists>y'. receive_all jo (fst (send_all n io a z)) y = (True, y') \<and> stored y' = Some d"
  using assms
proof (induction n arbitrary: z k y)
  case (Suc n)
  let ?c = "take (batch_size z) (drop k d)"
  show ?case
  proof (cases "k = length d")
    case True
    obtain y' where "setTransmissionData jo (Some ([], False, True)) y = (True, y')" "stored y' = Some d"
      using set_last[OF Suc.prems(8,7), of "[]"] True by auto
    then show ?thesis using Suc.prems True by (simp add: getTransmissionData_def Let_def)
  next
    case False
    then have lt: "k < length d" using Suc.prems(5) by simp
    let ?z = "z\<lparr>transmissions := store_put a \<lparr>transmitted = k + length ?c, tdata = d\<rparr> (transmissions z)\<rparr>"
    let ?y = "y\<lparr>incoming := Some (take (k + length ?c) d)\<rparr>"
    have c: "?c \<noteq> []" using lt Suc.prems(3) by simp
    have g: "getTransmissionData io a z = (Some (?c, False, False), ?z)"
      using Suc.prems c by (simp add: getTransmissionData_def Let_def)
    have glue: "take k d @ ?c = take (k + length ?c) d"
      by (metis append_take_drop_id take_add take_take min.idem take_all_iff length_take nat_le_linear)
    have st: "setTransmissionData jo (Some (?c, False, False)) y = (False, ?y)"
      using set_more[OF Suc.prems(8,7), of ?c] glue by simp
    have len: "0 < length ?c" "length ?c \<le> length d - k" using c by auto
    have "\<exists>y'. receive_all jo (fst (send_all n io a ?z)) ?y = (True, y') \<and> stored y' = Some d"
    proof (rule Suc.IH)
      show "0 < k + length ?c" "k + length ?c \<le> length d" "length d - (k + length ?c) < n"
        using len lt Suc.prems(4,6) by linarith+
    qed (use Suc.prems in \<open>simp_all add: disk_ok_def\<close>)
    then show ?thesis by (simp add: g st case_prod_beta Let_def)
  qed
qed simp

lemma transmission_whole:
  assumes "pid z = 0" and "transmissions z = []" and "0 < batch_size z" and "stored z = Some d"
    and "disk_ok io z" "disk_ok jo y" and "length d + 2 \<le> n"
  shows "\<exists>y'. receive_all jo (fst (send_all n io a z)) y = (True, y') \<and> stored y' = Some d"
proof -
  let ?c = "take (batch_size z) d"
  obtain m where n: "n = Suc m" and m: "length d < m" using assms(7) by (cases n) auto
  have op: "\<not> (has_file z \<and> \<not> can_open io)" using assms(5) by (auto simp: disk_ok_def)
  have none: "store_get (transmissions z) a = None" using assms(2) by (simp add: store_get_def)
  show ?thesis
  proof (cases "d = []")
    case True
    then have "getTransmissionData io a z = (Some ([], True, True), z\<lparr>transmissions := store_del a []\<rparr>)"
      using assms(1,2,4) op none by (simp add: getTransmissionData_def Let_def)
    moreover have "\<exists>y'. setTransmissionData jo (Some ([], True, True)) y = (True, y') \<and> stored y' = Some []"
      using assms(6) by (auto simp: setTransmissionData_def disk_ok_def stored_def)
    ultimately show ?thesis using True by (auto simp: n)
  next
    case False
    let ?z1 = "z\<lparr>transmissions := store_put a \<lparr>transmitted = length ?c, tdata = d\<rparr> []\<rparr>"
    let ?y1 = "y\<lparr>incoming := Some ?c\<rparr>"
    have c: "?c \<noteq> []" using False assms(3) by simp
    have g: "getTransmissionData io a z = (Some (?c, True, False), ?z1)"
      using c assms(1,2,4) op none by (simp add: getTransmissionData_def Let_def)
    have st: "setTransmissionData jo (Some (?c, True, False)) y = (False, ?y1)"
      using assms(6) by (auto simp: setTransmissionData_def disk_ok_def)
    have "\<exists>y'. receive_all jo (fst (send_all m io a ?z1)) ?y1 = (True, y') \<and> stored y' = Some d"
    proof (rule transmission_rest)
      show "store_get (transmissions ?z1) a = Some \<lparr>transmitted = length ?c, tdata = d\<rparr>"
        by (simp add: store_get_def)
      show "0 < length ?c" using c by blast
      show "length d - length ?c < m" using m by simp
      show "incoming ?y1 = Some (take (length ?c) d)" by (simp add: min_def)
    qed (use assms in \<open>simp_all add: disk_ok_def\<close>)
    then show ?thesis by (simp add: n g st case_prod_beta Let_def)
  qed
qed

text \<open>A dump of this node alone: serialized, the child waited for, found finished.\<close>

definition make_dump :: "disk_io \<Rightarrow> int \<Rightarrow> ('d \<Rightarrow> bytes) \<Rightarrow> 'd \<Rightarrow> int \<Rightarrow> serializer \<Rightarrow> (serializer_state \<times> int option) \<times> serializer" where
  "make_dump io child dump_bytes d i z =
     (let z1 = serialize io child dump_bytes d i z;
          (status, z2) = (if has_file z \<and> use_fork z then child_writes io dump_bytes d z1 else (0, z1))
      in checkSerializing None (Some (child, status)) z2)"

lemma make_dump_ok:
  assumes "pid z = 0" and "disk_ok io z" and "child > 0"
  shows "\<exists>z'. make_dump io child dump_bytes d i z = ((SUCCESS_SERIALIZED, Some i), z') \<and> pid z' = 0 \<and>
    transmissions z' = [] \<and> stored z' = Some (dump_bytes d) \<and> batch_size z' = batch_size z \<and> has_file z' = has_file z"
  using assms
  by (auto simp: make_dump_def serialize_def child_writes_def checkSerializing_def disk_ok_def stored_def Let_def)

text \<open>
  C38. Round trip of a full dump, in memory or through files: what an idle node serializes, in
  the background or not, is reported as serialized under its id, and sent in batches another
  node, in whatever state its own transfer is, deserializes it to the same value once all
  batches (at most one per byte, and the empty one that ends them) have arrived - as long as
  the files of both nodes can be used.
\<close>

theorem dump_transmission_roundtrip:
  assumes "pid z = 0" and "0 < batch_size z" and "disk_ok io z" "disk_ok jo y" and "child > 0"
    and "load (dump_bytes x) = Inr x" and "length (dump_bytes x) + 2 \<le> n"
  shows "\<exists>z' y'. make_dump io child dump_bytes x i z = ((SUCCESS_SERIALIZED, Some i), z') \<and>
    receive_all jo (fst (send_all n io a z')) y = (True, y') \<and> deserialize load y' = Inr x"
proof -
  obtain z' where z': "make_dump io child dump_bytes x i z = ((SUCCESS_SERIALIZED, Some i), z')" "pid z' = 0"
    "transmissions z' = []" "stored z' = Some (dump_bytes x)" "batch_size z' = batch_size z" "has_file z' = has_file z"
    using make_dump_ok[OF assms(1,3,5), of dump_bytes x i] by blast
  have "disk_ok io z'" using assms(3) z'(6) by (simp add: disk_ok_def)
  then obtain y' where "receive_all jo (fst (send_all n io a z')) y = (True, y')" "stored y' = Some (dump_bytes x)"
    using transmission_whole[OF z'(2,3) _ z'(4) _ assms(4,7), of io a] assms(2) z'(5) by auto
  with z'(1) assms(6) show ?thesis by (auto simp: deserialize_def)
qed

text \<open>From a node with a file, forking, to a node without one.\<close>

theorem dump_transmission_roundtrip_witness:
  "\<exists>z' y'. make_dump \<lparr>can_open = True, can_write = True, can_rename = True\<rparr> 77 (\<lambda>b. b) [1, 2, 3] 7
       (Serializer True 2 True False None) = ((SUCCESS_SERIALIZED, Some 7), z') \<and>
     receive_all \<lparr>can_open = False, can_write = False, can_rename = False\<rparr>
       (fst (send_all 5 \<lparr>can_open = True, can_write = True, can_rename = True\<rparr> ''n'' z')) (Serializer False 9 False False None)
       = (True, y') \<and> deserialize Inr y' = Inr [1, 2, 3]"
proof -
  let ?io = "\<lparr>can_open = True, can_write = True, can_rename = True\<rparr>"
  let ?jo = "\<lparr>can_open = False, can_write = False, can_rename = False\<rparr>"
  let ?z = "Serializer True 2 True False None" and ?y = "Serializer False 9 False False None"
  have "pid ?z = 0" "0 < batch_size ?z" "disk_ok ?io ?z" "disk_ok ?jo ?y"
    by (simp_all add: Serializer_def disk_ok_def)
  note ok = this
  have "(77::int) > 0" "Inr ((\<lambda>b. b) [1, 2, 3 :: byte]) = (Inr [1, 2, 3] :: py_error + bytes)"
    "length ((\<lambda>b. b) [1, 2, 3 :: byte]) + 2 \<le> 5" by simp_all
  from dump_transmission_roundtrip[where load = Inr and dump_bytes = "\<lambda>b. b" and x = "[1, 2, 3]" and n = 5
      and i = 7 and a = "''n''", OF ok this]
  show ?thesis .
qed

end
