(* ===== verification/Struct.thy ===== *)
theory Struct
  imports Prelude
begin

text \<open>
  What the code uses of Python's \<open>struct\<close> module and of slices: unsigned and signed integers of
  a fixed number of little-endian bytes, with the error \<open>struct\<close> raises outside the range, and
  \<open>xs[a:b]\<close> with bounds that are cut to the length, or count from the end.
\<close>

section \<open>Little-endian numbers\<close>

fun le_bytes :: "nat \<Rightarrow> nat \<Rightarrow> bytes" where
  "le_bytes 0 v = []"
| "le_bytes (Suc k) v = word_of_nat (v mod 256) # le_bytes k (v div 256)"

fun le_val :: "bytes \<Rightarrow> nat" where
  "le_val [] = 0"
| "le_val (b # bs) = unat b + 256 * le_val bs"

lemma le_bytes_length [simp]: "length (le_bytes k v) = k"
  by (induction k arbitrary: v) simp_all

lemma unat_byte: "n < 256 \<Longrightarrow> unat (word_of_nat n :: byte) = n"
  by (simp add: unat_of_nat take_bit_eq_mod)

lemma le_val_bytes: "v < 256 ^ k \<Longrightarrow> le_val (le_bytes k v) = v"
proof (induction k arbitrary: v)
  case (Suc k)
  have "v div 256 < 256 ^ k" using Suc.prems by (simp add: less_mult_imp_div_less mult.commute)
  then show ?case using Suc.IH by (simp add: unat_byte)
qed simp

lemma le_val_bound: "le_val bs < 256 ^ length bs"
proof (induction bs)
  case (Cons b bs)
  have "unat b < 256" using unsigned_less[of b] by simp
  with Cons.IH show ?case by simp
qed simp

section \<open>pack and unpack\<close>

definition pack_uint :: "nat \<Rightarrow> int \<Rightarrow> py_error + bytes" where
  "pack_uint k n = (if 0 \<le> n \<and> n < 256 ^ k then Inr (le_bytes k (nat n)) else Inl StructError)"

definition unpack_uint :: "nat \<Rightarrow> bytes \<Rightarrow> py_error + int" where
  "unpack_uint k bs = (if length bs = k then Inr (int (le_val bs)) else Inl StructError)"

definition pack_sint :: "nat \<Rightarrow> int \<Rightarrow> py_error + bytes" where
  "pack_sint k n =
     (if - (256 ^ k div 2) \<le> n \<and> n < 256 ^ k div 2 then Inr (le_bytes k (nat (n mod 256 ^ k))) else Inl StructError)"

definition unpack_sint :: "nat \<Rightarrow> bytes \<Rightarrow> py_error + int" where
  "unpack_sint k bs =
     (if length bs \<noteq> k then Inl StructError
      else let v = int (le_val bs) in Inr (if v < 256 ^ k div 2 then v else v - 256 ^ k))"

lemma unpack_pack_uint: "pack_uint k n = Inr bs \<Longrightarrow> unpack_uint k bs = Inr n \<and> length bs = k"
proof -
  assume p: "pack_uint k n = Inr bs"
  then have n: "0 \<le> n" "n < 256 ^ k" "bs = le_bytes k (nat n)" by (simp_all add: pack_uint_def split: if_splits)
  then have "nat n < 256 ^ k" by (simp add: nat_less_iff)
  with n show ?thesis by (simp add: unpack_uint_def le_val_bytes)
qed

lemma unpack_pack_sint: "0 \<le> n \<Longrightarrow> pack_sint k n = Inr bs \<Longrightarrow> unpack_sint k bs = Inr n \<and> length bs = k"
proof -
  assume n: "0 \<le> n" and p: "pack_sint k n = Inr bs"
  then have lt: "n < 256 ^ k div 2" and bs: "bs = le_bytes k (nat (n mod 256 ^ k))"
    by (simp_all add: pack_sint_def split: if_splits)
  have "n < 256 ^ k" using lt n by linarith
  then have "n mod 256 ^ k = n" "nat n < 256 ^ k" using n by (simp_all add: nat_less_iff)
  with bs have "le_val bs = nat n" "length bs = k" by (simp_all add: le_val_bytes)
  with n lt show ?thesis by (simp add: unpack_sint_def Let_def)
qed

section \<open>Slices\<close>

definition slice_bound :: "'a list \<Rightarrow> int \<Rightarrow> nat" where
  "slice_bound xs i = nat (min (int (length xs)) (if i < 0 then max 0 (i + int (length xs)) else i))"

definition py_slice :: "'a list \<Rightarrow> int \<Rightarrow> int \<Rightarrow> 'a list" where
  "py_slice xs a b = drop (slice_bound xs a) (take (slice_bound xs b) xs)"

lemma slice_bound_pos: "slice_bound xs (int n) = min (length xs) n"
  by (simp add: slice_bound_def min_def)

lemma py_slice_pos: "py_slice xs (int a) (int b) = drop a (take b xs)"
  by (simp add: py_slice_def slice_bound_pos min_def)

lemma py_slice_part: "py_slice (xs @ ys @ zs) (int (length xs)) (int (length xs) + int (length ys)) = ys"
  using py_slice_pos[of "xs @ ys @ zs" "length xs" "length xs + length ys"] by simp

lemma py_slice_at:
  assumes "a = int (length xs)" and "b = a + int (length ys)"
  shows "py_slice (xs @ ys @ zs) a b = ys"
  using assms py_slice_part by metis

end
