(* ===== verification/Journal.thy ===== *)
theory Journal
  imports Struct
begin

text \<open>
  The journal of the replication log, \<open>pysyncobjbc/journal.py\<close>: in memory, or in a file that is
  mapped into memory. A log entry is the Python tuple (command, index, term). The contract the
  replication relies on is the locale \<open>entry_journal\<close>: the operations of a list of entries.
\<close>

datatype entry = Entry (cmd: bytes) (idx: int) (trm: int)

section \<open>In memory\<close>

definition mj_add :: "entry \<Rightarrow> (entry list, unit) eff" where
  "mj_add e js = (Inr (), js @ [e])"

definition mj_clear :: "(entry list, unit) eff" where
  "mj_clear js = (Inr (), [])"

definition mj_deleteEntriesFrom :: "int \<Rightarrow> (entry list, unit) eff" where
  "mj_deleteEntriesFrom n js = (Inr (), take (slice_bound js n) js)"

definition mj_deleteEntriesTo :: "int \<Rightarrow> (entry list, unit) eff" where
  "mj_deleteEntriesTo n js = (Inr (), drop (slice_bound js n) js)"

definition mj_getitem :: "entry list \<Rightarrow> int \<Rightarrow> py_error + entry" where
  "mj_getitem js i = (case py_get js i of None \<Rightarrow> Inl IndexError | Some e \<Rightarrow> Inr e)"

section \<open>The resizable file\<close>

text \<open>
  A mapped file is its bytes. It is opened with at least \<open>initialSize\<close> bytes; an empty file
  cannot be mapped. A write behind the end doubles the file, once; a slice of the mapping takes
  bytes of exactly its own length.
\<close>

definition rf_open :: "bytes option \<Rightarrow> bytes \<Rightarrow> nat \<Rightarrow> py_error + bytes" where
  "rf_open file defaultContent initialSize =
     (let m = (case file of None \<Rightarrow> defaultContent | Some b \<Rightarrow> b) in
      if m = [] then Inl ValueError else Inr (m @ replicate (initialSize - length m) 0))"

definition rf_write :: "int \<Rightarrow> bytes \<Rightarrow> (bytes, unit) eff" where
  "rf_write offset values m =
     (let m1 = (if offset + int (length values) > int (length m) then m @ replicate (length m) 0 else m);
          a = slice_bound m1 offset; b = slice_bound m1 (offset + int (length values)) in
      if b - a = length values then (Inr (), take a m1 @ values @ drop (a + length values) m1)
      else (Inl IndexError, m1))"

definition rf_read :: "int \<Rightarrow> int \<Rightarrow> bytes \<Rightarrow> bytes" where
  "rf_read offset n m = py_slice m offset (offset + n)"

section \<open>In a file\<close>

record file_journal =
  jfile :: bytes
  jentries :: "entry list"
  joff :: int

definition FIRST_RECORD_OFFSET :: int where "FIRST_RECORD_OFFSET = 40"
definition LAST_RECORD_OFFSET_OFFSET :: int where "LAST_RECORD_OFFSET_OFFSET = 36"

text \<open>The name PYSYNCOBJ in 24 bytes, the version 0.3.3 in 8, the format, the first offset.\<close>

definition default_header :: bytes where
  "default_header = [80, 89, 83, 89, 78, 67, 79, 66, 74] @ replicate 15 0 @ [48, 46, 51, 46, 51] @ replicate 3 0
     @ le_bytes 4 1 @ le_bytes 4 40"

definition getLastRecordOffset :: "bytes \<Rightarrow> py_error + int" where
  "getLastRecordOffset m = unpack_uint 4 (rf_read LAST_RECORD_OFFSET_OFFSET 4 m)"

definition setLastRecordOffset :: "int \<Rightarrow> (bytes, unit) eff" where
  "setLastRecordOffset n m =
     (case pack_uint 4 n of Inl e \<Rightarrow> (Inl e, m) | Inr b \<Rightarrow> rf_write LAST_RECORD_OFFSET_OFFSET b m)"

definition unpack_QQ :: "bytes \<Rightarrow> py_error + (int \<times> int)" where
  "unpack_QQ bs =
     (case unpack_uint 8 (take 8 bs) of
        Inl e \<Rightarrow> Inl e
      | Inr i \<Rightarrow> (case unpack_uint 8 (drop 8 bs) of Inl e \<Rightarrow> Inl e | Inr t \<Rightarrow> Inr (i, t)))"

text \<open>The loop of \<open>__init__\<close> over the records up to the last offset.\<close>

function read_records :: "bytes \<Rightarrow> int \<Rightarrow> int \<Rightarrow> py_error + (entry list \<times> int)" where
  "read_records m off lst =
     (if off < lst then
        (case unpack_uint 4 (rf_read off 4 m) of
           Inl e \<Rightarrow> Inl e
         | Inr sz \<Rightarrow>
             let d = rf_read (off + 4) sz m in
             (case unpack_QQ (take 16 d) of
                Inl e \<Rightarrow> Inl e
              | Inr (i, t) \<Rightarrow>
                  (case read_records m (off + sz + 8) lst of
                     Inl e \<Rightarrow> Inl e
                   | Inr (es, off') \<Rightarrow> Inr (Entry (drop 16 d) i t # es, off'))))
      else Inr ([], off))"
  by pat_completeness auto
termination
  by (relation "measure (\<lambda>(m, off, lst). nat (lst - off))") (auto simp: unpack_uint_def split: if_splits)

declare read_records.simps [simp del]

definition FileJournal :: "bytes option \<Rightarrow> py_error + file_journal" where
  "FileJournal file =
     (case rf_open file default_header 1024 of
        Inl e \<Rightarrow> Inl e
      | Inr m \<Rightarrow>
          (case getLastRecordOffset m of
             Inl e \<Rightarrow> Inl e
           | Inr lst \<Rightarrow>
               (case read_records m FIRST_RECORD_OFFSET lst of
                  Inl e \<Rightarrow> Inl e
                | Inr (es, off) \<Rightarrow> Inr \<lparr>jfile = m, jentries = es, joff = off\<rparr>)))"

text \<open>An operation on the file of a journal.\<close>

definition on_file :: "(bytes, 'a) eff \<Rightarrow> (file_journal, 'a) eff" where
  "on_file f j = (let (r, m) = f (jfile j) in (r, j\<lparr>jfile := m\<rparr>))"

definition record_bytes :: "entry \<Rightarrow> py_error + bytes" where
  "record_bytes e =
     (case pack_uint 8 (idx e) of
        Inl err \<Rightarrow> Inl err
      | Inr i \<Rightarrow>
          (case pack_uint 8 (trm e) of
             Inl err \<Rightarrow> Inl err
           | Inr t \<Rightarrow>
               let d = i @ t @ cmd e in
               (case pack_uint 4 (int (length d)) of Inl err \<Rightarrow> Inl err | Inr l \<Rightarrow> Inr (l @ d @ l))))"

definition fj_add :: "entry \<Rightarrow> (file_journal, unit) eff" where
  "fj_add e j =
     (let j1 = j\<lparr>jentries := jentries j @ [e]\<rparr> in
      (case record_bytes e of
         Inl err \<Rightarrow> (Inl err, j1)
       | Inr d \<Rightarrow>
           bindE (on_file (rf_write (joff j) d)) (\<lambda>_ j2.
             let j3 = j2\<lparr>joff := joff j2 + int (length d)\<rparr> in on_file (setLastRecordOffset (joff j3)) j3) j1))"

definition fj_clear :: "(file_journal, unit) eff" where
  "fj_clear j =
     bindE (on_file (setLastRecordOffset FIRST_RECORD_OFFSET))
       (\<lambda>_. modE (\<lambda>j. j\<lparr>joff := FIRST_RECORD_OFFSET\<rparr>)) (j\<lparr>jentries := []\<rparr>)"

fun delete_loop :: "nat \<Rightarrow> nat \<Rightarrow> int \<Rightarrow> (bytes, int) eff" where
  "delete_loop 0 removed off m = (Inr off, m)"
| "delete_loop (Suc n) removed off m =
     (case unpack_uint 4 (rf_read (off - 4) 4 m) of
        Inl e \<Rightarrow> (Inl e, m)
      | Inr sz \<Rightarrow>
          let off' = off - (sz + 8) in
          if Suc removed mod 10 = 0
          then bindE (setLastRecordOffset off') (\<lambda>_. delete_loop n (Suc removed) off') m
          else delete_loop n (Suc removed) off' m)"

definition fj_deleteEntriesFrom :: "int \<Rightarrow> (file_journal, unit) eff" where
  "fj_deleteEntriesFrom n j =
     (let entriesToRemove = int (length (jentries j)) - n;
          j1 = j\<lparr>jentries := take (slice_bound (jentries j) n) (jentries j)\<rparr>
      in bindE (on_file (delete_loop (nat entriesToRemove) 0 (joff j))) (\<lambda>off j2.
           on_file (setLastRecordOffset off) (j2\<lparr>joff := off\<rparr>)) j1)"

definition fj_deleteEntriesTo :: "int \<Rightarrow> (file_journal, unit) eff" where
  "fj_deleteEntriesTo n j =
     (let es = drop (slice_bound (jentries j) n) (jentries j) in bindE fj_clear (\<lambda>_. forE fj_add es) j)"

definition fj_getitem :: "file_journal \<Rightarrow> int \<Rightarrow> py_error + entry" where
  "fj_getitem j i = mj_getitem (jentries j) i"

section \<open>The contract\<close>

datatype journal_op = Add entry | Clear | Delete_from nat | Delete_to nat

fun list_op :: "journal_op \<Rightarrow> entry list \<Rightarrow> entry list" where
  "list_op (Add e) es = es @ [e]"
| "list_op Clear es = []"
| "list_op (Delete_from n) es = take n es"
| "list_op (Delete_to n) es = drop n es"

locale entry_journal =
  fixes entries :: "'j \<Rightarrow> entry list"
    and ok :: "'j \<Rightarrow> bool"
    and fits :: "entry \<Rightarrow> 'j \<Rightarrow> bool"
    and add :: "entry \<Rightarrow> ('j, unit) eff"
    and clear :: "('j, unit) eff"
    and delete_from :: "int \<Rightarrow> ('j, unit) eff"
    and delete_to :: "int \<Rightarrow> ('j, unit) eff"
  assumes add_ok: "ok j \<Longrightarrow> fits e j \<Longrightarrow> \<exists>j'. add e j = (Inr (), j') \<and> ok j' \<and> entries j' = entries j @ [e]"
    and clear_ok: "ok j \<Longrightarrow> \<exists>j'. clear j = (Inr (), j') \<and> ok j' \<and> entries j' = []"
    and delete_from_ok: "ok j \<Longrightarrow> \<exists>j'. delete_from (int n) j = (Inr (), j') \<and> ok j' \<and> entries j' = take n (entries j)"
    and delete_to_ok: "ok j \<Longrightarrow> \<exists>j'. delete_to (int n) j = (Inr (), j') \<and> ok j' \<and> entries j' = drop n (entries j)"
begin

fun do_op :: "journal_op \<Rightarrow> ('j, unit) eff" where
  "do_op (Add e) = add e"
| "do_op Clear = clear"
| "do_op (Delete_from n) = delete_from (int n)"
| "do_op (Delete_to n) = delete_to (int n)"

text \<open>Every entry that a list of operations adds fits when its turn comes.\<close>

fun all_fit :: "journal_op list \<Rightarrow> 'j \<Rightarrow> bool" where
  "all_fit [] j = True"
| "all_fit (p # ps) j = ((case p of Add e \<Rightarrow> fits e j | _ \<Rightarrow> True) \<and> all_fit ps (snd (do_op p j)))"

lemma do_op_refines:
  "ok j \<Longrightarrow> (case p of Add e \<Rightarrow> fits e j | _ \<Rightarrow> True) \<Longrightarrow>
   \<exists>j'. do_op p j = (Inr (), j') \<and> ok j' \<and> entries j' = list_op p (entries j)"
  by (cases p) (simp_all add: add_ok clear_ok delete_from_ok delete_to_ok)

lemma run_refines:
  "ok j \<Longrightarrow> all_fit ps j \<Longrightarrow> \<exists>j'. forE do_op ps j = (Inr (), j') \<and> ok j' \<and> entries j' = fold list_op ps (entries j)"
proof (induction ps arbitrary: j)
  case (Cons p ps)
  then obtain j1 where j1: "do_op p j = (Inr (), j1)" "ok j1" "entries j1 = list_op p (entries j)"
    using do_op_refines[of j p] by auto
  with Cons.IH[of j1] Cons.prems(2) show ?case by (auto simp: bindE_ok)
qed simp

end

interpretation mj: entry_journal "\<lambda>js. js" "\<lambda>_. True" "\<lambda>_ _. True" mj_add mj_clear mj_deleteEntriesFrom mj_deleteEntriesTo
  by unfold_locales
     (auto simp: mj_add_def mj_clear_def mj_deleteEntriesFrom_def mj_deleteEntriesTo_def slice_bound_pos min_def)

end
