(* ===== verification/RaftState.thy ===== *)
theory RaftState
  imports Blocks FastQueue Serializer Journal
begin

text \<open>
  The state of a replication node, \<open>pysyncobjbc/syncobj.py\<close>'s \<open>SyncObj\<close>, the messages it sends
  and the reading and cutting of its log. The object is a \<open>Storage\<close> at the same time (belcoin's
  class inherits from it), so the state holds the ledger of \<open>Ledger\<close>.
\<close>

section \<open>Callbacks, messages\<close>

datatype raft_state = FOLLOWER | CANDIDATE | LEADER

text \<open>The first byte of a command, \<open>_COMMAND_TYPE\<close>.\<close>

definition REGULAR :: byte where "REGULAR = 0"
definition NO_OP :: byte where "NO_OP = 1"
definition MEMBERSHIP :: byte where "MEMBERSHIP = 2"
definition VERSION :: byte where "VERSION = 3"

lemmas command_types = REGULAR_def NO_OP_def MEMBERSHIP_def VERSION_def

text \<open>
  A callback is a function of this process, known by a number, or, for a command another node
  passed on, the pair of that node and its request number.
\<close>

datatype callback = Local_cb nat | Remote_cb addr nat

datatype part = Part_start | Part_process | Part_finish

datatype message =
    Request_vote int int int                                    \<comment> \<open>term, last log index, last log term\<close>
  | Response_vote int                                           \<comment> \<open>term\<close>
  | Append_entries int int "entry list" "(int \<times> int) option"    \<comment> \<open>term, commit index, entries, previous index and term\<close>
  | Append_part int int part bytes "(int \<times> int) option"         \<comment> \<open>a piece of one large entry\<close>
  | Append_snapshot int int "(bytes \<times> bool \<times> bool) option"       \<comment> \<open>a piece of a full dump\<close>
  | Apply_command bytes "nat option"
  | Apply_command_response nat "fail_reason + (int \<times> int)"
  | Next_node_idx int bool bool                                 \<comment> \<open>next index, reset, success\<close>

section \<open>State\<close>

record peer =
  peer_addr :: addr
  connected :: bool

record raft =
  self_addr :: "addr option"
  other_addrs :: "addr list"
  nodes :: "peer list"
  readonly_nodes :: "peer list"
  state :: raft_state
  current_term :: int
  voted_for :: "addr option"
  votes_count :: int
  leader :: "addr option"
  election_deadline :: rat
  raft_log :: "entry list"
  commit_index :: int
  last_applied :: int
  next_index :: "addr \<Rightarrow> int option"
  match_index :: "addr \<Rightarrow> int option"
  last_response :: "addr \<Rightarrow> rat option"
  leader_commit :: "int option"
  ready_called :: bool
  change_cluster_idx :: "int option"
  noop_idx :: "int option"
  recv_transmission :: "bytes option"
  commands_queue :: "(bytes \<times> callback option) fast_queue"
  waiting_commit :: "int \<Rightarrow> (int \<times> nat) list"
  local_counter :: nat
  waiting_reply :: "(nat, nat) store"
  self_code_version :: int
  enabled_code_version :: int
  new_append_time :: rat
  tickctr :: nat
  testing :: bool
  dump :: serializer
  need_load_dump :: bool
  app :: storage
  outbox :: "(addr \<times> message) list"
  fired :: "(nat \<times> fail_reason) list"

text \<open>
  What the code takes from its configuration, the file system, pickle and the application.
  \<open>loads_call\<close> is the block of a replicated \<open>add_block_to_queue\<close>, the only replicated method of
  \<open>Storage\<close>; \<open>loads_dump\<close> a full dump: application state if any, the last applied entry, the
  one before it, the cluster.
\<close>

record raft_env =
  conf :: sync_obj_conf
  ledger_env :: env
  disk :: disk_io
  dumps_call :: "block \<Rightarrow> bytes"
  loads_call :: "bytes \<Rightarrow> py_error + block"
  loads_request :: "bytes \<Rightarrow> py_error + (string \<times> addr)"
  loads_version :: "bytes \<Rightarrow> py_error + int"
  dumps_entry :: "entry \<Rightarrow> bytes"
  loads_entry :: "bytes \<Rightarrow> py_error + entry"
  loads_dump :: "bytes \<Rightarrow> py_error + (storage option \<times> entry \<times> entry \<times> addr list)"

section \<open>The log\<close>

text \<open>
  \<open>__init__\<close> writes a first entry and no operation removes it without writing another, so the
  log is never empty (\<open>log_ok\<close>, kept by every operation) and \<open>raftLog[-1]\<close> does not raise.
\<close>

definition last_entry :: "entry list \<Rightarrow> entry" where
  "last_entry es = (if es = [] then Entry [] 0 0 else last es)"

definition first_idx :: "entry list \<Rightarrow> int" where
  "first_idx es = (if es = [] then 0 else idx (hd es))"

definition getCurrentLogIndex :: "raft \<Rightarrow> int" where
  "getCurrentLogIndex s = idx (last_entry (raft_log s))"

definition getCurrentLogTerm :: "raft \<Rightarrow> int" where
  "getCurrentLogTerm s = trm (last_entry (raft_log s))"

text \<open>How many entries fit: the one that reaches the limit is still taken.\<close>

fun size_prefix :: "int \<Rightarrow> int \<Rightarrow> entry list \<Rightarrow> nat" where
  "size_prefix maxSize tot [] = 0"
| "size_prefix maxSize tot (e # es) =
     (let tot' = tot + int (length (cmd e)) in
      if tot' \<ge> maxSize then 1 else Suc (size_prefix maxSize tot' es))"

definition getEntries :: "int option \<Rightarrow> nat option \<Rightarrow> int option \<Rightarrow> entry list \<Rightarrow> entry list" where
  "getEntries fromIdx count maxSizeBytes es =
     (case fromIdx of
        None \<Rightarrow> []
      | Some f \<Rightarrow>
          if f < first_idx es then []
          else
            let diff = nat (f - first_idx es);
                result = (case count of None \<Rightarrow> drop diff es | Some c \<Rightarrow> take c (drop diff es))
            in (case maxSizeBytes of
                  None \<Rightarrow> result
                | Some m \<Rightarrow> take (size_prefix m 0 result) result))"

definition getPrevLogIndexTerm :: "int \<Rightarrow> entry list \<Rightarrow> (int \<times> int) option" where
  "getPrevLogIndexTerm nextNodeIndex es =
     (case getEntries (Some (nextNodeIndex - 1)) (Some 1) None es of
        [] \<Rightarrow> None
      | e # _ \<Rightarrow> Some (nextNodeIndex - 1, trm e))"

definition deleteEntriesFrom :: "int \<Rightarrow> entry list \<Rightarrow> entry list" where
  "deleteEntriesFrom f es =
     (let diff = f - first_idx es in if diff < 0 then es else take (nat diff) es)"

definition deleteEntriesTo :: "int \<Rightarrow> entry list \<Rightarrow> entry list" where
  "deleteEntriesTo t es =
     (let diff = t - first_idx es in if diff < 0 then es else drop (nat diff) es)"

text \<open>The two cuts are the journal's, from the position of the index.\<close>

lemma deleteEntries_journal:
  assumes "first_idx es \<le> f"
  shows "mj_deleteEntriesFrom (f - first_idx es) es = (Inr (), deleteEntriesFrom f es)"
    and "mj_deleteEntriesTo (f - first_idx es) es = (Inr (), deleteEntriesTo f es)"
proof -
  obtain n where n: "f - first_idx es = int n" using assms zero_le_imp_eq_int[of "f - first_idx es"] by auto
  show "mj_deleteEntriesFrom (f - first_idx es) es = (Inr (), deleteEntriesFrom f es)"
    unfolding deleteEntriesFrom_def Let_def n by (simp add: mj_deleteEntriesFrom_def slice_bound_pos min_def)
  show "mj_deleteEntriesTo (f - first_idx es) es = (Inr (), deleteEntriesTo f es)"
    unfolding deleteEntriesTo_def Let_def n by (simp add: mj_deleteEntriesTo_def slice_bound_pos min_def)
qed

text \<open>Consecutive indices, terms that do not fall.\<close>

definition log_ok :: "entry list \<Rightarrow> bool" where
  "log_ok es \<longleftrightarrow> es \<noteq> [] \<and> (\<forall>i<length es. idx (es ! i) = first_idx es + int i) \<and>
     (\<forall>i j. i \<le> j \<and> j < length es \<longrightarrow> trm (es ! i) \<le> trm (es ! j))"

lemma log_ok_last_idx: "log_ok es \<Longrightarrow> idx (last_entry es) = first_idx es + int (length es) - 1"
  by (cases es rule: rev_cases) (auto simp: log_ok_def last_entry_def nth_append)

lemma log_ok_take: "log_ok es \<Longrightarrow> 0 < n \<Longrightarrow> log_ok (take n es)"
  by (auto simp: log_ok_def first_idx_def)

lemma log_ok_append:
  "log_ok es \<Longrightarrow> idx e = idx (last_entry es) + 1 \<Longrightarrow> trm (last_entry es) \<le> trm e \<Longrightarrow> log_ok (es @ [e])"
proof -
  assume ok: "log_ok es" and i: "idx e = idx (last_entry es) + 1" and t: "trm (last_entry es) \<le> trm e"
  have ne: "es \<noteq> []" using ok by (simp add: log_ok_def)
  have f: "first_idx (es @ [e]) = first_idx es" using ne by (simp add: first_idx_def)
  have le: "trm (es ! j) \<le> trm e" if "j < length es" for j
  proof -
    have "trm (es ! j) \<le> trm (es ! (length es - 1))" using ok that ne by (auto simp: log_ok_def)
    with t ne show ?thesis by (simp add: last_entry_def last_conv_nth)
  qed
  show "log_ok (es @ [e])"
    using ok log_ok_last_idx[OF ok] i le
    by (auto simp: log_ok_def f nth_append less_Suc_eq)
qed

lemma getEntries_nth:
  assumes "log_ok es" and "first_idx es \<le> f" and "i < length (getEntries (Some f) None None es)"
  shows "getEntries (Some f) None None es ! i = es ! (nat (f - first_idx es) + i) \<and>
    idx (getEntries (Some f) None None es ! i) = f + int i"
  using assms by (auto simp: getEntries_def log_ok_def Let_def)

lemma getEntries_None_iff:
  "log_ok es \<Longrightarrow> getEntries (Some f) None None es = [] \<longleftrightarrow> f < first_idx es \<or> idx (last_entry es) < f"
  by (auto simp: getEntries_def log_ok_last_idx Let_def)

lemma size_prefix_le: "size_prefix m t es \<le> length es"
  by (induction es arbitrary: t) (auto simp: Let_def)

lemma size_prefix_pos: "es \<noteq> [] \<Longrightarrow> 0 < size_prefix m t es"
  by (cases es) (auto simp: Let_def)

text \<open>Without its last entry, the batch is below the limit.\<close>

lemma size_prefix_size:
  "es \<noteq> [] \<Longrightarrow> t < m \<Longrightarrow> t + sum_list (map (\<lambda>e. int (length (cmd e))) (take (size_prefix m t es - 1) es)) < m"
proof (induction es arbitrary: t)
  case (Cons e es)
  show ?case
  proof (cases "t + int (length (cmd e)) \<ge> m \<or> es = []")
    case True
    with Cons.prems(2) show ?thesis by (auto simp: Let_def)
  next
    case False
    then have "0 < size_prefix m (t + int (length (cmd e))) es" by (simp add: size_prefix_pos)
    with False Cons.IH[of "t + int (length (cmd e))"] show ?thesis
      by (cases "size_prefix m (t + int (length (cmd e))) es") (auto simp: Let_def)
  qed
qed simp

end
