(* ===== verification/RaftNode.thy ===== *)
theory RaftNode
  imports RaftState
begin

text \<open>
  The handlers of a replication node, \<open>pysyncobjbc/syncobj.py\<close>, in the order of the code. A
  handler reads the clock once (\<open>now\<close>) and draws one random number (\<open>rnd\<close>); a loop that the
  code ends after a period of time is given the number of rounds that fit into it.
\<close>

section \<open>Start\<close>

definition raft_init :: "raft_env \<Rightarrow> rat \<Rightarrow> rat \<Rightarrow> addr option \<Rightarrow> addr list \<Rightarrow> entry list \<Rightarrow> bytes option \<Rightarrow> storage \<Rightarrow> raft" where
  "raft_init R now deadline self others journal dump_file st =
     (let log = (if journal = [] then [Entry [NO_OP] 1 0] else journal);
          nxt = idx (last_entry log) + 1 in
      \<lparr>self_addr = self, other_addrs = others,
       nodes = map (\<lambda>a. \<lparr>peer_addr = a, connected = False\<rparr>) others, readonly_nodes = [],
       state = FOLLOWER, current_term = 0, voted_for = None, votes_count = 0, leader = None,
       election_deadline = deadline, raft_log = log, commit_index = 1, last_applied = 1,
       next_index = (\<lambda>a. if a \<in> set others then Some nxt else None),
       match_index = (\<lambda>a. if a \<in> set others then Some 0 else None),
       last_response = (\<lambda>_. None), leader_commit = None, ready_called = False,
       change_cluster_idx = None, noop_idx = None, recv_transmission = None,
       commands_queue = FastQueue (commandsQueueSize (conf R)),
       waiting_commit = (\<lambda>_. []), local_counter = 0, waiting_reply = [],
       self_code_version = 0, enabled_code_version = 0, new_append_time = 0, tickctr = 0,
       testing = False, 
       dump = Serializer (fullDumpFile (conf R) \<noteq> None) (nat (logCompactionBatchSize (conf R)))
                (useFork (conf R)) (has_serializer (conf R)) dump_file,
       need_load_dump = True, app = st,
       outbox = [], fired = []\<rparr>)"

section \<open>Sending, callbacks\<close>

text \<open>\<open>Node.send\<close> drops a message to a node that is not connected.\<close>

definition node_send :: "peer \<Rightarrow> message \<Rightarrow> raft \<Rightarrow> raft" where
  "node_send p m s = (if connected p then s\<lparr>outbox := outbox s @ [(peer_addr p, m)]\<rparr> else s)"

definition send_to :: "addr \<Rightarrow> message \<Rightarrow> raft \<Rightarrow> raft" where
  "send_to a m s =
     (case find (\<lambda>p. peer_addr p = a) (nodes s @ readonly_nodes s) of
        None \<Rightarrow> s
      | Some p \<Rightarrow> node_send p m s)"

definition fire :: "nat \<Rightarrow> fail_reason \<Rightarrow> raft \<Rightarrow> raft" where
  "fire c r s = s\<lparr>fired := fired s @ [(c, r)]\<rparr>"

definition callErrCallback :: "fail_reason \<Rightarrow> callback option \<Rightarrow> raft \<Rightarrow> raft" where
  "callErrCallback err cb s =
     (case cb of
        None \<Rightarrow> s
      | Some (Remote_cb n req) \<Rightarrow> send_to n (Apply_command_response req (Inl err)) s
      | Some (Local_cb c) \<Rightarrow> fire c err s)"

definition sendNextNodeIdx :: "addr \<Rightarrow> bool \<Rightarrow> int option \<Rightarrow> bool \<Rightarrow> raft \<Rightarrow> raft" where
  "sendNextNodeIdx a reset nextNodeIdx success s =
     (let n = (case nextNodeIdx of None \<Rightarrow> getCurrentLogIndex s + 1 | Some n \<Rightarrow> n)
      in send_to a (Next_node_idx n reset success) s)"

definition generateRaftTimeout :: "raft_env \<Rightarrow> rat \<Rightarrow> rat" where
  "generateRaftTimeout R rnd =
     raftMinTimeout (conf R) + (raftMaxTimeout (conf R) - raftMinTimeout (conf R)) * rnd"

definition onLeaderChanged :: "raft \<Rightarrow> raft" where
  "onLeaderChanged s =
     s\<lparr>fired := fired s @ map (\<lambda>e. (snd e, LEADER_CHANGED)) (store_items (waiting_reply s)),
       waiting_reply := []\<rparr>"

section \<open>Commands\<close>

definition applyCommand :: "bytes \<Rightarrow> callback option \<Rightarrow> byte option \<Rightarrow> raft \<Rightarrow> raft" where
  "applyCommand command cb commandType s =
     (let full = (case commandType of None \<Rightarrow> command | Some t \<Rightarrow> t # command) in
      (case put_nowait (full, cb) (commands_queue s) of
         (Inr _, q) \<Rightarrow> s\<lparr>commands_queue := q\<rparr>
       | (Inl _, _) \<Rightarrow> callErrCallback QUEUE_FULL cb s))"

text \<open>\<open>ord\<close> of an empty command is a TypeError.\<close>

definition parseChangeClusterRequest :: "raft_env \<Rightarrow> bytes \<Rightarrow> py_error + (string \<times> addr) option" where
  "parseChangeClusterRequest R command =
     (case command of
        [] \<Rightarrow> Inl TypeError
      | t # payload \<Rightarrow>
          if t \<noteq> MEMBERSHIP then Inr None
          else (case loads_request R payload of Inl e \<Rightarrow> Inl e | Inr req \<Rightarrow> Inr (Some req)))"

section \<open>Membership\<close>

definition doChangeCluster :: "rat \<Rightarrow> string \<times> addr \<Rightarrow> bool \<Rightarrow> raft \<Rightarrow> bool \<times> raft" where
  "doChangeCluster now req reverse s =
     (let (requestType, a) = req in
      if requestType \<noteq> ''add'' \<and> requestType \<noteq> ''rem'' then (False, s)
      else if (requestType = ''add'') \<noteq> reverse then
        if Some a = self_addr s \<or> a \<in> set (other_addrs s) then (False, s)
        else
          (True,
           s\<lparr>other_addrs := other_addrs s @ [a],
             nodes := nodes s @ [\<lparr>peer_addr = a, connected = False\<rparr>],
             next_index := (next_index s)(a \<mapsto> getCurrentLogIndex s + 1),
             match_index := (match_index s)(a \<mapsto> 0),
             last_response := (if state s = LEADER then (last_response s)(a \<mapsto> now) else last_response s)\<rparr>)
      else
        if Some a = self_addr s \<or> a \<notin> set (other_addrs s) then (False, s)
        else if a \<in> peer_addr ` set (nodes s) then
          (True,
           s\<lparr>nodes := takeWhile (\<lambda>p. peer_addr p \<noteq> a) (nodes s)
                      @ tl (dropWhile (\<lambda>p. peer_addr p \<noteq> a) (nodes s)),
             other_addrs := remove1 a (other_addrs s),
             next_index := (next_index s)(a := None),
             match_index := (match_index s)(a := None)\<rparr>)
        else (False, s))"

text \<open>
  A leader changes the cluster only when its no-op entry and the previous change are applied.
  \<open>changeClusterIDx\<close> is never set by the code.
\<close>

definition changeCluster :: "rat \<Rightarrow> string \<times> addr \<Rightarrow> (raft, bool) eff" where
  "changeCluster now req s =
     (case noop_idx s of
        None \<Rightarrow> (Inl TypeError, s)
      | Some n \<Rightarrow>
          if last_applied s < n then (Inr False, s)
          else
            let s1 = (case change_cluster_idx s of
                        Some c \<Rightarrow> if last_applied s \<ge> c then s\<lparr>change_cluster_idx := None\<rparr> else s
                      | None \<Rightarrow> s)
            in if change_cluster_idx s1 \<noteq> None then (Inr False, s1)
               else (let (b, s2) = doChangeCluster now req False s1 in (Inr b, s2)))"

text \<open>The loops of \<open>append_entries\<close> that undo and redo the changes of dropped and new entries.\<close>

definition redo_entry :: "raft_env \<Rightarrow> rat \<Rightarrow> bool \<Rightarrow> entry \<Rightarrow> (raft, unit) eff" where
  "redo_entry R now reverse e s =
     (case parseChangeClusterRequest R (cmd e) of
        Inl err \<Rightarrow> (Inl err, s)
      | Inr None \<Rightarrow> (Inr (), s)
      | Inr (Some req) \<Rightarrow> (Inr (), snd (doChangeCluster now req reverse s)))"

definition redo_entries :: "raft_env \<Rightarrow> rat \<Rightarrow> bool \<Rightarrow> entry list \<Rightarrow> (raft, unit) eff" where
  "redo_entries R now reverse es =
     (if dynamicMembershipChange (conf R) then forE (redo_entry R now reverse) es else ret ())"

definition updateClusterConfiguration :: "raft \<Rightarrow> raft" where
  "updateClusterConfiguration s =
     (let kept = filter (\<lambda>p. peer_addr p \<in> set (other_addrs s)) (nodes s);
          new = filter (\<lambda>a. a \<notin> peer_addr ` set kept) (other_addrs s) in
      s\<lparr>nodes := kept @ map (\<lambda>a. \<lparr>peer_addr = a, connected = False\<rparr>) new,
        next_index := (\<lambda>a. if a \<in> set new then Some (getCurrentLogIndex s + 1) else next_index s a),
        match_index := (\<lambda>a. if a \<in> set new then Some 0 else match_index s a)\<rparr>)"

section \<open>Replication\<close>

text \<open>
  One large entry goes out in pieces of its pickled form; the kind of a piece is computed from
  the size of the command, which is shorter than the pickled entry.
\<close>

definition piece_kind :: "nat \<Rightarrow> nat \<Rightarrow> nat \<Rightarrow> part" where
  "piece_kind batch cmdlen pos =
     (if pos = 0 then Part_start else if pos + batch \<ge> cmdlen then Part_finish else Part_process)"

definition entry_pieces :: "nat \<Rightarrow> nat \<Rightarrow> bytes \<Rightarrow> (part \<times> bytes) list" where
  "entry_pieces batch cmdlen pickled =
     map (\<lambda>k. (piece_kind batch cmdlen (k * batch), take batch (drop (k * batch) pickled)))
       [0..<(length pickled + batch - 1) div batch]"

text \<open>
  One round of the loop for one node: entries from its next index on, or, when they are gone
  from the log, a piece of the dump. The result says whether a dump transfer goes on. Every node
  of the cluster has a next index: it gets one where it is added.
\<close>

definition next_of :: "raft \<Rightarrow> peer \<Rightarrow> int" where
  "next_of s p = (case next_index s (peer_addr p) of None \<Rightarrow> 0 | Some n \<Rightarrow> n)"

definition send_entries :: "raft_env \<Rightarrow> peer \<Rightarrow> entry list \<Rightarrow> (int \<times> int) option \<Rightarrow> raft \<Rightarrow> raft" where
  "send_entries R p es prev s =
     (let batch = appendEntriesBatchSizeBytes (conf R) in
      if length es = 1 \<and> int (length (cmd (hd es))) \<ge> batch then
        fold (\<lambda>(k, d). node_send p (Append_part (current_term s) (commit_index s) k d prev))
          (entry_pieces (nat batch) (length (cmd (hd es))) (dumps_entry R (hd es))) s
      else node_send p (Append_entries (current_term s) (commit_index s) es prev) s)"

definition entries_round :: "raft_env \<Rightarrow> peer \<Rightarrow> raft \<Rightarrow> raft" where
  "entries_round R p s =
     (let nxt = next_of s p; prev = getPrevLogIndexTerm nxt (raft_log s) in
      if nxt \<le> getCurrentLogIndex s then
        let es = getEntries (Some nxt) None (Some (appendEntriesBatchSizeBytes (conf R))) (raft_log s)
        in send_entries R p es prev (s\<lparr>next_index := (next_index s)(peer_addr p \<mapsto> idx (last_entry es) + 1)\<rparr>)
      else send_entries R p [] prev s)"

definition dump_round :: "raft_env \<Rightarrow> peer \<Rightarrow> raft \<Rightarrow> bool \<times> raft" where
  "dump_round R p s =
     (let (td, z) = getTransmissionData (disk R) (peer_addr p) (dump s);
          s1 = node_send p (Append_snapshot (current_term s) (commit_index s) td) (s\<lparr>dump := z\<rparr>)
      in (case td of
            None \<Rightarrow> (False, s1)
          | Some (_, _, is_last) \<Rightarrow>
              if is_last
              then (False, s1\<lparr>next_index := (next_index s1)(peer_addr p \<mapsto> idx (raft_log s1 ! 1) + 1)\<rparr>)
              else (True, s1)))"

definition append_round :: "raft_env \<Rightarrow> peer \<Rightarrow> raft \<Rightarrow> bool \<times> raft" where
  "append_round R p s =
     (if next_of s p > first_idx (raft_log s) then (False, entries_round R p s) else dump_round R p s)"

fun append_rounds :: "raft_env \<Rightarrow> peer \<Rightarrow> nat \<Rightarrow> bool \<Rightarrow> raft \<Rightarrow> raft" where
  "append_rounds R p 0 again s = s"
| "append_rounds R p (Suc n) again s =
     (if again \<or> next_of s p \<le> getCurrentLogIndex s
      then let (again', s') = append_round R p s in append_rounds R p n again' s'
      else s)"

text \<open>\<open>rounds\<close> is at least one: the code looks at the clock after a round.\<close>

definition sendAppendEntries :: "raft_env \<Rightarrow> rat \<Rightarrow> nat \<Rightarrow> raft \<Rightarrow> raft" where
  "sendAppendEntries R now rounds s =
     fold (\<lambda>p s. if connected p then append_rounds R p (Suc rounds) True s
                 else s\<lparr>dump := cancelTransmisstion (peer_addr p) (dump s)\<rparr>)
       (nodes s @ readonly_nodes s)
       (s\<lparr>new_append_time := now + appendEntriesPeriod (conf R)\<rparr>)"

definition onBecomeLeader :: "raft_env \<Rightarrow> rat \<Rightarrow> nat \<Rightarrow> raft \<Rightarrow> raft" where
  "onBecomeLeader R now rounds s =
     (let as = map peer_addr (nodes s @ readonly_nodes s);
          i = getCurrentLogIndex s + 1;
          s1 = s\<lparr>tickctr := 0, leader := self_addr s, state := LEADER,
                 last_response := (\<lambda>a. if a \<in> set as then Some now else None),
                 next_index := (\<lambda>a. if a \<in> set as then Some i else next_index s a),
                 match_index := (\<lambda>a. if a \<in> set as then Some 0 else match_index s a),
                 raft_log := raft_log s @ [Entry [NO_OP] i (current_term s)],
                 noop_idx := Some i\<rparr>;
          s2 = (if appendEntriesUseBatch (conf R) then s1 else sendAppendEntries R now rounds s1)
      in sendAppendEntries R now rounds s2)"

text \<open>\<open>votes > (nodes + 1) / 2\<close>, a true division.\<close>

definition majority :: "raft \<Rightarrow> int \<Rightarrow> bool" where
  "majority s count \<longleftrightarrow> 2 * count > int (length (nodes s)) + 1"

section \<open>Applying entries\<close>

text \<open>
  \<open>_idToMethod[funcID]\<close> of the one replicated method: \<open>add_block_to_queue\<close> on the storage.
\<close>

definition doApplyCommand :: "raft_env \<Rightarrow> bytes \<Rightarrow> (raft, unit) eff" where
  "doApplyCommand R command s =
     (case command of
        [] \<Rightarrow> (Inl TypeError, s)
      | t # payload \<Rightarrow>
          if t = VERSION then
            (case loads_version R payload of
               Inl e \<Rightarrow> (Inl e, s)
             | Inr ver \<Rightarrow>
                 if self_code_version s < ver then (Inl WrongVersion, s)
                 else (Inr (), s\<lparr>enabled_code_version := ver\<rparr>))
          else if t \<noteq> REGULAR then (Inr (), s)
          else
            (case loads_call R payload of
               Inl e \<Rightarrow> (Inl e, s)
             | Inr blk \<Rightarrow>
                 (case add_block_to_queue (ledger_env R) blk (app s) of
                    (r, st) \<Rightarrow> (r, s\<lparr>app := st\<rparr>))))"

text \<open>
  One entry: its subscribers are taken out first; an unsupported version is logged and the loop
  goes on with the next entry, without counting this one; any other exception leaves the loop.
\<close>

definition apply_entry :: "raft_env \<Rightarrow> entry \<Rightarrow> (raft, unit) eff" where
  "apply_entry R e s =
     (let subscribers = waiting_commit s (idx e);
          s1 = s\<lparr>waiting_commit := (waiting_commit s)(idx e := [])\<rparr> in
      (case doApplyCommand R (cmd e) s1 of
         (Inl WrongVersion, s2) \<Rightarrow> (Inr (), s2)
       | (Inl err, s2) \<Rightarrow> (Inl err, s2)
       | (Inr _, s2) \<Rightarrow>
           (Inr (), (fold (\<lambda>(t, c). fire c (if t = trm e then SUCCESS else DISCARDED)) subscribers s2)
                      \<lparr>last_applied := last_applied s2 + 1\<rparr>)))"

definition apply_committed :: "raft_env \<Rightarrow> (raft, unit) eff" where
  "apply_committed R s =
     (if commit_index s > last_applied s then
        forE (apply_entry R)
          (getEntries (Some (last_applied s + 1)) (Some (nat (commit_index s - last_applied s))) None (raft_log s)) s
      else (Inr (), s))"

section \<open>Commands of the queue\<close>

text \<open>One command on a leader: appended to the log, or denied.\<close>

definition accept_command :: "raft_env \<Rightarrow> rat \<Rightarrow> nat \<Rightarrow> bytes \<Rightarrow> callback option \<Rightarrow> int \<Rightarrow> int \<Rightarrow> raft \<Rightarrow> raft" where
  "accept_command R now rounds command cb i t s =
     (let s1 = s\<lparr>raft_log := raft_log s @ [Entry command i t]\<rparr>;
          s2 = (case cb of
                  None \<Rightarrow> s1
                | Some (Local_cb c) \<Rightarrow>
                    s1\<lparr>waiting_commit := (waiting_commit s1)(i := waiting_commit s1 i @ [(t, c)])\<rparr>
                | Some (Remote_cb n r) \<Rightarrow> send_to n (Apply_command_response r (Inr (i, t))) s1)
      in if appendEntriesUseBatch (conf R) then s2 else sendAppendEntries R now rounds s2)"

definition deny_command :: "callback option \<Rightarrow> raft \<Rightarrow> raft" where
  "deny_command cb s =
     (case cb of
        None \<Rightarrow> s
      | Some (Local_cb c) \<Rightarrow> fire c REQUEST_DENIED s
      | Some (Remote_cb n r) \<Rightarrow> send_to n (Apply_command_response r (Inl REQUEST_DENIED)) s)"

definition leader_command :: "raft_env \<Rightarrow> rat \<Rightarrow> nat \<Rightarrow> bytes \<Rightarrow> callback option \<Rightarrow> (raft, unit) eff" where
  "leader_command R now rounds command cb s =
     (let i = getCurrentLogIndex s + 1; t = current_term s in
      (case (if dynamicMembershipChange (conf R) then parseChangeClusterRequest R command else Inr None) of
         Inl e \<Rightarrow> (Inl e, s)
       | Inr None \<Rightarrow> (Inr (), accept_command R now rounds command cb i t s)
       | Inr (Some req) \<Rightarrow>
           (case changeCluster now req s of
              (Inl e, s1) \<Rightarrow> (Inl e, s1)
            | (Inr accepted, s1) \<Rightarrow>
                (Inr (), if accepted then accept_command R now rounds command cb i t s1
                         else deny_command cb s1))))"

text \<open>One command on another node: passed on to the leader, or refused.\<close>

definition forward_command :: "addr \<Rightarrow> bytes \<Rightarrow> callback option \<Rightarrow> raft \<Rightarrow> raft" where
  "forward_command ldr command cb s =
     (case cb of
        None \<Rightarrow> send_to ldr (Apply_command command None) s
      | Some (Local_cb c) \<Rightarrow>
          let n = Suc (local_counter s) in
          send_to ldr (Apply_command command (Some n))
            (s\<lparr>local_counter := n, waiting_reply := store_put n c (waiting_reply s)\<rparr>)
      | Some (Remote_cb a r) \<Rightarrow> send_to a (Apply_command_response r (Inl NOT_LEADER)) s)"

definition queue_command :: "raft_env \<Rightarrow> rat \<Rightarrow> nat \<Rightarrow> bytes \<Rightarrow> callback option \<Rightarrow> (raft, unit) eff" where
  "queue_command R now rounds command cb s =
     (if state s = LEADER then leader_command R now rounds command cb s
      else
        (case leader s of
           Some l \<Rightarrow> (Inr (), forward_command l command cb s)
         | None \<Rightarrow> (Inr (), callErrCallback MISSING_LEADER cb s)))"

fun checkCommandsToApply :: "raft_env \<Rightarrow> rat \<Rightarrow> nat \<Rightarrow> nat \<Rightarrow> (raft, unit) eff" where
  "checkCommandsToApply R now rounds 0 s = (Inr (), s)"
| "checkCommandsToApply R now rounds (Suc n) s =
     (if leader s = None \<and> commandsWaitLeader (conf R) then (Inr (), s)
      else
        (case get_nowait (commands_queue s) of
           (Inl _, _) \<Rightarrow> (Inr (), s)
         | (Inr (command, cb), q) \<Rightarrow>
             bindE (queue_command R now rounds command cb)
               (\<lambda>_. checkCommandsToApply R now rounds n) (s\<lparr>commands_queue := q\<rparr>)))"

section \<open>Full dumps\<close>

text \<open>A full dump, with or without dropping the journal; an exception is only logged.\<close>

definition restore_dump :: "bool \<Rightarrow> storage option \<Rightarrow> entry \<Rightarrow> entry \<Rightarrow> raft \<Rightarrow> raft" where
  "restore_dump clearJournal data e1 e0 s =
     (let s1 = (case data of None \<Rightarrow> s | Some st \<Rightarrow> s\<lparr>app := st\<rparr>);
          s2 = (if clearJournal \<or> length (raft_log s1) < 2 \<or> raft_log s1 ! 0 \<noteq> e0 \<or> raft_log s1 ! 1 \<noteq> e1
                then s1\<lparr>raft_log := [e0, e1]\<rparr> else s1)
      in s2\<lparr>last_applied := idx e1\<rparr>)"

definition loadDumpFile :: "raft_env \<Rightarrow> bool \<Rightarrow> raft \<Rightarrow> raft" where
  "loadDumpFile R clearJournal s =
     (case deserialize (loads_dump R) (dump s) of
        Inl _ \<Rightarrow> s
      | Inr (data, e1, e0, cluster) \<Rightarrow>
          let s1 = restore_dump clearJournal data e1 e0 s
          in if dynamicMembershipChange (conf R)
             then updateClusterConfiguration (s1\<lparr>other_addrs := filter (\<lambda>n. Some n \<noteq> self_addr s1) cluster\<rparr>)
             else s1)"

section \<open>The tick\<close>

definition connectedToAnyone :: "raft \<Rightarrow> bool" where
  "connectedToAnyone s \<longleftrightarrow> (\<exists>p\<in>set (nodes s). connected p) \<or> nodes s = []"

definition tick_election :: "raft_env \<Rightarrow> rat \<Rightarrow> rat \<Rightarrow> nat \<Rightarrow> raft \<Rightarrow> raft" where
  "tick_election R now rnd rounds s =
     (case self_addr s of
        None \<Rightarrow> s
      | Some self \<Rightarrow>
          if state s \<noteq> LEADER \<and> election_deadline s < now \<and> connectedToAnyone s then
            let s1 = s\<lparr>election_deadline := now + generateRaftTimeout R rnd, leader := None, state := CANDIDATE,
                       current_term := current_term s + 1, voted_for := Some self, votes_count := 1\<rparr>;
                s2 = fold (\<lambda>p. node_send p (Request_vote (current_term s1) (getCurrentLogIndex s1) (getCurrentLogTerm s1)))
                       (nodes s1) s1;
                s3 = onLeaderChanged s2
            in if majority s3 (votes_count s3) then onBecomeLeader R now rounds s3 else s3
          else s)"

text \<open>
  belcoin's addition: the leader proposes a block of its mempool, as a replicated command to
  itself.
\<close>

definition tick_block :: "raft_env \<Rightarrow> rat \<Rightarrow> raft \<Rightarrow> raft" where
  "tick_block R now s =
     (let s1 = s\<lparr>tickctr := Suc (tickctr s)\<rparr>; n = length (mempool_list (app s1)) in
      if (tickctr s1 \<ge> BLOCK_TIMEOUT \<and> n > 0 \<or> n \<ge> BLOCK_SIZE) \<and>
         \<not> processing (app s1) \<and> \<not> adding_block (app s1) \<and> \<not> testing s1 then
        let s2 = s1\<lparr>app := (app s1)\<lparr>adding_block := True\<rparr>\<rparr>;
            s3 = (case send_block now now (app s2) of
                    None \<Rightarrow> s2
                  | Some blk \<Rightarrow> applyCommand (dumps_call R blk) None (Some REGULAR) s2)
        in s3\<lparr>tickctr := 0\<rparr>
      else s1)"

text \<open>The commit index moves on while a majority holds the next entry.\<close>

definition replicas :: "raft \<Rightarrow> int \<Rightarrow> py_error + int" where
  "replicas s i =
     (case mapR (\<lambda>p. case match_index s (peer_addr p) of None \<Rightarrow> Inl KeyError | Some m \<Rightarrow> Inr m) (nodes s) of
        Inl e \<Rightarrow> Inl e
      | Inr ms \<Rightarrow> Inr (1 + int (length (filter (\<lambda>m. m \<ge> i) ms))))"

function commit_loop :: "raft \<Rightarrow> int \<Rightarrow> py_error + int" where
  "commit_loop s c =
     (if c < getCurrentLogIndex s then
        (case replicas s (c + 1) of
           Inl e \<Rightarrow> Inl e
         | Inr count \<Rightarrow> if majority s count then commit_loop s (c + 1) else Inr c)
      else Inr c)"
  by pat_completeness auto
termination by (relation "measure (\<lambda>(s, c). nat (getCurrentLogIndex s - c))") auto

text \<open>A leader that a majority has not answered for \<open>leaderFallbackTimeout\<close> steps down.\<close>

definition tick_fallback :: "raft_env \<Rightarrow> rat \<Rightarrow> (raft, unit) eff" where
  "tick_fallback R now s =
     (case mapR (\<lambda>p. case last_response s (peer_addr p) of None \<Rightarrow> Inl KeyError | Some r \<Rightarrow> Inr r) (nodes s) of
        Inl e \<Rightarrow> (Inl e, s)
      | Inr rs \<Rightarrow>
          let count = 1 + int (length (filter (\<lambda>r. r > now - leaderFallbackTimeout (conf R)) rs))
          in (Inr (), if majority s count then s else s\<lparr>state := FOLLOWER, leader := None\<rparr>))"

definition tick_leader :: "raft_env \<Rightarrow> rat \<Rightarrow> (raft, unit) eff" where
  "tick_leader R now s =
     (if state s = LEADER then
        let s1 = tick_block R now s in
        (case commit_loop s1 (commit_index s1) of
           Inl e \<Rightarrow> (Inl e, s1)
         | Inr c \<Rightarrow> tick_fallback R now (s1\<lparr>commit_index := c, leader_commit := Some c\<rparr>))
      else (Inr (), s))"

definition tick_send :: "raft_env \<Rightarrow> rat \<Rightarrow> nat \<Rightarrow> bool \<Rightarrow> raft \<Rightarrow> raft" where
  "tick_send R now rounds needSend s =
     (if state s = LEADER \<and> (now > new_append_time s \<or> needSend) then sendAppendEntries R now rounds s else s)"

text \<open>The first tick loads the dump file, if there is one.\<close>

definition tick_load :: "raft_env \<Rightarrow> raft \<Rightarrow> raft" where
  "tick_load R s =
     (if need_load_dump s
      then (if fullDumpFile (conf R) \<noteq> None \<and> on_disk (dump s) \<noteq> None then loadDumpFile R False s else s)
             \<lparr>need_load_dump := False\<rparr>
      else s)"

text \<open>
  A whole tick of an initialised node; \<open>cmds\<close> commands fit into the period. Connecting and
  polling follow, which are not part of the state here; nor is the check of the read-only nodes
  that comes between, since its new list of nodes is thrown away.
\<close>

definition onTick :: "raft_env \<Rightarrow> rat \<Rightarrow> rat \<Rightarrow> nat \<Rightarrow> nat \<Rightarrow> (raft, unit) eff" where
  "onTick R now rnd rounds cmds s =
     (let s1 = tick_election R now rnd rounds (tick_load R s) in
      bindE (tick_leader R now) (\<lambda>_ s2.
        let applying = (commit_index s2 > last_applied s2) in
        bindE (apply_committed R) (\<lambda>_ s3.
          let s4 = tick_send R now rounds (applying \<and> \<not> appendEntriesUseBatch (conf R)) s3;
              s5 = (if \<not> ready_called s4 \<and> leader_commit s4 = Some (last_applied s4)
                    then s4\<lparr>ready_called := True\<rparr> else s4)
          in checkCommandsToApply R now rounds cmds s5) s2) s1)"

section \<open>Messages\<close>

definition on_request_vote :: "raft_env \<Rightarrow> rat \<Rightarrow> rat \<Rightarrow> addr \<Rightarrow> int \<Rightarrow> int \<Rightarrow> int \<Rightarrow> raft \<Rightarrow> raft" where
  "on_request_vote R now rnd a t lastLogIdx lastLogTerm s =
     (if self_addr s = None then s
      else
        let s1 = (if t > current_term s
                  then s\<lparr>current_term := t, voted_for := None, state := FOLLOWER, leader := None\<rparr> else s)
        in if state s1 \<noteq> LEADER \<and> t \<ge> current_term s1 \<and>
              \<not> lastLogTerm < getCurrentLogTerm s1 \<and>
              \<not> (lastLogTerm = getCurrentLogTerm s1 \<and> lastLogIdx < getCurrentLogIndex s1) \<and>
              voted_for s1 = None
           then send_to a (Response_vote t)
                  (s1\<lparr>voted_for := Some a, election_deadline := now + generateRaftTimeout R rnd\<rparr>)
           else s1)"

text \<open>The head of every accepted \<open>append_entries\<close>: the sender is the leader of the term.\<close>

definition follow_leader :: "raft_env \<Rightarrow> rat \<Rightarrow> rat \<Rightarrow> addr \<Rightarrow> int \<Rightarrow> int \<Rightarrow> raft \<Rightarrow> raft" where
  "follow_leader R now rnd a t leaderCommitIndex s =
     (let s1 = s\<lparr>election_deadline := now + generateRaftTimeout R rnd\<rparr>;
          s2 = (if leader s1 \<noteq> Some a then onLeaderChanged s1 else s1);
          s3 = s2\<lparr>leader := Some a\<rparr>;
          s4 = (if t > current_term s3 then s3\<lparr>current_term := t, voted_for := None\<rparr> else s3)
      in s4\<lparr>state := FOLLOWER, leader_commit := Some leaderCommitIndex\<rparr>)"

text \<open>
  The entries part: the log is cut behind the previous entry when that one matches, with the
  cluster changes of the dropped entries undone, the new entries are added and their cluster
  changes done. An early return leaves the commit index alone.
\<close>

definition cut_log :: "raft_env \<Rightarrow> rat \<Rightarrow> int \<Rightarrow> entry list \<Rightarrow> (raft, unit) eff" where
  "cut_log R now prevIdx dropped s =
     (if dropped = [] then (Inr (), s)
      else bindE (redo_entries R now True (rev dropped))
             (\<lambda>_. modE (\<lambda>s. s\<lparr>raft_log := deleteEntriesFrom (prevIdx + 1) (raft_log s)\<rparr>)) s)"

definition add_entries :: "raft_env \<Rightarrow> rat \<Rightarrow> entry list \<Rightarrow> (raft, unit) eff" where
  "add_entries R now es s = redo_entries R now False es (s\<lparr>raft_log := raft_log s @ es\<rparr>)"

definition acknowledge :: "addr \<Rightarrow> int \<Rightarrow> int \<Rightarrow> entry list \<Rightarrow> raft \<Rightarrow> raft" where
  "acknowledge a leaderCommitIndex prevIdx es s =
     (let n = (if es \<noteq> [] then idx (last es) else prevIdx + 1);
          s1 = sendNextNodeIdx a False (Some n) True s
      in s1\<lparr>commit_index := min leaderCommitIndex (getCurrentLogIndex s1)\<rparr>)"

definition accept_entries :: "raft_env \<Rightarrow> rat \<Rightarrow> addr \<Rightarrow> int \<Rightarrow> entry list \<Rightarrow> (int \<times> int) option \<Rightarrow> (raft, unit) eff" where
  "accept_entries R now a leaderCommitIndex newEntries prev s =
     (case getEntries (map_option fst prev) None None (raft_log s) of
        [] \<Rightarrow> (Inr (), sendNextNodeIdx a True None False s)
      | e # dropped \<Rightarrow>
          if trm e \<noteq> snd (the prev) then
            (Inr (), sendNextNodeIdx a True (Some (fst (the prev))) False s)
          else
            bindE (cut_log R now (fst (the prev)) dropped) (\<lambda>_.
              bindE (add_entries R now newEntries) (\<lambda>_.
                modE (acknowledge a leaderCommitIndex (fst (the prev)) newEntries))) s)"

definition install_snapshot :: "raft_env \<Rightarrow> addr \<Rightarrow> int \<Rightarrow> (bytes \<times> bool \<times> bool) option \<Rightarrow> raft \<Rightarrow> raft" where
  "install_snapshot R a leaderCommitIndex td s =
     (let s2 = (if td = None then s
                else let (complete, z) = setTransmissionData (disk R) td (dump s); s1 = s\<lparr>dump := z\<rparr>
                     in if complete then sendNextNodeIdx a False None True (loadDumpFile R True s1) else s1)
      in s2\<lparr>commit_index := min leaderCommitIndex (getCurrentLogIndex s2)\<rparr>)"

text \<open>
  The buffer of a transfer is the text \<open>''\<close> before the first piece and after the last (None):
  adding bytes to it is a TypeError.
\<close>

definition on_append_part ::
  "raft_env \<Rightarrow> rat \<Rightarrow> addr \<Rightarrow> int \<Rightarrow> part \<Rightarrow> bytes \<Rightarrow> (int \<times> int) option \<Rightarrow> (raft, unit) eff" where
  "on_append_part R now a leaderCommitIndex k d prev s =
     (case k of
        Part_start \<Rightarrow> (Inr (), sendNextNodeIdx a False None False (s\<lparr>recv_transmission := Some d\<rparr>))
      | Part_process \<Rightarrow>
          (case recv_transmission s of
             None \<Rightarrow> (Inl TypeError, s)
           | Some b \<Rightarrow> (Inr (), sendNextNodeIdx a False None False (s\<lparr>recv_transmission := Some (b @ d)\<rparr>)))
      | Part_finish \<Rightarrow>
          (case recv_transmission s of
             None \<Rightarrow> (Inl TypeError, s)
           | Some b \<Rightarrow>
               (case loads_entry R (b @ d) of
                  Inl e \<Rightarrow> (Inl e, s\<lparr>recv_transmission := Some (b @ d)\<rparr>)
                | Inr e \<Rightarrow> accept_entries R now a leaderCommitIndex [e] prev (s\<lparr>recv_transmission := None\<rparr>))))"

definition on_apply_response :: "nat \<Rightarrow> fail_reason + (int \<times> int) \<Rightarrow> (raft, unit) eff" where
  "on_apply_response req res s =
     (case store_get (waiting_reply s) req of
        None \<Rightarrow> (Inr (), s)
      | Some c \<Rightarrow>
          let s1 = s\<lparr>waiting_reply := store_del req (waiting_reply s)\<rparr> in
          (case res of
             Inl err \<Rightarrow> (Inr (), fire c err s1)
           | Inr (i, t) \<Rightarrow>
               if i > last_applied s1
               then (Inr (), s1\<lparr>waiting_commit := (waiting_commit s1)(i := waiting_commit s1 i @ [(t, c)])\<rparr>)
               else (Inl AssertionError, s1)))"

definition on_response_vote :: "raft_env \<Rightarrow> rat \<Rightarrow> nat \<Rightarrow> int \<Rightarrow> raft \<Rightarrow> raft" where
  "on_response_vote R now rounds t s =
     (if state s = CANDIDATE \<and> t = current_term s then
        let s1 = s\<lparr>votes_count := votes_count s + 1\<rparr>
        in if majority s1 (votes_count s1) then onBecomeLeader R now rounds s1 else s1
      else s)"

definition on_next_node_idx :: "rat \<Rightarrow> addr \<Rightarrow> int \<Rightarrow> bool \<Rightarrow> bool \<Rightarrow> raft \<Rightarrow> raft" where
  "on_next_node_idx now a nextNodeIdx reset success s =
     (if state s = LEADER then
        let s1 = (if reset then s\<lparr>next_index := (next_index s)(a \<mapsto> nextNodeIdx)\<rparr> else s);
            s2 = (if success then s1\<lparr>match_index := (match_index s1)(a \<mapsto> nextNodeIdx - 1)\<rparr> else s1)
        in s2\<lparr>last_response := (last_response s2)(a \<mapsto> now)\<rparr>
      else s)"

fun onMessageReceived :: "raft_env \<Rightarrow> rat \<Rightarrow> rat \<Rightarrow> nat \<Rightarrow> addr \<Rightarrow> message \<Rightarrow> (raft, unit) eff" where
  "onMessageReceived R now rnd rounds a (Request_vote t i lt) s =
     (Inr (), on_request_vote R now rnd a t i lt s)"
| "onMessageReceived R now rnd rounds a (Append_entries t c es prev) s =
     (if t \<ge> current_term s then accept_entries R now a c es prev (follow_leader R now rnd a t c s) else (Inr (), s))"
| "onMessageReceived R now rnd rounds a (Append_part t c k d prev) s =
     (if t \<ge> current_term s then on_append_part R now a c k d prev (follow_leader R now rnd a t c s) else (Inr (), s))"
| "onMessageReceived R now rnd rounds a (Append_snapshot t c td) s =
     (if t \<ge> current_term s then (Inr (), install_snapshot R a c td (follow_leader R now rnd a t c s)) else (Inr (), s))"
| "onMessageReceived R now rnd rounds a (Apply_command command req) s =
     (Inr (), applyCommand command (map_option (Remote_cb a) req) None s)"
| "onMessageReceived R now rnd rounds a (Apply_command_response req res) s = on_apply_response req res s"
| "onMessageReceived R now rnd rounds a (Response_vote t) s = (Inr (), on_response_vote R now rounds t s)"
| "onMessageReceived R now rnd rounds a (Next_node_idx n reset success) s =
     (Inr (), on_next_node_idx now a n reset success s)"

section \<open>Connections\<close>

text \<open>
  A partner's status, set by the callbacks of its connection; a node that connects with the
  name \<open>readonly\<close> is added as a read-only node, any other unknown name is refused.
\<close>

definition set_connected :: "addr \<Rightarrow> bool \<Rightarrow> raft \<Rightarrow> raft" where
  "set_connected a b s =
     (let f = map (\<lambda>p. if peer_addr p = a then p\<lparr>connected := b\<rparr> else p) in
      s\<lparr>nodes := f (nodes s), readonly_nodes := f (readonly_nodes s)\<rparr>)"

definition onNewPartner :: "string \<Rightarrow> addr \<Rightarrow> raft \<Rightarrow> raft" where
  "onNewPartner name counter s =
     (if name \<in> peer_addr ` set (nodes s) then set_connected name True s
      else if name \<noteq> ''readonly'' then s
      else s\<lparr>readonly_nodes := readonly_nodes s @ [\<lparr>peer_addr = counter, connected = True\<rparr>],
             next_index := (next_index s)(counter \<mapsto> getCurrentLogIndex s + 1),
             match_index := (match_index s)(counter \<mapsto> 0)\<rparr>)"

end
