(* ===== verification/RaftFrame.thy ===== *)
theory RaftFrame
  imports RaftNode
begin

text \<open>
  What the handlers leave alone. The relations between the state before and after a handler that
  the proofs about clusters use share a contract, the locale \<open>handler_frame\<close>: once they allow a few
  updates and sends, they allow all handlers that neither take over a log nor change the term.
  The relation \<open>quiet\<close> is one of them: no change to the read-only nodes, the term, the vote and the
  ballot count of a node, to its role but to follower, and no message of an election. The election
  proofs look only at the handlers that are not quiet.
\<close>

fun vote_message :: "message \<Rightarrow> bool" where
  "vote_message (Request_vote _ _ _) \<longleftrightarrow> True"
| "vote_message (Response_vote _) \<longleftrightarrow> True"
| "vote_message _ \<longleftrightarrow> False"

fun entries_message :: "message \<Rightarrow> bool" where
  "entries_message (Append_entries _ _ _ _) \<longleftrightarrow> True"
| "entries_message _ \<longleftrightarrow> False"

section \<open>The contract\<close>

text \<open>The fields of elections and logs, and what was applied.\<close>

definition ballot :: "raft \<Rightarrow> _" where
  "ballot s = (self_addr s, readonly_nodes s, current_term s, voted_for s, votes_count s, state s, outbox s)"

definition applied :: "raft \<Rightarrow> _" where
  "applied s = ((app s)\<lparr>adding_block := False\<rparr>, last_applied s, self_code_version s)"

definition standing :: "raft \<Rightarrow> _" where
  "standing s = (ballot s, raft_log s, applied s)"

lemmas standing_defs = standing_def ballot_def applied_def

locale handler_frame =
  fixes rel :: "raft \<Rightarrow> raft \<Rightarrow> bool"
  assumes trans [trans]: "rel s t \<Longrightarrow> rel t u \<Longrightarrow> rel s u"
    and same: "standing s' = standing s \<Longrightarrow> rel s s'"
    and node_send: "\<not> vote_message m \<Longrightarrow> \<not> entries_message m \<Longrightarrow> rel s (node_send p m s)"
    and entries: "first_idx (raft_log s) < next_of s p \<Longrightarrow> rel s (entries_round R p s)"
    and add: "state s = LEADER \<Longrightarrow> raft_log s' = raft_log s @ [Entry c (getCurrentLogIndex s + 1) (current_term s)] \<Longrightarrow>
      ballot s' = ballot s \<Longrightarrow> applied s' = applied s \<Longrightarrow> rel s s'"
    and step_down: "rel s (s\<lparr>state := FOLLOWER, leader := None\<rparr>)"
begin

lemma refl [simp, intro]: "rel s s"
  by (rule same) simp

lemma left: "standing s1 = standing s \<Longrightarrow> rel s1 s' \<Longrightarrow> rel s s'"
  using trans same by blast

lemma right: "rel s s1 \<Longrightarrow> standing s' = standing s1 \<Longrightarrow> rel s s'"
  using trans same by blast

lemma fold: "(\<And>x t. x \<in> set xs \<Longrightarrow> rel t (f x t)) \<Longrightarrow> rel s (fold f xs s)"
  by (induction xs arbitrary: s) (auto intro: trans)

lemma bindE:
  assumes "rel s (snd (m s))" and "\<And>x t. rel t (snd (k x t))"
  shows "rel s (snd (bindE m k s))"
proof (cases "m s")
  case (Pair r t)
  with assms(1) assms(2)[where t = t] show ?thesis by (cases r) (auto simp: bindE_def intro: trans)
qed

lemma forE:
  assumes "\<And>x t. rel t (snd (f x t))"
  shows "rel s (snd (forE f xs s))"
  by (induction xs arbitrary: s) (auto intro!: bindE assms)

section \<open>The handlers\<close>

lemma send_to: "\<not> vote_message m \<Longrightarrow> \<not> entries_message m \<Longrightarrow> rel s (send_to a m s)"
  by (auto simp: send_to_def node_send split: option.split)

lemma fire: "rel s (fire c r s)"
  by (rule same) (simp add: fire_def standing_defs)

lemma err: "rel s (callErrCallback e cb s)"
  by (auto simp: callErrCallback_def fire intro!: send_to split: option.split callback.split)

lemma sendNext: "rel s (sendNextNodeIdx a r n ok s)"
  by (simp add: sendNextNodeIdx_def Let_def send_to)

lemma leaderChanged: "rel s (onLeaderChanged s)"
  by (rule same) (simp add: onLeaderChanged_def standing_defs)

lemma applyCommand: "rel s (applyCommand c cb t s)"
  by (auto simp: applyCommand_def Let_def err standing_defs intro: same split: prod.split sum.split)

lemma dump_round: "rel s (snd (dump_round R p s))"
proof -
  let ?t = "getTransmissionData (disk R) (peer_addr p) (dump s)"
  have q: "rel s (node_send p (Append_snapshot (current_term s) (commit_index s) (fst ?t)) (s\<lparr>dump := snd ?t\<rparr>))"
    by (rule left[OF _ node_send]) (simp_all add: standing_defs)
  show ?thesis
    by (cases "fst ?t") (auto simp: dump_round_def Let_def case_prod_beta q[simplified] standing_defs
        intro: right[OF q])
qed

lemma round: "rel s (snd (append_round R p s))"
  by (simp add: append_round_def entries dump_round)

lemma rounds: "rel s (append_rounds R p n again s)"
proof (induction n arbitrary: again s)
  case (Suc n)
  show ?case using round[of s R p] Suc.IH
    by (auto simp: case_prod_beta intro: trans)
qed simp

lemma sendAppend: "rel s (sendAppendEntries R now rounds s)"
  unfolding sendAppendEntries_def
  by (rule left[OF _ fold])
     (auto simp: standing_defs rounds simp del: append_rounds.simps intro: same)

lemma becomeLeader: "rel (s\<lparr>state := LEADER\<rparr>) (onBecomeLeader R now rounds s)"
proof -
  have "rel (s\<lparr>state := LEADER\<rparr>) (if b then u else sendAppendEntries R now rounds u)"
    if "raft_log u = raft_log s @ [Entry [NO_OP] (getCurrentLogIndex s + 1) (current_term s)]"
      "ballot u = ballot (s\<lparr>state := LEADER\<rparr>)" "applied u = applied s" for u b
  proof -
    have "rel (s\<lparr>state := LEADER\<rparr>) u"
      using that by (intro add[where c = "[NO_OP]"]) (simp_all add: getCurrentLogIndex_def applied_def)
    then show ?thesis using trans sendAppend by auto
  qed
  then show ?thesis
    unfolding onBecomeLeader_def Let_def by (intro trans[OF _ sendAppend]) (simp add: ballot_def applied_def)
qed

section \<open>Commands, the tick\<close>

lemma changeCluster_same: "changeCluster now req s = (r, t) \<Longrightarrow> standing t = standing s"
  by (auto simp: changeCluster_def doChangeCluster_def Let_def standing_defs
      split: option.splits prod.splits if_splits)

lemma accept_command:
  assumes "state s = LEADER" and "i = getCurrentLogIndex s + 1" and "t = current_term s"
  shows "rel s (accept_command R now rounds c cb i t s)"
proof -
  have a: "rel s (if appendEntriesUseBatch (conf R) then u else sendAppendEntries R now rounds u)"
    if "rel s u" for u using that trans sendAppend by auto
  have l: "rel s (s\<lparr>raft_log := raft_log s @ [Entry c i t]\<rparr>)"
    using assms by (intro add[where c = c]) (simp_all add: ballot_def applied_def)
  have w: "rel s (s\<lparr>raft_log := raft_log s @ [Entry c i t], waiting_commit := w\<rparr>)" for w
    by (rule right[OF l]) (simp add: standing_defs)
  have q: "rel s (send_to n (Apply_command_response r res) (s\<lparr>raft_log := raft_log s @ [Entry c i t]\<rparr>))" for n r res
    by (rule trans[OF l send_to]) simp_all
  show ?thesis
    unfolding accept_command_def Let_def
    by (rule a) (auto simp: q l w split: option.split callback.split)
qed

lemma deny: "rel s (deny_command cb s)"
  by (auto simp: deny_command_def fire send_to split: option.split callback.split)

lemma leader_command:
  assumes "state s = LEADER"
  shows "rel s (snd (leader_command R now rounds c cb s))"
proof -
  have acc: "rel s (accept_command R now rounds c cb (getCurrentLogIndex s + 1) (current_term s) t)"
    if "changeCluster now req s = (r, t)" for req r t
  proof -
    have f: "standing t = standing s" using that by (rule changeCluster_same)
    then have "state t = LEADER" "getCurrentLogIndex s = getCurrentLogIndex t" "current_term s = current_term t"
      using assms by (simp_all add: standing_defs getCurrentLogIndex_def)
    with left[OF f accept_command] show ?thesis by simp
  qed
  have ch: "rel s t" if "changeCluster now req s = (r, t)" for req r t
    using changeCluster_same[OF that] by (rule same)
  show ?thesis
    unfolding leader_command_def Let_def
    by (auto simp: accept_command[OF assms] acc split: sum.split option.split prod.split
        dest!: ch intro: trans[OF _ deny])
qed

lemma forward: "rel s (forward_command l c cb s)"
  by (auto simp: forward_command_def Let_def standing_defs intro!: send_to left[OF _ send_to]
      split: option.split callback.split)

lemma queue_command: "rel s (snd (queue_command R now rounds c cb s))"
  by (auto simp: queue_command_def leader_command forward err split: option.split)

lemma checkCommands: "rel s (snd (checkCommandsToApply R now rounds n s))"
proof (induction n arbitrary: s)
  case (Suc n)
  have "rel s (snd (bindE (queue_command R now rounds c cb) (\<lambda>_. checkCommandsToApply R now rounds n)
      (s\<lparr>commands_queue := q\<rparr>)))" for c cb q
    by (rule left[OF _ bindE[OF queue_command Suc.IH]]) (simp add: standing_defs)
  then show ?case by (auto split: sum.split prod.split)
qed simp

lemma tick_block: "rel s (tick_block R now s)"
proof -
  let ?s2 = "s\<lparr>tickctr := Suc (tickctr s), app := (app s)\<lparr>adding_block := True\<rparr>\<rparr>"
  have "rel s ((applyCommand c None t ?s2)\<lparr>tickctr := 0\<rparr>)" for c t
    by (rule right[OF left[OF _ applyCommand]]) (simp_all add: standing_defs)
  then show ?thesis
    by (auto simp: tick_block_def Let_def standing_defs intro: same split: option.split)
qed

lemma fallback: "rel s (snd (tick_fallback R now s))"
  by (auto simp: tick_fallback_def Let_def step_down split: sum.split)

lemma tick_leader: "rel s (snd (tick_leader R now s))"
  using trans[OF tick_block left[OF _ fallback]]
  by (auto simp: tick_leader_def Let_def tick_block standing_defs simp del: commit_loop.simps split: sum.split)

lemma tick_send: "rel s (tick_send R now rounds b s)"
  by (simp add: tick_send_def sendAppend)

lemma response: "rel s (snd (on_apply_response r res s))"
  by (auto simp: on_apply_response_def Let_def standing_defs split: option.split sum.split
      intro: same left[OF _ fire])

lemma next_idx: "rel s (on_next_node_idx now a n r ok s)"
  by (rule same) (simp add: on_next_node_idx_def Let_def standing_defs)

end

text \<open>
  The whole tick applies committed entries. A relation that says something of their effect has to
  allow that, for the environments (\<open>known\<close>) it says it for.
\<close>

locale tick_frame = handler_frame +
  fixes known :: "raft_env \<Rightarrow> bool"
  assumes apply_log: "known R \<Longrightarrow> rel s (snd (apply_committed R s))"
begin

text \<open>All of a tick but the dump and the election.\<close>

lemma tick_rest:
  assumes "known R"
  shows "rel (tick_election R now rnd rounds (tick_load R s)) (snd (onTick R now rnd rounds cmds s))"
proof -
  have "rel t (snd (checkCommandsToApply R now rounds cmds
      (if \<not> ready_called (tick_send R now rounds b t) \<and>
          leader_commit (tick_send R now rounds b t) = Some (last_applied (tick_send R now rounds b t))
       then (tick_send R now rounds b t)\<lparr>ready_called := True\<rparr> else tick_send R now rounds b t)))" for t b
    by (rule trans[OF tick_send]) (auto simp: standing_defs intro: checkCommands left[OF _ checkCommands])
  then show ?thesis
    unfolding onTick_def Let_def by (intro bindE tick_leader apply_log assms)
qed

end

text \<open>A relation that looks only at elections and logs allows it anyway.\<close>

locale log_frame = handler_frame +
  assumes same_log: "ballot s' = ballot s \<Longrightarrow> raft_log s' = raft_log s \<Longrightarrow> rel s s'"
begin

lemma doApply: "rel s (snd (doApplyCommand R c s))"
  by (auto simp: doApplyCommand_def ballot_def intro: same_log split: list.split sum.split prod.split)

lemma apply_entry: "rel s (snd (apply_entry R e s))"
proof -
  let ?s1 = "s\<lparr>waiting_commit := (waiting_commit s)(idx e := [])\<rparr>"
  obtain r s2 where d: "doApplyCommand R (cmd e) ?s1 = (r, s2)" by (cases "doApplyCommand R (cmd e) ?s1")
  have q: "rel s s2"
    using left[OF _ doApply[of ?s1 R "cmd e"], of s] d by (simp add: standing_defs)
  have f: "rel s ((fold (\<lambda>(t, c). fire c (if t = trm e then SUCCESS else DISCARDED)) xs s2)\<lparr>last_applied := n\<rparr>)" for xs n
    by (rule trans[OF trans[OF q fold] same_log]) (auto simp: fire ballot_def)
  show ?thesis
    unfolding apply_entry_def Let_def d
    by (cases r) (auto simp: q f split: py_error.split)
qed

lemma apply_committed: "rel s (snd (apply_committed R s))"
  by (simp add: apply_committed_def forE apply_entry)

end

sublocale log_frame \<subseteq> tick_frame rel "\<lambda>_. True"
  by unfold_locales (rule apply_committed)

section \<open>Quiet handlers\<close>

text \<open>The messages added to an outbox are none of an election.\<close>

definition adds_no_vote :: "raft \<Rightarrow> raft \<Rightarrow> bool" where
  "adds_no_vote s s' \<longleftrightarrow>
     (\<exists>ms. outbox s' = outbox s @ ms \<and> (\<forall>x\<in>set ms. \<not> vote_message (snd x)))"

definition quiet :: "raft \<Rightarrow> raft \<Rightarrow> bool" where
  "quiet s s' \<longleftrightarrow> self_addr s' = self_addr s \<and> readonly_nodes s' = readonly_nodes s \<and> current_term s' = current_term s \<and>
     voted_for s' = voted_for s \<and> votes_count s' = votes_count s \<and>
     (state s' = state s \<or> state s' = FOLLOWER) \<and> adds_no_vote s s'"

lemma adds_no_vote_refl: "outbox s' = outbox s \<Longrightarrow> adds_no_vote s s'"
  by (simp add: adds_no_vote_def)

lemma adds_no_vote_trans: "adds_no_vote s t \<Longrightarrow> adds_no_vote t u \<Longrightarrow> adds_no_vote s u"
  unfolding adds_no_vote_def by fastforce

lemma quiet_refl [simp, intro]: "quiet s s"
  by (simp add: quiet_def adds_no_vote_refl)

lemma quiet_trans [trans]: "quiet s t \<Longrightarrow> quiet t u \<Longrightarrow> quiet s u"
  unfolding quiet_def using adds_no_vote_trans by metis

lemma quiet_ballot: "ballot s' = ballot s \<Longrightarrow> quiet s s'"
  by (simp add: quiet_def ballot_def adds_no_vote_refl)

lemma quiet_left: "ballot s1 = ballot s \<Longrightarrow> quiet s1 s' \<Longrightarrow> quiet s s'"
  using quiet_trans quiet_ballot by blast

lemma quiet_right: "quiet s s1 \<Longrightarrow> ballot s' = ballot s1 \<Longrightarrow> quiet s s'"
  using quiet_trans quiet_ballot by blast

lemma quiet_node_send: "\<not> vote_message m \<Longrightarrow> quiet s (node_send p m s)"
  by (simp add: quiet_def node_send_def adds_no_vote_def)

lemma quiet_send_entries: "quiet s (send_entries R p es prev s)"
proof -
  have f: "quiet t (fold f xs t)" if "\<And>x u. quiet u (f x u)" for f :: "'x \<Rightarrow> raft \<Rightarrow> raft" and xs t
    using that by (induction xs arbitrary: t) (auto intro: quiet_trans)
  show ?thesis unfolding send_entries_def Let_def by (auto intro!: f quiet_node_send)
qed

interpretation quiet: log_frame quiet
proof unfold_locales
  show "quiet s (entries_round R p s)" for s R p
    unfolding entries_round_def Let_def
    by (auto simp: quiet_send_entries ballot_def intro: quiet_left[OF _ quiet_send_entries])
qed (auto simp: standing_def quiet_ballot quiet_node_send intro: quiet_trans,
     simp add: quiet_def adds_no_vote_refl)

lemmas quiet_bindE = quiet.bindE
lemmas quiet_sendNext = quiet.sendNext
lemmas quiet_becomeLeader = quiet.becomeLeader
lemmas quiet_applyCommand = quiet.applyCommand
lemmas quiet_tick_rest = quiet.tick_rest [OF TrueI]

lemma quiet_doChange: "quiet s (snd (doChangeCluster now req b s))"
  by (rule quiet_ballot) (simp add: doChangeCluster_def Let_def ballot_def split: prod.split)

lemma quiet_redo: "quiet s (snd (redo_entries R now b es s))"
  by (auto simp: redo_entries_def redo_entry_def quiet_doChange intro!: quiet.forE
      split: sum.split option.split)

lemma quiet_updateCluster: "quiet s (updateClusterConfiguration s)"
  by (rule quiet_ballot) (simp add: updateClusterConfiguration_def Let_def ballot_def)

section \<open>Full dumps\<close>

lemma quiet_restore: "quiet s (restore_dump b data e1 e0 s)"
  by (rule quiet_ballot) (simp add: restore_dump_def Let_def ballot_def split: option.split)

lemma quiet_loadDump: "quiet s (loadDumpFile R b s)"
proof -
  have "quiet s (updateClusterConfiguration ((restore_dump b data e1 e0 s)\<lparr>other_addrs := as\<rparr>))" for data e1 e0 as
    by (rule quiet_trans[OF quiet_right[OF quiet_restore] quiet_updateCluster]) (simp add: ballot_def)
  then show ?thesis
    unfolding loadDumpFile_def Let_def
    by (auto simp: quiet_restore split: sum.split)
qed

lemma quiet_tick_load: "quiet s (tick_load R s)"
  by (auto simp: tick_load_def ballot_def intro: quiet_right[OF quiet_loadDump] quiet_ballot)

section \<open>Messages\<close>

lemma quiet_cut: "quiet s (snd (cut_log R now p es s))"
  by (auto simp: cut_log_def ballot_def intro!: quiet_bindE quiet_redo intro: quiet_ballot)

lemma quiet_add: "quiet s (snd (add_entries R now es s))"
  unfolding add_entries_def by (rule quiet_left[OF _ quiet_redo]) (simp add: ballot_def)

lemma quiet_acknowledge: "quiet s (acknowledge a c p es s)"
  unfolding acknowledge_def Let_def by (rule quiet_right[OF quiet_sendNext]) (simp add: ballot_def)

lemma quiet_accept: "quiet s (snd (accept_entries R now a c es prev s))"
  unfolding accept_entries_def
  by (auto simp: quiet_sendNext split: list.split
      intro!: quiet_bindE quiet_cut quiet_add quiet_acknowledge)

lemma quiet_install: "quiet s (install_snapshot R a c td s)"
proof -
  have "quiet s (sendNextNodeIdx a False None True (loadDumpFile R True (s\<lparr>dump := z\<rparr>)))" for z
    by (rule quiet_trans[OF quiet_left[OF _ quiet_loadDump] quiet_sendNext]) (simp add: ballot_def)
  then have "quiet s ((sendNextNodeIdx a False None True (loadDumpFile R True (s\<lparr>dump := z\<rparr>)))\<lparr>commit_index := n\<rparr>)" for z n
    by (rule quiet_right) (simp add: ballot_def)
  then show ?thesis
    by (auto simp: install_snapshot_def Let_def case_prod_beta ballot_def intro: quiet_ballot)
qed

lemma quiet_part: "quiet s (snd (on_append_part R now a c k d prev s))"
  by (auto simp: on_append_part_def ballot_def split: part.split sum.split option.split
      intro: quiet_left[OF _ quiet_sendNext] quiet_left[OF _ quiet_accept] quiet_ballot)

text \<open>Following a leader of a term not below the own one.\<close>

definition follows :: "int \<Rightarrow> raft \<Rightarrow> raft \<Rightarrow> bool" where
  "follows t s s' \<longleftrightarrow> self_addr s' = self_addr s \<and> readonly_nodes s' = readonly_nodes s \<and> state s' = FOLLOWER \<and> current_term s' = max t (current_term s) \<and>
     voted_for s' = (if t > current_term s then None else voted_for s) \<and> adds_no_vote s s'"

lemma follows_leader:
  assumes "t \<ge> current_term s" and "quiet (follow_leader R now rnd a t c s) s'"
  shows "follows t s s'"
proof -
  let ?f = "follow_leader R now rnd a t c s"
  have f: "self_addr ?f = self_addr s" "readonly_nodes ?f = readonly_nodes s" "state ?f = FOLLOWER" "outbox ?f = outbox s"
    "current_term ?f = max t (current_term s)"
    "voted_for ?f = (if t > current_term s then None else voted_for s)"
    using assms(1) by (simp_all add: follow_leader_def Let_def onLeaderChanged_def max_def)
  have q: "self_addr s' = self_addr ?f" "readonly_nodes s' = readonly_nodes ?f" "current_term s' = current_term ?f" "voted_for s' = voted_for ?f"
    "state s' = state ?f \<or> state s' = FOLLOWER" "adds_no_vote ?f s'"
    using assms(2) unfolding quiet_def by blast+
  have "adds_no_vote s s'" using adds_no_vote_trans[OF adds_no_vote_refl[OF f(4)] q(6)] .
  then show ?thesis using q(1-5) f unfolding follows_def by simp
qed

text \<open>A message that is not of an election: the node stays in its term, or follows a leader.\<close>

lemma message_quiet:
  assumes "\<not> vote_message m"
  shows "quiet s (snd (onMessageReceived R now rnd rounds a m s)) \<or>
    (\<exists>t\<ge>current_term s. follows t s (snd (onMessageReceived R now rnd rounds a m s)))"
proof (cases m)
  case (Append_entries t c es prev)
  then show ?thesis by (cases "t \<ge> current_term s") (auto intro!: exI[of _ t] follows_leader[OF _ quiet_accept])
next
  case (Append_part t c k d prev)
  then show ?thesis by (cases "t \<ge> current_term s") (auto intro!: exI[of _ t] follows_leader[OF _ quiet_part])
next
  case (Append_snapshot t c td)
  then show ?thesis by (cases "t \<ge> current_term s") (auto intro!: exI[of _ t] follows_leader[OF _ quiet_install])
next
  case (Request_vote t i lt)
  with assms show ?thesis by simp
next
  case (Response_vote t)
  with assms show ?thesis by simp
qed (simp_all add: quiet.applyCommand quiet.response quiet.next_idx)

end
