(* ===== verification/RaftElection.thy ===== *)
theory RaftElection
  imports RaftFrame
begin

text \<open>
  Elections in a cluster. The nodes of a fixed set of members run the handlers of \<open>RaftNode\<close>;
  messages wait in a list and arrive in any order, or never. A run is restricted to steps that
  leave the members a node knows as they are, and no node restarts.
\<close>

section \<open>Quorums\<close>

locale quorum_system =
  fixes quorum :: "'a set \<Rightarrow> bool"
  assumes intersect: "quorum A \<Longrightarrow> quorum B \<Longrightarrow> A \<inter> B \<noteq> {}"
begin

text \<open>Voters that vote once elect one winner.\<close>

lemma unique_winner:
  assumes "quorum A" and "quorum B" and "\<forall>v\<in>A. vote v = Some a" and "\<forall>v\<in>B. vote v = Some b"
  shows "a = b"
  using intersect[OF assms(1,2)] assms(3,4) by force

end

definition majority_of :: "addr set \<Rightarrow> addr set \<Rightarrow> bool" where
  "majority_of M Q \<longleftrightarrow> finite M \<and> Q \<subseteq> M \<and> 2 * card Q > card M"

interpretation maj: quorum_system "majority_of M" for M
proof unfold_locales
  fix A B assume m: "majority_of M A" "majority_of M B"
  then have f: "finite A" "finite B" by (auto simp: majority_of_def intro: finite_subset)
  show "A \<inter> B \<noteq> {}"
  proof
    assume "A \<inter> B = {}"
    then have "card A + card B = card (A \<union> B)" using f by (simp add: card_Un_disjoint)
    also have "\<dots> \<le> card M" using m by (intro card_mono) (auto simp: majority_of_def)
    finally show False using m by (auto simp: majority_of_def)
  qed
qed

section \<open>The cluster\<close>

record cluster =
  procs :: "addr \<Rightarrow> raft"
  net :: "(addr \<times> addr \<times> message) list"

text \<open>The new state of a node is stored and the messages it sent go on the network.\<close>

definition flush :: "addr \<Rightarrow> raft \<Rightarrow> cluster \<Rightarrow> cluster" where
  "flush a s c =
     c\<lparr>procs := (procs c)(a := s\<lparr>outbox := []\<rparr>),
       net := net c @ map (\<lambda>(d, m). (a, d, m)) (outbox s)\<rparr>"

definition same_members :: "raft \<Rightarrow> raft \<Rightarrow> bool" where
  "same_members s s' \<longleftrightarrow> map peer_addr (nodes s') = map peer_addr (nodes s)"

inductive cluster_step :: "(addr \<Rightarrow> raft_env) \<Rightarrow> addr set \<Rightarrow> cluster \<Rightarrow> cluster \<Rightarrow> bool"
  for R M where
  tick: "a \<in> M \<Longrightarrow> s' = snd (onTick (R a) now rnd rounds cmds (procs c a)) \<Longrightarrow>
    same_members (procs c a) (tick_load (R a) (procs c a)) \<Longrightarrow> same_members (procs c a) s' \<Longrightarrow>
    cluster_step R M c (flush a s' c)"
| recv: "a \<in> M \<Longrightarrow> net c = xs @ (src, a, m) # ys \<Longrightarrow>
    s' = snd (onMessageReceived (R a) now rnd rounds src m (procs c a)) \<Longrightarrow>
    same_members (procs c a) s' \<Longrightarrow> cluster_step R M c (flush a s' (c\<lparr>net := xs @ ys\<rparr>))"
| lose: "net c = xs @ x # ys \<Longrightarrow> cluster_step R M c (c\<lparr>net := xs @ ys\<rparr>)"
| link: "a \<in> M \<Longrightarrow> s' = set_connected b up (procs c a) \<Longrightarrow> cluster_step R M c (flush a s' c)"
| client: "a \<in> M \<Longrightarrow> s' = applyCommand command cb (Some t) (procs c a) \<Longrightarrow> cluster_step R M c (flush a s' c)"

text \<open>Every member starts from \<open>__init__\<close>, with the other members as partners.\<close>

definition cluster_start :: "(addr \<Rightarrow> raft_env) \<Rightarrow> addr set \<Rightarrow> cluster \<Rightarrow> bool" where
  "cluster_start R M c \<longleftrightarrow> finite M \<and> net c = [] \<and>
     (\<forall>a\<in>M. \<exists>now deadline others journal dfile st. distinct others \<and> set others = M - {a} \<and>
        procs c a = raft_init (R a) now deadline (Some a) others journal dfile st)"

inductive cluster_reach :: "(addr \<Rightarrow> raft_env) \<Rightarrow> addr set \<Rightarrow> cluster \<Rightarrow> bool" for R M where
  start: "cluster_start R M c \<Longrightarrow> cluster_reach R M c"
| step: "cluster_reach R M c \<Longrightarrow> cluster_step R M c c' \<Longrightarrow> cluster_reach R M c'"

inductive_cases cluster_stepE: "cluster_step R M c c'"

section \<open>The invariant\<close>

text \<open>
  \<open>V v t\<close>: whom \<open>v\<close> has voted for in term \<open>t\<close>; \<open>C a t\<close>: whose votes \<open>a\<close> has counted in term
  \<open>t\<close>. A vote on the network is a vote given, not yet counted, and there only once.
\<close>

definition voters_ok :: "addr set \<Rightarrow> (addr \<Rightarrow> int \<Rightarrow> addr option) \<Rightarrow> (addr \<Rightarrow> raft) \<Rightarrow> bool" where
  "voters_ok M V P \<longleftrightarrow>
     (\<forall>a\<in>M. self_addr (P a) = Some a \<and> outbox (P a) = [] \<and> length (nodes (P a)) + 1 = card M \<and>
        voted_for (P a) = V a (current_term (P a)) \<and> (\<forall>t>current_term (P a). V a t = None)) \<and>
     (\<forall>v\<in>M. \<forall>t a. V v t = Some a \<longrightarrow> a \<in> M \<and> t \<le> current_term (P a))"

definition ballots_ok :: "addr set \<Rightarrow> (addr \<Rightarrow> int \<Rightarrow> addr option) \<Rightarrow> (addr \<Rightarrow> int \<Rightarrow> addr set) \<Rightarrow> (addr \<Rightarrow> raft) \<Rightarrow> bool" where
  "ballots_ok M V C P \<longleftrightarrow>
     (\<forall>a\<in>M. \<forall>t. C a t \<subseteq> M \<and> (\<forall>v\<in>C a t. V v t = Some a)) \<and>
     (\<forall>a\<in>M. state (P a) = CANDIDATE \<longrightarrow> votes_count (P a) = int (card (C a (current_term (P a))))) \<and>
     (\<forall>a\<in>M. state (P a) = LEADER \<longrightarrow> majority_of M (C a (current_term (P a))))"

definition votes_of :: "addr \<Rightarrow> int \<Rightarrow> (addr \<times> addr \<times> message) list \<Rightarrow> nat" where
  "votes_of v t ms = length (filter (\<lambda>(x, _, m). x = v \<and> m = Response_vote t) ms)"

definition net_ok ::
  "addr set \<Rightarrow> (addr \<Rightarrow> int \<Rightarrow> addr option) \<Rightarrow> (addr \<Rightarrow> int \<Rightarrow> addr set) \<Rightarrow> (addr \<Rightarrow> raft)
    \<Rightarrow> (addr \<times> addr \<times> message) list \<Rightarrow> bool" where
  "net_ok M V C P ms \<longleftrightarrow>
     (\<forall>v a t. (v, a, Response_vote t) \<in> set ms \<longrightarrow> v \<in> M \<and> a \<in> M \<and> V v t = Some a \<and> v \<notin> C a t) \<and>
     (\<forall>v t. votes_of v t ms \<le> 1) \<and>
     (\<forall>a v t i l. (a, v, Request_vote t i l) \<in> set ms \<longrightarrow> a \<in> M \<and> t \<le> current_term (P a))"

definition vote_inv :: "addr set \<Rightarrow> (addr \<Rightarrow> int \<Rightarrow> addr option) \<Rightarrow> (addr \<Rightarrow> int \<Rightarrow> addr set) \<Rightarrow> cluster \<Rightarrow> bool" where
  "vote_inv M V C c \<longleftrightarrow> finite M \<and> voters_ok M V (procs c) \<and> ballots_ok M V C (procs c) \<and> net_ok M V C (procs c) (net c)"

text \<open>Ballots that were counted stay counted.\<close>

definition ballots_grow :: "(addr \<Rightarrow> int \<Rightarrow> addr set) \<Rightarrow> (addr \<Rightarrow> int \<Rightarrow> addr set) \<Rightarrow> bool" where
  "ballots_grow C C' \<longleftrightarrow> (\<forall>a t. C a t \<subseteq> C' a t)"

lemma ballots_grow_refl [simp]: "ballots_grow C C"
  by (simp add: ballots_grow_def)

lemma voters_okD:
  assumes "voters_ok M V P" and "a \<in> M"
  shows "self_addr (P a) = Some a" "outbox (P a) = []" "length (nodes (P a)) + 1 = card M"
    "voted_for (P a) = V a (current_term (P a))" "\<And>t. t > current_term (P a) \<Longrightarrow> V a t = None"
  using assms unfolding voters_ok_def by blast+

lemma votes_of_append [simp]: "votes_of v t (xs @ ys) = votes_of v t xs + votes_of v t ys"
  by (simp add: votes_of_def)

lemma votes_of_Cons [simp]:
  "votes_of v t (x # xs) = (if fst x = v \<and> snd (snd x) = Response_vote t then 1 else 0) + votes_of v t xs"
  by (simp add: votes_of_def case_prod_beta)

lemma votes_of_Nil [simp]: "votes_of v t [] = 0"
  by (simp add: votes_of_def)

lemma votes_of_0: "(\<forall>a. (v, a, Response_vote t) \<notin> set ms) \<Longrightarrow> votes_of v t ms = 0"
  by (auto simp: votes_of_def filter_empty_conv)

lemma votes_of_pos: "(v, a, Response_vote t) \<in> set ms \<Longrightarrow> 0 < votes_of v t ms"
  by (auto simp: votes_of_def filter_empty_conv)

text \<open>Losing a message keeps it.\<close>

lemma vote_inv_lose:
  assumes "vote_inv M V C c" and "net c = xs @ x # ys"
  shows "vote_inv M V C (c\<lparr>net := xs @ ys\<rparr>)"
proof -
  have n: "net_ok M V C (procs c) (xs @ x # ys)" using assms by (simp add: vote_inv_def)
  have "votes_of v t (xs @ ys) \<le> 1" for v t
  proof -
    have "votes_of v t (xs @ x # ys) \<le> 1" using n unfolding net_ok_def by blast
    then show ?thesis by (simp split: if_splits)
  qed
  with n have "net_ok M V C (procs c) (xs @ ys)" unfolding net_ok_def by auto
  with assms(1) show ?thesis by (simp add: vote_inv_def)
qed

section \<open>Steps without a vote\<close>

definition calm :: "raft \<Rightarrow> raft \<Rightarrow> bool" where
  "calm s s' \<longleftrightarrow> self_addr s' = self_addr s \<and> adds_no_vote s s' \<and>
     (current_term s' = current_term s \<and> voted_for s' = voted_for s \<and>
        (state s' = FOLLOWER \<or> state s' = state s \<and> votes_count s' = votes_count s)
      \<or> current_term s' > current_term s \<and> voted_for s' = None \<and> state s' = FOLLOWER)"

lemma quiet_calm: "quiet s s' \<Longrightarrow> calm s s'"
  by (auto simp: quiet_def calm_def)

lemma follows_calm: "follows t s s' \<Longrightarrow> calm s s'"
  by (auto simp: follows_def calm_def max_def)

lemma same_members_length: "same_members s s' \<Longrightarrow> length (nodes s') = length (nodes s)"
  unfolding same_members_def by (metis length_map)

lemma flush_sel [simp]:
  "procs (flush a s c) = (procs c)(a := s\<lparr>outbox := []\<rparr>)"
  "net (flush a s c) = net c @ map (\<lambda>(d, m). (a, d, m)) (outbox s)"
  by (simp_all add: flush_def)

text \<open>A network that gains messages of which none is of an election.\<close>

lemma net_ok_mono:
  assumes "net_ok M V C P ms" and "\<forall>x\<in>set ns. \<not> vote_message (snd (snd x))"
    and "\<And>a. a \<in> M \<Longrightarrow> current_term (P a) \<le> current_term (P' a)"
  shows "net_ok M V C P' (ms @ ns)"
proof -
  have "(v, a, Response_vote t) \<notin> set ns" "(v, a, Request_vote t i l) \<notin> set ns" for v a t i l
    using assms(2) by force+
  moreover from this have "votes_of v t ns = 0" for v t by (simp add: votes_of_0)
  moreover have "t \<le> current_term (P' a)" if "(a, v, Request_vote t i l) \<in> set ms" for a v t i l
  proof -
    have "a \<in> M" "t \<le> current_term (P a)" using assms(1) that unfolding net_ok_def by blast+
    with assms(3)[of a] show ?thesis by simp
  qed
  ultimately show ?thesis
    using assms(1) unfolding net_ok_def by simp
qed

lemma calm_step:
  assumes inv: "vote_inv M V C c" and a: "a \<in> M" and calm: "calm (procs c a) s'"
    and mem: "same_members (procs c a) s'"
  shows "vote_inv M V C (flush a s' c)"
proof -
  let ?s = "procs c a" and ?P = "procs (flush a s' c)"
  have v: "voters_ok M V (procs c)" and b: "ballots_ok M V C (procs c)" and n: "net_ok M V C (procs c) (net c)"
    using inv by (simp_all add: vote_inv_def)
  have ct: "current_term ?s \<le> current_term s'" using calm by (auto simp: calm_def)
  have up: "current_term (procs c x) \<le> current_term (?P x)" for x using ct by simp
  have va: "self_addr ?s = Some a" "outbox ?s = []" "length (nodes ?s) + 1 = card M"
    "voted_for ?s = V a (current_term ?s)" "\<And>t. t > current_term ?s \<Longrightarrow> V a t = None"
    using v a unfolding voters_ok_def by blast+
  have "voted_for s' = V a (current_term s')" using calm va(4,5) by (auto simp: calm_def)
  then have a': "self_addr s' = Some a" "length (nodes s') + 1 = card M" "voted_for s' = V a (current_term s')"
    "\<And>t. t > current_term s' \<Longrightarrow> V a t = None"
    using calm va ct same_members_length[OF mem] by (auto simp: calm_def)
  have "voters_ok M V ?P"
    unfolding voters_ok_def
  proof (intro conjI ballI)
    fix x assume x: "x \<in> M"
    note vx = voters_okD[OF v x]
    show "self_addr (?P x) = Some x" "outbox (?P x) = []" "length (nodes (?P x)) + 1 = card M"
      "voted_for (?P x) = V x (current_term (?P x))" "\<forall>t>current_term (?P x). V x t = None"
      using vx a' by (auto simp: fun_upd_apply)
  next
    fix x assume x: "x \<in> M"
    show "\<forall>t y. V x t = Some y \<longrightarrow> y \<in> M \<and> t \<le> current_term (?P y)"
      using v x up order_trans unfolding voters_ok_def by blast
  qed
  moreover have "ballots_ok M V C ?P"
    using b a calm by (auto simp: ballots_ok_def calm_def)
  moreover have "net_ok M V C ?P (net (flush a s' c))"
  proof -
    have "\<forall>x\<in>set (map (\<lambda>(d, m). (a, d, m)) (outbox s')). \<not> vote_message (snd (snd x))"
      using calm va(2) by (auto simp: calm_def adds_no_vote_def)
    then show ?thesis unfolding flush_sel(2) using net_ok_mono[OF n _ up] by blast
  qed
  ultimately show ?thesis using inv by (simp add: vote_inv_def)
qed

section \<open>A candidacy\<close>

text \<open>\<open>fold\<close> of sends: the messages in the order of the nodes that are connected.\<close>

lemma fold_node_send:
  "fold (\<lambda>p. node_send p m) ps s = s\<lparr>outbox := outbox s @ map (\<lambda>p. (peer_addr p, m)) (filter connected ps)\<rparr>"
  by (induction ps arbitrary: s) (simp_all add: node_send_def)

definition stands :: "raft \<Rightarrow> raft \<Rightarrow> bool" where
  "stands s s' \<longleftrightarrow> self_addr s' = self_addr s \<and> current_term s' = current_term s + 1 \<and>
     voted_for s' = self_addr s \<and> (state s' = FOLLOWER \<or> votes_count s' = 1) \<and>
     (state s' = LEADER \<longrightarrow> majority s 1) \<and>
     (\<exists>ms. outbox s' = outbox s @ ms \<and>
        (\<forall>x\<in>set ms. vote_message (snd x) \<longrightarrow> (\<exists>i l. snd x = Request_vote (current_term s + 1) i l)))"

lemma quiet_stands: "stands s t \<Longrightarrow> quiet t u \<Longrightarrow> stands s u"
  unfolding stands_def quiet_def adds_no_vote_def by force

lemma tick_election_cases: "tick_election R now rnd rounds s = s \<or> stands s (tick_election R now rnd rounds s)"
proof (cases "\<exists>self. self_addr s = Some self \<and> state s \<noteq> LEADER \<and> election_deadline s < now \<and> connectedToAnyone s")
  case False
  then show ?thesis by (auto simp: tick_election_def split: option.split)
next
  case True
  then obtain self where self: "self_addr s = Some self" by blast
  let ?s1 = "s\<lparr>election_deadline := now + generateRaftTimeout R rnd, leader := None, state := CANDIDATE,
      current_term := current_term s + 1, voted_for := Some self, votes_count := 1\<rparr>"
  let ?m = "Request_vote (current_term s + 1) (getCurrentLogIndex ?s1) (getCurrentLogTerm ?s1)"
  let ?s3 = "onLeaderChanged (?s1\<lparr>outbox := outbox s @ map (\<lambda>p. (peer_addr p, ?m)) (filter connected (nodes s))\<rparr>)"
  have e: "tick_election R now rnd rounds s = (if majority ?s3 1 then onBecomeLeader R now rounds ?s3 else ?s3)"
    using True self by (auto simp: tick_election_def Let_def fold_node_send onLeaderChanged_def)
  have maj: "majority ?s3 1 = majority s 1" by (simp add: majority_def onLeaderChanged_def)
  have st: "stands s ?s3" using self by (auto simp: stands_def onLeaderChanged_def)
  have "stands s (?s3\<lparr>state := LEADER\<rparr>)" if "majority s 1"
    using self that by (auto simp: stands_def onLeaderChanged_def)
  then have "stands s (onBecomeLeader R now rounds ?s3)" if "majority s 1"
    using that quiet_stands quiet_becomeLeader by blast
  with e maj st show ?thesis by simp
qed

lemma stands_after_quiet:
  assumes "quiet s t" and "same_members s t" and "stands t u"
  shows "stands s u"
proof -
  have len: "length (nodes t) = length (nodes s)" using same_members_length[OF assms(2)] .
  then have maj: "majority t 1 = majority s 1" by (simp add: majority_def)
  obtain ms ns where ms: "outbox t = outbox s @ ms" "\<forall>x\<in>set ms. \<not> vote_message (snd x)"
    and ns: "outbox u = outbox t @ ns"
    "\<forall>x\<in>set ns. vote_message (snd x) \<longrightarrow> (\<exists>i l. snd x = Request_vote (current_term t + 1) i l)"
    using assms(1,3) unfolding quiet_def adds_no_vote_def stands_def by blast
  have "\<forall>x\<in>set (ms @ ns). vote_message (snd x) \<longrightarrow> (\<exists>i l. snd x = Request_vote (current_term t + 1) i l)"
    using ms(2) ns(2) by auto
  moreover have "outbox u = outbox s @ ms @ ns" using ms(1) ns(1) by simp
  ultimately show ?thesis using assms(1,3) maj unfolding quiet_def stands_def by metis
qed

lemma tick_cases:
  assumes "same_members s (tick_load R s)"
  shows "quiet s (snd (onTick R now rnd rounds cmds s)) \<or> stands s (snd (onTick R now rnd rounds cmds s))"
proof -
  let ?s0 = "tick_load R s"
  have "quiet ?s0 (snd (onTick R now rnd rounds cmds s)) \<or> stands ?s0 (snd (onTick R now rnd rounds cmds s))"
    using tick_election_cases[of R now rnd rounds ?s0] quiet_tick_rest[of R now rnd rounds s cmds] quiet_stands
    by (metis (full_types))
  then show ?thesis using quiet_trans[OF quiet_tick_load] stands_after_quiet[OF quiet_tick_load assms] by blast
qed

lemma stands_step:
  assumes inv: "vote_inv M V C c" and a: "a \<in> M" and st: "stands (procs c a) s'"
    and mem: "same_members (procs c a) s'"
  shows "\<exists>V C'. vote_inv M V C' (flush a s' c) \<and> ballots_grow C C' \<and> a \<in> C' a (current_term s')"
proof -
  let ?s = "procs c a" and ?P = "procs (flush a s' c)"
  let ?t = "current_term ?s + 1"
  let ?V = "V(a := (V a)(?t := Some a))" and ?C = "C(a := (C a)(?t := {a}))"
  have v: "voters_ok M V (procs c)" and b: "ballots_ok M V C (procs c)" and n: "net_ok M V C (procs c) (net c)"
    using inv by (simp_all add: vote_inv_def)
  have va: "self_addr ?s = Some a" "outbox ?s = []" "length (nodes ?s) + 1 = card M"
    and none: "\<And>t. t > current_term ?s \<Longrightarrow> V a t = None"
    using v a unfolding voters_ok_def by blast+
  have s': "self_addr s' = Some a" "current_term s' = ?t" "voted_for s' = Some a" "length (nodes s') + 1 = card M"
    "state s' = FOLLOWER \<or> votes_count s' = 1" "state s' = LEADER \<Longrightarrow> majority ?s 1"
    using st va same_members_length[OF mem] by (simp_all add: stands_def)
  obtain ms where ms: "outbox s' = ms"
    "\<forall>x\<in>set ms. vote_message (snd x) \<longrightarrow> (\<exists>i l. snd x = Request_vote ?t i l)"
    using st va(2) by (auto simp: stands_def)
  have up: "current_term (procs c x) \<le> current_term (?P x)" for x using s'(2) by simp
  have no_vote: "V w ?t \<noteq> Some a" if "w \<in> M" for w
  proof
    assume "V w ?t = Some a"
    with v that have "?t \<le> current_term ?s" unfolding voters_ok_def by blast
    then show False by simp
  qed
  have V: "?V w t = Some y \<Longrightarrow> V w t = Some y \<or> w = a \<and> t = ?t \<and> y = a" for w t y
    by (auto split: if_splits)
  have keep: "V w t = Some y \<Longrightarrow> ?V w t = Some y" for w t y
    using none[of ?t] by auto
  have "voters_ok M ?V ?P"
    unfolding voters_ok_def
  proof (intro conjI ballI)
    fix x assume x: "x \<in> M"
    note vx = voters_okD[OF v x]
    show "self_addr (?P x) = Some x" "outbox (?P x) = []" "length (nodes (?P x)) + 1 = card M"
      "voted_for (?P x) = ?V x (current_term (?P x))" "\<forall>t>current_term (?P x). ?V x t = None"
      using vx s' none by (auto simp: fun_upd_apply)
  next
    fix x assume x: "x \<in> M"
    show "\<forall>t y. ?V x t = Some y \<longrightarrow> y \<in> M \<and> t \<le> current_term (?P y)"
    proof (intro allI impI)
      fix t y assume "?V x t = Some y"
      with V consider "V x t = Some y" | "x = a" "t = ?t" "y = a" by blast
      then show "y \<in> M \<and> t \<le> current_term (?P y)"
        by cases (use v x up order_trans a s' in \<open>unfold voters_ok_def, blast, auto\<close>)
    qed
  qed
  moreover have "ballots_ok M ?V ?C ?P"
    unfolding ballots_ok_def
  proof (intro conjI ballI allI impI)
    fix x t assume x: "x \<in> M"
    show "?C x t \<subseteq> M" using b x a unfolding ballots_ok_def by auto
    fix w assume w: "w \<in> ?C x t"
    show "?V w t = Some x"
    proof (cases "x = a \<and> t = ?t")
      case True
      with w show ?thesis by simp
    next
      case False
      with w have "w \<in> C x t" by (auto split: if_splits)
      with b x have "V w t = Some x" unfolding ballots_ok_def by blast
      then show ?thesis by (rule keep)
    qed
  next
    fix x assume "x \<in> M" "state (?P x) = CANDIDATE"
    then show "votes_count (?P x) = int (card (?C x (current_term (?P x))))"
      using b s' unfolding ballots_ok_def by (cases "x = a") auto
  next
    fix x assume x: "x \<in> M" "state (?P x) = LEADER"
    show "majority_of M (?C x (current_term (?P x)))"
    proof (cases "x = a")
      case True
      with x s'(6) va(3) a s'(2) inv show ?thesis
        by (simp add: majority_of_def majority_def vote_inv_def)
    next
      case False
      with x b show ?thesis unfolding ballots_ok_def by simp
    qed
  qed
  moreover have "net_ok M ?V ?C ?P (net c @ map (\<lambda>(d, m). (a, d, m)) ms)"
    unfolding net_ok_def
  proof (intro conjI allI impI)
    have new: "(w, y, Response_vote t) \<notin> set (map (\<lambda>(d, m). (a, d, m)) ms)" for w y t
      using ms(2) by force
    fix w y t
    assume "(w, y, Response_vote t) \<in> set (net c @ map (\<lambda>(d, m). (a, d, m)) ms)"
    with new have old: "(w, y, Response_vote t) \<in> set (net c)" by auto
    then have o: "w \<in> M" "y \<in> M" "V w t = Some y" "w \<notin> C y t" using n unfolding net_ok_def by blast+
    then show "w \<in> M" "y \<in> M" "?V w t = Some y" using keep by blast+
    show "w \<notin> ?C y t" using o no_vote by auto
  next
    fix w t
    have "votes_of w t (map (\<lambda>(d, m). (a, d, m)) ms) = 0" using ms(2) by (intro votes_of_0) force
    then show "votes_of w t (net c @ map (\<lambda>(d, m). (a, d, m)) ms) \<le> 1" using n unfolding net_ok_def by simp
  next
    fix x y t i l
    assume r: "(x, y, Request_vote t i l) \<in> set (net c @ map (\<lambda>(d, m). (a, d, m)) ms)"
    from r have "(x, y, Request_vote t i l) \<in> set (net c) \<or> x = a" by auto
    with n a show "x \<in> M" unfolding net_ok_def by blast
    show "t \<le> current_term (?P x)"
    proof (cases "(x, y, Request_vote t i l) \<in> set (net c)")
      case True
      with n up order_trans show ?thesis unfolding net_ok_def by blast
    next
      case False
      with r ms(2) have "x = a" "t = ?t" by auto
      then show ?thesis using s'(2) by simp
    qed
  qed
  ultimately have "vote_inv M ?V ?C (flush a s' c)" using inv ms(1) by (simp add: vote_inv_def)
  moreover have "C a ?t = {}"
  proof -
    have "C a ?t \<subseteq> M" "\<forall>w\<in>C a ?t. V w ?t = Some a" using b a unfolding ballots_ok_def by blast+
    with no_vote show ?thesis by blast
  qed
  then have "ballots_grow C ?C \<and> a \<in> ?C a (current_term s')" using s'(2) by (simp add: ballots_grow_def)
  ultimately show ?thesis by blast
qed

section \<open>A vote given and a vote counted\<close>

text \<open>What \<open>request_vote\<close> does: the node settles in the higher term, and may grant its vote.\<close>

lemma request_vote_cases:
  obtains (no) "calm s (on_request_vote R now rnd a t i lt s)"
  | (grant) ms where "t \<ge> current_term s" "t > current_term s \<or> voted_for s = None"
      "self_addr (on_request_vote R now rnd a t i lt s) = self_addr s"
      "current_term (on_request_vote R now rnd a t i lt s) = t"
      "voted_for (on_request_vote R now rnd a t i lt s) = Some a"
      "state (on_request_vote R now rnd a t i lt s) = FOLLOWER \<or> t = current_term s \<and>
        state (on_request_vote R now rnd a t i lt s) = state s \<and> state s \<noteq> LEADER \<and>
        votes_count (on_request_vote R now rnd a t i lt s) = votes_count s"
      "outbox (on_request_vote R now rnd a t i lt s) = outbox s @ ms" "ms = [] \<or> ms = [(a, Response_vote t)]"
proof -
  define u where "u = (if t > current_term s
    then s\<lparr>current_term := t, voted_for := None, state := FOLLOWER, leader := None\<rparr> else s)"
  let ?s2 = "u\<lparr>voted_for := Some a, election_deadline := now + generateRaftTimeout R rnd\<rparr>"
  let ?r = "on_request_vote R now rnd a t i lt s"
  have calm: "calm s u" by (auto simp: u_def calm_def intro: adds_no_vote_refl)
  have u: "self_addr u = self_addr s" "votes_count u = votes_count s" "outbox u = outbox s"
    "current_term u = max t (current_term s)" "t > current_term s \<Longrightarrow> state u = FOLLOWER"
    "t \<le> current_term s \<Longrightarrow> u = s"
    by (simp_all add: u_def max_def)
  have "?r = s \<or> ?r = u \<or> ?r = send_to a (Response_vote t) ?s2 \<and> t \<ge> current_term u \<and>
      voted_for u = None \<and> state u \<noteq> LEADER"
    unfolding on_request_vote_def Let_def u_def[symmetric] by simp
  then consider "?r = s" | "?r = u"
    | "?r = send_to a (Response_vote t) ?s2" "t \<ge> current_term u" "voted_for u = None" "state u \<noteq> LEADER"
    by (elim disjE conjE)
  then show thesis
  proof cases
    case 1
    then show ?thesis using no quiet_calm[OF quiet_refl] by simp
  next
    case 2
    with calm no show ?thesis by simp
  next
    case 3
    obtain ms where r: "?r = ?s2\<lparr>outbox := outbox s @ ms\<rparr>" "ms = [] \<or> ms = [(a, Response_vote t)]"
    proof (cases "find (\<lambda>p. peer_addr p = a) (nodes u @ readonly_nodes u)")
      case None
      then have "?r = ?s2\<lparr>outbox := outbox s @ []\<rparr>" using 3(1) u(3) by (simp add: send_to_def)
      then show ?thesis by (rule that) simp
    next
      case (Some p)
      then have "peer_addr p = a" by (auto simp: find_Some_iff)
      with Some have "?r = ?s2\<lparr>outbox := outbox s @ (if connected p then [(a, Response_vote t)] else [])\<rparr>"
        using 3(1) u(3) by (simp add: send_to_def node_send_def)
      then show ?thesis by (rule that) simp
    qed
    have le: "current_term s \<le> t" using 3(2) u(4) by simp
    show ?thesis
    proof (rule grant)
      show "t > current_term s \<or> voted_for s = None" using 3(3) u(6) by (cases "t > current_term s") auto
      show "state ?r = FOLLOWER \<or> t = current_term s \<and> state ?r = state s \<and> state s \<noteq> LEADER \<and> votes_count ?r = votes_count s"
      proof (cases "t > current_term s")
        case True
        with u(5) r(1) show ?thesis by simp
      next
        case False
        with le u(6) r(1) 3(4) show ?thesis by simp
      qed
      show "current_term ?r = t" using le u(4) r(1) by simp
    qed (use r u le in simp_all)
  qed
qed

lemma grant_step:
  assumes inv: "vote_inv M V C c" and a: "a \<in> M" and src: "src \<in> M" "t \<le> current_term (procs c src)"
    and g: "t \<ge> current_term (procs c a)" "t > current_term (procs c a) \<or> voted_for (procs c a) = None"
      "self_addr s' = self_addr (procs c a)" "current_term s' = t" "voted_for s' = Some src"
      "state s' = FOLLOWER \<or> t = current_term (procs c a) \<and> state s' = state (procs c a) \<and>
         state (procs c a) \<noteq> LEADER \<and> votes_count s' = votes_count (procs c a)"
      "outbox s' = outbox (procs c a) @ ms" "ms = [] \<or> ms = [(src, Response_vote t)]"
    and mem: "same_members (procs c a) s'"
  shows "\<exists>V. vote_inv M V C (flush a s' c)"
proof -
  let ?s = "procs c a" and ?P = "procs (flush a s' c)"
  let ?V = "V(a := (V a)(t := Some src))"
  have v: "voters_ok M V (procs c)" and b: "ballots_ok M V C (procs c)" and n: "net_ok M V C (procs c) (net c)"
    using inv by (simp_all add: vote_inv_def)
  note va = voters_okD[OF v a]
  have fresh: "V a t = None"
  proof (cases "t > current_term ?s")
    case True
    then show ?thesis by (rule va(5))
  next
    case False
    with g(1,2) have "t = current_term ?s" "voted_for ?s = None" by auto
    with va(4) show ?thesis by simp
  qed
  have out: "outbox s' = ms" "length (nodes s') + 1 = card M" "self_addr s' = Some a"
    using g va same_members_length[OF mem] by simp_all
  have up: "current_term (procs c x) \<le> current_term (?P x)" for x using g(1,4) by simp
  have keep: "V w u = Some y \<Longrightarrow> ?V w u = Some y" for w u y using fresh by auto
  have "voters_ok M ?V ?P"
    unfolding voters_ok_def
  proof (intro conjI ballI)
    fix x assume x: "x \<in> M"
    note vx = voters_okD[OF v x]
    have nn: "?V a u = None" if "u > t" for u using va(5)[of u] that g(1) by simp
    show "self_addr (?P x) = Some x" "outbox (?P x) = []" "length (nodes (?P x)) + 1 = card M"
      "voted_for (?P x) = ?V x (current_term (?P x))"
      using vx out g(4,5) by (cases "x = a"; simp)+
    show "\<forall>u>current_term (?P x). ?V x u = None"
      using nn vx(5) g(4) by (cases "x = a") simp_all
  next
    fix x assume x: "x \<in> M"
    show "\<forall>u y. ?V x u = Some y \<longrightarrow> y \<in> M \<and> u \<le> current_term (?P y)"
    proof (intro allI impI)
      fix u y assume "?V x u = Some y"
      then have "V x u = Some y \<or> x = a \<and> u = t \<and> y = src" by (metis fun_upd_apply option.inject)
      then consider "V x u = Some y" | "x = a" "u = t" "y = src" by (elim disjE conjE)
      then show "y \<in> M \<and> u \<le> current_term (?P y)"
      proof cases
        case 1
        with v x up[of y] order_trans show ?thesis unfolding voters_ok_def by blast
      next
        case 2
        with src up[of src] show ?thesis by simp
      qed
    qed
  qed
  moreover have "ballots_ok M ?V C ?P"
    unfolding ballots_ok_def
  proof (intro conjI ballI allI impI)
    fix x u assume x: "x \<in> M"
    show "C x u \<subseteq> M" using b x unfolding ballots_ok_def by blast
    fix w assume "w \<in> C x u"
    with b x have "V w u = Some x" unfolding ballots_ok_def by blast
    then show "?V w u = Some x" by (rule keep)
  next
    fix x assume x: "x \<in> M" "state (?P x) = CANDIDATE"
    then show "votes_count (?P x) = int (card (C x (current_term (?P x))))"
      using b g(4,6) unfolding ballots_ok_def by (cases "x = a") auto
  next
    fix x assume x: "x \<in> M" "state (?P x) = LEADER"
    then show "majority_of M (C x (current_term (?P x)))"
      using b g(4,6) unfolding ballots_ok_def by (cases "x = a") auto
  qed
  moreover have "net_ok M ?V C ?P (net c @ map (\<lambda>(d, m). (a, d, m)) ms)"
    unfolding net_ok_def
  proof (intro conjI allI impI)
    fix w y u
    assume m: "(w, y, Response_vote u) \<in> set (net c @ map (\<lambda>(d, m). (a, d, m)) ms)"
    consider "(w, y, Response_vote u) \<in> set (net c)" | "w = a" "y = src" "u = t"
      using m g(8) by auto
    then have o: "w \<in> M \<and> y \<in> M \<and> ?V w u = Some y \<and> w \<notin> C y u"
    proof cases
      case 1
      then show ?thesis using n keep unfolding net_ok_def by blast
    next
      case 2
      have "a \<notin> C src t"
      proof
        assume "a \<in> C src t"
        with b src(1) have "V a t = Some src" unfolding ballots_ok_def by blast
        with fresh show False by simp
      qed
      with 2 a src show ?thesis by simp
    qed
    then show "w \<in> M" "y \<in> M" "?V w u = Some y" "w \<notin> C y u" by blast+
  next
    fix w u
    have le: "votes_of w u (net c) \<le> 1" using n unfolding net_ok_def by blast
    have "votes_of a t (net c) = 0"
      using n fresh unfolding net_ok_def by (intro votes_of_0) fastforce
    with le g(8) show "votes_of w u (net c @ map (\<lambda>(d, m). (a, d, m)) ms) \<le> 1" by auto
  next
    fix x y u i l
    assume "(x, y, Request_vote u i l) \<in> set (net c @ map (\<lambda>(d, m). (a, d, m)) ms)"
    with g(8) have "(x, y, Request_vote u i l) \<in> set (net c)" by auto
    with n have "x \<in> M" "u \<le> current_term (procs c x)" unfolding net_ok_def by blast+
    with up[of x] show "x \<in> M" "u \<le> current_term (?P x)" by simp_all
  qed
  ultimately have "vote_inv M ?V C (flush a s' c)" using inv out(1) by (simp add: vote_inv_def)
  then show ?thesis by blast
qed

text \<open>A vote counted: the voter moves from the network into the ballots.\<close>

lemma response_vote_cases:
  obtains (no) "on_response_vote R now rounds t s = s"
  | (counted) "state s = CANDIDATE" "t = current_term s"
      "self_addr (on_response_vote R now rounds t s) = self_addr s"
      "current_term (on_response_vote R now rounds t s) = t"
      "voted_for (on_response_vote R now rounds t s) = voted_for s"
      "state (on_response_vote R now rounds t s) = FOLLOWER \<or>
       votes_count (on_response_vote R now rounds t s) = votes_count s + 1"
      "state (on_response_vote R now rounds t s) = LEADER \<longrightarrow> majority s (votes_count s + 1)"
      "adds_no_vote s (on_response_vote R now rounds t s)"
proof (cases "state s = CANDIDATE \<and> t = current_term s")
  case False
  then show thesis by (intro no) (auto simp: on_response_vote_def)
next
  case True
  let ?s1 = "s\<lparr>votes_count := votes_count s + 1\<rparr>"
  let ?r = "on_response_vote R now rounds t s"
  have maj: "majority ?s1 n = majority s n" for n by (simp add: majority_def)
  have r: "?r = (if majority s (votes_count s + 1) then onBecomeLeader R now rounds ?s1 else ?s1)"
    using True by (simp add: on_response_vote_def Let_def maj)
  have s1: "adds_no_vote s (?s1\<lparr>state := LEADER\<rparr>)" "adds_no_vote s ?s1"
    by (rule adds_no_vote_refl, simp)+
  have q: "quiet (?s1\<lparr>state := LEADER\<rparr>) (onBecomeLeader R now rounds ?s1)"
    by (rule quiet_becomeLeader)
  show thesis
  proof (rule counted)
    show "adds_no_vote s ?r"
      using q s1 adds_no_vote_trans unfolding r quiet_def by auto
  qed (use True q r in \<open>auto simp: quiet_def\<close>)
qed

lemma count_step:
  assumes inv: "vote_inv M V C c" and a: "a \<in> M" and src: "src \<in> M"
    and vote: "V src t = Some a" "src \<notin> C a t" "\<And>y. (src, y, Response_vote t) \<notin> set (net c)"
    and st: "state (procs c a) = CANDIDATE" "t = current_term (procs c a)"
    and g: "self_addr s' = self_addr (procs c a)" "current_term s' = t" "voted_for s' = voted_for (procs c a)"
      "state s' = FOLLOWER \<or> votes_count s' = votes_count (procs c a) + 1"
      "state s' = LEADER \<longrightarrow> majority (procs c a) (votes_count (procs c a) + 1)"
      "adds_no_vote (procs c a) s'"
    and mem: "same_members (procs c a) s'"
  shows "\<exists>C'. vote_inv M V C' (flush a s' c) \<and> ballots_grow C C'"
proof -
  let ?s = "procs c a" and ?P = "procs (flush a s' c)"
  let ?C = "C(a := (C a)(t := insert src (C a t)))"
  have v: "voters_ok M V (procs c)" and b: "ballots_ok M V C (procs c)" and n: "net_ok M V C (procs c) (net c)"
    and fin: "finite M" using inv by (simp_all add: vote_inv_def)
  note va = voters_okD[OF v a]
  have up: "current_term (procs c x) \<le> current_term (?P x)" for x using g(2) st(2) by simp
  have Ca: "C a t \<subseteq> M" "votes_count ?s = int (card (C a t))"
    using b a st unfolding ballots_ok_def by blast+
  then have card: "card (insert src (C a t)) = Suc (card (C a t))"
    using fin vote(2) by (simp add: finite_subset)
  have out: "length (nodes s') + 1 = card M" using va(3) same_members_length[OF mem] by simp
  have "voters_ok M V ?P"
    unfolding voters_ok_def
  proof (intro conjI ballI)
    fix x assume x: "x \<in> M"
    note vx = voters_okD[OF v x]
    show "self_addr (?P x) = Some x" "outbox (?P x) = []" "length (nodes (?P x)) + 1 = card M"
      "voted_for (?P x) = V x (current_term (?P x))"
      using vx va out g(1-3) st(2) by (cases "x = a"; simp)+
    show "\<forall>u>current_term (?P x). V x u = None"
      using vx(5) va(5) g(2) st(2) by (cases "x = a") simp_all
  next
    fix x assume x: "x \<in> M"
    show "\<forall>u y. V x u = Some y \<longrightarrow> y \<in> M \<and> u \<le> current_term (?P y)"
      using v x up order_trans unfolding voters_ok_def by blast
  qed
  moreover have "ballots_ok M V ?C ?P"
    unfolding ballots_ok_def
  proof (intro conjI ballI allI impI)
    fix x u assume x: "x \<in> M"
    show "?C x u \<subseteq> M" using b x src Ca unfolding ballots_ok_def by auto
    fix w assume w: "w \<in> ?C x u"
    show "V w u = Some x"
    proof (cases "w = src \<and> x = a \<and> u = t")
      case True
      with vote(1) show ?thesis by simp
    next
      case False
      with w have "w \<in> C x u" by (auto split: if_splits)
      with b x show ?thesis unfolding ballots_ok_def by blast
    qed
  next
    fix x assume x: "x \<in> M" "state (?P x) = CANDIDATE"
    then show "votes_count (?P x) = int (card (?C x (current_term (?P x))))"
      using b g(2,4) Ca(2) card unfolding ballots_ok_def by (cases "x = a") auto
  next
    fix x assume x: "x \<in> M" "state (?P x) = LEADER"
    show "majority_of M (?C x (current_term (?P x)))"
    proof (cases "x = a")
      case True
      have "2 * (int (card (C a t)) + 1) > int (card M)"
        using True x g(5) Ca(2) va(3) by (simp add: majority_def)
      then show ?thesis using True g(2) card fin src Ca(1) by (simp add: majority_of_def)
    next
      case False
      with x b show ?thesis unfolding ballots_ok_def by simp
    qed
  qed
  moreover have "net_ok M V ?C ?P (net (flush a s' c))"
  proof -
    have "\<forall>x\<in>set (map (\<lambda>(d, m). (a, d, m)) (outbox s')). \<not> vote_message (snd (snd x))"
      using g(6) va(2) by (auto simp: adds_no_vote_def)
    then have "net_ok M V C ?P (net (flush a s' c))" unfolding flush_sel(2) using net_ok_mono[OF n _ up] by blast
    moreover have "(src, y, Response_vote t) \<notin> set (net (flush a s' c))" for y
      using vote(3) g(6) va(2) by (auto simp: adds_no_vote_def)
    ultimately show ?thesis unfolding net_ok_def by auto
  qed
  ultimately have "vote_inv M V ?C (flush a s' c)" using fin by (simp add: vote_inv_def)
  moreover have "ballots_grow C ?C" by (auto simp: ballots_grow_def)
  ultimately show ?thesis by blast
qed

section \<open>Every step keeps the invariant\<close>

lemma recv_keeps:
  assumes inv: "vote_inv M V C c" and a: "a \<in> M" and n: "net c = xs @ (src, a, m) # ys"
    and s': "s' = snd (onMessageReceived R now rnd rounds src m (procs c a))"
    and mem: "same_members (procs c a) s'"
  shows "\<exists>V C'. vote_inv M V C' (flush a s' (c\<lparr>net := xs @ ys\<rparr>)) \<and> ballots_grow C C'"
proof -
  let ?c = "c\<lparr>net := xs @ ys\<rparr>"
  have inv': "vote_inv M V C ?c" using inv n by (rule vote_inv_lose)
  have m: "(src, a, m) \<in> set (net c)" using n by simp
  have nok: "net_ok M V C (procs c) (net c)" using inv by (simp add: vote_inv_def)
  have calm: ?thesis if "calm (procs c a) s'"
    using calm_step[OF inv' a, of s'] that mem ballots_grow_refl by (simp, blast)
  show ?thesis
  proof (cases "vote_message m")
    case False
    then have "calm (procs c a) s'"
      using message_quiet[OF False, of "procs c a" R now rnd rounds src] quiet_calm follows_calm
      unfolding s' by blast
    then show ?thesis by (rule calm)
  next
    case True
    then consider t i lt where "m = Request_vote t i lt" | t where "m = Response_vote t"
      by (cases m) auto
    then show ?thesis
    proof cases
      case (1 t i lt)
      have s: "s' = on_request_vote R now rnd src t i lt (procs c a)" using s' 1 by simp
      have sr: "src \<in> M" "t \<le> current_term (procs c src)" using nok m 1 unfolding net_ok_def by blast+
      show ?thesis
      proof (cases rule: request_vote_cases[of "procs c a" R now rnd src t i lt])
        case no
        then show ?thesis using calm s by simp
      next
        case (grant ms)
        then have "\<exists>V. vote_inv M V C (flush a s' ?c)"
          using grant_step[OF inv' a _ _ _ _ _ _ _ _ _ _ _, of src t s' ms] sr mem s by auto
        then show ?thesis using ballots_grow_refl by blast
      qed
    next
      case (2 t)
      have s: "s' = on_response_vote R now rounds t (procs c a)" using s' 2 by simp
      have vt: "src \<in> M" "V src t = Some a" "src \<notin> C a t" using nok m 2 unfolding net_ok_def by blast+
      have one: "(src, y, Response_vote t) \<notin> set (xs @ ys)" for y
      proof
        assume "(src, y, Response_vote t) \<in> set (xs @ ys)"
        then have "0 < votes_of src t (xs @ ys)" by (rule votes_of_pos)
        moreover have "votes_of src t (net c) \<le> 1" using nok unfolding net_ok_def by blast
        ultimately show False using n 2 by simp
      qed
      show ?thesis
      proof (cases rule: response_vote_cases[of R now rounds t "procs c a"])
        case no
        then show ?thesis using calm s quiet_calm[OF quiet_refl] by simp
      next
        case counted
        then show ?thesis
          using count_step[OF inv' a vt(1-3), of s'] one mem s by auto
      qed
    qed
  qed
qed

lemma step_keeps:
  assumes "cluster_step R M c c'" and inv: "vote_inv M V C c"
  shows "\<exists>V C'. vote_inv M V C' c' \<and> ballots_grow C C'"
  using assms(1)
proof cases
  case (tick a s' now rnd rounds cmds)
  then show ?thesis
    using tick_cases[OF tick(4), of now rnd rounds cmds] quiet_calm calm_step[OF inv] stands_step[OF inv] ballots_grow_refl
    by blast
next
  case (recv a xs src m ys s' now rnd rounds)
  then show ?thesis using recv_keeps[OF inv] by blast
next
  case (lose xs x ys)
  then show ?thesis using vote_inv_lose[OF inv] ballots_grow_refl by blast
next
  case (link a s' b up)
  have "calm (procs c a) s'" unfolding link(3)
    by (simp add: set_connected_def Let_def calm_def adds_no_vote_refl)
  moreover have "same_members (procs c a) s'"
    unfolding link(3) by (simp add: same_members_def set_connected_def Let_def comp_def)
  ultimately show ?thesis using link calm_step[OF inv] ballots_grow_refl by blast
next
  case (client a s' command cb t)
  have "same_members (procs c a) s'" unfolding client(3)
    by (auto simp: same_members_def applyCommand_def Let_def callErrCallback_def send_to_def node_send_def fire_def
        split: prod.split sum.split option.split callback.split)
  then show ?thesis using client calm_step[OF inv] quiet_calm quiet_applyCommand ballots_grow_refl by blast
qed

lemma start_inv:
  assumes "cluster_start R M c"
  shows "vote_inv M (\<lambda>_ _. None) (\<lambda>_ _. {}) c"
proof -
  have fin: "finite M" and net: "net c = []" using assms by (simp_all add: cluster_start_def)
  have p: "self_addr (procs c a) = Some a \<and> outbox (procs c a) = [] \<and> length (nodes (procs c a)) + 1 = card M \<and>
      voted_for (procs c a) = None \<and> state (procs c a) = FOLLOWER" if a: "a \<in> M" for a
  proof -
    obtain now deadline others journal dfile st where o: "distinct others" "set others = M - {a}"
      and e: "procs c a = raft_init (R a) now deadline (Some a) others journal dfile st"
      using bspec[OF conjunct2[OF conjunct2[OF assms[unfolded cluster_start_def]]] a] by (elim exE conjE) (rule that)
    have "length others = card (M - {a})" using distinct_card[OF o(1)] o(2) by simp
    moreover have "card (M - {a}) + 1 = card M" using card_Suc_Diff1[OF fin a] by simp
    ultimately show ?thesis by (simp add: e raft_init_def Let_def)
  qed
  show ?thesis
    using p fin net unfolding vote_inv_def voters_ok_def ballots_ok_def net_ok_def by simp
qed

lemma reach_inv: "cluster_reach R M c \<Longrightarrow> \<exists>V C. vote_inv M V C c"
  by (induction rule: cluster_reach.induct) (use start_inv step_keeps in blast)+

text \<open>One node at most wins the ballots of a term.\<close>

lemma one_winner:
  assumes "vote_inv M V C c" and "a \<in> M" "b \<in> M" and "majority_of M (C a t)" "majority_of M (C b t)"
  shows "a = b"
proof -
  have bo: "ballots_ok M V C (procs c)" using assms(1) by (simp add: vote_inv_def)
  have "\<forall>v\<in>C a t. V v t = Some a" "\<forall>v\<in>C b t. V v t = Some b"
    using bo assms(2,3) unfolding ballots_ok_def by blast+
  with assms(4,5) show ?thesis by (rule maj.unique_winner)
qed

lemma leader_won:
  "vote_inv M V C c \<Longrightarrow> a \<in> M \<Longrightarrow> state (procs c a) = LEADER \<Longrightarrow> majority_of M (C a (current_term (procs c a)))"
  unfolding vote_inv_def ballots_ok_def by blast

lemma one_leader:
  assumes "vote_inv M V C c" and "a \<in> M" "b \<in> M" and "state (procs c a) = LEADER" "state (procs c b) = LEADER"
    and "current_term (procs c a) = current_term (procs c b)"
  shows "a = b"
  using one_winner[OF assms(1-3)] leader_won[OF assms(1)] assms(2-6) by metis

lemma majority_grows:
  assumes "vote_inv M V C' c" and "a \<in> M" and "ballots_grow C C'" and "majority_of M (C a t)"
  shows "majority_of M (C' a t)"
proof -
  have sub: "C a t \<subseteq> C' a t" "C' a t \<subseteq> M" and fin: "finite M"
    using assms(1-3) unfolding ballots_grow_def vote_inv_def ballots_ok_def by blast+
  then have "card (C a t) \<le> card (C' a t)" by (meson card_mono finite_subset)
  with sub fin assms(4) show ?thesis by (simp add: majority_of_def)
qed

end
