(* ===== verification/TcpConn.thy ===== *)
theory TcpConn
  imports Struct
begin

text \<open>
  A connection, \<open>pysyncobjbc/tcp_connection.py\<close>: messages framed by their length over a
  non-blocking socket, optionally encrypted and tagged with a session key, and the state machine
  its poller drives. The answers of the socket are part of the state (\<open>answers\<close>, \<open>incoming\<close>:
  what the next calls of \<open>send\<close> and \<open>recv\<close> return; with none left, a call would block).
  \<open>on_wire\<close> records the bytes the socket took since the connection was made; no operation reads it.
  The object that owns the connection is \<open>owner\<close>, its callbacks are arguments.
\<close>

section \<open>Messages\<close>

text \<open>
  The Python values that are sent: an address, a key, a dictionary or list of the protocol, and
  the pair of a key and a message. \<open>truthy\<close> is Python's test of such a value.
\<close>

datatype 'm packet = Nothing | Text string | Bytes bytes | Body 'm | Pair "'m packet" "'m packet"

fun truthy :: "'m packet \<Rightarrow> bool" where
  "truthy Nothing = False"
| "truthy (Text s) = (s \<noteq> [])"
| "truthy (Bytes b) = (b \<noteq> [])"
| "truthy (Body m) = True"
| "truthy (Pair k m) = True"

text \<open>Pickle, zlib and the cipher; \<open>encrypt\<close> is the cipher of the configured password.\<close>

record 'm msg_codec =
  dumps :: "'m packet \<Rightarrow> bytes"
  loads :: "bytes \<Rightarrow> py_error + 'm packet"
  compress :: "bytes \<Rightarrow> bytes"
  decompress :: "bytes \<Rightarrow> py_error + bytes"
  encrypt :: "bytes \<Rightarrow> bytes"
  decrypt :: "bytes \<Rightarrow> py_error + bytes"

section \<open>State\<close>

datatype conn_state = DISCONNECTED | CONNECTING | CONNECTED

datatype poll_flag = READ | WRITE | ERROR

datatype send_result = Took int | Send_blocks | Send_fails

text \<open>The bytes received, and whether the socket has an error pending after that.\<close>

datatype recv_result = Got bytes bool | Recv_blocks | Recv_fails

datatype connect_result = Connects_on nat | Connect_fails

record ('a, 'm) tcp =
  owner :: 'a
  cstate :: conn_state
  fileno :: "nat option"
  has_socket :: bool
  readBuffer :: bytes
  writeBuffer :: bytes
  lastReadTime :: rat
  conn_timeout :: rat
  sendRandKey :: "'m packet"
  recvRandKey :: "'m packet"
  encryptor :: bool
  polled :: "nat \<Rightarrow> poll_flag set option"
  answers :: "send_result list"
  incoming :: "recv_result list"
  on_wire :: bytes

text \<open>A connection made around an accepted socket, or without one.\<close>

definition TcpConnection :: "'a \<Rightarrow> rat \<Rightarrow> rat \<Rightarrow> nat option \<Rightarrow> ('a, 'm) tcp" where
  "TcpConnection own now tmo sock =
     \<lparr>owner = own, cstate = (case sock of None \<Rightarrow> DISCONNECTED | Some fd \<Rightarrow> CONNECTED), fileno = sock,
      has_socket = (sock \<noteq> None), readBuffer = [], writeBuffer = [], lastReadTime = now, conn_timeout = tmo,
      sendRandKey = Nothing, recvRandKey = Nothing, encryptor = False,
      polled = (\<lambda>d. if Some d = sock then Some {READ, WRITE, ERROR} else None),
      answers = [], incoming = [], on_wire = []\<rparr>"

section \<open>Connecting and disconnecting\<close>

text \<open>
  \<open>host\<close> is the resolved address, if any, and whether it is an address of a known family.
\<close>

definition connect :: "rat \<Rightarrow> bool option \<Rightarrow> connect_result \<Rightarrow> (('a, 'm) tcp, bool) eff" where
  "connect now host res t =
     (let t1 = t\<lparr>cstate := DISCONNECTED, fileno := None\<rparr> in
      (case host of
         None \<Rightarrow> (Inl TypeError, t1)
       | Some False \<Rightarrow> (Inl UnknownAddress, t1)
       | Some True \<Rightarrow>
           let t2 = t1\<lparr>has_socket := True, readBuffer := [], writeBuffer := [], lastReadTime := now, on_wire := []\<rparr> in
           (case res of
              Connect_fails \<Rightarrow> (Inr False, t2)
            | Connects_on fd \<Rightarrow>
                (Inr True, t2\<lparr>fileno := Some fd, cstate := CONNECTING,
                              polled := (polled t2)(fd := Some {READ, WRITE, ERROR})\<rparr>))))"

definition disconnect :: "('a \<Rightarrow> 'a) \<Rightarrow> ('a, 'm) tcp \<Rightarrow> ('a, 'm) tcp" where
  "disconnect onDisc t =
     t\<lparr>owner := (if cstate t \<noteq> DISCONNECTED then onDisc (owner t) else owner t),
       sendRandKey := Nothing, recvRandKey := Nothing, encryptor := False, has_socket := False,
       polled := (case fileno t of None \<Rightarrow> polled t | Some fd \<Rightarrow> (polled t)(fd := None)),
       fileno := None, writeBuffer := [], readBuffer := [], cstate := DISCONNECTED\<rparr>"

section \<open>Sending\<close>

definition processSend :: "('a \<Rightarrow> 'a) \<Rightarrow> (('a, 'm) tcp, bool) eff" where
  "processSend onDisc t =
     (if writeBuffer t = [] then (Inr False, t)
      else if \<not> has_socket t then (Inl AttributeError, t)
      else
        (case answers t of
           [] \<Rightarrow> (Inr False, t)
         | a # rest \<Rightarrow>
             let t1 = t\<lparr>answers := rest\<rparr> in
             (case a of
                Took n \<Rightarrow>
                  if n < 0 then (Inr False, disconnect onDisc t1)
                  else if n = 0 then (Inr False, t1)
                  else (Inr True, t1\<lparr>writeBuffer := drop (nat n) (writeBuffer t),
                                     on_wire := on_wire t @ take (nat n) (writeBuffer t)\<rparr>)
              | Send_blocks \<Rightarrow> (Inr False, t1)
              | Send_fails \<Rightarrow> (Inr False, disconnect onDisc t1))))"

function trySendBuffer :: "('a \<Rightarrow> 'a) \<Rightarrow> (('a, 'm) tcp, unit) eff" where
  "trySendBuffer onDisc t =
     (case processSend onDisc t of
        (Inl e, t1) \<Rightarrow> (Inl e, t1)
      | (Inr False, t1) \<Rightarrow> (Inr (), t1)
      | (Inr True, t1) \<Rightarrow> trySendBuffer onDisc t1)"
  by pat_completeness auto
termination
  by (relation "measure (\<lambda>(onDisc, t). length (answers t))")
     (auto simp: processSend_def Let_def split: if_splits list.splits send_result.splits)

declare trySendBuffer.simps [simp del]

definition tagged :: "'m packet \<Rightarrow> 'm packet \<Rightarrow> 'm packet" where
  "tagged key m = (if truthy key then Pair key m else m)"

definition payload :: "'m msg_codec \<Rightarrow> bool \<Rightarrow> 'm packet \<Rightarrow> 'm packet \<Rightarrow> bytes" where
  "payload c enc key m =
     (let d = compress c (dumps c (tagged key m)) in if enc then encrypt c d else d)"

definition tcp_send :: "'m msg_codec \<Rightarrow> ('a \<Rightarrow> 'a) \<Rightarrow> 'm packet \<Rightarrow> (('a, 'm) tcp, unit) eff" where
  "tcp_send c onDisc m t =
     (let d = payload c (encryptor t) (sendRandKey t) m in
      (case pack_sint 4 (int (length d)) of
         Inl e \<Rightarrow> (Inl e, t)
       | Inr l \<Rightarrow> trySendBuffer onDisc (t\<lparr>writeBuffer := writeBuffer t @ l @ d\<rparr>)))"

section \<open>Receiving\<close>

definition processRead :: "('a \<Rightarrow> 'a) \<Rightarrow> (('a, 'm) tcp, bool) eff" where
  "processRead onDisc t =
     (if \<not> has_socket t then (Inl AttributeError, t)
      else
        (case incoming t of
           [] \<Rightarrow> (Inr False, t)
         | a # rest \<Rightarrow>
             let t1 = t\<lparr>incoming := rest\<rparr> in
             (case a of
                Got bs err \<Rightarrow>
                  if err \<or> bs = [] then (Inr False, disconnect onDisc t1)
                  else (Inr True, t1\<lparr>readBuffer := readBuffer t @ bs\<rparr>)
              | Recv_blocks \<Rightarrow> (Inr False, t1)
              | Recv_fails \<Rightarrow> (Inr False, disconnect onDisc t1))))"

function read_loop :: "('a \<Rightarrow> 'a) \<Rightarrow> (('a, 'm) tcp, unit) eff" where
  "read_loop onDisc t =
     (case processRead onDisc t of
        (Inl e, t1) \<Rightarrow> (Inl e, t1)
      | (Inr False, t1) \<Rightarrow> (Inr (), t1)
      | (Inr True, t1) \<Rightarrow> read_loop onDisc t1)"
  by pat_completeness auto
termination
  by (relation "measure (\<lambda>(onDisc, t). length (incoming t))")
     (auto simp: processRead_def Let_def split: if_splits list.splits recv_result.splits)

declare read_loop.simps [simp del]

definition tryReadBuffer :: "('a \<Rightarrow> 'a) \<Rightarrow> rat \<Rightarrow> (('a, 'm) tcp, unit) eff" where
  "tryReadBuffer onDisc now = bindE (read_loop onDisc) (\<lambda>_. modE (\<lambda>t. t\<lparr>lastReadTime := now\<rparr>))"

definition decode :: "'m msg_codec \<Rightarrow> bool \<Rightarrow> 'm packet \<Rightarrow> bytes \<Rightarrow> py_error + 'm packet" where
  "decode c enc key d =
     (case (if enc then decrypt c d else Inr d) of
        Inl e \<Rightarrow> Inl e
      | Inr d1 \<Rightarrow>
          (case decompress c d1 of
             Inl e \<Rightarrow> Inl e
           | Inr d2 \<Rightarrow>
               (case loads c d2 of
                  Inl e \<Rightarrow> Inl e
                | Inr m \<Rightarrow>
                    if truthy key
                    then (case m of Pair k m' \<Rightarrow> if k = key then Inr m' else Inl AssertionError | _ \<Rightarrow> Inl TypeError)
                    else Inr m)))"

definition processParseMessage :: "'m msg_codec \<Rightarrow> ('a \<Rightarrow> 'a) \<Rightarrow> ('a, 'm) tcp \<Rightarrow> 'm packet \<times> ('a, 'm) tcp" where
  "processParseMessage c onDisc t =
     (let buf = readBuffer t in
      if length buf < 4 then (Nothing, t)
      else
        (case unpack_sint 4 (take 4 buf) of
           Inl e \<Rightarrow> (Nothing, t)
         | Inr l \<Rightarrow>
             if int (length buf) - 4 < l then (Nothing, t)
             else
               (case decode c (encryptor t) (recvRandKey t) (py_slice buf 4 (4 + l)) of
                  Inl e \<Rightarrow> (Nothing, disconnect onDisc t)
                | Inr m \<Rightarrow> (m, t\<lparr>readBuffer := drop (slice_bound buf (4 + l)) buf\<rparr>))))"

text \<open>
  The loop over the messages of the buffer: \<open>None\<close> when \<open>n\<close> rounds are not enough, which only a
  length field of less than -4 or a callback that refills the buffer could cause
  (\<open>TcpSpec\<close> has the rounds that are enough).
\<close>

fun message_loop ::
  "nat \<Rightarrow> 'm msg_codec \<Rightarrow> ('a \<Rightarrow> 'a) \<Rightarrow> ('m packet \<Rightarrow> (('a, 'm) tcp, unit) eff) \<Rightarrow> ('a, 'm) tcp \<Rightarrow>
   ((py_error + unit) \<times> ('a, 'm) tcp) option" where
  "message_loop 0 c onDisc onMsg t = None"
| "message_loop (Suc n) c onDisc onMsg t =
     (case processParseMessage c onDisc t of
        (m, t1) \<Rightarrow>
          if m = Nothing then Some (Inr (), t1)
          else
            (case onMsg m t1 of
               (Inl e, t2) \<Rightarrow> Some (Inl e, t2)
             | (Inr _, t2) \<Rightarrow>
                 if cstate t2 = DISCONNECTED then Some (Inr (), t2) else message_loop n c onDisc onMsg t2))"

section \<open>Events\<close>

definition write_event :: "('a \<Rightarrow> 'a) \<Rightarrow> nat \<Rightarrow> (('a, 'm) tcp, unit) eff" where
  "write_event onDisc descr =
     bindE (trySendBuffer onDisc) (\<lambda>_. modE (\<lambda>t.
       if cstate t = DISCONNECTED then t
       else t\<lparr>polled := (polled t)(descr := Some ({READ, ERROR} \<union> (if writeBuffer t \<noteq> [] then {WRITE} else {})))\<rparr>))"

definition read_event ::
  "nat \<Rightarrow> 'm msg_codec \<Rightarrow> ('a \<Rightarrow> 'a) \<Rightarrow> ('m packet \<Rightarrow> (('a, 'm) tcp, unit) eff) \<Rightarrow> rat \<Rightarrow> ('a, 'm) tcp \<Rightarrow>
   ((py_error + unit) \<times> ('a, 'm) tcp) option" where
  "read_event n c onDisc onMsg now t =
     (case tryReadBuffer onDisc now t of
        (Inl e, t1) \<Rightarrow> Some (Inl e, t1)
      | (Inr _, t1) \<Rightarrow> if cstate t1 = DISCONNECTED then Some (Inr (), t1) else message_loop n c onDisc onMsg t1)"

text \<open>\<open>so_error\<close>: the socket has a pending error.\<close>

definition processConnection ::
  "nat \<Rightarrow> 'm msg_codec \<Rightarrow> ('a \<Rightarrow> 'a) \<Rightarrow> (('a, 'm) tcp, unit) eff \<Rightarrow> ('m packet \<Rightarrow> (('a, 'm) tcp, unit) eff) \<Rightarrow>
   rat \<Rightarrow> nat \<Rightarrow> poll_flag set \<Rightarrow> bool \<Rightarrow> ('a, 'm) tcp \<Rightarrow> ((py_error + unit) \<times> ('a, 'm) tcp) option" where
  "processConnection n c onDisc onConn onMsg now descr ev so_error t =
     (if fileno t \<noteq> Some descr then Some (Inr (), t\<lparr>polled := (polled t)(descr := None)\<rparr>)
      else if ERROR \<in> ev then Some (Inr (), disconnect onDisc t)
      else if now - lastReadTime t > conn_timeout t then Some (Inr (), disconnect onDisc t)
      else if (READ \<in> ev \<or> WRITE \<in> ev) \<and> \<not> has_socket t then Some (Inl AttributeError, t)
      else if (READ \<in> ev \<or> WRITE \<in> ev) \<and> so_error then Some (Inr (), disconnect onDisc t)
      else if (READ \<in> ev \<or> WRITE \<in> ev) \<and> cstate t = CONNECTING
      then
        (case onConn t of
           (Inl e, t1) \<Rightarrow> Some (Inl e, t1)
         | (Inr _, t1) \<Rightarrow> Some (Inr (), t1\<lparr>cstate := CONNECTED, lastReadTime := now\<rparr>))
      else
        (case (if WRITE \<in> ev then write_event onDisc descr t else (Inr (), t)) of
           (Inl e, t1) \<Rightarrow> Some (Inl e, t1)
         | (Inr _, t1) \<Rightarrow>
             if WRITE \<in> ev \<and> cstate t1 = DISCONNECTED then Some (Inr (), t1)
             else if READ \<in> ev then read_event n c onDisc onMsg now t1
             else Some (Inr (), t1)))"


section \<open>Rules\<close>

text \<open>What a single call of the socket keeps, the loops keep, and so does a whole read or write event.\<close>

lemma trySendBuffer_inv:
  assumes "\<And>t r t'. P t \<Longrightarrow> processSend onDisc t = (r, t') \<Longrightarrow> P t'" and "P t" and "trySendBuffer onDisc t = (r, t')"
  shows "P t'"
  using assms
proof (induction onDisc t arbitrary: r t' rule: trySendBuffer.induct)
  case (1 onDisc t)
  obtain r1 t1 where p: "processSend onDisc t = (r1, t1)" by (cases "processSend onDisc t")
  then have P: "P t1" using "1.prems"(1,2) by blast
  show ?case
  proof (cases "r1 = Inr True")
    case True
    with "1.prems"(3) p have l: "trySendBuffer onDisc t1 = (r, t')" by (simp add: trySendBuffer.simps[of _ t])
    show ?thesis by (rule "1.IH"[OF p[symmetric] True refl _ P l]) (erule (1) "1.prems"(1))
  next
    case False
    with p "1.prems"(3) have "t' = t1" by (auto simp: trySendBuffer.simps[of _ t] split: sum.splits bool.splits)
    with P show ?thesis by simp
  qed
qed

lemma read_loop_inv:
  assumes "\<And>t r t'. P t \<Longrightarrow> processRead onDisc t = (r, t') \<Longrightarrow> P t'" and "P t" and "read_loop onDisc t = (r, t')"
  shows "P t'"
  using assms
proof (induction onDisc t arbitrary: r t' rule: read_loop.induct)
  case (1 onDisc t)
  obtain r1 t1 where p: "processRead onDisc t = (r1, t1)" by (cases "processRead onDisc t")
  then have P: "P t1" using "1.prems"(1,2) by blast
  show ?case
  proof (cases "r1 = Inr True")
    case True
    with "1.prems"(3) p have l: "read_loop onDisc t1 = (r, t')" by (simp add: read_loop.simps[of _ t])
    show ?thesis by (rule "1.IH"[OF p[symmetric] True refl _ P l]) (erule (1) "1.prems"(1))
  next
    case False
    with p "1.prems"(3) have "t' = t1" by (auto simp: read_loop.simps[of _ t] split: sum.splits bool.splits)
    with P show ?thesis by simp
  qed
qed

lemma message_loop_inv:
  assumes "\<And>t m t'. P t \<Longrightarrow> processParseMessage c onDisc t = (m, t') \<Longrightarrow> P t'"
    and "\<And>t m r t'. P t \<Longrightarrow> onMsg m t = (r, t') \<Longrightarrow> P t'"
    and "P t" and "message_loop n c onDisc onMsg t = Some (r, t')"
  shows "P t'"
  using assms(3,4)
proof (induction n arbitrary: t)
  case (Suc n)
  obtain m t1 where p: "processParseMessage c onDisc t = (m, t1)" by (cases "processParseMessage c onDisc t")
  obtain r2 t2 where h: "onMsg m t1 = (r2, t2)" by (cases "onMsg m t1")
  have P: "P t1" "P t2" using assms(1,2) p h Suc.prems(1) by blast+
  with Suc.prems(2) p h Suc.IH[of t2] show ?case by (auto split: if_splits sum.splits)
qed simp

lemma read_event_inv:
  assumes "\<And>t r t'. P t \<Longrightarrow> processRead onDisc t = (r, t') \<Longrightarrow> P t'"
    and "\<And>t m t'. P t \<Longrightarrow> processParseMessage c onDisc t = (m, t') \<Longrightarrow> P t'"
    and "\<And>t m r t'. P t \<Longrightarrow> onMsg m t = (r, t') \<Longrightarrow> P t'"
    and "\<And>t x. P t \<Longrightarrow> P (t\<lparr>lastReadTime := x\<rparr>)"
    and "P t" and "read_event n c onDisc onMsg now t = Some (r, t')"
  shows "P t'"
proof -
  obtain r1 t1 where l: "read_loop onDisc t = (r1, t1)" by (cases "read_loop onDisc t")
  have P: "P t1" by (rule read_loop_inv[where P = P, OF _ assms(5) l]) (erule (1) assms(1))
  then have P2: "P (t1\<lparr>lastReadTime := now\<rparr>)" by (rule assms(4))
  from assms(6) l consider "t' = t1" | "t' = t1\<lparr>lastReadTime := now\<rparr>"
    | "message_loop n c onDisc onMsg (t1\<lparr>lastReadTime := now\<rparr>) = Some (r, t')"
    by (auto simp: read_event_def tryReadBuffer_def bindE_def split: if_splits sum.splits)
  then show ?thesis
  proof cases
    case 3
    show ?thesis by (rule message_loop_inv[where P = P, OF _ _ P2 3]) (erule (1) assms(2), erule (1) assms(3))
  qed (simp_all add: P P2)
qed

end
