(* ===== verification/Poller.thy ===== *)
theory Poller
  imports TcpConn
begin

text \<open>
  The pollers, \<open>pysyncobjbc/poller.py\<close>.
  What a connection relies on is the locale \<open>event_source\<close>: subscribing sets the events a
  descriptor is watched for, unsubscribing ends it. A callback is named by a value of type \<open>'c\<close>.
\<close>

section \<open>The contract\<close>

datatype 'c poll_action = Subscribe nat 'c "poll_flag set" | Unsubscribe nat

locale event_source =
  fixes watched :: "'p \<Rightarrow> nat \<Rightarrow> poll_flag set option"
    and handler :: "'p \<Rightarrow> nat \<Rightarrow> 'c option"
    and subscribe :: "nat \<Rightarrow> 'c \<Rightarrow> poll_flag set \<Rightarrow> 'p \<Rightarrow> 'p"
    and unsubscribe :: "nat \<Rightarrow> 'p \<Rightarrow> 'p"
  assumes watched_subscribe: "watched (subscribe d c ev p) d' = (if d' = d then Some ev else watched p d')"
    and watched_unsubscribe: "watched (unsubscribe d p) d' = (if d' = d then None else watched p d')"
    and handler_subscribe: "handler (subscribe d c ev p) d' = (if d' = d then Some c else handler p d')"
    and handler_unsubscribe: "d' \<noteq> d \<Longrightarrow> handler (unsubscribe d p) d' = handler p d'"
begin

fun poll_op :: "'c poll_action \<Rightarrow> 'p \<Rightarrow> 'p" where
  "poll_op (Subscribe d c ev) = subscribe d c ev"
| "poll_op (Unsubscribe d) = unsubscribe d"

text \<open>A descriptor that is watched has a handler, whatever was subscribed and unsubscribed.\<close>

lemma watched_has_handler:
  "(\<forall>d. watched p d \<noteq> None \<longrightarrow> handler p d \<noteq> None) \<Longrightarrow> watched (fold poll_op xs p) d \<noteq> None \<Longrightarrow>
   handler (fold poll_op xs p) d \<noteq> None"
proof (induction xs arbitrary: p)
  case (Cons x xs)
  have "\<forall>d. watched (poll_op x p) d \<noteq> None \<longrightarrow> handler (poll_op x p) d \<noteq> None"
    using Cons.prems(1)
    by (cases x) (auto simp: watched_subscribe watched_unsubscribe handler_subscribe handler_unsubscribe)
  with Cons show ?case by simp
qed simp

end

section \<open>SelectPoller\<close>

record 'c select_poller =
  descrsRead :: "nat set"
  descrsWrite :: "nat set"
  descrsError :: "nat set"
  select_callbacks :: "nat \<Rightarrow> 'c option"

definition SelectPoller :: "'c select_poller" where
  "SelectPoller = \<lparr>descrsRead = {}, descrsWrite = {}, descrsError = {}, select_callbacks = (\<lambda>_. None)\<rparr>"

definition select_unsubscribe :: "nat \<Rightarrow> 'c select_poller \<Rightarrow> 'c select_poller" where
  "select_unsubscribe d p =
     p\<lparr>descrsRead := descrsRead p - {d}, descrsWrite := descrsWrite p - {d}, descrsError := descrsError p - {d},
       select_callbacks := (select_callbacks p)(d := None)\<rparr>"

definition select_subscribe :: "nat \<Rightarrow> 'c \<Rightarrow> poll_flag set \<Rightarrow> 'c select_poller \<Rightarrow> 'c select_poller" where
  "select_subscribe d c ev p =
     (let q = select_unsubscribe d p in
      q\<lparr>descrsRead := (if READ \<in> ev then insert d (descrsRead q) else descrsRead q),
        descrsWrite := (if WRITE \<in> ev then insert d (descrsWrite q) else descrsWrite q),
        descrsError := (if ERROR \<in> ev then insert d (descrsError q) else descrsError q),
        select_callbacks := (select_callbacks q)(d := Some c)\<rparr>)"

definition select_watched :: "'c select_poller \<Rightarrow> nat \<Rightarrow> poll_flag set option" where
  "select_watched p d =
     (if select_callbacks p d = None then None
      else Some ((if d \<in> descrsRead p then {READ} else {}) \<union> (if d \<in> descrsWrite p then {WRITE} else {})
                 \<union> (if d \<in> descrsError p then {ERROR} else {})))"

text \<open>
  One round: \<open>select\<close> has returned the ready descriptors \<open>r\<close>, \<open>w\<close>, \<open>x\<close>; they are visited in the
  order \<open>order\<close> of a Python set. A callback may change the poller and the rest of the world (\<open>'w\<close>).
\<close>

definition select_event :: "nat set \<Rightarrow> nat set \<Rightarrow> nat set \<Rightarrow> nat \<Rightarrow> poll_flag set" where
  "select_event r w x d =
     (if d \<in> r then {READ} else {}) \<union> (if d \<in> w then {WRITE} else {}) \<union> (if d \<in> x then {ERROR} else {})"

definition select_poll ::
  "('c \<Rightarrow> nat \<Rightarrow> poll_flag set \<Rightarrow> ('c select_poller \<times> 'w, unit) eff) \<Rightarrow> nat set \<Rightarrow> nat set \<Rightarrow> nat set \<Rightarrow> nat list \<Rightarrow>
   ('c select_poller \<times> 'w, unit) eff" where
  "select_poll run r w x order =
     forE (\<lambda>d s. case select_callbacks (fst s) d of
                   None \<Rightarrow> (Inl KeyError, s)
                 | Some c \<Rightarrow> run c d (select_event r w x d) s) order"

section \<open>PollPoller\<close>

text \<open>\<open>registered\<close> is the state of the \<open>select.poll\<close> object.\<close>

record 'c poll_poller =
  registered :: "nat \<Rightarrow> poll_flag set option"
  poll_callbacks :: "nat \<Rightarrow> 'c option"

datatype poll_bit = POLLIN | POLLOUT | POLLERR | POLLHUP | POLLNVAL

definition PollPoller :: "'c poll_poller" where
  "PollPoller = \<lparr>registered = (\<lambda>_. None), poll_callbacks = (\<lambda>_. None)\<rparr>"

definition poll_subscribe :: "nat \<Rightarrow> 'c \<Rightarrow> poll_flag set \<Rightarrow> 'c poll_poller \<Rightarrow> 'c poll_poller" where
  "poll_subscribe d c ev p =
     p\<lparr>poll_callbacks := (poll_callbacks p)(d := Some c), registered := (registered p)(d := Some ev)\<rparr>"

definition poll_unsubscribe :: "nat \<Rightarrow> 'c poll_poller \<Rightarrow> 'c poll_poller" where
  "poll_unsubscribe d p = p\<lparr>registered := (registered p)(d := None)\<rparr>"

definition poll_mask :: "poll_bit set \<Rightarrow> poll_flag set" where
  "poll_mask ev =
     (if POLLIN \<in> ev then {READ} else {}) \<union> (if POLLOUT \<in> ev then {WRITE} else {}) \<union>
     (if POLLERR \<in> ev \<or> POLLHUP \<in> ev then {ERROR} else {})"

definition poll_poll ::
  "('c \<Rightarrow> nat \<Rightarrow> poll_flag set \<Rightarrow> ('c poll_poller \<times> 'w, unit) eff) \<Rightarrow> (nat \<times> poll_bit set) list \<Rightarrow>
   ('c poll_poller \<times> 'w, unit) eff" where
  "poll_poll run events =
     forE (\<lambda>(d, ev) s. case poll_callbacks (fst s) d of
                         None \<Rightarrow> (Inl KeyError, s)
                       | Some c \<Rightarrow> run c d (poll_mask ev) s) events"

datatype poller_kind = Select_poller | Poll_poller

text \<open>\<open>None\<close> is the exception for an unknown type of poller.\<close>

definition createPoller :: "bool \<Rightarrow> string \<Rightarrow> poller_kind option" where
  "createPoller has_poll pollerType =
     (if pollerType = ''auto'' then Some (if has_poll then Poll_poller else Select_poller)
      else if pollerType = ''poll'' then Some Poll_poller
      else if pollerType = ''select'' then Some Select_poller
      else None)"

section \<open>Both are event sources\<close>

lemma mem_subscribed:
  "d \<in> (if b then insert d (A - {d}) else A - {d}) \<longleftrightarrow> b"
  "d' \<noteq> d \<Longrightarrow> d' \<in> (if b then insert d (A - {d}) else A - {d}) \<longleftrightarrow> d' \<in> A"
  by auto

lemma flags_of_mask:
  "(if READ \<in> ev then {READ} else {}) \<union> (if WRITE \<in> ev then {WRITE} else {}) \<union> (if ERROR \<in> ev then {ERROR} else {}) = ev"
  (is "?l = ev")
proof (rule set_eqI)
  show "x \<in> ?l \<longleftrightarrow> x \<in> ev" for x by (cases x) auto
qed

lemma select_subscribe_fields:
  "descrsRead (select_subscribe d c ev p) = (if READ \<in> ev then insert d (descrsRead p - {d}) else descrsRead p - {d})"
  "descrsWrite (select_subscribe d c ev p) = (if WRITE \<in> ev then insert d (descrsWrite p - {d}) else descrsWrite p - {d})"
  "descrsError (select_subscribe d c ev p) = (if ERROR \<in> ev then insert d (descrsError p - {d}) else descrsError p - {d})"
  "select_callbacks (select_subscribe d c ev p) = (select_callbacks p)(d \<mapsto> c)"
  by (simp_all add: select_subscribe_def select_unsubscribe_def Let_def)

lemma select_watched_subscribe:
  "select_watched (select_subscribe d c ev p) d' = (if d' = d then Some ev else select_watched p d')"
proof (cases "d' = d")
  case True
  then show ?thesis
    by (simp only: select_watched_def select_subscribe_fields mem_subscribed flags_of_mask) simp
next
  case False
  then show ?thesis
    by (simp only: select_watched_def select_subscribe_fields mem_subscribed(2)[OF False]) simp
qed

interpretation sel: event_source select_watched select_callbacks select_subscribe select_unsubscribe
proof
  show "select_watched (select_subscribe d c ev p) d' = (if d' = d then Some ev else select_watched p d')"
    for d d' ev and c :: 'b and p by (rule select_watched_subscribe)
  show "select_watched (select_unsubscribe d p) d' = (if d' = d then None else select_watched p d')" for d d' and p :: "'b select_poller"
    by (simp add: select_watched_def select_unsubscribe_def)
  show "select_callbacks (select_subscribe d c ev p) d' = (if d' = d then Some c else select_callbacks p d')"
    for d d' ev and c :: 'b and p by (simp add: select_subscribe_fields)
  show "d' \<noteq> d \<Longrightarrow> select_callbacks (select_unsubscribe d p) d' = select_callbacks p d'" for d d' and p :: "'b select_poller"
    by (simp add: select_unsubscribe_def)
qed

interpretation pol: event_source registered poll_callbacks poll_subscribe poll_unsubscribe
  by unfold_locales (auto simp: poll_subscribe_def poll_unsubscribe_def)

section \<open>A descriptor that is dropped within a round\<close>

lemma forE_two: "f a s = (Inr (), s1) \<Longrightarrow> forE f [a, b] s = f b s1"
  by (cases "f b s1") (auto simp: bindE_def split: sum.split)

text \<open>
  Two descriptors are ready in the same round, and the handler of the first unsubscribes the
  second (a connection that closes another one does this): the select poller raises KeyError, and
  the rest of the round is lost; the poll poller still calls the handler of the second.
\<close>

theorem stale_event:
  fixes p p1 :: "'c select_poller" and q q1 :: "'c poll_poller"
  assumes "select_callbacks p d1 = Some c"
    and "run c d1 (select_event r w x d1) (p, u) = (Inr (), (select_unsubscribe d2 p1, u1))"
    and "poll_callbacks q d1 = Some c"
    and "run' c d1 (poll_mask e1) (q, u) = (Inr (), (poll_unsubscribe d2 q1, u1))"
    and "poll_callbacks q1 d2 = Some c'"
  shows "select_poll run r w x [d1, d2] (p, u) = (Inl KeyError, (select_unsubscribe d2 p1, u1)) \<and>
    poll_poll run' [(d1, e1), (d2, e2)] (q, u) = run' c' d2 (poll_mask e2) (poll_unsubscribe d2 q1, u1)"
proof
  have "select_callbacks (select_unsubscribe d2 p1) d2 = None" by (simp add: select_unsubscribe_def)
  with assms(1,2) show "select_poll run r w x [d1, d2] (p, u) = (Inl KeyError, (select_unsubscribe d2 p1, u1))"
    unfolding select_poll_def by (subst forE_two) (auto split: option.split)
  have "poll_callbacks (poll_unsubscribe d2 q1) d2 = Some c'" using assms(5) by (simp add: poll_unsubscribe_def)
  with assms(3,4) show "poll_poll run' [(d1, e1), (d2, e2)] (q, u) = run' c' d2 (poll_mask e2) (poll_unsubscribe d2 q1, u1)"
    unfolding poll_poll_def by (subst forE_two) (auto split: option.split)
qed

text \<open>Handlers that log their calls; handler 7 unsubscribes descriptor 2.\<close>

definition ex_run_select :: "nat \<Rightarrow> nat \<Rightarrow> poll_flag set \<Rightarrow> (nat select_poller \<times> nat list, unit) eff" where
  "ex_run_select c d ev s = (Inr (), (if c = 7 then select_unsubscribe 2 (fst s) else fst s, snd s @ [c]))"

definition ex_run_poll :: "nat \<Rightarrow> nat \<Rightarrow> poll_flag set \<Rightarrow> (nat poll_poller \<times> nat list, unit) eff" where
  "ex_run_poll c d ev s = (Inr (), (if c = 7 then poll_unsubscribe 2 (fst s) else fst s, snd s @ [c]))"

definition ex_select :: "nat select_poller" where
  "ex_select = select_subscribe 2 8 {READ} (select_subscribe 1 7 {READ} SelectPoller)"

definition ex_poll :: "nat poll_poller" where
  "ex_poll = poll_subscribe 2 8 {READ} (poll_subscribe 1 7 {READ} PollPoller)"

theorem stale_event_witness:
  "fst (select_poll ex_run_select {1, 2} {} {} [1, 2] (ex_select, [])) = Inl KeyError \<and>
    snd (snd (poll_poll ex_run_poll [(1, {POLLIN}), (2, {POLLIN})] (ex_poll, []))) = [7, 8]"
proof -
  have "select_poll ex_run_select {1, 2} {} {} [1, 2] (ex_select, []) = (Inl KeyError, (select_unsubscribe 2 ex_select, [7])) \<and>
    poll_poll ex_run_poll [(1, {POLLIN}), (2, {POLLIN})] (ex_poll, []) =
      ex_run_poll 8 2 (poll_mask {POLLIN}) (poll_unsubscribe 2 ex_poll, [7])"
    by (rule stale_event[where c = 7]) (simp_all add: ex_select_def ex_poll_def select_subscribe_fields poll_subscribe_def
        ex_run_select_def ex_run_poll_def)
  then show ?thesis by (simp add: ex_run_poll_def)
qed

end
