(* ===== verification/TcpServer.thy ===== *)
theory TcpServer
  imports Poller
begin

text \<open>
  The listening socket, \<open>pysyncobjbc/tcp_server.py\<close>. It works with any poller: the poller's two
  operations are arguments of its operations (\<open>sub\<close>, \<open>unsub\<close>), and what holds of a server is proved
  in the locale \<open>event_source\<close>, for both pollers at once.
\<close>

section \<open>The server\<close>

datatype server_state = UNBINDED | BINDED

text \<open>The attribute that holds the socket: none yet, open, or closed by \<open>unbind\<close>.\<close>

datatype server_socket = No_socket | Open_socket | Closed_socket

datatype bind_result = Binds nat | Bind_fails | No_socket_left

datatype accept_result = Accepts nat | Accept_blocks | Accept_fails

text \<open>\<open>accepted\<close>: the connections handed to the owner of the server, by their descriptor.\<close>

record 'p server =
  server_poller :: 'p
  server_socket :: server_socket
  server_fileno :: "nat option"
  server_state :: server_state
  accepted :: "nat list"

text \<open>\<open>host\<close> as in \<open>TcpConn.connect\<close>: the resolved address, if any, and whether its family is known.\<close>

definition TcpServer :: "'p \<Rightarrow> bool option \<Rightarrow> py_error + 'p server" where
  "TcpServer p host =
     (case host of
        None \<Rightarrow> Inl TypeError
      | Some False \<Rightarrow> Inl UnknownAddress
      | Some True \<Rightarrow> Inr \<lparr>server_poller = p, server_socket = No_socket, server_fileno = None,
                          server_state = UNBINDED, accepted = []\<rparr>)"

definition server_bind ::
  "(nat \<Rightarrow> 'c \<Rightarrow> poll_flag set \<Rightarrow> 'p \<Rightarrow> 'p) \<Rightarrow> 'c \<Rightarrow> bind_result \<Rightarrow> ('p server, unit) eff" where
  "server_bind sub self res s =
     (case res of
        No_socket_left \<Rightarrow> (Inl SocketError, s)
      | Bind_fails \<Rightarrow> (Inl SocketError, s\<lparr>server_socket := Open_socket\<rparr>)
      | Binds fd \<Rightarrow>
          (Inr (), s\<lparr>server_socket := Open_socket, server_fileno := Some fd,
                    server_poller := sub fd self {READ, ERROR} (server_poller s), server_state := BINDED\<rparr>))"

definition server_unbind :: "(nat \<Rightarrow> 'p \<Rightarrow> 'p) \<Rightarrow> 'p server \<Rightarrow> 'p server" where
  "server_unbind unsub s =
     s\<lparr>server_state := UNBINDED,
       server_poller := (case server_fileno s of None \<Rightarrow> server_poller s | Some fd \<Rightarrow> unsub fd (server_poller s)),
       server_fileno := None,
       server_socket := (if server_socket s = No_socket then No_socket else Closed_socket)\<rparr>"

text \<open>
  An event of the listening socket. The connection made around an accepted socket subscribes its
  descriptor, with the handler \<open>conn\<close>. An \<open>accept\<close> on a closed socket fails.
\<close>

definition server_accept ::
  "(nat \<Rightarrow> 'c \<Rightarrow> poll_flag set \<Rightarrow> 'p \<Rightarrow> 'p) \<Rightarrow> (nat \<Rightarrow> 'p \<Rightarrow> 'p) \<Rightarrow> 'c \<Rightarrow> accept_result \<Rightarrow> ('p server, bool) eff" where
  "server_accept sub unsub conn res s =
     (case server_socket s of
        No_socket \<Rightarrow> (Inl AttributeError, s)
      | Closed_socket \<Rightarrow> (Inr True, server_unbind unsub s)
      | Open_socket \<Rightarrow>
          (case res of
             Accepts fd \<Rightarrow>
               (Inr False, s\<lparr>server_poller := sub fd conn {READ, WRITE, ERROR} (server_poller s), accepted := accepted s @ [fd]\<rparr>)
           | Accept_blocks \<Rightarrow> (Inr False, s)
           | Accept_fails \<Rightarrow> (Inr True, server_unbind unsub s)))"

definition server_event ::
  "(nat \<Rightarrow> 'c \<Rightarrow> poll_flag set \<Rightarrow> 'p \<Rightarrow> 'p) \<Rightarrow> (nat \<Rightarrow> 'p \<Rightarrow> 'p) \<Rightarrow> 'c \<Rightarrow> poll_flag set \<Rightarrow> accept_result \<Rightarrow> ('p server, unit) eff" where
  "server_event sub unsub conn ev res =
     bindE (if READ \<in> ev then server_accept sub unsub conn res else ret False) (\<lambda>returned.
       if \<not> returned \<and> ERROR \<in> ev then modE (server_unbind unsub) else ret ())"

section \<open>What a server keeps\<close>

datatype 'c server_action =
  Bind 'c bind_result | Unbind | Server_event 'c "poll_flag set" accept_result

fun server_op ::
  "(nat \<Rightarrow> 'c \<Rightarrow> poll_flag set \<Rightarrow> 'p \<Rightarrow> 'p) \<Rightarrow> (nat \<Rightarrow> 'p \<Rightarrow> 'p) \<Rightarrow> 'c server_action \<Rightarrow> 'p server \<Rightarrow> 'p server" where
  "server_op sub unsub (Bind c res) s = snd (server_bind sub c res s)"
| "server_op sub unsub Unbind s = server_unbind unsub s"
| "server_op sub unsub (Server_event c ev res) s = snd (server_event sub unsub c ev res s)"

text \<open>The operating system hands out descriptors that are not in use: not the server's own.\<close>

fun fresh_fd :: "'p server \<Rightarrow> 'c server_action \<Rightarrow> bool" where
  "fresh_fd s (Server_event c ev (Accepts fd)) = (server_fileno s \<noteq> Some fd)"
| "fresh_fd s op = True"

fun server_run ::
  "(nat \<Rightarrow> 'c \<Rightarrow> poll_flag set \<Rightarrow> 'p \<Rightarrow> 'p) \<Rightarrow> (nat \<Rightarrow> 'p \<Rightarrow> 'p) \<Rightarrow> 'c server_action list \<Rightarrow> 'p server \<Rightarrow> 'p server option" where
  "server_run sub unsub [] s = Some s"
| "server_run sub unsub (x # xs) s = (if fresh_fd s x then server_run sub unsub xs (server_op sub unsub x s) else None)"

text \<open>The server is bound exactly when it has a descriptor, and that descriptor is then watched.\<close>

definition server_ok :: "('p \<Rightarrow> nat \<Rightarrow> poll_flag set option) \<Rightarrow> 'p server \<Rightarrow> bool" where
  "server_ok wat s \<longleftrightarrow> (server_state s = BINDED \<longleftrightarrow> server_fileno s \<noteq> None) \<and>
     (server_state s = BINDED \<longrightarrow> server_socket s = Open_socket) \<and>
     (\<forall>fd. server_fileno s = Some fd \<longrightarrow> wat (server_poller s) fd = Some {READ, ERROR})"

context event_source
begin

lemma server_bind_ok: "server_ok watched s \<Longrightarrow> server_ok watched (snd (server_bind subscribe c res s))"
  by (cases res) (auto simp: server_ok_def server_bind_def watched_subscribe)

lemma server_unbind_ok: "server_ok watched (server_unbind unsubscribe s)"
  by (simp add: server_ok_def server_unbind_def)

lemma server_event_ok:
  assumes "server_ok watched s" and "fresh_fd s (Server_event c ev res)"
  shows "server_ok watched (snd (server_event subscribe unsubscribe c ev res s))"
proof -
  have a: "server_ok watched (snd (server_accept subscribe unsubscribe c res s))"
    using assms server_unbind_ok
    by (cases "server_socket s"; cases res) (auto simp: server_accept_def server_ok_def watched_subscribe)
  show ?thesis
  proof (cases "READ \<in> ev")
    case True
    with a show ?thesis
      by (cases "server_accept subscribe unsubscribe c res s")
         (auto simp: server_event_def bindE_def server_unbind_ok split: sum.split)
  next
    case False
    with assms(1) show ?thesis by (simp add: server_event_def bindE_def server_unbind_ok)
  qed
qed

lemma server_run_ok:
  "server_ok watched s \<Longrightarrow> server_run subscribe unsubscribe xs s = Some t \<Longrightarrow> server_ok watched t"
proof (induction xs arbitrary: s)
  case (Cons x xs)
  from Cons.prems(2) have f: "fresh_fd s x" and r: "server_run subscribe unsubscribe xs (server_op subscribe unsubscribe x s) = Some t"
    by (simp_all split: if_splits)
  have "server_ok watched (server_op subscribe unsubscribe x s)"
    using Cons.prems(1) f by (cases x) (auto simp: server_bind_ok server_unbind_ok server_event_ok)
  from Cons.IH[OF this r] show ?case .
qed simp

end

lemma TcpServer_ok: "TcpServer p host = Inr s \<Longrightarrow> server_ok wat s"
  by (auto simp: TcpServer_def server_ok_def split: option.splits bool.splits)

text \<open>
  C29. After any sequence of binds that succeed or fail, unbinds and events, with either poller:
  the server is in state BINDED exactly when it has a descriptor, its socket is then open, and the
  poller watches that descriptor for new connections and errors.
\<close>

theorem server_watched:
  fixes p :: "'c select_poller" and q :: "'c poll_poller"
  assumes "TcpServer p h = Inr s" and "server_run select_subscribe select_unsubscribe xs s = Some s'"
    and "TcpServer q h = Inr t" and "server_run poll_subscribe poll_unsubscribe ys t = Some t'"
  shows "server_ok select_watched s' \<and> server_ok registered t'"
  using sel.server_run_ok[OF TcpServer_ok[OF assms(1)] assms(2)] pol.server_run_ok[OF TcpServer_ok[OF assms(3)] assms(4)]
  by blast

definition ex_ops :: "nat server_action list" where
  "ex_ops = [Bind 1 Bind_fails, Bind 1 (Binds 3), Server_event 2 {READ} (Accepts 4), Server_event 2 {READ} Accept_blocks]"

theorem server_watched_witness:
  "\<exists>s' t'. server_run select_subscribe select_unsubscribe ex_ops
       \<lparr>server_poller = SelectPoller, server_socket = No_socket, server_fileno = None, server_state = UNBINDED, accepted = []\<rparr> = Some s' \<and>
     server_run poll_subscribe poll_unsubscribe ex_ops
       \<lparr>server_poller = PollPoller, server_socket = No_socket, server_fileno = None, server_state = UNBINDED, accepted = []\<rparr> = Some t' \<and>
     server_fileno t' = Some 3 \<and> accepted t' = [4] \<and> server_ok select_watched s' \<and> server_ok registered t'"
proof -
  let ?s = "\<lparr>server_poller = (SelectPoller :: nat select_poller), server_socket = No_socket, server_fileno = None, server_state = UNBINDED, accepted = []\<rparr>"
  let ?t = "\<lparr>server_poller = (PollPoller :: nat poll_poller), server_socket = No_socket, server_fileno = None, server_state = UNBINDED, accepted = []\<rparr>"
  have c: "TcpServer SelectPoller (Some True) = Inr ?s" "TcpServer PollPoller (Some True) = Inr ?t"
    by (simp_all add: TcpServer_def)
  have s: "\<exists>s'. server_run select_subscribe select_unsubscribe ex_ops ?s = Some s'"
    by (simp add: ex_ops_def server_bind_def server_event_def server_accept_def bindE_def)
  have t: "\<exists>t'. server_run poll_subscribe poll_unsubscribe ex_ops ?t = Some t' \<and> server_fileno t' = Some 3 \<and> accepted t' = [4]"
    by (simp add: ex_ops_def server_bind_def server_event_def server_accept_def bindE_def)
  from s t obtain s' t' where r: "server_run select_subscribe select_unsubscribe ex_ops ?s = Some s'"
      "server_run poll_subscribe poll_unsubscribe ex_ops ?t = Some t'" "server_fileno t' = Some 3" "accepted t' = [4]"
    by blast
  from server_watched[OF c(1) r(1) c(2) r(2)] r show ?thesis by blast
qed

end
