(* ===== verification/RaftHost.thy ===== *)
theory RaftHost
  imports RaftElection TcpServer "HOL-Library.Char_ord"
begin

text \<open>
  A node from its construction to its end, \<open>pysyncobjbc/syncobj.py\<close>: binding the server and
  making the partners, with retries; the tick around the protocol's \<open>onTick\<close>; the check of the
  read-only nodes; destruction. The poller's operations are arguments, as in \<open>TcpServer\<close>;
  \<open>port_ok\<close> tells whether the part of an address after the last colon is an integer.
\<close>

section \<open>State\<close>

text \<open>\<open>destroyed\<close>: the addresses of the read-only nodes that were told to destroy themselves.\<close>

record 'p host =
  host_raft :: raft
  listener :: "'p server option"
  initialized :: bool
  lastInitTryTime :: rat
  bindRetries :: int
  bindedEvent :: bool
  lastReadonlyCheck :: rat
  destroyed :: "addr set"

text \<open>A node that has been constructed, but has not bound its server and has no partners yet.\<close>

definition new_host :: "raft \<Rightarrow> 'p server option \<Rightarrow> 'p host" where
  "new_host s l =
     \<lparr>host_raft = s\<lparr>nodes := [], next_index := (\<lambda>_. None), match_index := (\<lambda>_. None)\<rparr>, listener = l,
      initialized = False, lastInitTryTime = 0, bindRetries = 0, bindedEvent = False,
      lastReadonlyCheck = 0, destroyed = {}\<rparr>"

section \<open>Initialisation\<close>

text \<open>A node without an address connects to everybody; otherwise the greater address connects.\<close>

definition connects_to :: "addr option \<Rightarrow> addr \<Rightarrow> bool" where
  "connects_to self a = (case self of None \<Rightarrow> True | Some s \<Rightarrow> a < s)"

definition add_partner :: "(addr \<Rightarrow> bool) \<Rightarrow> addr \<Rightarrow> (raft, unit) eff" where
  "add_partner port_ok a s =
     (if connects_to (self_addr s) a \<and> \<not> port_ok a then (Inl ValueError, s)
      else (Inr (), s\<lparr>nodes := nodes s @ [\<lparr>peer_addr = a, connected = False\<rparr>],
                      next_index := (next_index s)(a \<mapsto> getCurrentLogIndex s + 1),
                      match_index := (match_index s)(a \<mapsto> 0)\<rparr>))"

definition bind_listener ::
  "(nat \<Rightarrow> 'c \<Rightarrow> poll_flag set \<Rightarrow> 'p \<Rightarrow> 'p) \<Rightarrow> 'c \<Rightarrow> bind_result \<Rightarrow> ('p host, unit) eff" where
  "bind_listener sub self res h =
     (case listener h of
        None \<Rightarrow> (Inr (), h)
      | Some l \<Rightarrow> (case server_bind sub self res l of (r, l') \<Rightarrow> (r, h\<lparr>listener := Some l'\<rparr>)))"

definition on_core :: "(raft, 'a) eff \<Rightarrow> ('p host, 'a) eff" where
  "on_core f h = (case f (host_raft h) of (r, s) \<Rightarrow> (r, h\<lparr>host_raft := s\<rparr>))"

definition init_body ::
  "(nat \<Rightarrow> 'c \<Rightarrow> poll_flag set \<Rightarrow> 'p \<Rightarrow> 'p) \<Rightarrow> 'c \<Rightarrow> (addr \<Rightarrow> bool) \<Rightarrow> rat \<Rightarrow> bind_result \<Rightarrow> ('p host, unit) eff" where
  "init_body sub self port_ok now res =
     bindE (modE (\<lambda>h. h\<lparr>lastInitTryTime := now\<rparr>)) (\<lambda>_.
     bindE (bind_listener sub self res) (\<lambda>_.
     bindE (on_core (\<lambda>s. forE (add_partner port_ok) (other_addrs s) (s\<lparr>nodes := []\<rparr>))) (\<lambda>_.
       modE (\<lambda>h. h\<lparr>host_raft := (host_raft h)\<lparr>need_load_dump := True\<rparr>, initialized := True, bindedEvent := True\<rparr>))))"

definition initInTickThread ::
  "sync_obj_conf \<Rightarrow> (nat \<Rightarrow> 'c \<Rightarrow> poll_flag set \<Rightarrow> 'p \<Rightarrow> 'p) \<Rightarrow> 'c \<Rightarrow> (addr \<Rightarrow> bool) \<Rightarrow> rat \<Rightarrow> bind_result \<Rightarrow> ('p host, unit) eff" where
  "initInTickThread C sub self port_ok now res h =
     (case init_body sub self port_ok now res h of
        (Inr _, h1) \<Rightarrow> (Inr (), h1)
      | (Inl _, h1) \<Rightarrow>
          let h2 = h1\<lparr>bindRetries := bindRetries h1 + 1\<rparr> in
          if maxBindRetries C \<noteq> 0 \<and> bindRetries h2 \<ge> maxBindRetries C
          then (Inl BindError, h2\<lparr>bindedEvent := True\<rparr>)
          else (Inr (), h2))"

text \<open>\<open>None\<close> while the caller still waits.\<close>

definition waitBinded :: "'p host \<Rightarrow> (py_error + unit) option" where
  "waitBinded h =
     (if \<not> bindedEvent h then None else Some (if initialized h then Inr () else Inl BindError))"

section \<open>Ticks\<close>

text \<open>
  The list of the read-only nodes that are still connected is built and not used; the entries
  that are removed from the two maps are looked up by the node, where the keys are addresses.
\<close>

definition readonly_check :: "rat \<Rightarrow> 'p host \<Rightarrow> 'p host" where
  "readonly_check now h =
     (if now > lastReadonlyCheck h + 1
      then h\<lparr>lastReadonlyCheck := now,
             destroyed := destroyed h \<union> {peer_addr p |p. p \<in> set (readonly_nodes (host_raft h)) \<and> \<not> connected p}\<rparr>
      else h)"

definition host_tick ::
  "raft_env \<Rightarrow> (nat \<Rightarrow> 'c \<Rightarrow> poll_flag set \<Rightarrow> 'p \<Rightarrow> 'p) \<Rightarrow> 'c \<Rightarrow> (addr \<Rightarrow> bool) \<Rightarrow> rat \<Rightarrow> rat \<Rightarrow> nat \<Rightarrow> nat \<Rightarrow> bind_result \<Rightarrow>
   ('p host, unit) eff" where
  "host_tick R sub self port_ok now rnd rounds cmds res =
     bindE (\<lambda>h. if \<not> initialized h \<and> now \<ge> lastInitTryTime h + bindRetryTime (conf R)
                then initInTickThread (conf R) sub self port_ok now res h else (Inr (), h)) (\<lambda>_ h.
       if \<not> initialized h then (Inr (), h)
       else bindE (on_core (onTick R now rnd rounds cmds)) (\<lambda>_. modE (readonly_check now)) h)"

definition doDestroy :: "(nat \<Rightarrow> 'p \<Rightarrow> 'p) \<Rightarrow> 'p host \<Rightarrow> 'p host" where
  "doDestroy unsub h =
     (let off = map (\<lambda>p. p\<lparr>connected := False\<rparr>) in
      h\<lparr>host_raft := (host_raft h)\<lparr>nodes := off (nodes (host_raft h)), readonly_nodes := off (readonly_nodes (host_raft h))\<rparr>,
        listener := map_option (server_unbind unsub) (listener h)\<rparr>)"

section \<open>Starting with retries\<close>

lemma bind_listener_core: "host_raft (snd (bind_listener sub self res h)) = host_raft h"
  by (simp add: bind_listener_def split: option.split prod.split)

text \<open>Adding all partners, if their addresses are good, gives exactly them.\<close>

lemma add_partners:
  assumes "\<forall>a\<in>set as. port_ok a"
  shows "forE (add_partner port_ok) as s =
    (Inr (), s\<lparr>nodes := nodes s @ map (\<lambda>a. \<lparr>peer_addr = a, connected = False\<rparr>) as,
               next_index := (\<lambda>a. if a \<in> set as then Some (getCurrentLogIndex s + 1) else next_index s a),
               match_index := (\<lambda>a. if a \<in> set as then Some 0 else match_index s a)\<rparr>)"
  using assms
proof (induction as arbitrary: s)
  case Nil
  then show ?case by simp
next
  case (Cons a as)
  let ?t = "s\<lparr>nodes := nodes s @ [\<lparr>peer_addr = a, connected = False\<rparr>],
              next_index := (next_index s)(a \<mapsto> getCurrentLogIndex s + 1), match_index := (match_index s)(a \<mapsto> 0)\<rparr>"
  have c: "getCurrentLogIndex ?t = getCurrentLogIndex s" by (simp add: getCurrentLogIndex_def)
  have "forE (add_partner port_ok) (a # as) s = forE (add_partner port_ok) as ?t"
    using Cons.prems by (simp add: bindE_def add_partner_def)
  also have "\<dots> = (Inr (), ?t\<lparr>nodes := nodes ?t @ map (\<lambda>a. \<lparr>peer_addr = a, connected = False\<rparr>) as,
               next_index := (\<lambda>a. if a \<in> set as then Some (getCurrentLogIndex ?t + 1) else next_index ?t a),
               match_index := (\<lambda>a. if a \<in> set as then Some 0 else match_index ?t a)\<rparr>)"
    using Cons.IH[of ?t] Cons.prems by simp
  finally show ?case by (simp add: c fun_eq_iff)
qed

text \<open>One attempt: it binds and makes the partners of \<open>raft_init\<close>, or leaves the node to be initialised.\<close>

definition starting :: "raft \<Rightarrow> 'p host \<Rightarrow> bool" where
  "starting s h \<longleftrightarrow> \<not> initialized h \<and> nodes (host_raft h) = [] \<and>
     host_raft h = s\<lparr>nodes := [], next_index := (\<lambda>_. None), match_index := (\<lambda>_. None)\<rparr>"

fun binds :: "bind_result \<Rightarrow> bool" where
  "binds (Binds fd) = True"
| "binds _ = False"

lemma initInTickThread_cases:
  assumes s: "s = raft_init R now0 deadline self others journal dump_file st" and h: "starting s h"
    and p: "\<forall>a\<in>set others. port_ok a"
  shows "if listener h = None \<or> binds res
    then fst (initInTickThread C sub me port_ok now res h) = Inr () \<and>
      (let h' = snd (initInTickThread C sub me port_ok now res h) in initialized h' \<and> bindedEvent h' \<and> host_raft h' = s)
    else fst (initInTickThread C sub me port_ok now res h) =
        (if maxBindRetries C \<noteq> 0 \<and> bindRetries h + 1 \<ge> maxBindRetries C then Inl BindError else Inr ()) \<and>
      (let h' = snd (initInTickThread C sub me port_ok now res h)
       in starting s h' \<and> bindRetries h' = bindRetries h + 1 \<and> lastInitTryTime h' = now \<and> listener h' \<noteq> None \<and>
          bindedEvent h' = (bindedEvent h \<or> maxBindRetries C \<noteq> 0 \<and> bindRetries h + 1 \<ge> maxBindRetries C))"
proof -
  let ?e = "s\<lparr>nodes := [], next_index := (\<lambda>_. None), match_index := (\<lambda>_. None)\<rparr>"
  have o: "other_addrs ?e = others" by (simp add: s raft_init_def Let_def)
  have "getCurrentLogIndex ?e + 1 = idx (last_entry (raft_log s)) + 1" by (simp add: getCurrentLogIndex_def)
  then have f: "forE (add_partner port_ok) (other_addrs ?e) (?e\<lparr>nodes := []\<rparr>) = (Inr (), s)"
    unfolding o add_partners[OF p] by (simp add: s raft_init_def Let_def getCurrentLogIndex_def fun_eq_iff)
  then have f': "forE (add_partner port_ok) others (s\<lparr>next_index := \<lambda>_. None, match_index := \<lambda>_. None, nodes := []\<rparr>) = (Inr (), s)"
    unfolding o by simp
  have n: "s\<lparr>need_load_dump := True\<rparr> = s" by (simp add: s raft_init_def Let_def)
  have c: "host_raft h = ?e" using h by (simp add: starting_def)
  show ?thesis
  proof (cases "listener h = None \<or> binds res")
    case True
    have "\<exists>l. bind_listener sub me res (h\<lparr>lastInitTryTime := now\<rparr>) = (Inr (), h\<lparr>lastInitTryTime := now, listener := l\<rparr>)"
      using True by (cases h; cases "listener h"; cases res) (auto simp: bind_listener_def server_bind_def)
    then obtain l where l: "bind_listener sub me res (h\<lparr>lastInitTryTime := now\<rparr>) = (Inr (), h\<lparr>lastInitTryTime := now, listener := l\<rparr>)" ..
    have "init_body sub me port_ok now res h =
        (Inr (), h\<lparr>lastInitTryTime := now, listener := l, host_raft := s, initialized := True, bindedEvent := True\<rparr>)"
      by (simp add: init_body_def bindE_def l on_core_def c f' o[simplified] n)
    with True show ?thesis by (simp add: initInTickThread_def)
  next
    case False
    then obtain l where l: "listener h = Some l" and nb: "\<not> binds res" by auto
    obtain l' where "server_bind sub me res l = (Inl SocketError, l')" using nb by (cases res) (auto simp: server_bind_def)
    then have "init_body sub me port_ok now res h = (Inl SocketError, h\<lparr>lastInitTryTime := now, listener := Some l'\<rparr>)"
      by (simp add: init_body_def bindE_def bind_listener_def l)
    with False h show ?thesis by (auto simp: initInTickThread_def starting_def Let_def)
  qed
qed


text \<open>A tick, before the node is initialised and after.\<close>

lemma host_tick_initialized:
  "initialized h \<Longrightarrow> host_tick R sub me port_ok now rnd rounds cmds res h =
     bindE (on_core (onTick R now rnd rounds cmds)) (\<lambda>_. modE (readonly_check now)) h"
  by (simp add: host_tick_def bindE_def)

lemma host_tick_keeps:
  assumes "initialized h"
  shows "initialized (snd (host_tick R sub me port_ok now rnd rounds cmds res h))"
    and "listener (snd (host_tick R sub me port_ok now rnd rounds cmds res h)) = listener h"
    and "host_raft (snd (host_tick R sub me port_ok now rnd rounds cmds res h)) = snd (onTick R now rnd rounds cmds (host_raft h))"
  unfolding host_tick_initialized[OF assms] using assms
  by (auto simp: bindE_def on_core_def readonly_check_def split: prod.split sum.split)

type_synonym tick = "rat \<times> rat \<times> nat \<times> nat \<times> bind_result"

definition ticks ::
  "raft_env \<Rightarrow> (nat \<Rightarrow> 'c \<Rightarrow> poll_flag set \<Rightarrow> 'p \<Rightarrow> 'p) \<Rightarrow> 'c \<Rightarrow> (addr \<Rightarrow> bool) \<Rightarrow> tick list \<Rightarrow> ('p host, unit) eff" where
  "ticks R sub me port_ok = forE (\<lambda>(now, rnd, rounds, cmds, res). host_tick R sub me port_ok now rnd rounds cmds res)"

text \<open>With unlimited retries, ticks whose binds fail leave the node to be initialised.\<close>

lemma failing_ticks:
  assumes s: "s = raft_init R now0 deadline self others journal dump_file st" and p: "\<forall>a\<in>set others. port_ok a"
    and m: "maxBindRetries (conf R) = 0"
  shows "starting s h \<Longrightarrow> listener h \<noteq> None \<Longrightarrow> \<not> bindedEvent h \<Longrightarrow> \<forall>(now, rnd, rounds, cmds, res)\<in>set xs. \<not> binds res \<Longrightarrow>
    \<exists>h'. ticks R sub me port_ok xs h = (Inr (), h') \<and> starting s h' \<and> listener h' \<noteq> None \<and> \<not> bindedEvent h'"
proof (induction xs arbitrary: h)
  case (Cons x xs)
  obtain now rnd rounds cmds res where x: "x = (now, rnd, rounds, cmds, res)" by (cases x)
  have nb: "\<not> binds res" using Cons.prems(4) x by simp
  let ?i = "initInTickThread (conf R) sub me port_ok now res h"
  obtain r h1 where i: "?i = (r, h1)" by (cases ?i)
  have "r = Inr () \<and> starting s h1 \<and> listener h1 \<noteq> None \<and> \<not> bindedEvent h1"
    using initInTickThread_cases[OF s Cons.prems(1) p, of res "conf R" sub me now] Cons.prems(2,3) nb m i
    by (auto simp: Let_def)
  moreover define h2 where "h2 = (if now \<ge> lastInitTryTime h + bindRetryTime (conf R) then h1 else h)"
  ultimately have t: "host_tick R sub me port_ok now rnd rounds cmds res h = (Inr (), h2)"
      and h2: "starting s h2" "listener h2 \<noteq> None" "\<not> bindedEvent h2"
    using Cons.prems(1-3) i by (simp_all add: host_tick_def bindE_def starting_def)
  show ?case using Cons.IH[OF h2] Cons.prems(4) t by (auto simp: ticks_def x bindE_def)
qed (simp add: ticks_def)

text \<open>
  C25. A node starts up whatever the order of failures: while its server cannot be bound, ticks
  raise nothing, leave the node as it was constructed and keep \<open>waitBinded\<close> waiting; the first tick
  that is due and can bind makes the partners and goes on as a tick of the node that \<open>raft_init\<close>
  describes, the failed attempts leave no trace in it.
\<close>

theorem start_up:
  assumes "s = raft_init R now0 deadline self others journal dump_file st" and "\<forall>a\<in>set others. port_ok a"
    and "maxBindRetries (conf R) = 0" and "\<forall>(now, rnd, rounds, cmds, res)\<in>set xs. \<not> binds res"
  shows "\<exists>h. ticks R sub me port_ok xs (new_host s (Some l)) = (Inr (), h) \<and> waitBinded h = None \<and>
    (lastInitTryTime h + bindRetryTime (conf R) \<le> now \<longrightarrow>
       (let h' = snd (host_tick R sub me port_ok now rnd rounds cmds (Binds fd) h)
        in waitBinded h' = Some (Inr ()) \<and> host_raft h' = snd (onTick R now rnd rounds cmds s)))"
proof -
  have "starting s (new_host s (Some l))" by (simp add: starting_def new_host_def)
  from failing_ticks[OF assms(1-3) this _ _ assms(4), of sub me]
  obtain h where t: "ticks R sub me port_ok xs (new_host s (Some l)) = (Inr (), h)" and st: "starting s h"
      and w: "\<not> bindedEvent h"
    by (auto simp: new_host_def)
  have "waitBinded h' = Some (Inr ()) \<and> host_raft h' = snd (onTick R now rnd rounds cmds s)"
    if due: "lastInitTryTime h + bindRetryTime (conf R) \<le> now"
      and h': "h' = snd (host_tick R sub me port_ok now rnd rounds cmds (Binds fd) h)" for h'
  proof -
    obtain h1 where i: "initInTickThread (conf R) sub me port_ok now (Binds fd) h = (Inr (), h1)"
        and h1: "initialized h1" "bindedEvent h1" "host_raft h1 = s"
      using initInTickThread_cases[OF assms(1) st assms(2), of "Binds fd" "conf R" sub me now]
      by (cases "initInTickThread (conf R) sub me port_ok now (Binds fd) h") (auto simp: Let_def)
    have "host_tick R sub me port_ok now rnd rounds cmds (Binds fd) h = host_tick R sub me port_ok now rnd rounds cmds (Binds fd) h1"
      using st due i h1(1) by (simp add: host_tick_def bindE_def starting_def)
    with h' h1 show ?thesis using host_tick_keeps(1,3)[OF h1(1), where R = R and sub = sub and me = me]
      by (auto simp: waitBinded_def host_tick_initialized bindE_def on_core_def readonly_check_def split: prod.split sum.split)
  qed
  with t w show ?thesis by (auto simp: waitBinded_def Let_def)
qed

end
