(* ===== verification/NodeConn.thy ===== *)
theory NodeConn
  imports TcpConn "HOL-Library.Char_ord"
begin

text \<open>
  A partner of the cluster as this node sees it, \<open>pysyncobjbc/node.py\<close>: whether and when to
  connect, the handshake, the status that decides whether messages are sent. A partner may be
  bound to several connections at once, its own and those it accepted; they are kept in a store,
  and \<open>on_conn\<close> runs an operation of one of them, whose callbacks change the partner.
\<close>

section \<open>State\<close>

text \<open>
  \<open>host\<close> is the resolved address: \<open>None\<close> when the name could not be resolved, else whether it is
  an address of a known family. \<open>inbox\<close> are the messages handed to
  \<open>SyncObj._onMessageReceived\<close>.
\<close>

record 'm partner =
  partner_addr :: string
  should_connect :: bool
  host :: "bool option"
  has_encryptor :: bool
  last_attempt :: rat
  status :: conn_state
  terminating :: bool
  inbox :: "'m packet list"

type_synonym 'm conn = "('m partner, 'm) tcp"

record 'm node =
  partner :: "'m partner"
  conns :: "nat \<Rightarrow> 'm conn"
  current :: "nat option"

text \<open>What a partner takes from the node it belongs to.\<close>

record 'm node_env =
  codec_of :: "'m msg_codec"
  own_addr :: "string option"
  retry_time :: rat
  timeout_time :: rat

section \<open>Construction\<close>

text \<open>\<open>should\<close> is None for the rule: the greater address connects (a node without address is not asked).\<close>

definition Node :: "'m node_env \<Rightarrow> string \<Rightarrow> bool option \<Rightarrow> bool option \<Rightarrow> bool \<Rightarrow> rat \<Rightarrow> 'm node" where
  "Node E addr should hst encr now =
     (let sc = (case should of Some b \<Rightarrow> b
                | None \<Rightarrow> (case own_addr E of Some a \<Rightarrow> addr < a | None \<Rightarrow> False));
          p = \<lparr>partner_addr = addr, should_connect = sc, host = hst, has_encryptor = encr, last_attempt = 0,
               status = DISCONNECTED, terminating = False, inbox = []\<rparr>
      in \<lparr>partner = p, conns = (\<lambda>_. (TcpConnection p now (timeout_time E) None)\<lparr>encryptor := encr\<rparr>),
          current = (if sc then Some 0 else None)\<rparr>)"

section \<open>Callbacks\<close>

definition node_onDisconnected :: "'m partner \<Rightarrow> 'm partner" where
  "node_onDisconnected p = p\<lparr>status := DISCONNECTED\<rparr>"

text \<open>\<open>key\<close> is what \<open>os.urandom\<close> returns.\<close>

definition node_onConnected :: "'m node_env \<Rightarrow> bytes \<Rightarrow> ('m conn, unit) eff" where
  "node_onConnected E key t =
     (let t1 = t\<lparr>owner := (owner t)\<lparr>status := CONNECTED\<rparr>\<rparr> in
      if has_encryptor (owner t)
      then tcp_send (codec_of E) node_onDisconnected (Bytes key) (t1\<lparr>recvRandKey := Bytes key\<rparr>)
      else tcp_send (codec_of E) node_onDisconnected
             (case own_addr E of Some a \<Rightarrow> Text a | None \<Rightarrow> Text ''readonly'') t1)"

definition node_onMessage :: "'m node_env \<Rightarrow> 'm packet \<Rightarrow> ('m conn, unit) eff" where
  "node_onMessage E m t =
     (if has_encryptor (owner t) \<and> \<not> truthy (sendRandKey t)
      then tcp_send (codec_of E) node_onDisconnected (case own_addr E of Some a \<Rightarrow> Text a | None \<Rightarrow> Nothing)
             (t\<lparr>sendRandKey := m\<rparr>)
      else (Inr (), t\<lparr>owner := (owner t)\<lparr>inbox := inbox (owner t) @ [m]\<rparr>\<rparr>))"

section \<open>Operations\<close>

definition on_conn :: "nat \<Rightarrow> ('m conn, 'a) eff \<Rightarrow> ('m node, 'a) eff" where
  "on_conn i f s =
     (let (r, t) = f ((conns s i)\<lparr>owner := partner s\<rparr>) in (r, s\<lparr>partner := owner t, conns := (conns s)(i := t)\<rparr>))"

definition node_destroy :: "'m node \<Rightarrow> 'm node" where
  "node_destroy s =
     (let s1 = s\<lparr>partner := (partner s)\<lparr>should_connect := False\<rparr>\<rparr>;
          s2 = (case current s1 of
                  None \<Rightarrow> s1
                | Some i \<Rightarrow> snd (on_conn i (modE (disconnect node_onDisconnected)) s1))
      in s2\<lparr>partner := (partner s2)\<lparr>status := DISCONNECTED, terminating := True\<rparr>\<rparr>)"

text \<open>Connection \<open>i\<close> was accepted and has announced itself as this partner.\<close>

definition onPartnerConnected :: "nat \<Rightarrow> 'm node \<Rightarrow> 'm node" where
  "onPartnerConnected i s =
     (if terminating (partner s) then s
      else s\<lparr>current := Some i, partner := (partner s)\<lparr>status := CONNECTED\<rparr>\<rparr>)"

definition isConnected :: "'m node \<Rightarrow> bool" where
  "isConnected s = (status (partner s) = CONNECTED)"

definition getSendBufferSize :: "'m node \<Rightarrow> py_error + nat" where
  "getSendBufferSize s =
     (case current s of None \<Rightarrow> Inl AttributeError | Some i \<Rightarrow> Inr (length (writeBuffer (conns s i))))"

definition partner_send :: "'m node_env \<Rightarrow> 'm packet \<Rightarrow> ('m node, bool) eff" where
  "partner_send E m s =
     (if status (partner s) \<noteq> CONNECTED then (Inr False, s)
      else
        (case current s of
           None \<Rightarrow> (Inl AttributeError, s)
         | Some i \<Rightarrow>
             bindE (on_conn i (tcp_send (codec_of E) node_onDisconnected m))
               (\<lambda>_. getE (\<lambda>s. status (partner s) = CONNECTED)) s))"

definition connectIfRequired :: "'m node_env \<Rightarrow> rat \<Rightarrow> connect_result \<Rightarrow> ('m node, unit) eff" where
  "connectIfRequired E now res s =
     (if \<not> should_connect (partner s) then (Inr (), s)
      else if status (partner s) \<noteq> DISCONNECTED then (Inr (), s)
      else if now - last_attempt (partner s) < retry_time E then (Inr (), s)
      else
        let s1 = s\<lparr>partner := (partner s)\<lparr>status := CONNECTING, last_attempt := now\<rparr>\<rparr> in
        (case current s1 of
           None \<Rightarrow> (Inl AttributeError, s1)
         | Some i \<Rightarrow>
             bindE (on_conn i (connect now (host (partner s1)) res)) (\<lambda>ok.
               if ok then ret () else modE (\<lambda>s. s\<lparr>partner := (partner s)\<lparr>status := DISCONNECTED\<rparr>\<rparr>)) s1))"

text \<open>An event of the poller for connection \<open>i\<close>, whose callbacks are this partner's.\<close>

definition conn_event ::
  "'m node_env \<Rightarrow> nat \<Rightarrow> bytes \<Rightarrow> nat \<Rightarrow> rat \<Rightarrow> nat \<Rightarrow> poll_flag set \<Rightarrow> bool \<Rightarrow> 'm node \<Rightarrow> ((py_error + unit) \<times> 'm node) option" where
  "conn_event E n key i now descr ev so_error s =
     (case processConnection n (codec_of E) node_onDisconnected (node_onConnected E key) (node_onMessage E)
             now descr ev so_error ((conns s i)\<lparr>owner := partner s\<rparr>) of
        None \<Rightarrow> None
      | Some (r, t) \<Rightarrow> Some (r, s\<lparr>partner := owner t, conns := (conns s)(i := t)\<rparr>))"

end
