(* ===== verification/Methods.thy ===== *)
theory Methods
  imports Config "HOL-Library.Char_ord" "HOL-Library.Multiset"
begin

text \<open>
  The replicated methods of an object and of its consumers, \<open>SyncObj.__init__\<close>, the decorator
  \<open>replicated\<close> and the code versions: every version of a method has a number, commands carry the
  number, and the version of the cluster decides which version a call uses.
\<close>

section \<open>Methods and their numbers\<close>

text \<open>\<open>owner_num\<close> is 0 for the object itself, else the place of the consumer in the list, from 1.\<close>

record meth =
  owner_num :: nat
  origName :: string
  ver :: nat

fun str_nat :: "nat \<Rightarrow> string" where
  "str_nat n = (if n < 10 then [char_of (48 + n)] else str_nat (n div 10) @ [char_of (48 + n mod 10)])"

declare str_nat.simps [simp del]

definition versioned :: "string \<Rightarrow> nat \<Rightarrow> string" where
  "versioned name v = name @ ''_v'' @ str_nat v"

definition meth_key :: "meth \<Rightarrow> nat \<times> nat \<times> string" where
  "meth_key m = (ver m, owner_num m, versioned (origName m) (ver m))"

text \<open>The methods in the order in which they get their numbers: by version first.\<close>

definition enumerated :: "meth list \<Rightarrow> meth list" where
  "enumerated ms = sort_key meth_key ms"

definition selfCodeVersion :: "meth list \<Rightarrow> nat" where
  "selfCodeVersion ms = fold (\<lambda>m v. max v (ver m)) (enumerated ms) 0"

definition idToMethod :: "meth list \<Rightarrow> nat \<Rightarrow> py_error + meth" where
  "idToMethod ms i = (let es = enumerated ms in if i < length es then Inr (es ! i) else Inl KeyError)"

fun position :: "('a \<Rightarrow> bool) \<Rightarrow> 'a list \<Rightarrow> nat option" where
  "position P [] = None"
| "position P (x # xs) = (if P x then Some 0 else map_option Suc (position P xs))"

definition methodToID :: "meth list \<Rightarrow> nat \<Rightarrow> string \<Rightarrow> py_error + nat" where
  "methodToID ms owner name =
     (case position (\<lambda>m. owner_num m = owner \<and> versioned (origName m) (ver m) = name) (enumerated ms) of
        None \<Rightarrow> Inl KeyError
      | Some i \<Rightarrow> Inr i)"

section \<open>The version of the cluster\<close>

text \<open>The loop over the sorted versions of one function.\<close>

fun pick_version :: "nat \<Rightarrow> nat list \<Rightarrow> nat option \<Rightarrow> nat option" where
  "pick_version new [] acc = acc"
| "pick_version new (v # vs) acc = (if v > new then acc else pick_version new vs (Some v))"

definition func_versions :: "meth list \<Rightarrow> nat \<Rightarrow> string \<Rightarrow> nat set" where
  "func_versions ms owner name = ver ` {m \<in> set ms. owner_num m = owner \<and> origName m = name}"

text \<open>\<open>__currentVersionFuncNames\<close> after \<open>__onSetCodeVersion new\<close>.\<close>

definition onSetCodeVersion :: "meth list \<Rightarrow> nat \<Rightarrow> nat \<Rightarrow> string \<Rightarrow> string option" where
  "onSetCodeVersion ms new owner name =
     map_option (versioned name) (pick_version new (sorted_list_of_set (func_versions ms owner name)) None)"

definition getFuncName :: "meth list \<Rightarrow> nat \<Rightarrow> nat \<Rightarrow> string \<Rightarrow> py_error + string" where
  "getFuncName ms new owner name =
     (case onSetCodeVersion ms new owner name of None \<Rightarrow> Inl KeyError | Some n \<Rightarrow> Inr n)"

section \<open>Calls and commands\<close>

text \<open>The shape of a command depends on the arguments of the call: none, positional, also named.\<close>

datatype ('a, 'k) call_cmd = Cmd_id nat | Cmd_args nat 'a | Cmd_kwargs nat 'a 'k

text \<open>
  A call of a replicated method when \<open>enabled\<close> is the version of the cluster: the command that is
  put into the queue. \<open>args\<close> and \<open>kwargs\<close> are \<open>None\<close> when the call has none.
\<close>

definition replicated_call ::
  "meth list \<Rightarrow> nat \<Rightarrow> nat \<Rightarrow> string \<Rightarrow> 'a option \<Rightarrow> 'a \<Rightarrow> 'k option \<Rightarrow> py_error + ('a, 'k) call_cmd" where
  "replicated_call ms enabled owner name args no_args kwargs =
     (case getFuncName ms enabled owner name of
        Inl e \<Rightarrow> Inl e
      | Inr n \<Rightarrow>
          (case methodToID ms owner n of
             Inl e \<Rightarrow> Inl e
           | Inr i \<Rightarrow>
               Inr (case kwargs of
                      Some k \<Rightarrow> Cmd_kwargs i (case args of None \<Rightarrow> no_args | Some a \<Rightarrow> a) k
                    | None \<Rightarrow> (case args of Some a \<Rightarrow> Cmd_args i a | None \<Rightarrow> Cmd_id i))))"

text \<open>What \<open>__doApplyCommand\<close> makes of it: the method and its arguments.\<close>

definition apply_call :: "meth list \<Rightarrow> ('a, 'k) call_cmd \<Rightarrow> py_error + (meth \<times> 'a option \<times> 'k option)" where
  "apply_call ms c =
     (let (i, a, k) = (case c of Cmd_id i \<Rightarrow> (i, None, None) | Cmd_args i a \<Rightarrow> (i, Some a, None)
                       | Cmd_kwargs i a k \<Rightarrow> (i, Some a, Some k))
      in (case idToMethod ms i of Inl e \<Rightarrow> Inl e | Inr m \<Rightarrow> Inr (m, a, k)))"

text \<open>
  A synchronous call waits for the callback of its command. It returns the result, or raises
  SyncObjException, with the code Timeout (\<open>None\<close>) when the event was not set in time, or with the
  failure that was reported. With a callback of its own a call is not synchronous.
\<close>

record 'r async_result =
  async_result :: "'r option"
  async_error :: "fail_reason option"
  async_event :: bool

definition AsyncResult :: "'r async_result" where
  "AsyncResult = \<lparr>async_result = None, async_error = None, async_event = False\<rparr>"

definition onResult :: "'r option \<Rightarrow> fail_reason \<Rightarrow> 'r async_result \<Rightarrow> 'r async_result" where
  "onResult res err a = a\<lparr>async_result := res, async_error := Some err, async_event := True\<rparr>"

definition synchronous :: "bool \<Rightarrow> bool \<Rightarrow> bool" where
  "synchronous sync has_callback = (sync \<and> \<not> has_callback)"

definition sync_return :: "'r async_result \<Rightarrow> fail_reason option + 'r option" where
  "sync_return a =
     (if \<not> async_event a then Inl None
      else if async_error a \<noteq> Some SUCCESS then Inl (async_error a)
      else Inr (async_result a))"

section \<open>Names\<close>

lemma str_nat_digits: "set (str_nat n) \<subseteq> char_of ` {48..57::nat}"
proof (induction n rule: str_nat.induct)
  case (1 n)
  show ?case
  proof (cases "n < 10")
    case True
    then show ?thesis by (subst str_nat.simps) auto
  next
    case False
    with 1 show ?thesis by (subst str_nat.simps) auto
  qed
qed

lemma str_nat_ne: "str_nat n \<noteq> []"
  by (subst str_nat.simps) simp


definition digit_val :: "char \<Rightarrow> nat" where
  "digit_val c = of_char c - 48"

lemma str_nat_val: "foldl (\<lambda>a c. 10 * a + digit_val c) 0 (str_nat n) = n"
proof (induction n rule: str_nat.induct)
  case (1 n)
  show ?case
  proof (cases "n < 10")
    case True
    then show ?thesis by (subst str_nat.simps) (simp add: digit_val_def)
  next
    case False
    with 1 show ?thesis by (subst str_nat.simps) (simp add: digit_val_def)
  qed
qed

lemma str_nat_inject: "str_nat m = str_nat n \<longleftrightarrow> m = n"
  by (metis str_nat_val)

text \<open>A versioned name determines the function and the version.\<close>

lemma versioned_inject: "versioned a v = versioned b w \<longleftrightarrow> a = b \<and> v = w"
proof
  assume eq: "versioned a v = versioned b w"
  let ?D = "\<lambda>c. c \<in> char_of ` {48..57::nat}"
  have dig: "?D c" if "c \<in> set (rev (str_nat n))" for c n using str_nat_digits[of n] that by auto
  have nv: "\<not> ?D (CHR ''v'')" by (auto simp: image_iff dest!: arg_cong[where f = "of_char :: char \<Rightarrow> nat"])
  have r: "rev (versioned x u) = rev (str_nat u) @ CHR ''v'' # CHR ''_'' # rev x" for x u by (simp add: versioned_def)
  have "takeWhile ?D (rev (versioned x u)) = rev (str_nat u)" for x u
    unfolding r using takeWhile_append2[of "rev (str_nat u)" ?D] dig nv by simp
  with eq have "str_nat v = str_nat w" by (metis rev_rev_ident)
  then have "v = w" by (simp add: str_nat_inject)
  with eq show "a = b \<and> v = w" by (simp add: versioned_def)
qed auto

section \<open>The version that is used\<close>

lemma pick_version_sorted:
  "sorted vs \<Longrightarrow> pick_version n vs acc = (if \<exists>v\<in>set vs. v \<le> n then Some (Max {v \<in> set vs. v \<le> n}) else acc)"
proof (induction vs arbitrary: acc)
  case (Cons v vs)
  show ?case
  proof (cases "v \<le> n")
    case False
    with Cons.prems have "\<forall>u\<in>set (v # vs). \<not> u \<le> n" by auto
    with False show ?thesis by auto
  next
    case True
    show ?thesis
    proof (cases "\<exists>u\<in>set vs. u \<le> n")
      case ex: True
      have "{u \<in> set (v # vs). u \<le> n} = insert v {u \<in> set vs. u \<le> n}" using True by auto
      moreover have "Max (insert v {u \<in> set vs. u \<le> n}) = Max {u \<in> set vs. u \<le> n}"
      proof -
        obtain u where u: "u \<in> set vs" "u \<le> n" using ex by blast
        with Cons.prems have "v \<le> u" by auto
        also have "u \<le> Max {u \<in> set vs. u \<le> n}" using u by (intro Max_ge) auto
        finally show ?thesis using u by (subst Max_insert) auto
      qed
      ultimately show ?thesis using True ex Cons by simp
    next
      case False
      then have "{u \<in> set (v # vs). u \<le> n} = {v}" using True by auto
      with True False Cons show ?thesis by simp
    qed
  qed
qed simp

lemma finite_func_versions [simp]: "finite (func_versions ms owner name)"
  by (simp add: func_versions_def)

lemma getFuncName_Inr:
  "getFuncName ms n owner name = Inr f \<longleftrightarrow>
   (\<exists>m\<in>set ms. owner_num m = owner \<and> origName m = name \<and> ver m \<le> n \<and> f = versioned name (ver m) \<and>
      (\<forall>m'\<in>set ms. owner_num m' = owner \<and> origName m' = name \<and> ver m' \<le> n \<longrightarrow> ver m' \<le> ver m))"
proof -
  let ?V = "{v \<in> func_versions ms owner name. v \<le> n}"
  have p: "pick_version n (sorted_list_of_set (func_versions ms owner name)) None =
      (if ?V \<noteq> {} then Some (Max ?V) else None)"
    by (subst pick_version_sorted) auto
  have fin: "finite ?V" by simp
  have mem: "v \<in> ?V \<longleftrightarrow> (\<exists>m\<in>set ms. owner_num m = owner \<and> origName m = name \<and> ver m = v \<and> v \<le> n)" for v
    by (auto simp: func_versions_def)
  show ?thesis
  proof
    assume "getFuncName ms n owner name = Inr f"
    then have ne: "?V \<noteq> {}" and f: "f = versioned name (Max ?V)"
      using p by (auto simp: getFuncName_def onSetCodeVersion_def split: if_splits)
    have "Max ?V \<in> ?V" using fin ne by (rule Max_in)
    then obtain m where m: "m \<in> set ms" "owner_num m = owner" "origName m = name" "ver m = Max ?V" "Max ?V \<le> n"
      using mem by blast
    have "ver m' \<le> ver m" if "m' \<in> set ms" "owner_num m' = owner" "origName m' = name" "ver m' \<le> n" for m'
      unfolding m(4) using that mem[of "ver m'"] fin by (intro Max_ge) blast+
    with m f show "\<exists>m\<in>set ms. owner_num m = owner \<and> origName m = name \<and> ver m \<le> n \<and> f = versioned name (ver m) \<and>
      (\<forall>m'\<in>set ms. owner_num m' = owner \<and> origName m' = name \<and> ver m' \<le> n \<longrightarrow> ver m' \<le> ver m)" by metis
  next
    assume "\<exists>m\<in>set ms. owner_num m = owner \<and> origName m = name \<and> ver m \<le> n \<and> f = versioned name (ver m) \<and>
      (\<forall>m'\<in>set ms. owner_num m' = owner \<and> origName m' = name \<and> ver m' \<le> n \<longrightarrow> ver m' \<le> ver m)"
    then obtain m where m: "m \<in> set ms" "owner_num m = owner" "origName m = name" "ver m \<le> n" "f = versioned name (ver m)"
      and mx: "\<forall>m'\<in>set ms. owner_num m' = owner \<and> origName m' = name \<and> ver m' \<le> n \<longrightarrow> ver m' \<le> ver m" by blast
    have v: "ver m \<in> ?V" using m(1-4) by (auto simp: func_versions_def)
    have mx: "u \<le> ver m" if "u \<in> ?V" for u using mx that by (auto simp: func_versions_def)
    have "Max ?V = ver m" by (rule Max_eqI[OF fin mx v])
    moreover have "?V \<noteq> {}" using v by blast
    ultimately have "pick_version n (sorted_list_of_set (func_versions ms owner name)) None = Some (ver m)"
      using p by presburger
    then show "getFuncName ms n owner name = Inr f"
      by (simp add: getFuncName_def onSetCodeVersion_def m(5))
  qed
qed

section \<open>Numbers are stable\<close>

lemma enumerated_append:
  assumes "\<forall>m\<in>set new. \<forall>m'\<in>set old. ver m' < ver m"
  shows "enumerated (old @ new) = enumerated old @ enumerated new"
  unfolding enumerated_def
proof (rule properties_for_sort_key)
  show "mset (sort_key meth_key old @ sort_key meth_key new) = mset (old @ new)" by simp
  show "filter (\<lambda>x. meth_key k = meth_key x) (sort_key meth_key old @ sort_key meth_key new) =
      filter (\<lambda>x. meth_key k = meth_key x) (old @ new)" for k
    using sort_key_stable[of meth_key "meth_key k"] by (simp add: eq_commute)
  show "sorted (map meth_key (sort_key meth_key old @ sort_key meth_key new))"
    using assms by (auto simp: sorted_append meth_key_def less_imp_le)
qed

lemma position_append: "position P xs = Some i \<Longrightarrow> position P (xs @ ys) = Some i"
  by (induction xs arbitrary: i) (auto split: if_splits)

lemma position_Some: "position P xs = Some i \<Longrightarrow> i < length xs \<and> P (xs ! i)"
  by (induction xs arbitrary: i) (auto split: if_splits)

lemma position_ex: "x \<in> set xs \<Longrightarrow> P x \<Longrightarrow> \<exists>i. position P xs = Some i"
  by (induction xs) auto


lemma methodToID_Inr:
  assumes "m \<in> set ms"
  shows "\<exists>i. methodToID ms (owner_num m) (versioned (origName m) (ver m)) = Inr i"
proof -
  have "m \<in> set (enumerated ms)" using assms by (simp add: enumerated_def)
  then obtain i where "position (\<lambda>x. owner_num x = owner_num m \<and> versioned (origName x) (ver x) = versioned (origName m) (ver m))
      (enumerated ms) = Some i" using position_ex[of m] by fastforce
  then show ?thesis by (simp add: methodToID_def)
qed

lemma methodToID_idToMethod:
  assumes "methodToID ms owner (versioned name v) = Inr i"
  shows "\<exists>m\<in>set ms. idToMethod ms i = Inr m \<and> owner_num m = owner \<and> origName m = name \<and> ver m = v"
proof -
  have p: "position (\<lambda>m. owner_num m = owner \<and> versioned (origName m) (ver m) = versioned name v) (enumerated ms) = Some i"
    using assms by (auto simp: methodToID_def split: option.splits)
  from position_Some[OF this] have "i < length (enumerated ms)" "enumerated ms ! i \<in> set ms"
    "owner_num (enumerated ms ! i) = owner" "origName (enumerated ms ! i) = name" "ver (enumerated ms ! i) = v"
    using nth_mem[of i "enumerated ms"] by (auto simp: versioned_inject enumerated_def)
  then show ?thesis by (auto simp: idToMethod_def Let_def)
qed

text \<open>Added versions change neither the name a call uses nor the numbers.\<close>

lemma upgrade_getFuncName:
  assumes "\<forall>m\<in>set new. n < ver m"
  shows "getFuncName (old @ new) n owner name = getFuncName old n owner name"
proof -
  have "getFuncName (old @ new) n owner name = Inr f \<longleftrightarrow> getFuncName old n owner name = Inr f" for f
    unfolding getFuncName_Inr using assms by (auto simp: not_le[symmetric])
  moreover have "getFuncName ms n owner name \<noteq> Inr f \<longrightarrow> (\<forall>f'. f' \<noteq> f \<longrightarrow> getFuncName ms n owner name \<noteq> Inr f') \<longrightarrow>
      getFuncName ms n owner name = Inl KeyError" for ms f
    by (auto simp: getFuncName_def split: option.splits)
  ultimately show ?thesis by metis
qed

lemma upgrade_methodToID:
  assumes "\<forall>m\<in>set new. \<forall>m'\<in>set old. ver m' < ver m" and "methodToID old owner name = Inr i"
  shows "methodToID (old @ new) owner name = Inr i"
  using assms(2) position_append unfolding methodToID_def enumerated_append[OF assms(1)]
  by (fastforce split: option.splits)

lemma upgrade_idToMethod:
  assumes "\<forall>m\<in>set new. \<forall>m'\<in>set old. ver m' < ver m" and "idToMethod old i = Inr m"
  shows "idToMethod (old @ new) i = Inr m"
  using assms(2) unfolding idToMethod_def enumerated_append[OF assms(1)]
  by (auto simp: Let_def nth_append split: if_splits)

text \<open>
  C24. Rolling upgrade. Some nodes run new code that adds newer versions of methods; the cluster
  still works with an old version. A call on an upgraded node issues the same command as on an
  old one, and the command runs the same method with the same arguments on both: the newest
  version of the called function that the version of the cluster allows.
\<close>

theorem rolling_upgrade:
  assumes "\<forall>m\<in>set new. \<forall>m'\<in>set old. ver m' < ver m" and "\<forall>m\<in>set new. enabled < ver m"
    and "replicated_call old enabled owner name args no_args kwargs = Inr c"
  shows "replicated_call (old @ new) enabled owner name args no_args kwargs = Inr c \<and>
    (\<exists>m\<in>set old. apply_call old c = apply_call (old @ new) c \<and>
       apply_call old c = Inr (m, (case kwargs of None \<Rightarrow> args | Some _ \<Rightarrow> Some (case args of None \<Rightarrow> no_args | Some a \<Rightarrow> a)), kwargs) \<and>
       owner_num m = owner \<and> origName m = name \<and> ver m \<le> enabled \<and>
       (\<forall>m'\<in>set old. owner_num m' = owner \<and> origName m' = name \<and> ver m' \<le> enabled \<longrightarrow> ver m' \<le> ver m))"
proof -
  obtain f i where f: "getFuncName old enabled owner name = Inr f" and i: "methodToID old owner f = Inr i"
    and c: "c = (case kwargs of Some k \<Rightarrow> Cmd_kwargs i (case args of None \<Rightarrow> no_args | Some a \<Rightarrow> a) k
                 | None \<Rightarrow> (case args of Some a \<Rightarrow> Cmd_args i a | None \<Rightarrow> Cmd_id i))"
    using assms(3) by (auto simp: replicated_call_def split: sum.splits)
  from f obtain m0 :: meth where m0: "owner_num m0 = owner" "origName m0 = name" "ver m0 \<le> enabled" "f = versioned name (ver m0)"
    and mx: "\<forall>m'\<in>set old. owner_num m' = owner \<and> origName m' = name \<and> ver m' \<le> enabled \<longrightarrow> ver m' \<le> ver m0"
    unfolding getFuncName_Inr by blast
  from i obtain m where m: "m \<in> set old" "idToMethod old i = Inr m" "owner_num m = owner" "origName m = name" "ver m = ver m0"
    unfolding m0(4) using methodToID_idToMethod by blast
  have m2: "idToMethod (old @ new) i = Inr m" by (rule upgrade_idToMethod[OF assms(1) m(2)])
  have "replicated_call (old @ new) enabled owner name args no_args kwargs = Inr c"
    unfolding replicated_call_def upgrade_getFuncName[OF assms(2)] f sum.case upgrade_methodToID[OF assms(1) i] c ..
  moreover have "apply_call old c = Inr (m, (case kwargs of None \<Rightarrow> args | Some _ \<Rightarrow> Some (case args of None \<Rightarrow> no_args | Some a \<Rightarrow> a)), kwargs)"
    "apply_call old c = apply_call (old @ new) c"
    using m(2) m2 by (auto simp: apply_call_def c split: option.splits)
  ultimately show ?thesis using m m0(3) mx by metis
qed

theorem rolling_upgrade_witness:
  "replicated_call [\<lparr>owner_num = 0, origName = ''f'', ver = 0\<rparr>, \<lparr>owner_num = 0, origName = ''g'', ver = 0\<rparr>] 0 0 ''g'' (Some [7::int]) [] (None :: unit option)
     = Inr (Cmd_args 1 [7]) \<and>
   replicated_call ([\<lparr>owner_num = 0, origName = ''f'', ver = 0\<rparr>, \<lparr>owner_num = 0, origName = ''g'', ver = 0\<rparr>] @ [\<lparr>owner_num = 0, origName = ''f'', ver = 1\<rparr>])
     0 0 ''g'' (Some [7::int]) [] (None :: unit option) = Inr (Cmd_args 1 [7])"
proof -
  let ?old = "[\<lparr>owner_num = 0, origName = ''f'', ver = 0\<rparr>, \<lparr>owner_num = 0, origName = ''g'', ver = 0\<rparr>]"
  let ?new = "[\<lparr>owner_num = 0, origName = ''f'', ver = 1\<rparr>]"
  have c: "replicated_call ?old 0 0 ''g'' (Some [7::int]) [] (None :: unit option) = Inr (Cmd_args 1 [7])"
  proof -
    have "getFuncName ?old 0 0 ''g'' = Inr (versioned ''g'' 0)" unfolding getFuncName_Inr by auto
    moreover have "enumerated ?old = ?old" by (simp add: enumerated_def meth_key_def versioned_def)
    then have "methodToID ?old 0 (versioned ''g'' 0) = Inr 1" by (simp add: methodToID_def versioned_inject)
    ultimately show ?thesis by (simp add: replicated_call_def)
  qed
  have n: "\<forall>m\<in>set ?new. \<forall>m'\<in>set ?old. ver m' < ver m" "\<forall>m\<in>set ?new. 0 < ver m" by simp_all
  show ?thesis by (rule conjI[OF c conjunct1[OF rolling_upgrade[OF n c]]])
qed

end
