(* ===== verification/RaftHub.thy ===== *)
theory RaftHub
  imports RaftHost NodeConn Methods
begin

text \<open>
  The connections a node has accepted and does not know yet, \<open>pysyncobjbc/syncobj.py\<close>: the key
  exchange, the announcement as a partner or as a read-only node, and the administration commands
  with their answers. The owner of such a connection is the table of the unknown connections, which
  its disconnection changes.
\<close>

section \<open>State\<close>

text \<open>\<open>Other_arg\<close>: neither a string, an integer nor \<open>None\<close>.\<close>

datatype util_arg = Str string | Num int | Other_arg

datatype status_val = S_text "string option" | S_int int | S_state raft_state | S_status conn_state

datatype body = Args "util_arg list" | Status "string \<Rightarrow> status_val option"

type_synonym table = "nat \<Rightarrow> nat option"

record hub =
  raft_of :: raft
  unknown :: table
  hub_conns :: "nat \<Rightarrow> (table, body) tcp"
  given_to :: "nat \<Rightarrow> addr option"
  readonlyNodesCounter :: nat
  utility_cbs :: "nat \<Rightarrow> (nat \<times> string \<times> util_arg) option"
  next_cb :: nat

text \<open>\<open>exc_text\<close> is \<open>str\<close> of an exception that is not raised by a statement with a text.\<close>

record hub_env =
  hub_conf :: sync_obj_conf
  hub_codec :: "body msg_codec"
  has_password :: bool
  dumps_request :: "string \<Rightarrow> util_arg \<Rightarrow> bytes"
  dumps_version :: "int \<Rightarrow> bytes"
  exc_text :: "py_error \<Rightarrow> string"
  revision :: string
  peer_status :: "addr \<Rightarrow> conn_state"

section \<open>Connections\<close>

definition pop_unknown :: "nat option \<Rightarrow> table \<Rightarrow> table" where
  "pop_unknown fd u = (case fd of None \<Rightarrow> u | Some d \<Rightarrow> u(d := None))"

text \<open>An operation on connection \<open>i\<close>; the callback of its disconnection still sees its descriptor.\<close>

definition hub_conn :: "nat \<Rightarrow> ((table \<Rightarrow> table) \<Rightarrow> ((table, body) tcp, 'a) eff) \<Rightarrow> (hub, 'a) eff" where
  "hub_conn i f h =
     (let t = (hub_conns h i)\<lparr>owner := unknown h\<rparr>; (r, t') = f (pop_unknown (fileno t)) t
      in (r, h\<lparr>unknown := owner t', hub_conns := (hub_conns h)(i := t')\<rparr>))"

definition hub_send :: "hub_env \<Rightarrow> nat \<Rightarrow> body packet \<Rightarrow> (hub, unit) eff" where
  "hub_send E i m = hub_conn i (\<lambda>gone. tcp_send (hub_codec E) gone m)"

definition onNewConnection :: "hub_env \<Rightarrow> rat \<Rightarrow> nat \<Rightarrow> nat \<Rightarrow> hub \<Rightarrow> hub" where
  "onNewConnection E now i fd h =
     (let u = (unknown h)(fd \<mapsto> i) in
      h\<lparr>unknown := u,
        hub_conns := (hub_conns h)(i := (TcpConnection u now (connectionTimeout (hub_conf E)) (Some fd))\<lparr>encryptor := has_password E\<rparr>)\<rparr>)"

definition hub_disconnect :: "nat \<Rightarrow> hub \<Rightarrow> hub" where
  "hub_disconnect i h = snd (hub_conn i (\<lambda>gone. modE (disconnect gone)) h)"

section \<open>Administration\<close>

definition getStatus :: "hub_env \<Rightarrow> rat \<Rightarrow> hub \<Rightarrow> string \<Rightarrow> status_val option" where
  "getStatus E uptime h =
     (let s = raft_of h;
          per_node = (\<lambda>pre ps m. fold (\<lambda>p m. m(pre @ peer_addr p \<mapsto> S_status (peer_status E (peer_addr p)))) ps m);
          per_addr = (\<lambda>pre f (m :: string \<Rightarrow> status_val option) key.
             if take (length pre) key = pre \<and> f (drop (length pre) key) \<noteq> None
             then map_option S_int (f (drop (length pre) key)) else m key);
          m1 = [''version'' \<mapsto> S_text (Some ''0.3.3''), ''revision'' \<mapsto> S_text (Some (revision E)),
                ''self'' \<mapsto> S_text (self_addr s), ''state'' \<mapsto> S_state (state s), ''leader'' \<mapsto> S_text (leader s),
                ''partner_nodes_count'' \<mapsto> S_int (int (length (nodes s)))];
          m2 = (per_node ''partner_node_status_server_'' (nodes s) m1)
                 (''readonly_nodes_count'' \<mapsto> S_int (int (length (readonly_nodes s))));
          m3 = (per_node ''readonly_node_status_server_'' (readonly_nodes s) m2)
                 (''unknown_connections_count'' \<mapsto> S_int (int (card (dom (unknown h)))),
                  ''log_len'' \<mapsto> S_int (int (length (raft_log s))), ''last_applied'' \<mapsto> S_int (last_applied s),
                  ''commit_idx'' \<mapsto> S_int (commit_index s), ''raft_term'' \<mapsto> S_int (current_term s),
                  ''next_node_idx_count'' \<mapsto> S_int (int (card (dom (next_index s)))));
          m4 = (per_addr ''next_node_idx_server_'' (next_index s) m3)
                 (''match_idx_count'' \<mapsto> S_int (int (card (dom (match_index s)))))
      in (per_addr ''match_idx_server_'' (match_index s) m4)
           (''leader_commit_idx'' := map_option S_int (leader_commit s), ''uptime'' \<mapsto> S_int (py_int uptime),
            ''self_code_version'' \<mapsto> S_int (self_code_version s), ''enabled_code_version'' \<mapsto> S_int (enabled_code_version s)))"

definition show_int :: "int \<Rightarrow> string" where
  "show_int n = (if n < 0 then ''-'' @ str_nat (nat (- n)) else str_nat (nat n))"

text \<open>An exception of the two commands is its text.\<close>

definition setCodeVersion :: "hub_env \<Rightarrow> util_arg \<Rightarrow> callback option \<Rightarrow> raft \<Rightarrow> (string + unit) \<times> raft" where
  "setCodeVersion E arg cb s =
     (case arg of
        Num n \<Rightarrow>
          if n > self_code_version s
          then (Inl (''wrong version, current version is '' @ show_int (self_code_version s) @ '', requested version is '' @ show_int n), s)
          else if n < enabled_code_version s
          then (Inl (''wrong version, enabled version is '' @ show_int (enabled_code_version s) @ '', requested version is '' @ show_int n), s)
          else (Inr (), applyCommand (dumps_version E n) cb (Some VERSION) s)
      | _ \<Rightarrow> (Inl [], s))"

text \<open>\<open>addNodeToCluster\<close> with \<open>add\<close>, \<open>removeNodeFromCluster\<close> with \<open>rem\<close>.\<close>

definition cluster_request :: "hub_env \<Rightarrow> string \<Rightarrow> util_arg \<Rightarrow> callback option \<Rightarrow> raft \<Rightarrow> (string + unit) \<times> raft" where
  "cluster_request E req arg cb s =
     (if \<not> dynamicMembershipChange (hub_conf E) then (Inl ''dynamicMembershipChange is disabled'', s)
      else (Inr (), applyCommand (dumps_request E req arg) cb (Some MEMBERSHIP) s))"

text \<open>
  A command that answers through a callback: the callback gets a new number and remembers the
  connection, the command and its argument.
\<close>

definition with_callback ::
  "nat \<Rightarrow> string \<Rightarrow> util_arg \<Rightarrow> (callback option \<Rightarrow> raft \<Rightarrow> (string + unit) \<times> raft) \<Rightarrow> hub \<Rightarrow> (string + bool) \<times> hub" where
  "with_callback i name arg f h =
     (case f (Some (Local_cb (next_cb h))) (raft_of h) of
        (Inl txt, s) \<Rightarrow> (Inl txt, h\<lparr>raft_of := s\<rparr>)
      | (Inr _, s) \<Rightarrow>
          (Inr True, h\<lparr>raft_of := s, utility_cbs := (utility_cbs h)(next_cb h \<mapsto> (i, name, arg)), next_cb := Suc (next_cb h)\<rparr>))"

definition answer :: "hub_env \<Rightarrow> nat \<Rightarrow> body packet \<Rightarrow> hub \<Rightarrow> (string + bool) \<times> hub" where
  "answer E i m h =
     (case hub_send E i m h of (Inl e, h1) \<Rightarrow> (Inl (exc_text E e), h1) | (Inr _, h1) \<Rightarrow> (Inr True, h1))"

text \<open>The body of the \<open>try\<close>; \<open>False\<close>: no such command.\<close>

definition utility_command :: "hub_env \<Rightarrow> rat \<Rightarrow> nat \<Rightarrow> util_arg list \<Rightarrow> hub \<Rightarrow> (string + bool) \<times> hub" where
  "utility_command E uptime i args h =
     (case args of
        [] \<Rightarrow> (Inl ''list index out of range'', h)
      | c # rest \<Rightarrow>
          if c = Str ''status'' then answer E i (Body (Status (getStatus E uptime h))) h
          else if c = Str ''add'' then
            (case rest of [] \<Rightarrow> (Inl ''list index out of range'', h)
             | a # _ \<Rightarrow> with_callback i ''ADD'' a (cluster_request E ''add'' a) h)
          else if c = Str ''remove'' then
            (case rest of [] \<Rightarrow> (Inl ''list index out of range'', h)
             | a # _ \<Rightarrow>
                 (case self_addr (raft_of h) of
                    Some me \<Rightarrow>
                      if a = Str me then answer E i (Text (''FAIL REMOVE '' @ me)) h
                      else with_callback i ''REMOVE'' a (cluster_request E ''rem'' a) h
                  | None \<Rightarrow> with_callback i ''REMOVE'' a (cluster_request E ''rem'' a) h))
          else if c = Str ''set_version'' then
            (case rest of [] \<Rightarrow> (Inl ''list index out of range'', h)
             | a # _ \<Rightarrow> with_callback i ''SET_VERSION'' (case a of Num n \<Rightarrow> Str (show_int n) | _ \<Rightarrow> a) (setCodeVersion E a) h)
          else (Inr False, h))"

definition onUtilityMessage :: "hub_env \<Rightarrow> rat \<Rightarrow> nat \<Rightarrow> util_arg list \<Rightarrow> (hub, bool) eff" where
  "onUtilityMessage E uptime i args h =
     (case utility_command E uptime i args h of
        (Inl txt, h1) \<Rightarrow> bindE (hub_send E i (Text txt)) (\<lambda>_. ret True) h1
      | (Inr b, h1) \<Rightarrow> (Inr b, h1))"

text \<open>The callback, called with the outcome of the command. Adding a value that is no string to a string is a TypeError.\<close>

definition utilityCallback :: "hub_env \<Rightarrow> nat \<Rightarrow> fail_reason \<Rightarrow> (hub, unit) eff" where
  "utilityCallback E k err h =
     (case utility_cbs h k of
        None \<Rightarrow> (Inr (), h)
      | Some (i, name, arg) \<Rightarrow>
          (case arg of
             Str node \<Rightarrow> hub_send E i (Text ((if err = SUCCESS then ''SUCCESS'' else ''FAIL'') @ '' '' @ name @ '' '' @ node)) h
           | _ \<Rightarrow> (Inl TypeError, h)))"

section \<open>The first messages of a connection\<close>

definition admit :: "nat \<Rightarrow> body packet \<Rightarrow> hub \<Rightarrow> hub" where
  "admit i m h =
     (let d = fileno (hub_conns h i);
          pop = (\<lambda>h. h\<lparr>unknown := pop_unknown d (unknown h)\<rparr>);
          counter = str_nat (readonlyNodesCounter h) in
      (case m of
         Text name \<Rightarrow>
           if name \<in> peer_addr ` set (nodes (raft_of h))
           then pop (h\<lparr>raft_of := onNewPartner name counter (raft_of h), given_to := (given_to h)(i \<mapsto> name)\<rparr>)
           else if name = ''readonly''
           then pop (h\<lparr>raft_of := onNewPartner name counter (raft_of h), given_to := (given_to h)(i \<mapsto> counter),
                       readonlyNodesCounter := Suc (readonlyNodesCounter h)\<rparr>)
           else pop (hub_disconnect i h)
       | _ \<Rightarrow> pop (hub_disconnect i h)))"

text \<open>\<open>key\<close> is what \<open>os.urandom\<close> returns.\<close>

definition hub_onMessage :: "hub_env \<Rightarrow> bytes \<Rightarrow> rat \<Rightarrow> nat \<Rightarrow> body packet \<Rightarrow> (hub, unit) eff" where
  "hub_onMessage E key uptime i m h =
     (if has_password E \<and> \<not> truthy (sendRandKey (hub_conns h i))
      then hub_conn i (\<lambda>gone t. tcp_send (hub_codec E) gone (Bytes key) (t\<lparr>sendRandKey := m, recvRandKey := Bytes key\<rparr>)) h
      else
        let d = fileno (hub_conns h i) in
        bindE (case m of Body (Args args) \<Rightarrow> onUtilityMessage E uptime i args | _ \<Rightarrow> ret False) (\<lambda>handled.
          if handled then modE (\<lambda>h. h\<lparr>unknown := pop_unknown d (unknown h)\<rparr>) else modE (admit i m)) h)"

section \<open>What a message can do to the node\<close>

lemma hub_conn_raft: "raft_of (snd (hub_conn i f h)) = raft_of h"
  by (simp add: hub_conn_def Let_def split: prod.split)

lemma hub_send_raft: "raft_of (snd (hub_send E i m h)) = raft_of h"
  by (simp add: hub_send_def hub_conn_raft)

lemma answer_raft: "raft_of (snd (answer E i m h)) = raft_of h"
  using hub_send_raft[of E i m h] by (auto simp: answer_def split: prod.split sum.split)

text \<open>The commands that reach the log: a membership request or a version that is allowed now.\<close>

definition admin_entry :: "hub_env \<Rightarrow> util_arg list \<Rightarrow> raft \<Rightarrow> (bytes \<times> byte) option" where
  "admin_entry E args s =
     (case args of
        c # a # _ \<Rightarrow>
          if (c = Str ''add'' \<or> c = Str ''remove'' \<and> (\<forall>me. self_addr s = Some me \<longrightarrow> a \<noteq> Str me)) \<and> dynamicMembershipChange (hub_conf E)
          then Some (dumps_request E (if c = Str ''add'' then ''add'' else ''rem'') a, MEMBERSHIP)
          else if c = Str ''set_version''
          then (case a of Num n \<Rightarrow> if enabled_code_version s \<le> n \<and> n \<le> self_code_version s then Some (dumps_version E n, VERSION) else None
                | _ \<Rightarrow> None)
          else None
      | _ \<Rightarrow> None)"

lemma with_callback_raft:
  "raft_of (snd (with_callback i name a f h)) = snd (f (Some (Local_cb (next_cb h))) (raft_of h))"
  by (simp add: with_callback_def split: prod.split sum.split)

lemma cluster_request_raft:
  "snd (cluster_request E req a cb s) =
     (if dynamicMembershipChange (hub_conf E) then applyCommand (dumps_request E req a) cb (Some MEMBERSHIP) s else s)"
  by (simp add: cluster_request_def)

lemma setCodeVersion_raft:
  "snd (setCodeVersion E a cb s) =
     (case a of Num n \<Rightarrow> if enabled_code_version s \<le> n \<and> n \<le> self_code_version s
                        then applyCommand (dumps_version E n) cb (Some VERSION) s else s
      | _ \<Rightarrow> s)"
  by (simp add: setCodeVersion_def split: util_arg.split)

lemma utility_raft:
  "raft_of (snd (utility_command E uptime i args h)) =
     (case admin_entry E args (raft_of h) of
        None \<Rightarrow> raft_of h
      | Some (c, t) \<Rightarrow> applyCommand c (Some (Local_cb (next_cb h))) (Some t) (raft_of h))"
proof -
  consider "args = []" | c where "args = [c]" | c a rest where "args = c # a # rest"
    by (cases args rule: list.exhaust) (metis list.exhaust)+
  then show ?thesis
  proof cases
      case (3 c a rest)
    consider "c = Str ''status''" | "c = Str ''add''" | "c = Str ''remove''" | "c = Str ''set_version''"
      | "c \<notin> {Str ''status'', Str ''add'', Str ''remove'', Str ''set_version''}" by blast
    then show ?thesis
    proof cases
      case 3
      then show ?thesis
        by (cases "self_addr (raft_of h)")
           (simp_all add: \<open>args = c # a # rest\<close> utility_command_def admin_entry_def with_callback_raft cluster_request_raft answer_raft)
    next
      case 4
      then show ?thesis
        by (cases a) (simp_all add: \<open>args = c # a # rest\<close> utility_command_def admin_entry_def with_callback_raft setCodeVersion_raft)
    qed (simp_all add: \<open>args = c # a # rest\<close> utility_command_def admin_entry_def with_callback_raft cluster_request_raft answer_raft)
  qed (simp_all add: utility_command_def admin_entry_def answer_raft)
qed

end
