(* ===== verification/NodeMain.thy ===== *)
theory NodeMain
  imports RaftHub NodeSpec
begin

text \<open>
  A node as a process, \<open>belcoin_node/node.py\<close>: its arguments, the object \<open>Node\<close> with the map from the
  addresses of the replication to the addresses of the RPC interfaces, and the console. With it the
  calls of the RPC interface that only pass on, and the table of balances.
\<close>

section \<open>Arguments\<close>

text \<open>\<open>str.split\<close> with a separator; it always returns at least one part.\<close>

fun split_on :: "char \<Rightarrow> string \<Rightarrow> string list" where
  "split_on c [] = [[]]"
| "split_on c (x # xs) =
     (if x = c then [] # split_on c xs
      else (case split_on c xs of [] \<Rightarrow> [[x]] | w # ws \<Rightarrow> (x # w) # ws))"

fun join_with :: "char \<Rightarrow> string list \<Rightarrow> string" where
  "join_with c [] = []"
| "join_with c [w] = w"
| "join_with c (w # ws) = w @ c # join_with c ws"

lemma split_on_ne: "split_on c s \<noteq> []"
  by (induction s) (auto split: list.split)

lemma split_on_plain: "c \<notin> set w \<Longrightarrow> split_on c w = [w]"
  by (induction w) auto

lemma split_on_append: "c \<notin> set w \<Longrightarrow> split_on c (w @ c # s) = w # split_on c s"
  by (induction w) auto

lemma split_join:
  assumes "ws \<noteq> []" and "\<forall>w\<in>set ws. c \<notin> set w"
  shows "split_on c (join_with c ws) = ws"
  using assms by (induction ws rule: join_with.induct) (auto simp: split_on_plain split_on_append)

section \<open>Node\<close>

text \<open>
  \<open>dict(zip(partner_addrs, peers_rpc))\<close>, a dictionary in the order in which its keys came: a key that
  comes again keeps its place and gets the later value.
\<close>

fun dict_set :: "'k \<Rightarrow> 'v \<Rightarrow> ('k \<times> 'v) list \<Rightarrow> ('k \<times> 'v) list" where
  "dict_set key v [] = [(key, v)]"
| "dict_set key v ((key', v') # d) = (if key' = key then (key, v) # d else (key', v') # dict_set key v d)"

definition dict_of :: "('k \<times> 'v) list \<Rightarrow> ('k \<times> 'v) list" where
  "dict_of kvs = fold (\<lambda>(key, v). dict_set key v) kvs []"

record bc_node =
  node_storage :: storage
  node_id :: int
  node_address :: string
  node_partners :: "string list"
  node_rpc_peers :: "(string \<times> string) list"

definition bc_Node ::
  "env \<Rightarrow> transaction list \<Rightarrow> (bytes, txn_wrapper) store \<Rightarrow> (bytes, txn_wrapper) store \<Rightarrow> (bytes, transaction) store \<Rightarrow>
   string \<Rightarrow> string list \<Rightarrow> int \<Rightarrow> string list \<Rightarrow> bc_node" where
  "bc_Node E coinbase d p m self partners nid rpcs =
     (let peers = dict_of (zip partners rpcs)
      in \<lparr>node_storage = storage_init E coinbase (map snd peers) d p m, node_id = nid, node_address = self,
          node_partners = partners, node_rpc_peers = peers\<rparr>)"

text \<open>\<open>main\<close>, after the arguments were parsed.\<close>

definition main_node ::
  "env \<Rightarrow> transaction list \<Rightarrow> (bytes, txn_wrapper) store \<Rightarrow> (bytes, txn_wrapper) store \<Rightarrow> (bytes, transaction) store \<Rightarrow>
   int \<Rightarrow> string \<Rightarrow> string \<Rightarrow> string \<Rightarrow> bc_node" where
  "main_node E coinbase d p m nid addr peers rpcs =
     bc_Node E coinbase d p m addr (split_on (CHR '','') peers) nid (split_on (CHR '','') rpcs)"

lemma dict_set_new: "key \<notin> fst ` set d \<Longrightarrow> dict_set key v d = d @ [(key, v)]"
  by (induction d) auto

lemma dict_of_distinct:
  assumes "distinct (map fst kvs)"
  shows "dict_of kvs = kvs"
proof -
  have "fold (\<lambda>(key, v). dict_set key v) kvs d = d @ kvs" if "distinct (map fst (d @ kvs))" for d
    using that
  proof (induction kvs arbitrary: d)
    case (Cons x kvs)
    then show ?case by (cases x) (auto simp: dict_set_new)
  qed simp
  with assms show ?thesis by (simp add: dict_of_def)
qed

lemma dict_of_ne: "kvs \<noteq> [] \<Longrightarrow> dict_of kvs \<noteq> []"
proof -
  have "dict_set key v d \<noteq> []" for key :: 'a and v :: 'b and d by (cases d) (auto split: if_splits)
  then have "fold (\<lambda>(key, v). dict_set key v) kvs d \<noteq> []" if "d \<noteq> []" for kvs d :: "('a \<times> 'b) list"
    using that by (induction kvs arbitrary: d) auto
  then show "kvs \<noteq> [] \<Longrightarrow> dict_of kvs \<noteq> []"
    by (cases kvs) (auto simp: dict_of_def)
qed

text \<open>
  The command line of a node: the RPC addresses are used in their order when they are as many as the
  partners and the partners differ. The list is never empty, even for empty arguments, so no request
  for a transaction divides by zero.
\<close>

lemma main_node_peers:
  assumes "ps \<noteq> []" and "length rs = length ps" and "distinct ps"
    and "\<forall>w\<in>set ps \<union> set rs. CHR '','' \<notin> set w"
  shows "rpc_peers (node_storage (main_node E cb d p m nid addr (join_with (CHR '','') ps) (join_with (CHR '','') rs))) = rs"
proof -
  have "rs \<noteq> []" using assms(1,2) by auto
  then have "split_on (CHR '','') (join_with (CHR '','') ps) = ps" "split_on (CHR '','') (join_with (CHR '','') rs) = rs"
    using assms(1,4) by (simp_all add: split_join)
  moreover have "dict_of (zip ps rs) = zip ps rs" using assms(2,3) by (intro dict_of_distinct) simp
  ultimately show ?thesis using assms(2) by (simp add: main_node_def bc_Node_def storage_init_def Let_def)
qed

lemma main_node_requests:
  "fst (req_txn i n (node_storage (main_node E cb d p m nid addr peers rpcs))) = Inr ()"
proof -
  have "zip (split_on (CHR '','') peers) (split_on (CHR '','') rpcs) \<noteq> []"
    using split_on_ne[of "CHR '',''" peers] split_on_ne[of "CHR '',''" rpcs]
    by (cases "split_on (CHR '','') peers"; cases "split_on (CHR '','') rpcs") auto
  from dict_of_ne[OF this] show ?thesis
    by (simp add: main_node_def bc_Node_def storage_init_def Let_def req_txn_def)
qed

section \<open>The console\<close>

text \<open>
  Commands, split into words. \<open>add\<close> without an address raises IndexError, and when membership changes
  are disabled the exception of \<open>addNodeToCluster\<close> also ends the loop; their text is the left value.
  The other commands print.
\<close>

definition node_add_node :: "hub_env \<Rightarrow> nat \<Rightarrow> string \<Rightarrow> raft \<Rightarrow> (string + unit) \<times> raft" where
  "node_add_node E k addr s = cluster_request E ''add'' (Str addr) (Some (Local_cb k)) s"

fun node_console :: "hub_env \<Rightarrow> nat \<Rightarrow> string list list \<Rightarrow> raft \<Rightarrow> (string + unit) \<times> raft" where
  "node_console E k [] s = (Inr (), s)"
| "node_console E k (line # rest) s =
     (if line \<noteq> [] \<and> hd line = ''add'' then
        (if length line < 2 then (Inl ''list index out of range'', s)
         else
           (case node_add_node E k (line ! 1) s of
              (Inl e, s1) \<Rightarrow> (Inl e, s1)
            | (Inr _, s1) \<Rightarrow> node_console E k rest s1))
      else node_console E k rest s)"

section \<open>Calls that pass on\<close>

text \<open>\<open>Storage\<close> has no method \<open>set\<close>; \<open>Storage.get\<close> asserts that its key is bytes, a key from JSON is a string.\<close>

definition jsonrpc_set :: "string \<Rightarrow> string \<Rightarrow> (storage, unit) eff" where
  "jsonrpc_set key val s = (Inl AttributeError, s)"

definition jsonrpc_get :: "string \<Rightarrow> storage \<Rightarrow> py_error + txn_wrapper option" where
  "jsonrpc_get key s = Inl AssertionError"

text \<open>
  The rows of the two tables: a running number and the three balances of a key. Stores list their
  keys in the order of the keys, where a dictionary has the order of insertion.
\<close>

definition balance_rows :: "storage \<Rightarrow> index \<Rightarrow> py_error + (nat \<times> int \<times> int \<times> int) list" where
  "balance_rows s index =
     (let pok = map fst (store_items index)
      in mapR (\<lambda>i. case get_balance s (pok ! i) index of Inl e \<Rightarrow> Inl e | Inr bals \<Rightarrow> Inr (i, bals)) [0..<length pok])"

definition print_balances ::
  "storage \<Rightarrow> py_error + (nat \<times> int \<times> int \<times> int) list \<times> (nat \<times> int \<times> int \<times> int) list" where
  "print_balances s =
     (case balance_rows s (pub_outs s) of
        Inl e \<Rightarrow> Inl e
      | Inr rows \<Rightarrow>
          (case balance_rows s (pub_outs_pend s) of Inl e \<Rightarrow> Inl e | Inr prows \<Rightarrow> Inr (rows, prows)))"

definition jsonrpc_print_balances :: "storage \<Rightarrow> py_error + unit" where
  "jsonrpc_print_balances s = map_sum id (\<lambda>_. ()) (print_balances s)"

lemma balance_loop_total:
  assumes "\<forall>r\<in>set refs. \<exists>w. lookup (fst r) = Inr w \<and> 0 \<le> snd r \<and> nat (snd r) < length (outputs (txn w))"
  shows "\<exists>bals. balance_loop s lookup p refs acc = Inr bals"
  using assms
proof (induction refs arbitrary: acc)
  case (Cons r refs)
  obtain t i where r: "r = (t, i)" by (cases r)
  with Cons.prems obtain w where "lookup t = Inr w" "0 \<le> i" "nat i < length (outputs (txn w))" by auto
  then show ?case using Cons by (simp add: r py_get_def py_pos_nonneg)
qed (metis balance_loop.simps(1))

text \<open>The index names outputs of the database that \<open>get_balance\<close> looks them up in.\<close>

lemma get_balance_total:
  assumes "ledger_inv E s" and "index = pub_outs s \<or> index = pub_outs_pend s"
  shows "\<exists>bals. get_balance s p index = Inr bals"
proof (cases "store_get index p")
  case None
  then show ?thesis by (simp add: get_balance_def)
next
  case (Some refs)
  have db: "refs_of (pub_outs s) p = unspent_refs E (db s) p" and pe: "refs_of (pub_outs_pend s) p = pending_refs E (pend s) p"
    and k: "keyed (pend s)"
    using assms(1) by (simp_all add: ledger_inv_def db_ok_def pend_ok_def)
  let ?lookup = "if index = pub_outs s then storage_getitem s else pend_getitem (pend s)"
  have "\<exists>w. ?lookup (fst r) = Inr w \<and> 0 \<le> snd r \<and> nat (snd r) < length (outputs (txn w))" if r: "r \<in> set refs" for r
  proof (cases "index = pub_outs s")
    case True
    then have "r \<in> unspent_refs E (db s) p" using db Some r by (simp add: refs_of_def)
    with True show ?thesis by (cases r) (auto simp: mem_unspent_refs storage_getitem_def storage_get_def)
  next
    case False
    then have "r \<in> pending_refs E (pend s) p" using assms(2) pe Some r by (simp add: refs_of_def)
    with False show ?thesis by (cases r) (auto simp: mem_pending_refs[OF k] mem_txn_refs pend_getitem_def pend_get_def)
  qed
  then have "\<exists>bals. balance_loop s ?lookup p refs (0, 0, 0) = Inr bals" by (intro balance_loop_total) blast
  then show ?thesis by (simp only: get_balance_def Some option.case)
qed

lemma balance_rows_total:
  assumes "\<And>p. \<exists>bals. get_balance s p index = Inr bals"
  shows "\<exists>rows. balance_rows s index = Inr rows \<and> length rows = length (store_items index)"
proof -
  obtain g where g: "\<And>p. get_balance s p index = Inr (g p)" using assms by metis
  have "balance_rows s index = Inr (map (\<lambda>i. (i, g (map fst (store_items index) ! i))) [0..<length (store_items index)])"
    unfolding balance_rows_def Let_def g by (simp add: mapR_all)
  then show ?thesis by simp
qed

text \<open>
  The table of balances can be printed in every state a node reaches: \<open>get_balance\<close> raises for no key
  of either index, and the tables have a row for each key. The second table reads the pending database,
  the queries \<open>utxos_for_pubkey\<close> do not and raise for the same keys.
\<close>

theorem print_balances_total:
  assumes "ledger_inv E s"
  shows "\<exists>rows prows. print_balances s = Inr (rows, prows) \<and>
    length rows = length (store_items (pub_outs s)) \<and> length prows = length (store_items (pub_outs_pend s))"
  using balance_rows_total[of s "pub_outs s"] balance_rows_total[of s "pub_outs_pend s"] get_balance_total[OF assms]
  by (fastforce simp: print_balances_def)

text \<open>The unreplicated version for unit tests, and the callbacks of a sent transaction.\<close>

definition add_block_to_queue_test :: "env \<Rightarrow> block \<Rightarrow> (storage, unit) eff" where
  "add_block_to_queue_test E blk = bindE (update_pend E) (\<lambda>_. modE (\<lambda>s. s\<lparr>block_queue := block_queue s @ [blk]\<rparr>))"

definition transaction_sent :: "storage \<Rightarrow> storage" where
  "transaction_sent s = s"

definition transaction_send_error :: "storage \<Rightarrow> storage" where
  "transaction_send_error s = s"

end
