(* ===== verification/DnsCache.thy ===== *)
theory DnsCache
  imports Prelude
begin

text \<open>
  The caching resolver, \<open>pysyncobjbc/dns_resolver.py\<close>. What \<open>socket.getaddrinfo\<close> answers is an
  argument: the families and addresses of a name, or \<open>None\<close> when it raises \<open>gaierror\<close>. The
  address \<open>random.choice\<close> takes is given by its position.
\<close>

section \<open>State\<close>

datatype addr_family = AF_INET | AF_INET6

text \<open>A preferred family is an address family or, as in the configuration, a name.\<close>

datatype preference = Family addr_family | Name string

text \<open>
  The class has two attributes whose names differ in one letter: \<open>prefered\<close> is set by the
  constructor, \<open>preferred\<close> by the setter only (\<open>None\<close>: the attribute does not exist).
  \<open>looked_up\<close> records what the lookups found; no operation reads it.
\<close>

record resolver =
  dns_cache :: "string \<Rightarrow> (rat \<times> string list) option"
  cacheTime :: rat
  failCacheTime :: rat
  prefered :: "preference option"
  preferred :: "preference option option"
  looked_up :: "(string \<times> string list) list"

definition DnsCachingResolver :: "rat \<Rightarrow> rat \<Rightarrow> resolver" where
  "DnsCachingResolver t f =
     \<lparr>dns_cache = (\<lambda>_. None), cacheTime = t, failCacheTime = f, prefered = Some (Family AF_INET),
      preferred = None, looked_up = []\<rparr>"

definition globalDnsResolver :: "resolver option \<Rightarrow> resolver" where
  "globalDnsResolver g = (case g of None \<Rightarrow> DnsCachingResolver 600 30 | Some r \<Rightarrow> r)"

section \<open>Operations\<close>

definition setTimeouts :: "rat \<Rightarrow> rat \<Rightarrow> resolver \<Rightarrow> resolver" where
  "setTimeouts t f r = r\<lparr>cacheTime := t, failCacheTime := f\<rparr>"

definition setPreferredAddrFamily :: "preference option \<Rightarrow> resolver \<Rightarrow> resolver" where
  "setPreferredAddrFamily p r =
     (if p = None then r\<lparr>preferred := Some None\<rparr>
      else if p = Some (Name ''ipv4'') then r\<lparr>preferred := Some (Some (Family AF_INET))\<rparr>
      else if p = Some (Name ''ipv6'') then r\<lparr>preferred := Some (Some (Family AF_INET))\<rparr>
      else r\<lparr>prefered := p\<rparr>)"

definition doResolve :: "(addr_family \<times> string) list option \<Rightarrow> resolver \<Rightarrow> py_error + string list" where
  "doResolve found r =
     (case found of
        None \<Rightarrow> Inr []
      | Some addrs \<Rightarrow>
          let everything = remdups (map snd addrs) in
          if prefered r = None \<or> addrs = [] then Inr everything
          else
            (case preferred r of
               None \<Rightarrow> Inl AttributeError
             | Some want \<Rightarrow>
                 let ips = remdups (map snd (filter (\<lambda>a. Some (Family (fst a)) = want) addrs))
                 in Inr (if ips = [] then everything else ips)))"

definition choice :: "nat \<Rightarrow> 'a list \<Rightarrow> 'a option" where
  "choice pick xs = (if xs = [] then None else Some (xs ! (pick mod length xs)))"

definition resolve :: "rat \<Rightarrow> string \<Rightarrow> (addr_family \<times> string) list option \<Rightarrow> nat \<Rightarrow> (resolver, string option) eff" where
  "resolve now host found pick r =
     (let (cachedTime, ips) = (case dns_cache r host of None \<Rightarrow> (0, []) | Some c \<Rightarrow> c);
          timePassed = now - cachedTime in
      if timePassed > cacheTime r \<or> (ips = [] \<and> timePassed > failCacheTime r)
      then
        (case doResolve found r of
           Inl e \<Rightarrow> (Inl e, r)
         | Inr new \<Rightarrow>
             let ips' = (if new = [] then ips else new)
             in (Inr (choice pick ips'),
                 r\<lparr>dns_cache := (dns_cache r)(host \<mapsto> (now, ips')), looked_up := looked_up r @ [(host, new)]\<rparr>))
      else (Inr (choice pick ips), r))"

section \<open>The cache holds the last addresses found\<close>

text \<open>The addresses of the last lookup of a name that found some.\<close>

fun last_found :: "string \<Rightarrow> (string \<times> string list) list \<Rightarrow> string list" where
  "last_found h [] = []"
| "last_found h ((g, ips) # ls) = (if last_found h ls \<noteq> [] then last_found h ls else if g = h then ips else [])"

lemma last_found_snoc: "last_found h (ls @ [(g, ips)]) = (if g = h \<and> ips \<noteq> [] then ips else last_found h ls)"
  by (induction h ls rule: last_found.induct) auto

definition cached :: "resolver \<Rightarrow> string \<Rightarrow> string list" where
  "cached r h = (case dns_cache r h of None \<Rightarrow> [] | Some (t, ips) \<Rightarrow> ips)"

definition faithful :: "resolver \<Rightarrow> bool" where
  "faithful r \<longleftrightarrow> (\<forall>h. cached r h = last_found h (looked_up r))"

inductive dns_reach :: "resolver \<Rightarrow> bool" where
  start: "dns_reach (DnsCachingResolver t f)"
| timeouts: "dns_reach r \<Longrightarrow> dns_reach (setTimeouts t f r)"
| family: "dns_reach r \<Longrightarrow> dns_reach (setPreferredAddrFamily p r)"
| resolved: "dns_reach r \<Longrightarrow> dns_reach (snd (resolve now host found pick r))"

lemma resolve_cases:
  assumes "resolve now host found pick r = (res, r')"
  obtains (kept) "r' = r" and "res = Inr (choice pick (cached r host))"
    | (raised) e where "r' = r" and "res = Inl e"
    | (looked) new ips' where "ips' = (if new = [] then cached r host else new)" and "res = Inr (choice pick ips')"
        and "r' = r\<lparr>dns_cache := (dns_cache r)(host \<mapsto> (now, ips')), looked_up := looked_up r @ [(host, new)]\<rparr>"
proof -
  define c where "c = (case dns_cache r host of None \<Rightarrow> (0, []) | Some c \<Rightarrow> c)"
  have ips: "snd c = cached r host" by (simp add: c_def cached_def split: option.split prod.split)
  have d: "resolve now host found pick r =
     (if now - fst c > cacheTime r \<or> (snd c = [] \<and> now - fst c > failCacheTime r)
      then (case doResolve found r of
              Inl e \<Rightarrow> (Inl e, r)
            | Inr new \<Rightarrow>
                (Inr (choice pick (if new = [] then snd c else new)),
                 r\<lparr>dns_cache := (dns_cache r)(host \<mapsto> (now, if new = [] then snd c else new)),
                   looked_up := looked_up r @ [(host, new)]\<rparr>))
      else (Inr (choice pick (snd c)), r))"
    unfolding resolve_def c_def[symmetric] Let_def by (simp add: case_prod_unfold)
  show thesis
  proof (cases "now - fst c > cacheTime r \<or> (snd c = [] \<and> now - fst c > failCacheTime r)")
    case False
    from assms have "(Inr (choice pick (snd c)), r) = (res, r')" unfolding d if_not_P[OF False] .
    with ips show ?thesis by (intro kept) auto
  next
    case True
    show ?thesis
    proof (cases "doResolve found r")
      case (Inl e)
      from assms have "(Inl e, r) = (res, r')" unfolding d if_P[OF True] Inl sum.case .
      then show ?thesis using raised by auto
    next
      case (Inr new)
      from assms have "(Inr (choice pick (if new = [] then snd c else new)),
                 r\<lparr>dns_cache := (dns_cache r)(host \<mapsto> (now, if new = [] then snd c else new)),
                   looked_up := looked_up r @ [(host, new)]\<rparr>) = (res, r')"
        unfolding d if_P[OF True] Inr sum.case .
      with looked[of "if new = [] then snd c else new" new] ips show ?thesis by auto
    qed
  qed
qed

lemma resolve_faithful:
  assumes "faithful r" and "resolve now host found pick r = (res, r')"
  shows "faithful r'" and "res = Inr ans \<Longrightarrow> ans = choice pick (last_found host (looked_up r'))"
proof -
  have "faithful r' \<and> (res = Inr ans \<longrightarrow> ans = choice pick (last_found host (looked_up r')))"
    using assms(2)
  proof (cases rule: resolve_cases)
    case (looked new ips')
    have l: "last_found h (looked_up r') = (if h = host then ips' else cached r h)" for h
      using looked assms(1) by (auto simp: faithful_def last_found_snoc)
    moreover have "faithful r'" using l looked(3) by (auto simp: faithful_def cached_def)
    ultimately show ?thesis using looked(2) by auto
  qed (use assms(1) in \<open>auto simp: faithful_def\<close>)
  then show "faithful r'" and "res = Inr ans \<Longrightarrow> ans = choice pick (last_found host (looked_up r'))" by blast+
qed

lemma dns_reach_faithful: "dns_reach r \<Longrightarrow> faithful r"
proof (induction rule: dns_reach.induct)
  case (resolved r now host found pick)
  then show ?case using resolve_faithful(1)[OF resolved.IH] by (metis prod.collapse)
qed (auto simp: faithful_def cached_def DnsCachingResolver_def setTimeouts_def setPreferredAddrFamily_def)

text \<open>
  Whatever was resolved and configured before, an answer of the resolver is one of the
  addresses of the last lookup of that name that found any; it is None only if no lookup ever found
  one, so a name that has once been resolved keeps being answered when later lookups fail.
\<close>

theorem dns_last_answer:
  assumes "dns_reach r" and "resolve now host found pick r = (Inr ans, r')"
  shows "ans = choice pick (last_found host (looked_up r')) \<and>
    (ans = None \<longleftrightarrow> (\<forall>(h, ips)\<in>set (looked_up r'). h = host \<longrightarrow> ips = []))"
proof -
  have a: "ans = choice pick (last_found host (looked_up r'))"
    by (rule resolve_faithful(2)[OF dns_reach_faithful[OF assms(1)] assms(2)]) simp
  have "last_found host ls = [] \<longleftrightarrow> (\<forall>(h, ips)\<in>set ls. h = host \<longrightarrow> ips = [])" for ls
    by (induction host ls rule: last_found.induct) auto
  with a show ?thesis by (auto simp: choice_def)
qed

definition ex_resolver :: resolver where
  "ex_resolver = snd (resolve 1000 ''n1'' (Some [(AF_INET, ''10.0.0.1'')]) 0
     (setPreferredAddrFamily (Some (Name ''ipv4'')) (globalDnsResolver None)))"

lemma ex_resolver_reach: "dns_reach ex_resolver"
  unfolding ex_resolver_def globalDnsResolver_def by (simp, intro dns_reach.intros)

text \<open>A lookup that fails, 700 seconds later.\<close>

theorem dns_last_answer_witness:
  "\<exists>r'. resolve 1700 ''n1'' None 0 ex_resolver = (Inr (Some ''10.0.0.1''), r') \<and>
     Some ''10.0.0.1'' = choice 0 (last_found ''n1'' (looked_up r'))"
proof -
  obtain r' where r: "resolve 1700 ''n1'' None 0 ex_resolver = (Inr (Some ''10.0.0.1''), r')"
    by (simp add: ex_resolver_def globalDnsResolver_def DnsCachingResolver_def setPreferredAddrFamily_def
        resolve_def doResolve_def choice_def Let_def)
  from dns_last_answer[OF ex_resolver_reach r] r show ?thesis by blast
qed

text \<open>
  The preference of the configuration is not what is looked up: a resolver that was made and
  told to prefer IPv6, and whose lookup finds addresses of both families, answers with an address
  of family AF_INET.
\<close>

theorem ipv6_preference_gives_ipv4:
  assumes "resolve now host (Some addrs) pick (setPreferredAddrFamily (Some (Name ''ipv6'')) (DnsCachingResolver t f)) = (res, r')"
    and "now > t" and "(AF_INET, a) \<in> set addrs"
  shows "\<exists>ip. res = Inr (Some ip) \<and> (AF_INET, ip) \<in> set addrs"
proof -
  let ?ips = "remdups (map snd (filter (\<lambda>a. fst a = AF_INET) addrs))"
  have ne: "?ips \<noteq> []" "addrs \<noteq> []" using assms(3) by (force simp: filter_empty_conv)+
  have f: "filter (\<lambda>a. Some (Family (fst a)) = Some (Family AF_INET)) addrs = filter (\<lambda>a. fst a = AF_INET) addrs" by simp
  have r: "res = Inr (choice pick ?ips)"
    using assms(1,2) ne
    by (simp add: resolve_def doResolve_def setPreferredAddrFamily_def DnsCachingResolver_def Let_def)
  have "pick mod length ?ips < length ?ips" using ne(1) by (intro mod_less_divisor) simp
  then have "?ips ! (pick mod length ?ips) \<in> set ?ips" by (rule nth_mem)
  then have "(AF_INET, ?ips ! (pick mod length ?ips)) \<in> set addrs" by auto
  with r ne(1) show ?thesis by (auto simp: choice_def)
qed

theorem ipv6_preference_gives_ipv4_witness:
  "fst (resolve 1000 ''n1'' (Some [(AF_INET6, ''::1''), (AF_INET, ''10.0.0.1'')]) 0
     (setPreferredAddrFamily (Some (Name ''ipv6'')) (DnsCachingResolver 600 30))) = Inr (Some ''10.0.0.1'')"
proof -
  obtain res r' where r: "resolve 1000 ''n1'' (Some [(AF_INET6, ''::1''), (AF_INET, ''10.0.0.1'')]) 0
     (setPreferredAddrFamily (Some (Name ''ipv6'')) (DnsCachingResolver 600 30)) = (res, r')" by fastforce
  have "\<exists>ip. res = Inr (Some ip) \<and> (AF_INET, ip) \<in> set [(AF_INET6, ''::1''), (AF_INET, ''10.0.0.1'')]"
    by (rule ipv6_preference_gives_ipv4[OF r, of "''10.0.0.1''"]) auto
  with r show ?thesis by auto
qed

end
