(* ===== verification/Glue.thy ===== *)
theory Glue
  imports Struct DnsCache
begin

text \<open>
  The small modules below the replication: the pipe that wakes the tick (\<open>pipe_notifier.py\<close>), loading of
  pickles across versions of Python (\<open>pickle.py\<close>), replacing a file (\<open>atomic_replace.py\<close>), the key of the
  cipher (\<open>encryptor.py\<close>), addresses (\<open>win_inet_pton.py\<close> and \<open>_getAddrType\<close> of \<open>tcp_connection.py\<close>).
  System calls and packages are arguments.
\<close>

section \<open>The pipe\<close>

text \<open>\<open>pipe_bytes\<close> is what is in the pipe, at most \<open>pipe_capacity\<close>; both ends do not block.\<close>

record notifier =
  pipe_bytes :: nat
  pipe_capacity :: nat
  notified :: nat

definition PipeNotifier :: "nat \<Rightarrow> notifier" where
  "PipeNotifier capacity = \<lparr>pipe_bytes = 0, pipe_capacity = capacity, notified = 0\<rparr>"

text \<open>\<open>SocketError\<close> is the BlockingIOError of \<open>os.write\<close> on a full pipe.\<close>

definition notify :: "(notifier, unit) eff" where
  "notify n =
     (if pipe_bytes n < pipe_capacity n then (Inr (), n\<lparr>pipe_bytes := pipe_bytes n + 1\<rparr>) else (Inl SocketError, n))"

text \<open>
  The loop of reads; \<open>faults\<close> lists for each read whether it fails with another error than EAGAIN,
  reads beyond the list do not. The result is what is left in the pipe, and whether such an error ended it.
\<close>

function drain_pipe :: "bool list \<Rightarrow> nat \<Rightarrow> bool \<times> nat" where
  "drain_pipe faults n =
     (if faults \<noteq> [] \<and> hd faults then (False, n)
      else if n = 0 then (True, 0)
      else drain_pipe (tl faults) (n - min n 1024))"
  by pat_completeness auto
termination by (relation "measure snd") auto

declare drain_pipe.simps [simp del]

definition onNewNotification :: "bool \<Rightarrow> bool list \<Rightarrow> (notifier, unit) eff" where
  "onNewNotification has_callback faults n =
     (case drain_pipe faults (pipe_bytes n) of
        (False, left) \<Rightarrow> (Inl SocketError, n\<lparr>pipe_bytes := left\<rparr>)
      | (True, left) \<Rightarrow> (Inr (), n\<lparr>pipe_bytes := left, notified := notified n + of_bool has_callback\<rparr>))"

lemma drain_all: "drain_pipe [] n = (True, 0)"
proof (induction n rule: less_induct)
  case (less n)
  then show ?case by (subst drain_pipe.simps) auto
qed

text \<open>Any number of notifications that fit into the pipe cause one call of the callback.\<close>

lemma notifications_coalesce:
  assumes "pipe_bytes n = 0" and "0 < j" and "j \<le> pipe_capacity n"
  shows "\<exists>m. forE (\<lambda>_. notify) [0..<j] n = (Inr (), m) \<and> pipe_bytes m = j \<and>
    onNewNotification True [] m = (Inr (), n\<lparr>pipe_bytes := 0, notified := notified n + 1\<rparr>)"
proof -
  have "forE (\<lambda>_. notify) xs n = (Inr (), n\<lparr>pipe_bytes := pipe_bytes n + length xs\<rparr>)"
    if "pipe_bytes n + length xs \<le> pipe_capacity n" for xs :: "nat list" and n
    using that by (induction xs arbitrary: n) (auto simp: bindE_def notify_def)
  from this[of n "[0..<j]"] assms show ?thesis by (simp add: onNewNotification_def drain_all)
qed

text \<open>One more than fits is an exception in the caller of \<open>_applyCommand\<close>.\<close>

lemma notify_full: "pipe_bytes n = pipe_capacity n \<Longrightarrow> notify n = (Inl SocketError, n)"
  by (simp add: notify_def)

section \<open>Pickles\<close>

text \<open>A value of the unpickler's stack that was a string of Python 2.\<close>

datatype py_str = P_bytes bytes | P_str string

definition to_bytes :: "(string \<Rightarrow> bytes) \<Rightarrow> py_str \<Rightarrow> bytes" where
  "to_bytes utf8 d = (case d of P_bytes b \<Rightarrow> b | P_str s \<Rightarrow> utf8 s)"

text \<open>\<open>fast\<close> is the unpickler of the library, \<open>slow\<close> the one in Python with the two functions below; any exception makes \<open>loads\<close> try the other.\<close>

definition pickle_loads :: "(string \<Rightarrow> bytes) \<Rightarrow> (bytes \<Rightarrow> py_error + 'a) \<Rightarrow> (bytes \<Rightarrow> py_error + 'a) \<Rightarrow> py_str \<Rightarrow> py_error + 'a" where
  "pickle_loads utf8 fast slow d = (case fast (to_bytes utf8 d) of Inr v \<Rightarrow> Inr v | Inl _ \<Rightarrow> slow (to_bytes utf8 d))"

text \<open>A file is its bytes and the position; the second try starts at the beginning of the file.\<close>

definition pickle_load :: "(bytes \<Rightarrow> py_error + 'a) \<Rightarrow> (bytes \<Rightarrow> py_error + 'a) \<Rightarrow> bytes \<Rightarrow> nat \<Rightarrow> py_error + 'a" where
  "pickle_load fast slow f pos = (case fast (drop pos f) of Inr v \<Rightarrow> Inr v | Inl _ \<Rightarrow> slow f)"

text \<open>\<open>decode\<close> is \<open>str(data, encoding, errors)\<close>. The functions get the bytes that are to be read and return the rest.\<close>

definition decoded :: "(bytes \<Rightarrow> string option) \<Rightarrow> bytes \<Rightarrow> py_str" where
  "decoded decode d = (case decode d of Some s \<Rightarrow> P_str s | None \<Rightarrow> P_bytes d)"

definition load_short_binstring :: "(bytes \<Rightarrow> string option) \<Rightarrow> py_str list \<Rightarrow> bytes \<Rightarrow> py_error + (py_str list \<times> bytes)" where
  "load_short_binstring decode stack buf =
     (case buf of
        [] \<Rightarrow> Inl TypeError
      | l # rest \<Rightarrow> Inr (stack @ [decoded decode (take (unat l) rest)], drop (unat l) rest))"

definition load_binstring :: "(bytes \<Rightarrow> string option) \<Rightarrow> py_str list \<Rightarrow> bytes \<Rightarrow> py_error + (py_str list \<times> bytes)" where
  "load_binstring decode stack buf =
     (case unpack_sint 4 (take 4 buf) of
        Inl e \<Rightarrow> Inl e
      | Inr l \<Rightarrow>
          if l < 0 then Inl ValueError
          else Inr (stack @ [decoded decode (take (nat l) (drop 4 buf))], drop (nat l) (drop 4 buf)))"

text \<open>How Python 2 writes a string, and that it is read back, as text or as the bytes it is.\<close>

definition py2_string :: "bytes \<Rightarrow> bytes" where
  "py2_string d = (if length d < 256 then word_of_nat (length d) # d else le_bytes 4 (length d) @ d)"

lemma py2_string_loaded:
  assumes "length d < 2 ^ 31"
  shows "(if length d < 256 then load_short_binstring decode stack (py2_string d @ rest)
      else load_binstring decode stack (py2_string d @ rest)) = Inr (stack @ [decoded decode d], rest)"
proof (cases "length d < 256")
  case True
  then show ?thesis by (simp add: py2_string_def load_short_binstring_def unat_byte)
next
  case False
  have v: "le_val (le_bytes 4 (length d)) = length d" using assms by (intro le_val_bytes) simp
  have "unpack_sint 4 (le_bytes 4 (length d)) = Inr (int (length d))"
    using assms by (simp add: unpack_sint_def v)
  with False show ?thesis by (simp add: py2_string_def load_binstring_def)
qed

section \<open>Replacing a file\<close>

text \<open>
  On Windows: a transaction, the move in it, the commit. The answers of the three calls are arguments;
  the result is that of the function with the calls it made on the transaction. Elsewhere it is \<open>os.rename\<close>.
\<close>

datatype ktm_call = Move_file | Commit_transaction | Close_handle

definition atomicReplace :: "bool \<Rightarrow> bool \<Rightarrow> bool \<Rightarrow> bool \<times> ktm_call list" where
  "atomicReplace created moved committed =
     (if \<not> created then (False, [])
      else if \<not> moved then (False, [Move_file, Close_handle])
      else (committed, [Move_file, Commit_transaction, Close_handle]))"

lemma atomicReplace_closes:
  "count_list (snd (atomicReplace created moved committed)) Close_handle = of_bool created \<and>
   fst (atomicReplace created moved committed) = (created \<and> moved \<and> committed)"
  by (simp add: atomicReplace_def)

section \<open>The key\<close>

text \<open>\<open>derive\<close> is PBKDF2 with the fixed salt and number of rounds, \<open>b64\<close> the encoding of the key.\<close>

definition getEncryptor :: "(string \<Rightarrow> bytes) \<Rightarrow> (bytes \<Rightarrow> bytes) \<Rightarrow> (bytes \<Rightarrow> bytes) \<Rightarrow> py_str \<Rightarrow> bytes" where
  "getEncryptor utf8 derive b64 password = b64 (derive (to_bytes utf8 password))"

section \<open>Addresses\<close>

text \<open>\<open>aton\<close> and \<open>pton6\<close>: whether \<open>socket.inet_aton\<close> and \<open>socket.inet_pton\<close> accept the address.\<close>

definition getAddrType :: "(string \<Rightarrow> bool) \<Rightarrow> (string \<Rightarrow> bool) \<Rightarrow> string \<Rightarrow> py_error + addr_family" where
  "getAddrType aton pton6 a = (if aton a then Inr AF_INET else if pton6 a then Inr AF_INET6 else Inl UnknownAddress)"

text \<open>
  The replacements for \<open>inet_pton\<close> and \<open>inet_ntop\<close>; \<open>None\<close> is another address family. \<open>wsa\<close> is the call of Windows: \<open>None\<close> is a result other
  than 0. Where there is no \<open>windll\<close> it is \<open>not_windows\<close>, which takes no argument but gets five: TypeError.
\<close>

record 'a wsa =
  windll :: bool
  wsa_call :: "'a \<Rightarrow> bytes option"

definition call_wsa :: "'a wsa \<Rightarrow> 'a \<Rightarrow> py_error + bytes" where
  "call_wsa S x =
     (if \<not> windll S then Inl TypeError else (case wsa_call S x of None \<Rightarrow> Inl SocketError | Some b \<Rightarrow> Inr b))"

text \<open>\<open>wsa_call\<close> gives the bytes of the address structure, those for version 4 before those for version 6.\<close>

definition inet_pton :: "(addr_family option \<times> string) wsa \<Rightarrow> addr_family option \<Rightarrow> string \<Rightarrow> py_error + bytes" where
  "inet_pton S fam s =
     (case call_wsa S (fam, s) of
        Inl e \<Rightarrow> Inl e
      | Inr b \<Rightarrow> (case fam of Some AF_INET \<Rightarrow> Inr (take 4 b) | Some AF_INET6 \<Rightarrow> Inr (take 16 (drop 4 b)) | None \<Rightarrow> Inl SocketError))"

text \<open>The text comes with a final zero byte, which is cut off.\<close>

definition inet_ntop :: "(addr_family option \<times> bytes) wsa \<Rightarrow> addr_family option \<Rightarrow> bytes \<Rightarrow> py_error + bytes" where
  "inet_ntop S fam b =
     (if fam = None \<or> length b \<noteq> (if fam = Some AF_INET then 4 else 16) then Inl SocketError
      else (case call_wsa S (fam, b) of Inl e \<Rightarrow> Inl e | Inr t \<Rightarrow> Inr (butlast t)))"

text \<open>
  What importing the module does to \<open>socket\<close>: \<open>inet_pton\<close> is replaced on Windows only, \<open>inet_ntop\<close>
  everywhere. So elsewhere \<open>socket.inet_ntop\<close> raises for every address.
\<close>

record sock_module =
  sock_inet_pton :: "addr_family option \<Rightarrow> string \<Rightarrow> py_error + bytes"
  sock_inet_ntop :: "addr_family option \<Rightarrow> bytes \<Rightarrow> py_error + bytes"

definition import_win_inet_pton ::
  "bool \<Rightarrow> (addr_family option \<times> string) wsa \<Rightarrow> (addr_family option \<times> bytes) wsa \<Rightarrow> sock_module \<Rightarrow> sock_module" where
  "import_win_inet_pton nt S N m =
     (if nt then m\<lparr>sock_inet_pton := inet_pton S\<rparr> else m)\<lparr>sock_inet_ntop := inet_ntop N\<rparr>"

theorem ntop_broken_elsewhere:
  assumes "\<not> windll N"
  shows "\<exists>e. sock_inet_ntop (import_win_inet_pton nt S N m) fam b = Inl e"
  using assms by (simp add: import_win_inet_pton_def inet_ntop_def call_wsa_def)

end
