(* ===== verification/RaftProps.thy ===== *)
theory RaftProps
  imports RaftElection LedgerSpec
begin

text \<open>
  Lemmas on the handlers of a replication node: the log after an \<open>append_entries\<close>, the commit
  index of a leader, the application of committed entries, membership and large entries.
\<close>

section \<open>The commit index\<close>

text \<open>\<open>replicated s i\<close>: with this node, a majority holds entry \<open>i\<close>.\<close>

definition holders :: "raft \<Rightarrow> int \<Rightarrow> nat" where
  "holders s i = length (filter (\<lambda>p. case match_index s (peer_addr p) of None \<Rightarrow> False | Some m \<Rightarrow> m \<ge> i) (nodes s))"

definition replicated :: "raft \<Rightarrow> int \<Rightarrow> bool" where
  "replicated s i \<longleftrightarrow> 2 * (holders s i + 1) > length (nodes s) + 1"

definition peers_known :: "raft \<Rightarrow> bool" where
  "peers_known s \<longleftrightarrow> (\<forall>p\<in>set (nodes s). match_index s (peer_addr p) \<noteq> None)"

lemma replicas_known:
  assumes "peers_known s"
  shows "replicas s i = Inr (1 + int (holders s i))"
proof -
  let ?m = "\<lambda>p. the (match_index s (peer_addr p))"
  have "mapR (\<lambda>p. case match_index s (peer_addr p) of None \<Rightarrow> Inl KeyError | Some m \<Rightarrow> Inr m) (nodes s) =
      Inr (map ?m (nodes s))"
    by (rule mapR_all) (use assms in \<open>auto simp: peers_known_def\<close>)
  moreover have "filter (\<lambda>p. i \<le> ?m p) (nodes s) =
      filter (\<lambda>p. case match_index s (peer_addr p) of None \<Rightarrow> False | Some m \<Rightarrow> m \<ge> i) (nodes s)"
    by (rule filter_cong) (use assms in \<open>auto simp: peers_known_def split: option.split\<close>)
  ultimately show ?thesis by (simp add: replicas_def holders_def filter_map comp_def)
qed

declare commit_loop.simps [simp del]

lemma commit_loop_step:
  assumes "peers_known s"
  shows "commit_loop s c =
    (if c < getCurrentLogIndex s \<and> replicated s (c + 1) then commit_loop s (c + 1) else Inr c)"
proof -
  have "majority s (1 + int (holders s i)) \<longleftrightarrow> replicated s i" for i
    by (auto simp: majority_def replicated_def)
  then show ?thesis by (subst commit_loop.simps) (simp add: replicas_known[OF assms])
qed

lemma commit_loop_result:
  assumes "peers_known s"
  shows "\<exists>c'. commit_loop s c = Inr c' \<and> c \<le> c' \<and> c' \<le> max c (getCurrentLogIndex s) \<and>
    (\<forall>i. c < i \<and> i \<le> c' \<longrightarrow> replicated s i) \<and>
    (c' < getCurrentLogIndex s \<longrightarrow> \<not> replicated s (c' + 1))"
proof (induction "nat (getCurrentLogIndex s - c)" arbitrary: c rule: less_induct)
  case less
  show ?case
  proof (cases "c < getCurrentLogIndex s \<and> replicated s (c + 1)")
    case False
    then show ?thesis by (subst commit_loop_step[OF assms]) auto
  next
    case True
    then have "nat (getCurrentLogIndex s - (c + 1)) < nat (getCurrentLogIndex s - c)" by simp
    from less.hyps[OF this] obtain c' where c': "commit_loop s (c + 1) = Inr c'" "c + 1 \<le> c'"
      "c' \<le> max (c + 1) (getCurrentLogIndex s)" "\<forall>i. c + 1 < i \<and> i \<le> c' \<longrightarrow> replicated s i"
      "c' < getCurrentLogIndex s \<longrightarrow> \<not> replicated s (c' + 1)" by blast
    have "replicated s i" if "c < i" "i \<le> c'" for i
      using that c'(4) True by (cases "i = c + 1") auto
    moreover have "commit_loop s c = Inr c'" using c'(1) True by (subst commit_loop_step[OF assms]) simp
    ultimately show ?thesis using c' True by auto
  qed
qed

section \<open>The log of a follower\<close>

text \<open>Commands that are not membership changes, so that the log alone changes.\<close>

definition plain :: "entry list \<Rightarrow> bool" where
  "plain es \<longleftrightarrow> (\<forall>e\<in>set es. cmd e \<noteq> [] \<and> hd (cmd e) \<noteq> MEMBERSHIP)"

lemma redo_plain: "plain es \<Longrightarrow> redo_entries R now b es s = (Inr (), s)"
proof -
  assume p: "plain es"
  have "redo_entry R now b e t = (Inr (), t)" if "e \<in> set es" for e t
    using p that by (cases "cmd e") (auto simp: plain_def redo_entry_def parseChangeClusterRequest_def)
  then have "forE (redo_entry R now b) es t = (Inr (), t)" for t
  proof -
    have "fold (\<lambda>_ t. t) es t = t" by (induction es) simp_all
    with \<open>\<And>e t. e \<in> set es \<Longrightarrow> redo_entry R now b e t = (Inr (), t)\<close>
    show ?thesis using forE_total[of es "redo_entry R now b" "\<lambda>_ t. t" t] by simp
  qed
  then show ?thesis by (simp add: redo_entries_def)
qed

text \<open>The entries up to an index.\<close>

definition upto_idx :: "int \<Rightarrow> entry list \<Rightarrow> entry list" where
  "upto_idx i es = take (nat (i + 1 - first_idx es)) es"

lemma getEntries_split:
  assumes "getEntries (Some i) None None es = e # dropped"
  shows "first_idx es \<le> i" and "upto_idx i es = take (nat (i - first_idx es)) es @ [e]"
    and "dropped = drop (nat (i + 1 - first_idx es)) es" and "es = upto_idx i es @ dropped"
proof -
  show f: "first_idx es \<le> i" using assms by (auto simp: getEntries_def split: if_splits)
  define n where "n = nat (i - first_idx es)"
  have d: "drop n es = e # dropped" using assms f by (auto simp: getEntries_def n_def Let_def)
  have n1: "nat (i + 1 - first_idx es) = Suc n" using f by (simp add: n_def)
  have lt: "n < length es" using d by (metis drop_eq_Nil2 list.distinct(1) not_le)
  have "e = es ! n" using d lt by (metis Cons_nth_drop_Suc list.inject)
  then show u: "upto_idx i es = take (nat (i - first_idx es)) es @ [e]"
    using lt by (simp add: upto_idx_def n1 n_def[symmetric] take_Suc_conv_app_nth)
  show "dropped = drop (nat (i + 1 - first_idx es)) es"
    using d by (metis n1 drop_Suc list.sel(3) tl_drop)
  then show "es = upto_idx i es @ dropped" by (simp add: upto_idx_def)
qed

lemma acknowledge_log [simp]: "raft_log (acknowledge a c p es s) = raft_log s"
  by (simp add: acknowledge_def Let_def sendNextNodeIdx_def send_to_def node_send_def split: option.split)

lemma sendNext_fields [simp]:
  "raft_log (sendNextNodeIdx a r n ok s) = raft_log s" "commit_index (sendNextNodeIdx a r n ok s) = commit_index s"
  "getCurrentLogIndex (sendNextNodeIdx a r n ok s) = getCurrentLogIndex s"
  by (simp_all add: sendNextNodeIdx_def Let_def send_to_def node_send_def getCurrentLogIndex_def split: option.split)

lemma accept_entries_match:
  assumes prev: "getEntries (Some i) None None (raft_log s) = e # dropped" and t: "trm e = t"
    and p: "plain dropped" "plain es"
  shows "accept_entries R now a c es (Some (i, t)) s =
    (Inr (), acknowledge a c i es (s\<lparr>raft_log := upto_idx i (raft_log s) @ es\<rparr>))"
proof -
  note sp = getEntries_split[OF prev]
  have cut: "cut_log R now i dropped s = (Inr (), s\<lparr>raft_log := upto_idx i (raft_log s)\<rparr>)"
  proof (cases "dropped = []")
    case True
    then have "upto_idx i (raft_log s) = raft_log s" using sp(4) by simp
    with True show ?thesis by (simp add: cut_log_def)
  next
    case False
    have "plain (rev dropped)" using p(1) by (simp add: plain_def)
    moreover have "deleteEntriesFrom (i + 1) (raft_log s) = upto_idx i (raft_log s)"
      using sp(1) by (simp add: deleteEntriesFrom_def upto_idx_def Let_def)
    ultimately show ?thesis using False by (simp add: cut_log_def bindE_def redo_plain)
  qed
  show ?thesis
    unfolding accept_entries_def using prev t
    by (simp add: bindE_def cut add_entries_def redo_plain[OF p(2)])
qed

lemma accept_entries_refused:
  assumes "case getEntries (Some i) None None (raft_log s) of [] \<Rightarrow> True | e # _ \<Rightarrow> trm e \<noteq> t"
  shows "\<exists>s'. accept_entries R now a c es (Some (i, t)) s = (Inr (), s') \<and>
    raft_log s' = raft_log s \<and> commit_index s' = commit_index s"
  using assms by (auto simp: accept_entries_def split: list.splits)

section \<open>Applying committed entries\<close>

text \<open>\<open>update_pend\<close> leaves the queue of blocks alone and always returns.\<close>

lemma update_pend_step_pipe: "update_pend_step E kw s = (r, s') \<Longrightarrow> pipe s' = pipe s"
  by (auto simp: update_pend_step_def Let_def bindE_def split: if_splits prod.splits sum.splits
      dest!: verify_txn_pipe write_txn_to_db_pipe)

lemma update_pend_pipe: "update_pend E s = (r, s') \<Longrightarrow> pipe s' = pipe s"
  unfolding update_pend_def
  using forE_inv[where I = "\<lambda>t. pipe t = pipe s" and f = "update_pend_step E" and xs = "store_items (pend s)"
      and s = s and r = r and u = s'] update_pend_step_pipe by metis

lemma add_block_returns:
  assumes "ledger_inv E st"
  shows "\<exists>st'. add_block_to_queue E blk st = (Inr (), st') \<and> ledger_inv E st' \<and>
    block_queue st' = block_queue st @ [blk]"
proof -
  have ok: "store_ok (pend st)" using assms by (simp add: ledger_inv_def pend_ok_def)
  have "distinct (map fst (store_items (pend st)))" using ok by (rule kv.items_distinct)
  moreover have "\<forall>(k, w)\<in>set (store_items (pend st)). store_get (pend st) k = Some w"
    using kv.items_get[OF ok] by auto
  ultimately obtain u where u: "update_pend E st = (Inr (), u)" "ledger_inv E u"
    using update_pend_loop[OF assms, of "store_items (pend st)"] unfolding update_pend_def by blast
  have "block_queue u = block_queue st" using update_pend_pipe[OF u(1)] by (simp add: pipe_def)
  moreover have "ledger_inv E (u\<lparr>block_queue := q\<rparr>)" for q by (rule ledger_inv_cong[OF u(2)]) simp_all
  ultimately show ?thesis using u(1) by (simp add: add_block_to_queue_def bindE_def)
qed

text \<open>The blocks of a list of entries, and the entries a node can apply.\<close>

definition block_of :: "raft_env \<Rightarrow> entry \<Rightarrow> block list" where
  "block_of R e =
     (case cmd e of
        [] \<Rightarrow> []
      | t # payload \<Rightarrow> if t = REGULAR then (case loads_call R payload of Inl _ \<Rightarrow> [] | Inr b \<Rightarrow> [b]) else [])"

definition applicable :: "raft_env \<Rightarrow> entry \<Rightarrow> bool" where
  "applicable R e \<longleftrightarrow>
     (case cmd e of
        [] \<Rightarrow> False
      | t # payload \<Rightarrow> t \<noteq> VERSION \<and> (t = REGULAR \<longrightarrow> (\<exists>b. loads_call R payload = Inr b)))"

lemma fold_fire_fields [simp]:
  "app (fold (\<lambda>(t, c). fire c (f t)) xs s) = app s"
  "last_applied (fold (\<lambda>(t, c). fire c (f t)) xs s) = last_applied s"
  by (induction xs arbitrary: s) (auto simp: fire_def)

lemma doApply_applicable:
  assumes "ledger_inv (ledger_env R) (app s)" and "applicable R e"
  shows "\<exists>st. doApplyCommand R (cmd e) s = (Inr (), s\<lparr>app := st\<rparr>) \<and> ledger_inv (ledger_env R) st \<and>
    block_queue st = block_queue (app s) @ block_of R e"
proof (cases "cmd e")
  case Nil
  with assms(2) show ?thesis by (simp add: applicable_def)
next
  case (Cons t payload)
  show ?thesis
  proof (cases "t = REGULAR")
    case False
    with Cons assms show ?thesis
      by (intro exI[of _ "app s"]) (simp add: applicable_def doApplyCommand_def block_of_def)
  next
    case True
    with Cons assms(2) obtain b where b: "loads_call R payload = Inr b" by (auto simp: applicable_def)
    obtain st where st: "add_block_to_queue (ledger_env R) b (app s) = (Inr (), st)"
      "ledger_inv (ledger_env R) st" "block_queue st = block_queue (app s) @ [b]"
      using add_block_returns[OF assms(1)] by blast
    with True Cons b show ?thesis
      by (intro exI[of _ st]) (simp add: doApplyCommand_def block_of_def command_types)
  qed
qed

lemma apply_entry_applicable:
  assumes "ledger_inv (ledger_env R) (app s)" and "applicable R e"
  shows "\<exists>s'. apply_entry R e s = (Inr (), s') \<and> last_applied s' = last_applied s + 1 \<and>
    ledger_inv (ledger_env R) (app s') \<and> block_queue (app s') = block_queue (app s) @ block_of R e"
proof -
  let ?s1 = "s\<lparr>waiting_commit := (waiting_commit s)(idx e := [])\<rparr>"
  obtain st where "doApplyCommand R (cmd e) ?s1 = (Inr (), ?s1\<lparr>app := st\<rparr>)" "ledger_inv (ledger_env R) st"
    "block_queue st = block_queue (app s) @ block_of R e"
    using doApply_applicable[of R ?s1 e] assms by auto
  then show ?thesis by (simp add: apply_entry_def Let_def)
qed

lemma apply_entries_applicable:
  assumes "ledger_inv (ledger_env R) (app s)" and "\<forall>e\<in>set es. applicable R e"
  shows "\<exists>s'. forE (apply_entry R) es s = (Inr (), s') \<and> last_applied s' = last_applied s + int (length es) \<and>
    ledger_inv (ledger_env R) (app s') \<and> block_queue (app s') = block_queue (app s) @ concat (map (block_of R) es)"
  using assms
proof (induction es arbitrary: s)
  case (Cons e es)
  then obtain s1 where s1: "apply_entry R e s = (Inr (), s1)" "last_applied s1 = last_applied s + 1"
    "ledger_inv (ledger_env R) (app s1)" "block_queue (app s1) = block_queue (app s) @ block_of R e"
    using apply_entry_applicable[of R s e] by auto
  with Cons.IH[OF s1(3)] Cons.prems(2) show ?case by (auto simp: bindE_ok)
qed simp

text \<open>An entry that asks for an unsupported version is passed over without being counted.\<close>

lemma apply_entry_version:
  assumes "cmd e = VERSION # payload" and "loads_version R payload = Inr v" and "v > self_code_version s"
  shows "apply_entry R e s = (Inr (), s\<lparr>waiting_commit := (waiting_commit s)(idx e := [])\<rparr>)"
  using assms by (simp add: apply_entry_def doApplyCommand_def Let_def)

section \<open>Large entries\<close>

definition pieces_of :: "nat \<Rightarrow> nat \<Rightarrow> nat" where
  "pieces_of batch n = (n + batch - 1) div batch"

lemma chunks_concat:
  assumes "0 < batch"
  shows "concat (map (\<lambda>k. take batch (drop (k * batch) xs)) [0..<n]) = take (n * batch) xs"
proof (induction n)
  case (Suc n)
  have "take (n * batch) xs @ take batch (drop (n * batch) xs) = take (n * batch + batch) xs"
    by (simp add: take_add)
  with Suc show ?case by (simp add: add.commute)
qed simp

lemma pieces_of_covers:
  assumes "0 < batch"
  shows "n \<le> pieces_of batch n * batch"
proof -
  let ?m = "n + batch - 1"
  have "?m = ?m div batch * batch + ?m mod batch" by simp
  moreover have "?m mod batch < batch" using assms by simp
  ultimately have "n + batch - 1 < ?m div batch * batch + batch" by linarith
  then show ?thesis using assms unfolding pieces_of_def by linarith
qed

lemma entry_pieces_concat:
  assumes "0 < batch"
  shows "concat (map snd (entry_pieces batch n pickled)) = pickled"
proof -
  have "concat (map snd (entry_pieces batch n pickled)) = take (pieces_of batch (length pickled) * batch) pickled"
    using chunks_concat[OF assms, of pickled "pieces_of batch (length pickled)"]
    by (simp add: entry_pieces_def pieces_of_def comp_def)
  then show ?thesis using pieces_of_covers[OF assms, of "length pickled"] by simp
qed

text \<open>What a follower does with pieces that arrive in order.\<close>

definition receive_pieces ::
  "raft_env \<Rightarrow> rat \<Rightarrow> addr \<Rightarrow> int \<Rightarrow> (int \<times> int) option \<Rightarrow> (part \<times> bytes) list \<Rightarrow> (raft, unit) eff" where
  "receive_pieces R now a c prev ps = forE (\<lambda>(k, d). on_append_part R now a c k d prev) ps"

definition same_log :: "raft \<Rightarrow> raft \<Rightarrow> bool" where
  "same_log s s' \<longleftrightarrow> raft_log s' = raft_log s \<and> commit_index s' = commit_index s \<and> app s' = app s"

lemma receive_process:
  assumes "\<forall>x\<in>set ps. fst x = Part_process" and "recv_transmission s = Some b"
  shows "\<exists>s'. receive_pieces R now a c prev ps s = (Inr (), s') \<and> same_log s s' \<and>
    recv_transmission s' = Some (b @ concat (map snd ps))"
  using assms
proof (induction ps arbitrary: s b)
  case Nil
  then show ?case by (simp add: receive_pieces_def same_log_def)
next
  case (Cons x ps)
  let ?s1 = "sendNextNodeIdx a False None False (s\<lparr>recv_transmission := Some (b @ snd x)\<rparr>)"
  have x: "(\<lambda>(k, d). on_append_part R now a c k d prev) x s = (Inr (), ?s1)"
    using Cons.prems by (simp add: case_prod_beta on_append_part_def)
  have f: "recv_transmission ?s1 = Some (b @ snd x)" "same_log s ?s1"
    by (simp_all add: sendNextNodeIdx_def Let_def send_to_def node_send_def same_log_def split: option.split)
  from Cons.IH[of ?s1 "b @ snd x"] Cons.prems f(1) obtain s' where s': "receive_pieces R now a c prev ps ?s1 = (Inr (), s')"
    "same_log ?s1 s'" "recv_transmission s' = Some ((b @ snd x) @ concat (map snd ps))" by auto
  then have "receive_pieces R now a c prev (x # ps) s = (Inr (), s')"
    using x unfolding receive_pieces_def forE.simps by (simp add: bindE_ok)
  with s' f show ?case by (auto simp: same_log_def)
qed

lemma receive_until_finish:
  assumes "\<forall>x\<in>set ps. fst x = Part_process"
  shows "\<exists>s'. receive_pieces R now a c prev ((Part_start, d0) # ps @ [(Part_finish, d)]) s =
      on_append_part R now a c Part_finish d prev s' \<and> same_log s s' \<and>
      recv_transmission s' = Some (d0 @ concat (map snd ps))"
proof -
  let ?s1 = "sendNextNodeIdx a False None False (s\<lparr>recv_transmission := Some d0\<rparr>)"
  have f: "recv_transmission ?s1 = Some d0" "same_log s ?s1"
    by (simp_all add: sendNextNodeIdx_def Let_def send_to_def node_send_def same_log_def split: option.split)
  obtain s' where s': "receive_pieces R now a c prev ps ?s1 = (Inr (), s')"
    "same_log ?s1 s'" "recv_transmission s' = Some (d0 @ concat (map snd ps))"
    using receive_process[OF assms f(1)] by blast
  have app: "forE g (xs @ ys) u = (case forE g xs u of (Inl e, t) \<Rightarrow> (Inl e, t) | (Inr _, t) \<Rightarrow> forE g ys t)"
    for g :: "part \<times> bytes \<Rightarrow> (raft, unit) eff" and xs ys u
    by (induction xs arbitrary: u) (auto simp: bindE_def split: prod.splits sum.splits)
  have "receive_pieces R now a c prev ((Part_start, d0) # ps @ [(Part_finish, d)]) s =
      on_append_part R now a c Part_finish d prev s'"
    using s'(1) unfolding receive_pieces_def
    by (simp add: bindE_def on_append_part_def[of R now a c Part_start] app split: prod.split sum.split)
  with s' f show ?thesis by (auto simp: same_log_def)
qed

text \<open>The pieces up to the first that is called the last.\<close>

lemma pieces_of_le: "0 < batch \<Longrightarrow> k * batch < n \<longleftrightarrow> k < pieces_of batch n"
proof -
  assume b: "0 < batch"
  have "k < (n + batch - 1) div batch \<longleftrightarrow> Suc k \<le> (n + batch - 1) div batch" by auto
  also have "\<dots> \<longleftrightarrow> Suc k * batch \<le> n + batch - 1" using b by (simp add: less_eq_div_iff_mult_less_eq)
  also have "\<dots> \<longleftrightarrow> k * batch < n" using b by auto
  finally show ?thesis by (simp add: pieces_of_def)
qed

lemma entry_pieces_split:
  assumes b: "0 < batch" and m: "m = max 2 (pieces_of batch cmdlen)" "m \<le> pieces_of batch (length pickled)"
  shows "\<exists>d0 ps d rest. entry_pieces batch cmdlen pickled = (Part_start, d0) # ps @ [(Part_finish, d)] @ rest \<and>
    (\<forall>x\<in>set ps. fst x = Part_process) \<and> d0 @ concat (map snd ps) @ d = take (m * batch) pickled \<and>
    length rest = pieces_of batch (length pickled) - m"
proof -
  let ?N = "pieces_of batch (length pickled)"
  let ?f = "\<lambda>k. (piece_kind batch cmdlen (k * batch), take batch (drop (k * batch) pickled))"
  have m2: "2 \<le> m" using m(1) by simp
  have idx: "[0..<?N] = 0 # [1..<m - 1] @ [m - 1] @ [m..<?N]"
  proof -
    have "[0..<?N] = [0..<m] @ [m..<?N]" using m(2) by (metis le_add_diff_inverse upt_add_eq_append zero_le)
    moreover have "[0..<m] = [0..<m - 1] @ [m - 1]" using m2 upt_Suc_append[of 0 "m - 1"] by simp
    moreover have "[0..<m - 1] = 0 # [1..<m - 1]" using m2 by (simp add: upt_conv_Cons)
    ultimately show ?thesis by simp
  qed
  have e: "entry_pieces batch cmdlen pickled = map ?f [0..<?N]" by (simp add: entry_pieces_def pieces_of_def)
  have k0: "?f 0 = (Part_start, take batch pickled)" by (simp add: piece_kind_def)
  have fin: "fst (?f (m - 1)) = Part_finish"
  proof -
    have "\<not> m * batch < cmdlen" using m(1) by (simp add: pieces_of_le[OF b])
    moreover have "(m - 1) * batch + batch = m * batch" using m2 by (cases m) auto
    ultimately show ?thesis using m2 b by (simp add: piece_kind_def)
  qed
  have proc: "fst (?f k) = Part_process" if "k \<in> set [1..<m - 1]" for k
  proof -
    have k: "1 \<le> k" "Suc k < m" using that by auto
    have "Suc k < pieces_of batch cmdlen" using k m(1) by (simp add: max_def split: if_splits)
    then have "Suc k * batch < cmdlen" using pieces_of_le[OF b] by blast
    with k b show ?thesis by (simp add: piece_kind_def)
  qed
  have cat: "concat (map (\<lambda>k. take batch (drop (k * batch) pickled)) [0..<m]) = take (m * batch) pickled"
    by (rule chunks_concat[OF b])
  have "[0..<m] = 0 # [1..<m - 1] @ [m - 1]"
    using m2 upt_Suc_append[of 0 "m - 1"] upt_conv_Cons[of 0 "m - 1"] by simp
  with cat have cat': "take batch pickled @ concat (map snd (map ?f [1..<m - 1])) @ snd (?f (m - 1)) = take (m * batch) pickled"
    by (simp add: comp_def)
  show ?thesis
    unfolding e idx
    by (rule exI[of _ "take batch pickled"], rule exI[of _ "map ?f [1..<m - 1]"],
        rule exI[of _ "snd (?f (m - 1))"], rule exI[of _ "map ?f [m..<?N]"])
       (use k0 fin proc cat' in \<open>auto simp: prod_eq_iff\<close>)
qed

end
