(* ===== verification/RaftSpec.thy ===== *)
theory RaftSpec
  imports RaftProps
begin

text \<open>
  The properties of elections: one leader per term as long as no node restarts, whom a node
  gives its vote, and what a restart forgets. The example cluster is used by the witnesses.
\<close>

section \<open>A small cluster\<close>

text \<open>
  Three nodes with belcoin's configuration; the payload of a command is the id of one
  transaction, a pickled entry is its command and two more bytes.
\<close>

definition ex_renv :: raft_env where
  "ex_renv = \<lparr>conf = belcoin_conf\<lparr>logCompactionBatchSize := 4, appendEntriesBatchSizeBytes := 4\<rparr>, ledger_env = ex_env,
     disk = \<lparr>can_open = True, can_write = True, can_rename = True\<rparr>,
     dumps_call = (\<lambda>b. concat (block_txns b)),
     loads_call = (\<lambda>p. Inr \<lparr>block_time = 5, block_txns = [p]\<rparr>),
     loads_request = (\<lambda>p. if p = [4] then Inr (''add'', ''d'') else Inr (''add'', ''e'')),
     loads_version = (\<lambda>p. Inr (if p = [] then 0 else uint (hd p))),
     dumps_entry = (\<lambda>e. cmd e @ [9, 9]),
     loads_entry = (\<lambda>b. if 2 \<le> length b \<and> drop (length b - 2) b = [9, 9]
                        then Inr (Entry (take (length b - 2) b) 2 1) else Inl ValueError),
     loads_dump = (\<lambda>_. Inl ValueError)\<rparr>"

definition ex_node :: "addr \<Rightarrow> addr list \<Rightarrow> raft" where
  "ex_node a others = raft_init ex_renv 0 1 (Some a) others [] None ex_state"

definition ex_members :: "addr set" where
  "ex_members = {''a'', ''b'', ''c''}"

definition ex_cluster :: cluster where
  "ex_cluster = \<lparr>procs = (\<lambda>x. ex_node x (filter (\<lambda>y. y \<noteq> x) [''a'', ''b'', ''c''])), net = []\<rparr>"

text \<open>The links between a and b come up, a stands, b votes, a counts.\<close>

definition ex_up :: cluster where
  "ex_up = flush ''b'' (set_connected ''a'' True (procs ex_cluster ''b''))
     (flush ''a'' (set_connected ''b'' True (procs ex_cluster ''a'')) ex_cluster)"

definition ex_stood :: cluster where
  "ex_stood = flush ''a'' (snd (onTick ex_renv 2 0 1 1 (procs ex_up ''a''))) ex_up"

definition ex_voted :: cluster where
  "ex_voted = flush ''b'' (snd (onMessageReceived ex_renv 2 0 1 ''a'' (Request_vote 1 1 0) (procs ex_stood ''b'')))
     (ex_stood\<lparr>net := []\<rparr>)"

definition ex_elected :: cluster where
  "ex_elected = flush ''a'' (snd (onMessageReceived ex_renv 2 0 1 ''b'' (Response_vote 1) (procs ex_voted ''a'')))
     (ex_voted\<lparr>net := []\<rparr>)"

lemma ex_start: "cluster_start (\<lambda>_. ex_renv) ex_members ex_cluster"
  unfolding cluster_start_def
proof (intro conjI ballI)
  fix a assume "a \<in> ex_members"
  show "\<exists>now deadline others journal dfile st. distinct others \<and> set others = ex_members - {a} \<and>
      procs ex_cluster a = raft_init ex_renv now deadline (Some a) others journal dfile st"
    by (rule exI[of _ 0], rule exI[of _ 1], rule exI[of _ "filter (\<lambda>y. y \<noteq> a) [''a'', ''b'', ''c'']"],
        rule exI[of _ "[]"], rule exI[of _ None], rule exI[of _ ex_state])
       (auto simp: ex_members_def ex_cluster_def ex_node_def)
qed (simp_all add: ex_members_def ex_cluster_def)

lemma ex_reach_up: "cluster_reach (\<lambda>_. ex_renv) ex_members ex_up"
proof -
  let ?c1 = "flush ''a'' (set_connected ''b'' True (procs ex_cluster ''a'')) ex_cluster"
  have "cluster_step (\<lambda>_. ex_renv) ex_members ex_cluster ?c1"
    by (rule cluster_step.link) (simp_all add: ex_members_def)
  moreover have "procs ?c1 ''b'' = procs ex_cluster ''b''" by simp
  then have "cluster_step (\<lambda>_. ex_renv) ex_members ?c1 ex_up"
    unfolding ex_up_def by (intro cluster_step.link) (simp_all add: ex_members_def)
  ultimately show ?thesis
    using cluster_reach.step cluster_reach.start[OF ex_start] by blast
qed

lemma ex_reach: "cluster_reach (\<lambda>_. ex_renv) ex_members ex_elected"
proof -
  have m: "''a'' \<in> ex_members" "''b'' \<in> ex_members" by (simp_all add: ex_members_def)
  have "same_members (procs ex_up ''a'') (tick_load ex_renv (procs ex_up ''a''))"
    "same_members (procs ex_up ''a'') (snd (onTick ex_renv 2 0 1 1 (procs ex_up ''a'')))" by code_simp+
  then have "cluster_step (\<lambda>_. ex_renv) ex_members ex_up ex_stood"
    unfolding ex_stood_def by (rule cluster_step.tick[where R = "\<lambda>_. ex_renv", OF m(1) refl])
  moreover have "net ex_stood = [] @ (''a'', ''b'', Request_vote 1 1 0) # []"
    "same_members (procs ex_stood ''b'')
      (snd (onMessageReceived ex_renv 2 0 1 ''a'' (Request_vote 1 1 0) (procs ex_stood ''b'')))" by code_simp+
  from cluster_step.recv[where R = "\<lambda>_. ex_renv", OF m(2) this(1) refl this(2)]
  have "cluster_step (\<lambda>_. ex_renv) ex_members ex_stood ex_voted" unfolding ex_voted_def by (simp only: append_Nil)
  moreover have "net ex_voted = [] @ (''b'', ''a'', Response_vote 1) # []"
    "same_members (procs ex_voted ''a'')
      (snd (onMessageReceived ex_renv 2 0 1 ''b'' (Response_vote 1) (procs ex_voted ''a'')))" by code_simp+
  from cluster_step.recv[where R = "\<lambda>_. ex_renv", OF m(1) this(1) refl this(2)]
  have "cluster_step (\<lambda>_. ex_renv) ex_members ex_voted ex_elected" unfolding ex_elected_def by (simp only: append_Nil)
  ultimately show ?thesis using ex_reach_up cluster_reach.step by blast
qed

lemma ex_elected_leader: "state (procs ex_elected ''a'') = LEADER" "current_term (procs ex_elected ''a'') = 1"
  by code_simp+

section \<open>Elections\<close>



text \<open>A candidate's log is as new as the voter's.\<close>

definition up_to_date :: "int \<Rightarrow> int \<Rightarrow> raft \<Rightarrow> bool" where
  "up_to_date i lt s \<longleftrightarrow>
     lt > getCurrentLogTerm s \<or> lt = getCurrentLogTerm s \<and> i \<ge> getCurrentLogIndex s"

text \<open>A message to the node reaches a connection.\<close>

definition reachable :: "raft \<Rightarrow> addr \<Rightarrow> bool" where
  "reachable s a \<longleftrightarrow> (\<exists>p. find (\<lambda>p. peer_addr p = a) (nodes s @ readonly_nodes s) = Some p \<and> connected p)"

lemma send_to_reachable: "reachable s a \<Longrightarrow> send_to a m s = s\<lparr>outbox := outbox s @ [(a, m)]\<rparr>"
proof -
  assume "reachable s a"
  then obtain p where p: "find (\<lambda>p. peer_addr p = a) (nodes s @ readonly_nodes s) = Some p" "connected p"
    unfolding reachable_def by blast
  have "peer_addr p = a" using p(1) by (auto simp: find_Some_iff)
  with p show ?thesis by (simp add: send_to_def node_send_def)
qed

text \<open>
  A vote can be given: the request is of this term or a later one, the node is not the leader of
  that term and has not voted in it, and the candidate's log is as new.
\<close>

definition may_vote :: "int \<Rightarrow> int \<Rightarrow> int \<Rightarrow> raft \<Rightarrow> bool" where
  "may_vote t i lt s \<longleftrightarrow> t \<ge> current_term s \<and>
     (t > current_term s \<or> state s \<noteq> LEADER \<and> voted_for s = None) \<and> up_to_date i lt s"

definition newer_term :: "int \<Rightarrow> raft \<Rightarrow> raft" where
  "newer_term t s =
     (if t > current_term s then s\<lparr>current_term := t, voted_for := None, state := FOLLOWER, leader := None\<rparr> else s)"

lemma newer_term_fields [simp]:
  "self_addr (newer_term t s) = self_addr s" "nodes (newer_term t s) = nodes s"
  "readonly_nodes (newer_term t s) = readonly_nodes s" "raft_log (newer_term t s) = raft_log s"
  "outbox (newer_term t s) = outbox s" "app (newer_term t s) = app s"
  "current_term (newer_term t s) = max t (current_term s)"
  by (simp_all add: newer_term_def)

lemma request_vote_eq:
  assumes "self_addr s = Some me" and "reachable s a"
  shows "on_request_vote R now rnd a t i lt s =
    (if may_vote t i lt s
     then (newer_term t s)\<lparr>voted_for := Some a, election_deadline := now + generateRaftTimeout R rnd,
            outbox := outbox s @ [(a, Response_vote t)]\<rparr>
     else newer_term t s)"
proof -
  let ?n = "newer_term t s"
  let ?u = "?n\<lparr>voted_for := Some a, election_deadline := now + generateRaftTimeout R rnd\<rparr>"
  have "reachable ?u a" using assms(2) by (simp add: reachable_def)
  then have send: "send_to a (Response_vote t) ?u = ?u\<lparr>outbox := outbox s @ [(a, Response_vote t)]\<rparr>"
    by (simp add: send_to_reachable)
  have log: "getCurrentLogTerm ?n = getCurrentLogTerm s" "getCurrentLogIndex ?n = getCurrentLogIndex s"
    by (simp_all add: getCurrentLogTerm_def getCurrentLogIndex_def)
  have g: "state ?n \<noteq> LEADER \<and> t \<ge> current_term ?n \<and> \<not> lt < getCurrentLogTerm ?n \<and>
      \<not> (lt = getCurrentLogTerm ?n \<and> i < getCurrentLogIndex ?n) \<and> voted_for ?n = None \<longleftrightarrow> may_vote t i lt s"
    unfolding log by (auto simp: may_vote_def up_to_date_def newer_term_def)
  have "on_request_vote R now rnd a t i lt s =
      (if state ?n \<noteq> LEADER \<and> t \<ge> current_term ?n \<and> \<not> lt < getCurrentLogTerm ?n \<and>
          \<not> (lt = getCurrentLogTerm ?n \<and> i < getCurrentLogIndex ?n) \<and> voted_for ?n = None
       then send_to a (Response_vote t) ?u else ?n)"
    by (simp only: on_request_vote_def newer_term_def Let_def assms(1) option.distinct if_False)
  then show ?thesis unfolding g send .
qed

lemma request_vote_again:
  assumes "voted_for s = Some a" and "t' \<le> current_term s" and "self_addr s = Some me"
  shows "on_request_vote R now rnd b t' i lt s = s"
  using assms by (simp add: on_request_vote_def)

text \<open>
  C22. A node gives its vote exactly when the request is of its term or a later one, it is not
  the leader of that term, has not voted in it, and the candidate's log is as new as its own:
  then it answers, remembers the vote and waits for a new election timeout. A later term makes
  it a follower of that term in any case; the log is never touched; and after a vote no request
  of that term or an older one gets another.
\<close>

theorem vote_granted_iff:
  assumes "self_addr s = Some me" and "reachable s a"
  shows "let s' = on_request_vote R now rnd a t i lt s in
    outbox s' = outbox s @ (if may_vote t i lt s then [(a, Response_vote t)] else []) \<and>
    current_term s' = max t (current_term s) \<and> raft_log s' = raft_log s \<and>
    (t > current_term s \<longrightarrow> state s' = FOLLOWER) \<and>
    (\<not> may_vote t i lt s \<and> t \<le> current_term s \<longrightarrow> s' = s) \<and>
    (may_vote t i lt s \<longrightarrow> voted_for s' = Some a \<and> election_deadline s' = now + generateRaftTimeout R rnd \<and>
       (\<forall>now' rnd' b t' i' lt'. t' \<le> t \<longrightarrow> on_request_vote R now' rnd' b t' i' lt' s' = s'))"
proof -
  let ?s' = "on_request_vote R now rnd a t i lt s"
  note e = request_vote_eq[OF assms, of R now rnd t i lt]
  have "on_request_vote R now' rnd' b t' i' lt' ?s' = ?s'" if "may_vote t i lt s" "t' \<le> t" for now' rnd' b t' i' lt'
    by (rule request_vote_again[of _ a _ me]) (use that assms(1) in \<open>simp_all add: e\<close>)
  moreover have "\<not> may_vote t i lt s \<and> t \<le> current_term s \<longrightarrow> ?s' = s" by (simp add: e newer_term_def)
  moreover have "t > current_term s \<longrightarrow> state ?s' = FOLLOWER" by (simp add: e newer_term_def)
  ultimately show ?thesis by (simp add: Let_def e)
qed

theorem vote_granted_iff_witness:
  "outbox (on_request_vote ex_renv 2 0 ''a'' 1 1 0 (procs ex_stood ''b'')) = [(''a'', Response_vote 1)]"
proof -
  let ?s = "procs ex_stood ''b''"
  have s: "self_addr ?s = Some ''b''" "current_term ?s = 0" "outbox ?s = []"
    "getCurrentLogTerm ?s = 0" "getCurrentLogIndex ?s = 1"
    "find (\<lambda>p. peer_addr p = ''a'') (nodes ?s @ readonly_nodes ?s) = Some \<lparr>peer_addr = ''a'', connected = True\<rparr>"
    by code_simp+
  have "reachable ?s ''a''" "may_vote 1 1 0 ?s"
    unfolding reachable_def may_vote_def up_to_date_def s by simp_all
  with vote_granted_iff[OF s(1), of "''a''" ex_renv 2 0 1 1 0] show ?thesis by (simp add: Let_def s(3))
qed

text \<open>
  C33. A restart forgets the vote. The term and the vote are kept in memory only: a node that
  answered a candidate's request, and starts again from its journal, answers the request of
  another candidate for the same term (with a log as new as its own) as well.
\<close>

theorem restart_votes_twice:
  assumes "self_addr s = Some me" and "reachable s a" and "may_vote t i lt s"
    and "t > 0" and "raft_log s \<noteq> []" and "b \<in> set others" and "up_to_date j lu s"
  shows "let s1 = on_request_vote R now rnd a t i lt s;
      s2 = set_connected b True (raft_init R now' deadline (Some me) others (raft_log s1) dfile (app s1)) in
    (a, Response_vote t) \<in> set (outbox s1) \<and>
    outbox (on_request_vote R now'' rnd' b t j lu s2) = [(b, Response_vote t)]"
proof -
  let ?s1 = "on_request_vote R now rnd a t i lt s"
  let ?s2 = "set_connected b True (raft_init R now' deadline (Some me) others (raft_log ?s1) dfile (app ?s1))"
  note e = request_vote_eq[OF assms(1,2), of R now rnd t i lt]
  have l1: "raft_log ?s1 = raft_log s" by (simp add: e)
  have s2: "self_addr ?s2 = Some me" "current_term ?s2 = 0" "raft_log ?s2 = raft_log s" "outbox ?s2 = []"
    using assms(5) by (simp_all add: raft_init_def set_connected_def Let_def l1)
  have "nodes ?s2 = map (\<lambda>x. \<lparr>peer_addr = x, connected = x = b\<rparr>) others"
    by (auto simp: raft_init_def set_connected_def Let_def)
  moreover have "\<exists>p. find (\<lambda>p. peer_addr p = b) (map (\<lambda>x. \<lparr>peer_addr = x, connected = x = b\<rparr>) others @ xs) = Some p \<and> connected p" for xs
    using assms(6) by (induction others) auto
  ultimately have "reachable ?s2 b" by (simp add: reachable_def)
  moreover have "may_vote t j lu ?s2"
    using assms(4,7) by (simp add: may_vote_def up_to_date_def getCurrentLogTerm_def getCurrentLogIndex_def s2)
  ultimately have "outbox (on_request_vote R now'' rnd' b t j lu ?s2) = [(b, Response_vote t)]"
    using request_vote_eq[OF s2(1)] s2(4) by simp
  moreover have "(a, Response_vote t) \<in> set (outbox ?s1)" using assms(3) by (simp add: e)
  ultimately show ?thesis by (simp add: Let_def)
qed

theorem restart_votes_twice_witness:
  "\<exists>(s1::raft) s2. (''a'', Response_vote 1) \<in> set (outbox s1) \<and>
     s2 = set_connected ''c'' True (raft_init ex_renv 3 4 (Some ''b'') [''a'', ''c''] (raft_log s1) None (app s1)) \<and>
     outbox (on_request_vote ex_renv 5 0 ''c'' 1 1 0 s2) = [(''c'', Response_vote 1)]"
proof -
  let ?s = "procs ex_stood ''b''"
  have s: "self_addr ?s = Some ''b''" "current_term ?s = 0" "raft_log ?s \<noteq> []"
    "getCurrentLogTerm ?s = 0" "getCurrentLogIndex ?s = 1"
    "find (\<lambda>p. peer_addr p = ''a'') (nodes ?s @ readonly_nodes ?s) = Some \<lparr>peer_addr = ''a'', connected = True\<rparr>"
    by code_simp+
  have "reachable ?s ''a''" "may_vote 1 1 0 ?s" "up_to_date 1 0 ?s"
    unfolding reachable_def may_vote_def up_to_date_def s by simp_all
  note restart_votes_twice[OF s(1) this(1,2) _ s(3) _ this(3), of "''c''" "[''a'', ''c'']" ex_renv 2 0 3 4 None 5 0]
  then have "let s1 = on_request_vote ex_renv 2 0 ''a'' 1 1 0 ?s;
      s2 = set_connected ''c'' True (raft_init ex_renv 3 4 (Some ''b'') [''a'', ''c''] (raft_log s1) None (app s1)) in
    (''a'', Response_vote 1) \<in> set (outbox s1) \<and>
    outbox (on_request_vote ex_renv 5 0 ''c'' 1 1 0 s2) = [(''c'', Response_vote 1)]" by simp
  then show ?thesis unfolding Let_def by blast
qed

end
