(* ===== verification/RaftHostSpec.thy ===== *)
theory RaftHostSpec
  imports RaftHost RaftSpec
begin

text \<open>
  Properties of a node's start and of what it does to its connections over time: retried starts, a
  listening socket that is gone for good, read-only nodes that are never forgotten.
\<close>

section \<open>The witness of the start\<close>

definition ex_ticks :: "tick list" where
  "ex_ticks = [(10, 0, 0, 0, Bind_fails), (12, 0, 0, 0, No_socket_left)]"

definition ex_listener :: "nat select_poller server" where
  "ex_listener = \<lparr>server_poller = SelectPoller, server_socket = No_socket, server_fileno = None,
     server_state = UNBINDED, accepted = []\<rparr>"

theorem start_up_witness:
  "\<exists>h. ticks ex_renv select_subscribe 1 (\<lambda>_. True) ex_ticks (new_host (ex_node ''b'' [''a'']) (Some ex_listener)) = (Inr (), h) \<and>
     waitBinded h = None"
proof -
  have "\<exists>h. ticks ex_renv select_subscribe 1 (\<lambda>_. True) ex_ticks (new_host (ex_node ''b'' [''a'']) (Some ex_listener)) = (Inr (), h) \<and>
      waitBinded h = None \<and>
      (lastInitTryTime h + bindRetryTime (conf ex_renv) \<le> 14 \<longrightarrow>
       (let h' = snd (host_tick ex_renv select_subscribe 1 (\<lambda>_. True) 14 0 0 0 (Binds 3) h)
        in waitBinded h' = Some (Inr ()) \<and> host_raft h' = snd (onTick ex_renv 14 0 0 0 (ex_node ''b'' [''a'']))))"
    by (rule start_up[OF ex_node_def]) (simp_all add: ex_ticks_def ex_renv_def belcoin_conf_def default_conf_def)
  then show ?thesis by blast
qed

section \<open>A server that is closed stays closed\<close>

lemma ticks_initialized:
  "initialized h \<Longrightarrow> initialized (snd (ticks R sub me port_ok xs h)) \<and> listener (snd (ticks R sub me port_ok xs h)) = listener h"
proof (induction xs arbitrary: h)
  case (Cons x xs)
  obtain now rnd rounds cmds res where x: "x = (now, rnd, rounds, cmds, res)" by (cases x)
  obtain r h1 where t: "host_tick R sub me port_ok now rnd rounds cmds res h = (r, h1)"
    by (cases "host_tick R sub me port_ok now rnd rounds cmds res h")
  have "initialized h1" "listener h1 = listener h"
    using host_tick_keeps(1,2)[OF Cons.prems, where R = R and sub = sub and me = me and port_ok = port_ok and now = now
        and rnd = rnd and rounds = rounds and cmds = cmds and res = res] t by simp_all
  then show ?case using Cons.IH[of h1] t by (cases r) (auto simp: ticks_def x bindE_def)
qed (simp add: ticks_def)

text \<open>
  One \<open>accept\<close> that fails for another reason than an empty queue, as when the process has no
  descriptors left, closes the listening socket; no later tick opens it again, so the node never
  accepts another connection, although it still counts as initialised.
\<close>

theorem deaf_server:
  fixes sub :: "nat \<Rightarrow> 'c \<Rightarrow> poll_flag set \<Rightarrow> 'p \<Rightarrow> 'p"
  assumes "initialized h" and "listener h = Some l" and "server_socket l = Open_socket" and "READ \<in> ev"
  shows "\<exists>l'. server_event sub unsub c ev Accept_fails l = (Inr (), l') \<and>
    (let h' = snd (ticks R sub me port_ok xs (h\<lparr>listener := Some l'\<rparr>))
     in initialized h' \<and> listener h' = Some l' \<and> server_state l' = UNBINDED \<and> server_fileno l' = None \<and>
        server_socket l' = Closed_socket)"
proof -
  let ?l = "server_unbind unsub l"
  have e: "server_event sub unsub c ev Accept_fails l = (Inr (), ?l)"
    using assms(3,4) by (simp add: server_event_def server_accept_def bindE_def)
  have "initialized (h\<lparr>listener := Some ?l\<rparr>)" using assms(1) by simp
  from ticks_initialized[OF this, of R sub me port_ok xs] assms(3) e show ?thesis
    by (simp add: Let_def server_unbind_def)
qed

definition ex_bound :: "nat select_poller server" where
  "ex_bound = snd (server_bind select_subscribe 1 (Binds 3) ex_listener)"

definition ex_host :: "nat select_poller host" where
  "ex_host = (new_host (ex_node ''b'' [''a'']) (Some ex_bound))\<lparr>initialized := True\<rparr>"

theorem deaf_server_witness:
  "\<exists>l'. server_event select_subscribe select_unsubscribe 2 {READ} Accept_fails ex_bound = (Inr (), l') \<and>
    (let h' = snd (ticks ex_renv select_subscribe 1 (\<lambda>_. True) ex_ticks (ex_host\<lparr>listener := Some l'\<rparr>))
     in initialized h' \<and> listener h' = Some l' \<and> server_state l' = UNBINDED \<and> server_fileno l' = None \<and>
        server_socket l' = Closed_socket)"
  by (rule deaf_server) (simp_all add: ex_host_def new_host_def ex_bound_def server_bind_def)

section \<open>Read-only nodes\<close>

lemma readonly_election: "readonly_nodes (tick_election R now rnd rounds s) = readonly_nodes s"
proof -
  have b: "readonly_nodes (onBecomeLeader R now rounds t) = readonly_nodes t" for t
    using quiet_becomeLeader[of t R now rounds] by (simp add: quiet_def)
  show ?thesis
    by (simp add: tick_election_def Let_def b fold_node_send onLeaderChanged_def split: option.split)
qed

lemma readonly_tick: "readonly_nodes (snd (onTick R now rnd rounds cmds s)) = readonly_nodes s"
  using quiet_tick_rest[of R now rnd rounds s cmds] quiet_tick_load[of s R] by (simp add: quiet_def readonly_election)

lemma readonly_message: "readonly_nodes (snd (onMessageReceived R now rnd rounds a m s)) = readonly_nodes s"
proof (cases "vote_message m")
  case False
  then show ?thesis using message_quiet[of m s R now rnd rounds a] by (auto simp: quiet_def follows_def)
next
  case True
  have s: "readonly_nodes (send_to b (Response_vote t) u) = readonly_nodes u" for b t u
    by (simp add: send_to_def node_send_def split: option.split)
  have b: "readonly_nodes (onBecomeLeader R now rounds t) = readonly_nodes t" for t
    using quiet_becomeLeader[of t R now rounds] by (simp add: quiet_def)
  from True show ?thesis
    by (cases m) (auto simp: on_request_vote_def on_response_vote_def Let_def s b)
qed

text \<open>What happens to an initialised node; the list are the names of the read-only nodes that connected.\<close>

inductive host_run ::
  "raft_env \<Rightarrow> (nat \<Rightarrow> 'c \<Rightarrow> poll_flag set \<Rightarrow> 'p \<Rightarrow> 'p) \<Rightarrow> 'c \<Rightarrow> (addr \<Rightarrow> bool) \<Rightarrow> 'p host \<Rightarrow> addr list \<Rightarrow> 'p host \<Rightarrow> bool"
  for R sub me port_ok h where
  none: "host_run R sub me port_ok h [] h"
| tick: "host_run R sub me port_ok h as h1 \<Longrightarrow>
    host_run R sub me port_ok h as (snd (host_tick R sub me port_ok now rnd rounds cmds res h1))"
| message: "host_run R sub me port_ok h as h1 \<Longrightarrow>
    host_run R sub me port_ok h as (snd (on_core (onMessageReceived R now rnd rounds a m) h1))"
| status: "host_run R sub me port_ok h as h1 \<Longrightarrow>
    host_run R sub me port_ok h as (h1\<lparr>host_raft := set_connected a b (host_raft h1)\<rparr>)"
| partner: "host_run R sub me port_ok h as h1 \<Longrightarrow> name \<noteq> ''readonly'' \<Longrightarrow>
    host_run R sub me port_ok h as (h1\<lparr>host_raft := onNewPartner name a (host_raft h1)\<rparr>)"
| readonly: "host_run R sub me port_ok h as h1 \<Longrightarrow> ''readonly'' \<notin> peer_addr ` set (nodes (host_raft h1)) \<Longrightarrow>
    host_run R sub me port_ok h (as @ [a]) (h1\<lparr>host_raft := onNewPartner ''readonly'' a (host_raft h1)\<rparr>)"

lemma readonly_set_connected: "map peer_addr (readonly_nodes (set_connected a b s)) = map peer_addr (readonly_nodes s)"
  by (simp add: set_connected_def Let_def comp_def if_distrib)

text \<open>
  A read-only node that has connected is never forgotten: after any run of an initialised
  node, its list of read-only nodes holds every one that ever connected, whether it still is or not,
  so a client that connects again and again makes the list grow without bound.
\<close>

theorem readonly_nodes_accumulate:
  assumes "host_run R sub me port_ok h as h'" and "initialized h"
  shows "initialized h' \<and> map peer_addr (readonly_nodes (host_raft h')) = map peer_addr (readonly_nodes (host_raft h)) @ as"
  using assms
proof (induction rule: host_run.induct)
  case (tick as h1 now rnd rounds cmds res)
  then show ?case
    using host_tick_keeps[of h1 R sub me port_ok now rnd rounds cmds res] by (simp add: readonly_tick)
next
  case (message as h1 now rnd rounds a m)
  then show ?case
    by (simp add: on_core_def readonly_message split: prod.split) (metis readonly_message snd_conv)
next
  case (status as h1 a b)
  then show ?case by (simp add: readonly_set_connected)
next
  case (partner as h1 name a)
  then show ?case by (simp add: onNewPartner_def readonly_set_connected)
next
  case (readonly as h1 a)
  then show ?case by (simp add: onNewPartner_def)
qed simp

text \<open>Two connections of the same client, the first lost before the second.\<close>

theorem readonly_nodes_accumulate_witness:
  "\<exists>h'. host_run ex_renv select_subscribe 1 (\<lambda>_. True) ex_host [''0'', ''1''] h' \<and>
     map peer_addr (readonly_nodes (host_raft h')) = [''0'', ''1'']"
proof -
  let ?run = "host_run ex_renv select_subscribe 1 (\<lambda>_. True) ex_host"
  define h1 where "h1 = ex_host\<lparr>host_raft := onNewPartner ''readonly'' ''0'' (host_raft ex_host)\<rparr>"
  define h2 where "h2 = h1\<lparr>host_raft := set_connected ''0'' False (host_raft h1)\<rparr>"
  define h3 where "h3 = h2\<lparr>host_raft := onNewPartner ''readonly'' ''1'' (host_raft h2)\<rparr>"
  have n: "nodes (host_raft ex_host) = []" "initialized ex_host" "readonly_nodes (host_raft ex_host) = []"
    by (simp_all add: ex_host_def new_host_def ex_node_def raft_init_def Let_def)
  have 1: "?run ([] @ [''0'']) h1" unfolding h1_def by (rule host_run.readonly[OF host_run.none]) (simp add: n)
  have 2: "?run ([] @ [''0'']) h2" unfolding h2_def by (rule host_run.status[OF 1])
  have 3: "?run (([] @ [''0'']) @ [''1'']) h3" unfolding h3_def
    by (rule host_run.readonly[OF 2]) (simp add: h2_def h1_def set_connected_def onNewPartner_def Let_def n)
  from readonly_nodes_accumulate[OF 3 n(2)] 3 n(3) show ?thesis by auto
qed

end
