(* ===== verification/TcpSpec.thy ===== *)
theory TcpSpec
  imports TcpConn
begin

text \<open>
  What a connection promises: the bytes that leave are the frames of the messages sent, the
  messages that arrive are the ones whose frames have arrived, in order, however the socket cuts
  the stream. And what it does not: bytes left in the buffer, or read together with the end of
  the stream.
\<close>

section \<open>Frames\<close>

text \<open>What the code relies on of zlib, the cipher, and of pickle for the values \<open>W\<close>.\<close>

definition msg_codec_ok :: "'m msg_codec \<Rightarrow> 'm packet set \<Rightarrow> bool" where
  "msg_codec_ok c W \<longleftrightarrow> (\<forall>m\<in>W. loads c (dumps c m) = Inr m) \<and> (\<forall>b. decompress c (compress c b) = Inr b) \<and>
     (\<forall>b. decrypt c (encrypt c b) = Inr b)"

definition frame :: "'m msg_codec \<Rightarrow> bool \<Rightarrow> 'm packet \<Rightarrow> 'm packet \<Rightarrow> bytes" where
  "frame c enc key m = (let d = payload c enc key m in le_bytes 4 (length d) @ d)"

text \<open>A message that can be sent: not None, which the receiver takes for no message, and below 2 GB.\<close>

definition sendable :: "'m msg_codec \<Rightarrow> 'm packet set \<Rightarrow> bool \<Rightarrow> 'm packet \<Rightarrow> 'm packet \<Rightarrow> bool" where
  "sendable c W enc key m \<longleftrightarrow> m \<noteq> Nothing \<and> tagged key m \<in> W \<and> length (payload c enc key m) < 2 ^ 31"

abbreviation frames :: "'m msg_codec \<Rightarrow> bool \<Rightarrow> 'm packet \<Rightarrow> 'm packet list \<Rightarrow> bytes" where
  "frames c enc key ms \<equiv> concat (map (frame c enc key) ms)"

lemma frame_length: "length (frame c enc key m) = 4 + length (payload c enc key m)"
  by (simp add: frame_def Let_def)

lemma frame_ne: "frame c enc key m \<noteq> []"
  using frame_length[of c enc key m] by auto

lemma pack_length: "n < 2 ^ 31 \<Longrightarrow> pack_sint 4 (int n) = Inr (le_bytes 4 n)"
  by (simp add: pack_sint_def nat_mod_distrib)

lemma unpack_length: "n < 2 ^ 31 \<Longrightarrow> unpack_sint 4 (le_bytes 4 n) = Inr (int n)"
  using unpack_pack_sint[of "int n" 4] pack_length[of n] by simp

lemma decode_payload:
  "msg_codec_ok c W \<Longrightarrow> tagged key m \<in> W \<Longrightarrow> decode c enc key (payload c enc key m) = Inr m"
  by (simp add: decode_def payload_def msg_codec_ok_def tagged_def Let_def)

section \<open>The sender\<close>

text \<open>The bytes taken by the socket and those still buffered are a stream that only grows.\<close>

definition same_stream :: "('a, 'm) tcp \<Rightarrow> ('a, 'm) tcp \<Rightarrow> bool" where
  "same_stream t t' \<longleftrightarrow> cstate t' = DISCONNECTED \<or>
     (on_wire t' @ writeBuffer t' = on_wire t @ writeBuffer t \<and> cstate t' = cstate t \<and>
      encryptor t' = encryptor t \<and> sendRandKey t' = sendRandKey t \<and> has_socket t' = has_socket t)"

lemma processSend_stream: "same_stream t0 t \<Longrightarrow> processSend onDisc t = (r, t') \<Longrightarrow> same_stream t0 t'"
  by (auto simp: processSend_def same_stream_def disconnect_def Let_def split: if_splits list.splits send_result.splits)

lemma trySendBuffer_stream:
  assumes "trySendBuffer onDisc t = (r, t')" and "cstate t' \<noteq> DISCONNECTED"
  shows "on_wire t' @ writeBuffer t' = on_wire t @ writeBuffer t \<and> cstate t' = cstate t \<and>
   encryptor t' = encryptor t \<and> sendRandKey t' = sendRandKey t \<and> has_socket t' = has_socket t"
proof -
  have "same_stream t t'"
    by (rule trySendBuffer_inv[where P = "same_stream t", OF _ _ assms(1)])
      (erule (1) processSend_stream, simp add: same_stream_def)
  with assms(2) show ?thesis by (simp add: same_stream_def)
qed

text \<open>A connection that was given up does not come back by sending.\<close>

lemma trySendBuffer_disconnected:
  assumes "cstate t = DISCONNECTED"
  shows "cstate (snd (trySendBuffer onDisc t)) = DISCONNECTED"
proof (rule ccontr)
  assume "\<not> ?thesis"
  then show False using trySendBuffer_stream[of onDisc t] assms by (metis prod.collapse)
qed

lemma tcp_send_stream:
  assumes "tcp_send c onDisc m t = (Inr (), t')" and "cstate t' \<noteq> DISCONNECTED"
  shows "on_wire t' @ writeBuffer t' = on_wire t @ writeBuffer t @ frame c (encryptor t) (sendRandKey t) m \<and>
    cstate t' = cstate t \<and> encryptor t' = encryptor t \<and> sendRandKey t' = sendRandKey t \<and>
    length (payload c (encryptor t) (sendRandKey t) m) < 2 ^ 31"
proof -
  let ?d = "payload c (encryptor t) (sendRandKey t) m"
  have lt: "length ?d < 2 ^ 31" using assms(1) by (auto simp: tcp_send_def pack_sint_def Let_def split: if_splits)
  from assms(1) have "trySendBuffer onDisc (t\<lparr>writeBuffer := writeBuffer t @ le_bytes 4 (length ?d) @ ?d\<rparr>) = (Inr (), t')"
    using pack_length[OF lt] by (simp add: tcp_send_def Let_def)
  from trySendBuffer_stream[OF this assms(2)] lt show ?thesis by (simp add: frame_def Let_def)
qed

text \<open>A run of the sender: messages, and write events in between.\<close>

fun sender_op :: "'m msg_codec \<Rightarrow> ('a \<Rightarrow> 'a) \<Rightarrow> 'm packet option \<Rightarrow> (('a, 'm) tcp, unit) eff" where
  "sender_op c onDisc (Some m) = tcp_send c onDisc m"
| "sender_op c onDisc None = trySendBuffer onDisc"

lemma tcp_send_disconnected:
  "cstate t = DISCONNECTED \<Longrightarrow> cstate (snd (tcp_send c onDisc m t)) = DISCONNECTED"
  by (simp add: tcp_send_def Let_def trySendBuffer_disconnected split: sum.split)

lemma sender_disconnected:
  "cstate t = DISCONNECTED \<Longrightarrow> sender_op c onDisc p t = (r, t') \<Longrightarrow> cstate t' = DISCONNECTED"
  using trySendBuffer_disconnected[of t onDisc] tcp_send_disconnected[of t c onDisc]
  by (cases p) (simp_all, metis snd_conv)

lemma sender_run:
  "forE (sender_op c onDisc) ps t = (Inr (), t') \<Longrightarrow> cstate t' \<noteq> DISCONNECTED \<Longrightarrow>
   on_wire t' @ writeBuffer t' =
     on_wire t @ writeBuffer t @ frames c (encryptor t) (sendRandKey t) (List.map_filter id ps) \<and>
   (\<forall>m \<in> set (List.map_filter id ps). length (payload c (encryptor t) (sendRandKey t) m) < 2 ^ 31)"
proof (induction ps arbitrary: t)
  case Nil
  then show ?case by (simp add: map_filter_simps)
next
  case (Cons p ps)
  from Cons.prems(1) obtain t1 where t1: "sender_op c onDisc p t = (Inr (), t1)" "forE (sender_op c onDisc) ps t1 = (Inr (), t')"
    by (auto elim: bindE_InrD)
  have alive: "cstate t1 \<noteq> DISCONNECTED"
  proof
    assume "cstate t1 = DISCONNECTED"
    then have "cstate t' = DISCONNECTED"
      using forE_inv[where I = "\<lambda>t. cstate t = DISCONNECTED" and f = "sender_op c onDisc" and xs = ps and s = t1] t1(2)
        sender_disconnected by blast
    with Cons.prems(2) show False by simp
  qed
  note IH = Cons.IH[OF t1(2) Cons.prems(2)]
  show ?case
  proof (cases p)
    case None
    with t1(1) have "on_wire t1 @ writeBuffer t1 = on_wire t @ writeBuffer t \<and> encryptor t1 = encryptor t \<and> sendRandKey t1 = sendRandKey t"
      using trySendBuffer_stream[of onDisc t "Inr ()" t1] alive by simp
    with IH None show ?thesis by (simp add: map_filter_simps flip: append_assoc)
  next
    case (Some m)
    with t1(1) have "on_wire t1 @ writeBuffer t1 = on_wire t @ writeBuffer t @ frame c (encryptor t) (sendRandKey t) m \<and>
      encryptor t1 = encryptor t \<and> sendRandKey t1 = sendRandKey t \<and> length (payload c (encryptor t) (sendRandKey t) m) < 2 ^ 31"
      using tcp_send_stream[of c onDisc m t t1] alive by simp
    with IH Some show ?thesis by (simp add: map_filter_simps flip: append_assoc)
  qed
qed


section \<open>The receiver\<close>

lemma prefix_split: "xs @ q = ys @ zs \<Longrightarrow> length ys \<le> length xs \<Longrightarrow> \<exists>us. xs = ys @ us \<and> us @ q = zs"
  by (auto simp: append_eq_append_conv2)

lemma parse_frame:
  assumes "msg_codec_ok c W" and "sendable c W (encryptor t) (recvRandKey t) m"
    and "readBuffer t = frame c (encryptor t) (recvRandKey t) m @ rest"
  shows "processParseMessage c onDisc t = (m, t\<lparr>readBuffer := rest\<rparr>)"
proof -
  let ?d = "payload c (encryptor t) (recvRandKey t) m"
  have lt: "length ?d < 2 ^ 31" and w: "tagged (recvRandKey t) m \<in> W" using assms(2) by (simp_all add: sendable_def)
  have rb: "readBuffer t = le_bytes 4 (length ?d) @ ?d @ rest" using assms(3) by (simp add: frame_def Let_def)
  have sl: "py_slice (readBuffer t) 4 (4 + int (length ?d)) = ?d" unfolding rb by (rule py_slice_at) simp_all
  have sb: "slice_bound (readBuffer t) (4 + int (length ?d)) = 4 + length ?d"
    using slice_bound_pos[of "readBuffer t" "4 + length ?d"] rb by simp
  show ?thesis
    using unpack_length[OF lt] decode_payload[OF assms(1) w] sl sb
    by (simp add: processParseMessage_def Let_def rb)
qed

lemma parse_incomplete:
  assumes "sendable c W (encryptor t) (recvRandKey t) m"
    and "readBuffer t @ q = frame c (encryptor t) (recvRandKey t) m @ rest"
    and "length (readBuffer t) < length (frame c (encryptor t) (recvRandKey t) m)"
  shows "processParseMessage c onDisc t = (Nothing, t)"
proof (cases "length (readBuffer t) < 4")
  case False
  let ?d = "payload c (encryptor t) (recvRandKey t) m"
  have lt: "length ?d < 2 ^ 31" using assms(1) by (simp add: sendable_def)
  have "take 4 (readBuffer t) = take 4 (readBuffer t @ q)" using False by simp
  then have "take 4 (readBuffer t) = le_bytes 4 (length ?d)" unfolding assms(2) by (simp add: frame_def Let_def)
  moreover have "int (length (readBuffer t)) - 4 < int (length ?d)" using assms(3) by (simp add: frame_length)
  ultimately show ?thesis using False unpack_length[OF lt] by (simp add: processParseMessage_def Let_def)
qed (simp add: processParseMessage_def Let_def)

text \<open>An owner that takes the messages and leaves the connection alone.\<close>

definition taking :: "('m packet \<Rightarrow> 'a \<Rightarrow> 'a) \<Rightarrow> 'm packet \<Rightarrow> (('a, 'm) tcp, unit) eff" where
  "taking h m t = (Inr (), t\<lparr>owner := h m (owner t)\<rparr>)"

lemma taking_eff: "taking h m t = (Inr (), t\<lparr>owner := h m (owner t)\<rparr>)"
  by (simp add: taking_def)

text \<open>The loop takes exactly the whole frames of a prefix of the stream; a round per four bytes is enough.\<close>

lemma message_loop_frames:
  assumes "msg_codec_ok c W" and "\<forall>m\<in>set ms. sendable c W (encryptor t) (recvRandKey t) m"
    and "cstate t \<noteq> DISCONNECTED" and "readBuffer t @ q = frames c (encryptor t) (recvRandKey t) ms"
    and "length (readBuffer t) < n"
  shows "\<exists>i rest. i \<le> length ms \<and>
    message_loop n c onDisc (taking h) t = Some (Inr (), t\<lparr>readBuffer := rest, owner := fold h (take i ms) (owner t)\<rparr>) \<and>
    readBuffer t = frames c (encryptor t) (recvRandKey t) (take i ms) @ rest \<and>
    (i < length ms \<longrightarrow> length rest < length (frame c (encryptor t) (recvRandKey t) (ms ! i)))"
  using assms
proof (induction ms arbitrary: t n)
  case Nil
  then have "processParseMessage c onDisc t = (Nothing, t)" by (simp add: processParseMessage_def Let_def)
  with Nil.prems show ?case by (cases n) auto
next
  case (Cons m ms)
  let ?f = "frame c (encryptor t) (recvRandKey t)"
  obtain n' where n: "n = Suc n'" using Cons.prems(5) by (cases n) auto
  have sm: "sendable c W (encryptor t) (recvRandKey t) m" using Cons.prems(2) by simp
  show ?case
  proof (cases "length (readBuffer t) < length (?f m)")
    case True
    have "processParseMessage c onDisc t = (Nothing, t)"
      by (rule parse_incomplete[OF sm _ True]) (use Cons.prems(4) in simp)
    with True show ?thesis by (intro exI[of _ 0] exI[of _ "readBuffer t"]) (simp add: n)
  next
    case False
    have eq: "readBuffer t @ q = ?f m @ frames c (encryptor t) (recvRandKey t) ms" using Cons.prems(4) by simp
    obtain rb where rb: "readBuffer t = ?f m @ rb" "rb @ q = frames c (encryptor t) (recvRandKey t) ms"
      using prefix_split[OF eq] False by auto
    let ?t = "t\<lparr>readBuffer := rb, owner := h m (owner t)\<rparr>"
    have p: "processParseMessage c onDisc t = (m, t\<lparr>readBuffer := rb\<rparr>)"
      by (rule parse_frame[OF Cons.prems(1) sm rb(1)])
    have "length rb < n'" using Cons.prems(5) rb(1) n frame_length[of c "encryptor t" "recvRandKey t" m] by simp
    then have "\<exists>i rest. i \<le> length ms \<and>
        message_loop n' c onDisc (taking h) ?t = Some (Inr (), ?t\<lparr>readBuffer := rest, owner := fold h (take i ms) (owner ?t)\<rparr>) \<and>
        readBuffer ?t = frames c (encryptor ?t) (recvRandKey ?t) (take i ms) @ rest \<and>
        (i < length ms \<longrightarrow> length rest < length (frame c (encryptor ?t) (recvRandKey ?t) (ms ! i)))"
      using Cons.prems(1-3) rb(2) by (intro Cons.IH) simp_all
    then obtain i rest where i: "i \<le> length ms"
      "message_loop n' c onDisc (taking h) ?t = Some (Inr (), ?t\<lparr>readBuffer := rest, owner := fold h (take i ms) (owner ?t)\<rparr>)"
      "readBuffer ?t = frames c (encryptor ?t) (recvRandKey ?t) (take i ms) @ rest"
      "i < length ms \<longrightarrow> length rest < length (frame c (encryptor ?t) (recvRandKey ?t) (ms ! i))"
      by (elim exE conjE) (rule that)
    have "m \<noteq> Nothing" using sm by (simp add: sendable_def)
    moreover have "taking h m (t\<lparr>readBuffer := rb\<rparr>) = (Inr (), ?t)" by (simp add: taking_eff)
    ultimately show ?thesis using i p rb(1) Cons.prems(3)
      by (intro exI[of _ "Suc i"] exI[of _ rest]) (simp add: n)
  qed
qed

lemma read_loop_chunks:
  "has_socket t \<Longrightarrow> incoming t = map (\<lambda>b. Got b False) bs \<Longrightarrow> \<forall>b\<in>set bs. b \<noteq> [] \<Longrightarrow>
   read_loop onDisc t = (Inr (), t\<lparr>incoming := [], readBuffer := readBuffer t @ concat bs\<rparr>)"
proof (induction bs arbitrary: t)
  case (Cons b bs)
  then show ?case by (simp add: read_loop.simps[of _ t] processRead_def Let_def)
qed (simp add: read_loop.simps processRead_def)

text \<open>The read events of a run: the time of each, and the pieces the socket hands out.\<close>

fun receive ::
  "nat \<Rightarrow> 'm msg_codec \<Rightarrow> ('a \<Rightarrow> 'a) \<Rightarrow> ('m packet \<Rightarrow> (('a, 'm) tcp, unit) eff) \<Rightarrow> (rat \<times> bytes list) list \<Rightarrow> ('a, 'm) tcp \<Rightarrow>
   ((py_error + unit) \<times> ('a, 'm) tcp) option" where
  "receive n c onDisc onMsg [] t = Some (Inr (), t)"
| "receive n c onDisc onMsg ((now, bs) # es) t =
     (case read_event n c onDisc onMsg now (t\<lparr>incoming := map (\<lambda>b. Got b False) bs\<rparr>) of
        None \<Rightarrow> None
      | Some (Inl e, t1) \<Rightarrow> Some (Inl e, t1)
      | Some (Inr _, t1) \<Rightarrow> receive n c onDisc onMsg es t1)"

definition arrived :: "(rat \<times> bytes list) list \<Rightarrow> bytes" where
  "arrived es = concat (map (\<lambda>(now, bs). concat bs) es)"

lemma receive_frames:
  assumes "msg_codec_ok c W" and "\<forall>m\<in>set ms. sendable c W (encryptor t) (recvRandKey t) m"
    and "cstate t \<noteq> DISCONNECTED" and "has_socket t" and "\<forall>(now, bs)\<in>set es. [] \<notin> set bs"
    and "readBuffer t @ arrived es @ q = frames c (encryptor t) (recvRandKey t) ms"
    and "length (readBuffer t @ arrived es) < n"
    and "ms \<noteq> [] \<longrightarrow> length (readBuffer t) < length (frame c (encryptor t) (recvRandKey t) (hd ms))"
  shows "\<exists>i t'. i \<le> length ms \<and> receive n c onDisc (taking h) es t = Some (Inr (), t') \<and>
    owner t' = fold h (take i ms) (owner t) \<and>
    readBuffer t @ arrived es = frames c (encryptor t) (recvRandKey t) (take i ms) @ readBuffer t' \<and>
    (i < length ms \<longrightarrow> length (readBuffer t') < length (frame c (encryptor t) (recvRandKey t) (ms ! i)))"
  using assms
proof (induction es arbitrary: t ms)
  case Nil
  then show ?case by (intro exI[of _ 0] exI[of _ t]) (auto simp: arrived_def hd_conv_nth)
next
  case (Cons ev es)
  obtain now bs where ev: "ev = (now, bs)" by (cases ev)
  have ar: "arrived (ev # es) = concat bs @ arrived es" by (simp add: ev arrived_def)
  let ?f = "frames c (encryptor t) (recvRandKey t)"
  let ?t = "t\<lparr>incoming := [], readBuffer := readBuffer t @ concat bs, lastReadTime := now\<rparr>"
  have "\<forall>b\<in>set bs. b \<noteq> []" using Cons.prems(5) by (auto simp: ev)
  then have "tryReadBuffer onDisc now (t\<lparr>incoming := map (\<lambda>b. Got b False) bs\<rparr>) = (Inr (), ?t)"
    using read_loop_chunks[of "t\<lparr>incoming := map (\<lambda>b. Got b False) bs\<rparr>" bs onDisc] Cons.prems(4)
    by (simp add: tryReadBuffer_def bindE_def)
  then have step: "read_event n c onDisc (taking h) now (t\<lparr>incoming := map (\<lambda>b. Got b False) bs\<rparr>) =
      message_loop n c onDisc (taking h) ?t"
    using Cons.prems(3) by (simp add: read_event_def)
  have "readBuffer ?t @ arrived es @ q = ?f ms" "length (readBuffer ?t) < n" using Cons.prems(6,7) ar by simp_all
  note buf = this
  have "\<exists>i rest. i \<le> length ms \<and>
    message_loop n c onDisc (taking h) ?t = Some (Inr (), ?t\<lparr>readBuffer := rest, owner := fold h (take i ms) (owner ?t)\<rparr>) \<and>
    readBuffer ?t = frames c (encryptor ?t) (recvRandKey ?t) (take i ms) @ rest \<and>
    (i < length ms \<longrightarrow> length rest < length (frame c (encryptor ?t) (recvRandKey ?t) (ms ! i)))"
    by (rule message_loop_frames[where q = "arrived es @ q"]) (use Cons.prems(1-3) buf in simp_all)
  then obtain i rest where i: "i \<le> length ms"
    "message_loop n c onDisc (taking h) ?t = Some (Inr (), ?t\<lparr>readBuffer := rest, owner := fold h (take i ms) (owner ?t)\<rparr>)"
    "readBuffer ?t = frames c (encryptor ?t) (recvRandKey ?t) (take i ms) @ rest"
    "i < length ms \<longrightarrow> length rest < length (frame c (encryptor ?t) (recvRandKey ?t) (ms ! i))"
    by (elim exE conjE) (rule that)
  let ?t1 = "?t\<lparr>readBuffer := rest, owner := fold h (take i ms) (owner t)\<rparr>"
  have split: "?f ms = ?f (take i ms) @ ?f (drop i ms)"
    by (metis append_take_drop_id concat_append map_append)
  have "?f (take i ms) @ rest @ arrived es @ q = (readBuffer t @ concat bs) @ arrived es @ q" using i(3) by simp
  also have "\<dots> = ?f (take i ms) @ ?f (drop i ms)" using Cons.prems(6) unfolding ar split[symmetric] by simp
  finally have rest: "rest @ arrived es @ q = ?f (drop i ms)" by simp
  have len: "length (rest @ arrived es) < n" using Cons.prems(7) arg_cong[OF i(3), of length] ar by simp
  have "\<exists>j t'. j \<le> length (drop i ms) \<and> receive n c onDisc (taking h) es ?t1 = Some (Inr (), t') \<and>
      owner t' = fold h (take j (drop i ms)) (owner ?t1) \<and>
      readBuffer ?t1 @ arrived es = frames c (encryptor ?t1) (recvRandKey ?t1) (take j (drop i ms)) @ readBuffer t' \<and>
      (j < length (drop i ms) \<longrightarrow> length (readBuffer t') < length (frame c (encryptor ?t1) (recvRandKey ?t1) (drop i ms ! j)))"
    by (rule Cons.IH)
      (use Cons.prems rest len i in \<open>auto dest: in_set_dropD simp: hd_drop_conv_nth\<close>)
  then obtain j t' where j: "j \<le> length (drop i ms)" "receive n c onDisc (taking h) es ?t1 = Some (Inr (), t')"
      "owner t' = fold h (take j (drop i ms)) (owner ?t1)"
      "rest @ arrived es = ?f (take j (drop i ms)) @ readBuffer t'"
      "j < length (drop i ms) \<longrightarrow> length (readBuffer t') < length (frame c (encryptor t) (recvRandKey t) (drop i ms ! j))"
    by auto
  have tk: "take (i + j) ms = take i ms @ take j (drop i ms)" by (rule take_add)
  have b: "readBuffer t @ arrived (ev # es) = ?f (take (i + j) ms) @ readBuffer t'"
  proof -
    have "readBuffer t @ arrived (ev # es) = (readBuffer t @ concat bs) @ arrived es" by (simp add: ar)
    also have "\<dots> = ?f (take i ms) @ rest @ arrived es" using i(3) by simp
    finally show ?thesis unfolding j(4) by (simp add: tk)
  qed
  have r: "receive n c onDisc (taking h) (ev # es) t = Some (Inr (), t')"
    using step i(2) j(2) by (simp add: ev)
  have l: "i + j < length ms \<longrightarrow> length (readBuffer t') < length (frame c (encryptor t) (recvRandKey t) (ms ! (i + j)))"
    using j(5) i(1) by auto
  have "i + j \<le> length ms" "owner t' = fold h (take (i + j) ms) (owner t)" using i(1) j(1,3) by (auto simp: tk)
  with b r l show ?case by blast
qed


section \<open>From end to end\<close>

text \<open>
  C13. A connection is a reliable stream of messages. Whatever parts of its buffer the socket of
  the sender takes, and however the socket of the receiver cuts the bytes into pieces and read
  events: as long as neither side gives the connection up, the receiver's owner gets the first
  messages sent, in order and once each, as many as have arrived completely; and all of them when
  every byte has arrived. The sides agree on the cipher and the session key, no message is None.
\<close>

theorem tcp_stream:
  assumes "msg_codec_ok c W" and "writeBuffer s = []" and "on_wire s = []" and "\<forall>m. Some m \<in> set ps \<longrightarrow> m \<noteq> Nothing \<and> tagged (sendRandKey s) m \<in> W"
    and sent: "forE (sender_op c onDisc) ps s = (Inr (), s')" "cstate s' \<noteq> DISCONNECTED"
    and "encryptor t = encryptor s" and "recvRandKey t = sendRandKey s"
    and "cstate t \<noteq> DISCONNECTED" and "has_socket t" and "readBuffer t = []"
    and "\<forall>(now, bs)\<in>set es. [] \<notin> set bs" and "arrived es @ q = on_wire s'" and "length (on_wire s') < n"
  shows "\<exists>i t'. i \<le> length (List.map_filter id ps) \<and> receive n c onDisc' (taking h) es t = Some (Inr (), t') \<and>
    owner t' = fold h (take i (List.map_filter id ps)) (owner t) \<and>
    (q = [] \<and> writeBuffer s' = [] \<longrightarrow> i = length (List.map_filter id ps))"
proof -
  let ?ms = "List.map_filter id ps"
  let ?f = "frames c (encryptor t) (recvRandKey t)"
  have st: "on_wire s' @ writeBuffer s' = ?f ?ms" and short: "\<forall>m\<in>set ?ms. length (payload c (encryptor t) (recvRandKey t) m) < 2 ^ 31"
    using sender_run[OF sent] assms(2,3,7,8) by simp_all
  have "m \<noteq> Nothing \<and> tagged (recvRandKey t) m \<in> W" if "m \<in> set ?ms" for m
    using that assms(4,8) by (auto simp: List.map_filter_def)
  then have ok: "\<forall>m\<in>set ?ms. sendable c W (encryptor t) (recvRandKey t) m" using short by (simp add: sendable_def)
  have str: "readBuffer t @ arrived es @ q @ writeBuffer s' = ?f ?ms"
    using st unfolding assms(11) assms(13)[symmetric] by simp
  have len: "length (readBuffer t @ arrived es) < n" using assms(14) unfolding assms(11) assms(13)[symmetric] by simp
  have hd: "?ms \<noteq> [] \<longrightarrow> length (readBuffer t) < length (frame c (encryptor t) (recvRandKey t) (hd ?ms))"
    using assms(11) by (simp add: frame_length)
  obtain i t' where i: "i \<le> length ?ms" "receive n c onDisc' (taking h) es t = Some (Inr (), t')"
    "owner t' = fold h (take i ?ms) (owner t)" "readBuffer t @ arrived es = ?f (take i ?ms) @ readBuffer t'"
    "i < length ?ms \<longrightarrow> length (readBuffer t') < length (frame c (encryptor t) (recvRandKey t) (?ms ! i))"
    using receive_frames[OF assms(1) ok assms(9,10,12) str len hd] by blast
  have "i = length ?ms" if "q = [] \<and> writeBuffer s' = []"
  proof (rule ccontr)
    assume "i \<noteq> length ?ms"
    then have lt: "i < length ?ms" using i(1) by simp
    have "?f ?ms = ?f (take i ?ms) @ readBuffer t'" using str that i(4) by simp
    moreover have "?f ?ms = ?f (take i ?ms) @ frame c (encryptor t) (recvRandKey t) (?ms ! i) @ ?f (drop (Suc i) ?ms)"
      by (subst (1) id_take_nth_drop[OF lt]) (simp only: map_append concat_append list.map concat.simps append_assoc)
    ultimately have "readBuffer t' = frame c (encryptor t) (recvRandKey t) (?ms ! i) @ ?f (drop (Suc i) ?ms)" by simp
    from arg_cong[OF this, of length] i(5) lt show False by simp
  qed
  with i show ?thesis by blast
qed

text \<open>
  A message of 9 bytes taken in parts of 7 and 2 bytes, then another; they arrive in a piece of
  3 bytes and, later, two more pieces.
\<close>

definition plain_codec :: "unit msg_codec" where
  "plain_codec = \<lparr>dumps = (\<lambda>m. case m of Bytes b \<Rightarrow> b | _ \<Rightarrow> []), loads = (\<lambda>b. Inr (Bytes b)),
     compress = (\<lambda>b. b), decompress = Inr, encrypt = (\<lambda>b. b), decrypt = Inr\<rparr>"

lemma plain_codec_ok: "msg_codec_ok plain_codec (range Bytes)"
  by (auto simp: msg_codec_ok_def plain_codec_def)

theorem tcp_stream_witness:
  "\<exists>i t' s'. forE (sender_op plain_codec id) [Some (Bytes [1, 2, 3, 4, 5]), None, Some (Bytes [6])]
       ((TcpConnection () 0 10 (Some 3))\<lparr>answers := [Took 7, Send_blocks, Took 2, Took 100]\<rparr>) = (Inr (), s') \<and>
     receive 20 plain_codec id (taking (\<lambda>m ms. ms @ [m])) [(1, [[5, 0, 0]]), (2, [[0, 1, 2, 3], [4, 5, 1, 0, 0, 0, 6]])]
       (TcpConnection [] 0 10 (Some 4)) = Some (Inr (), t') \<and>
     owner t' = fold (\<lambda>m ms. ms @ [m]) (take i [Bytes [1, 2, 3, 4, 5], Bytes [6]]) [] \<and> i = 2"
proof -
  let ?s = "(TcpConnection () 0 10 (Some 3))\<lparr>answers := [Took 7, Send_blocks, Took 2, Took 100]\<rparr> :: (unit, unit) tcp"
  let ?t = "TcpConnection [] 0 10 (Some 4) :: (unit packet list, unit) tcp"
  let ?ps = "[Some (Bytes [1, 2, 3, 4, 5]), None, Some (Bytes [6])]"
  let ?es = "[(1, [[5, 0, 0]]), (2, [[0, 1, 2, 3], [4, 5, 1, 0, 0, 0, 6]])] :: (rat \<times> bytes list) list"
  let ?r = "forE (sender_op plain_codec id) ?ps ?s"
  have r: "fst ?r = Inr ()" "cstate (snd ?r) = CONNECTED" "on_wire (snd ?r) = [5, 0, 0, 0, 1, 2, 3, 4, 5, 1, 0, 0, 0, 6]"
    "writeBuffer (snd ?r) = []"
    by code_simp+
  then obtain s' where sent: "forE (sender_op plain_codec id) ?ps ?s = (Inr (), s')" and s': "cstate s' = CONNECTED"
      "on_wire s' = [5, 0, 0, 0, 1, 2, 3, 4, 5, 1, 0, 0, 0, 6]" "writeBuffer s' = []"
    by (metis prod.collapse)
  have ms: "List.map_filter id ?ps = [Bytes [1, 2, 3, 4, 5], Bytes [6]]" by (simp add: map_filter_simps)
  have arr: "arrived ?es @ [] = on_wire s'" "length (on_wire s') < 20" by (simp_all add: s'(2) arrived_def)
  note * = tcp_stream[OF plain_codec_ok _ _ _ sent, where t = ?t and es = ?es and q = "[]" and n = 20
      and h = "\<lambda>m ms. ms @ [m]" and onDisc' = id]
  then obtain i t' where "receive 20 plain_codec id (taking (\<lambda>m ms. ms @ [m])) ?es ?t = Some (Inr (), t')"
      "owner t' = fold (\<lambda>m ms. ms @ [m]) (take i [Bytes [1, 2, 3, 4, 5], Bytes [6]]) []" "i = 2"
    using * arr s'(1,3) unfolding ms by (force simp: TcpConnection_def tagged_def)
  with sent show ?thesis by blast
qed

section \<open>What a connection does not promise\<close>

text \<open>
  Bytes that are read together with the end of the stream are lost. A peer that sends
  messages and closes, all before the receiver's next read event, has sent in vain: whatever the
  bytes are, the owner sees only the disconnection.
\<close>

theorem data_before_close_lost:
  assumes "has_socket t" and "\<forall>b\<in>set bs. b \<noteq> []" and "cstate t \<noteq> DISCONNECTED"
  shows "\<exists>t'. read_event n c onDisc onMsg now (t\<lparr>incoming := map (\<lambda>b. Got b False) bs @ [Got [] False]\<rparr>) = Some (Inr (), t') \<and>
    owner t' = onDisc (owner t) \<and> cstate t' = DISCONNECTED \<and> readBuffer t' = []"
proof -
  have "\<exists>t'. read_loop onDisc u = (Inr (), t') \<and> owner t' = onDisc (owner u) \<and> cstate t' = DISCONNECTED \<and> readBuffer t' = []"
    if "has_socket u" "cstate u \<noteq> DISCONNECTED" "incoming u = map (\<lambda>b. Got b False) bs @ [Got [] False]" for u
    using that assms(2)
  proof (induction bs arbitrary: u)
    case Nil
    then show ?case by (simp add: read_loop.simps[of _ u] processRead_def disconnect_def Let_def)
  next
    case (Cons b bs)
    let ?u = "u\<lparr>incoming := map (\<lambda>b. Got b False) bs @ [Got [] False], readBuffer := readBuffer u @ b\<rparr>"
    have "read_loop onDisc u = read_loop onDisc ?u"
      using Cons.prems by (simp add: read_loop.simps[of _ u] processRead_def Let_def)
    with Cons.IH[of ?u] Cons.prems show ?case by simp
  qed
  from this[of "t\<lparr>incoming := map (\<lambda>b. Got b False) bs @ [Got [] False]\<rparr>"] assms(1,3)
  show ?thesis by (auto simp: read_event_def tryReadBuffer_def bindE_def)
qed

theorem data_before_close_lost_witness:
  "\<exists>t'. read_event 9 plain_codec (\<lambda>ms. []) (taking (\<lambda>m ms. ms @ [m])) 1
      ((TcpConnection [Nothing] 0 10 (Some 4))\<lparr>incoming := map (\<lambda>b. Got b False) [frame plain_codec False Nothing (Bytes [6])] @ [Got [] False]\<rparr>)
      = Some (Inr (), t') \<and>
    owner t' = [] \<and> cstate t' = DISCONNECTED \<and> readBuffer t' = []"
  by (rule data_before_close_lost[where t = "TcpConnection [Nothing] 0 10 (Some 4)" and onDisc = "\<lambda>ms. []"])
     (simp_all add: TcpConnection_def frame_ne)

text \<open>Reading leaves the sending side alone, up to a disconnection.\<close>

definition sending_kept :: "('a, 'm) tcp \<Rightarrow> ('a, 'm) tcp \<Rightarrow> bool" where
  "sending_kept t t' \<longleftrightarrow> cstate t' = DISCONNECTED \<or>
     (writeBuffer t' = writeBuffer t \<and> on_wire t' = on_wire t \<and> polled t' = polled t)"

lemma read_event_sending:
  "sending_kept t0 t \<Longrightarrow> read_event n c onDisc (taking h) now t = Some (r, t') \<Longrightarrow> sending_kept t0 t'"
  by (rule read_event_inv[where P = "sending_kept t0"])
    (auto simp: processRead_def processParseMessage_def sending_kept_def disconnect_def taking_eff Let_def
      split: if_splits list.splits recv_result.splits sum.splits)

lemma receive_sending:
  "sending_kept t0 t \<Longrightarrow> receive n c onDisc (taking h) es t = Some (r, t') \<Longrightarrow> sending_kept t0 t'"
proof (induction es arbitrary: t)
  case (Cons ev es)
  obtain now bs where ev: "ev = (now, bs)" by (cases ev)
  let ?t = "t\<lparr>incoming := map (\<lambda>b. Got b False) bs\<rparr>"
  have q: "sending_kept t0 ?t" using Cons.prems(1) by (simp add: sending_kept_def)
  note step = read_event_sending[OF q]
  obtain r1 u where u: "read_event n c onDisc (taking h) now ?t = Some (r1, u)"
      "(r1, u) = (r, t') \<or> receive n c onDisc (taking h) es u = Some (r, t')"
    using Cons.prems(2) by (auto simp: ev split: option.splits sum.splits)
  with step[of n c onDisc h now r1 u] Cons.IH[of u] show ?case by auto
qed simp

text \<open>
  A message that the socket takes in part waits for the next message. Once a write event has
  found the buffer empty, the poller is asked for read events only, and sending does not ask for
  write events again: whatever is read later, the rest of the message is not offered to the
  socket, and the poller still waits for read events only.
\<close>

theorem partial_send_stalls:
  assumes "fileno t = Some fd" and "has_socket t" and "cstate t = CONNECTED" and "writeBuffer t = []"
    and "length (payload c (encryptor t) (sendRandKey t) m) < 2 ^ 31" and "0 < k"
    and "int k < 4 + int (length (payload c (encryptor t) (sendRandKey t) m))" and "answers t = [Took (int k), Send_blocks]"
  shows "\<exists>t1 t2. write_event onDisc fd t = (Inr (), t1) \<and> tcp_send c onDisc m t1 = (Inr (), t2) \<and>
    writeBuffer t2 = drop k (frame c (encryptor t) (sendRandKey t) m) \<and> writeBuffer t2 \<noteq> [] \<and> polled t2 fd = Some {READ, ERROR} \<and>
    (\<forall>es n h r t3. receive n c onDisc (taking h) es t2 = Some (r, t3) \<and> cstate t3 \<noteq> DISCONNECTED \<longrightarrow>
       writeBuffer t3 = writeBuffer t2 \<and> on_wire t3 = on_wire t2 \<and> polled t3 = polled t2)"
proof -
  let ?f = "frame c (encryptor t) (sendRandKey t) m"
  let ?t1 = "t\<lparr>polled := (polled t)(fd := Some {READ, ERROR})\<rparr>"
  let ?t2 = "?t1\<lparr>answers := [], writeBuffer := drop k ?f, on_wire := on_wire t @ take k ?f\<rparr>"
  have w: "write_event onDisc fd t = (Inr (), ?t1)"
    using assms(3,4) by (simp add: write_event_def trySendBuffer.simps processSend_def bindE_def)
  have ne: "drop k ?f \<noteq> []" using assms(7) by (simp add: frame_length)
  have l: "pack_sint 4 (int (length (payload c (encryptor t) (sendRandKey t) m))) =
      Inr (le_bytes 4 (length (payload c (encryptor t) (sendRandKey t) m)))" by (rule pack_length[OF assms(5)])
  have send: "tcp_send c onDisc m ?t1 = trySendBuffer onDisc (?t1\<lparr>writeBuffer := ?f\<rparr>)"
    using l assms(4) by (simp add: tcp_send_def frame_def Let_def)
  have "trySendBuffer onDisc (?t1\<lparr>writeBuffer := ?f\<rparr>) = (Inr (), ?t2)"
    using assms(2,6,8) ne frame_ne[of c "encryptor t" "sendRandKey t" m]
    by (simp add: trySendBuffer.simps processSend_def Let_def)
  then have s: "tcp_send c onDisc m ?t1 = (Inr (), ?t2)" using send by simp
  have "writeBuffer t3 = writeBuffer ?t2 \<and> on_wire t3 = on_wire ?t2 \<and> polled t3 = polled ?t2"
    if "receive n c onDisc (taking h) es ?t2 = Some (r, t3) \<and> cstate t3 \<noteq> DISCONNECTED" for es n h r t3
    using receive_sending[of ?t2 ?t2 n c onDisc h es r t3] that by (simp add: sending_kept_def)
  then have sending_kept: "\<forall>es n h r t3. receive n c onDisc (taking h) es ?t2 = Some (r, t3) \<and> cstate t3 \<noteq> DISCONNECTED \<longrightarrow>
      writeBuffer t3 = writeBuffer ?t2 \<and> on_wire t3 = on_wire ?t2 \<and> polled t3 = polled ?t2" by blast
  have b: "writeBuffer ?t2 = drop k ?f" "polled ?t2 fd = Some {READ, ERROR}" by simp_all
  have "writeBuffer ?t2 \<noteq> []" unfolding b(1) by (rule ne)
  note facts = w s b(1) this b(2) sending_kept
  show ?thesis by (rule exI[of _ ?t1], rule exI[of _ ?t2]) (intro conjI facts)
qed

theorem partial_send_stalls_witness:
  "\<exists>t1 t2. write_event id 3 ((TcpConnection () 0 10 (Some 3))\<lparr>answers := [Took 2, Send_blocks]\<rparr>) = (Inr (), t1) \<and>
    tcp_send plain_codec id (Bytes [7]) t1 = (Inr (), t2) \<and> writeBuffer t2 \<noteq> [] \<and> polled t2 3 = Some {READ, ERROR}"
proof -
  define t :: "(unit, unit) tcp" where "t = (TcpConnection () 0 10 (Some 3))\<lparr>answers := [Took 2, Send_blocks]\<rparr>"
  have p: "payload plain_codec (encryptor t) (sendRandKey t) (Bytes [7]) = [7]"
    by (simp add: plain_codec_def payload_def tagged_def TcpConnection_def Let_def t_def)
  have t: "fileno t = Some 3" "has_socket t" "cstate t = CONNECTED" "writeBuffer t = []" "answers t = [Took (int 2), Send_blocks]"
    by (simp_all add: TcpConnection_def t_def)
  have l: "length (payload plain_codec (encryptor t) (sendRandKey t) (Bytes [7])) < 2 ^ 31" "(0::nat) < 2"
    "int 2 < 4 + int (length (payload plain_codec (encryptor t) (sendRandKey t) (Bytes [7])))"
    unfolding p by simp_all
  from partial_send_stalls[OF t(1-4) l t(5), of id] show ?thesis unfolding t_def by blast
qed

end
