(* ===== verification/RaftHubSpec.thy ===== *)
theory RaftHubSpec
  imports RaftHub RaftHostSpec TcpSpec
begin

text \<open>
  What a connection that is not known yet can and cannot do to a node, and what happens to the
  answer of an administration command whose client has gone.
\<close>

lemma onUtilityMessage_raft:
  "raft_of (snd (onUtilityMessage E up i args h)) = raft_of (snd (utility_command E up i args h))"
proof (cases "utility_command E up i args h")
  case (Pair r h1)
  show ?thesis
  proof (cases r)
    case (Inl msg)
    then show ?thesis
      using hub_send_raft[of E i "Text msg" h1] Pair
      by (cases "hub_send E i (Text msg) h1") (auto simp: onUtilityMessage_def bindE_def split: sum.split)
  qed (simp add: onUtilityMessage_def Pair)
qed

lemma admit_raft:
  "raft_of (admit i m h) =
     (case m of
        Text name \<Rightarrow> if name \<in> peer_addr ` set (nodes (raft_of h)) \<or> name = ''readonly''
                     then onNewPartner name (str_nat (readonlyNodesCounter h)) (raft_of h) else raft_of h
      | _ \<Rightarrow> raft_of h)"
  by (auto simp: admit_def Let_def hub_disconnect_def hub_conn_raft split: packet.split)

text \<open>No command, or an unknown one, is handled like any other message; the node is not changed before.\<close>

lemma utility_unhandled: "utility_command E up i args h = (Inr False, h1) \<Longrightarrow> raft_of h1 = raft_of h \<and> admin_entry E args (raft_of h) = None"
  by (auto simp: utility_command_def admin_entry_def answer_def with_callback_def
      split: list.splits if_splits prod.splits sum.splits option.splits)

definition key_known :: "hub_env \<Rightarrow> nat \<Rightarrow> hub \<Rightarrow> bool" where
  "key_known E i h \<longleftrightarrow> has_password E \<longrightarrow> truthy (sendRandKey (hub_conns h i))"

lemma hub_message_raft:
  "raft_of (snd (hub_onMessage E key up i m h)) =
     (if \<not> key_known E i h then raft_of h
      else
        (case m of
           Text name \<Rightarrow> if name \<in> peer_addr ` set (nodes (raft_of h)) \<or> name = ''readonly''
                        then onNewPartner name (str_nat (readonlyNodesCounter h)) (raft_of h) else raft_of h
         | Body (Args args) \<Rightarrow>
             (case admin_entry E args (raft_of h) of
                None \<Rightarrow> raft_of h
              | Some (c, t) \<Rightarrow> applyCommand c (Some (Local_cb (next_cb h))) (Some t) (raft_of h))
         | _ \<Rightarrow> raft_of h))"
proof (cases "key_known E i h")
  case False
  then show ?thesis by (simp add: hub_onMessage_def key_known_def hub_conn_raft)
next
  case True
  then have n: "\<not> (has_password E \<and> \<not> truthy (sendRandKey (hub_conns h i)))" by (simp add: key_known_def)
  show ?thesis
  proof (cases "\<exists>args. m = Body (Args args)")
    case False
    with True n show ?thesis
      by (auto simp: hub_onMessage_def bindE_def admit_raft split: packet.split body.split)
  next
    case m: True
    then obtain args where m: "m = Body (Args args)" by blast
    obtain r h1 where u: "onUtilityMessage E up i args h = (r, h1)" by (cases "onUtilityMessage E up i args h")
    have "raft_of h1 = raft_of (snd (utility_command E up i args h))" using onUtilityMessage_raft[of E up i args h] u by simp
    with True n u show ?thesis
      by (auto simp: hub_onMessage_def bindE_def m utility_raft admit_raft split: sum.split)
  qed
qed

lemma applyCommand_frame [frame]:
  "raft_log (applyCommand c cb t s) = raft_log s" "current_term (applyCommand c cb t s) = current_term s"
  "voted_for (applyCommand c cb t s) = voted_for s" "commit_index (applyCommand c cb t s) = commit_index s"
  "app (applyCommand c cb t s) = app s"
  by (simp_all add: applyCommand_def Let_def callErrCallback_def send_to_def node_send_def fire_def
      split: prod.split sum.split option.split callback.split)

lemma onNewPartner_frame [frame]:
  "raft_log (onNewPartner n a s) = raft_log s" "current_term (onNewPartner n a s) = current_term s"
  "voted_for (onNewPartner n a s) = voted_for s" "commit_index (onNewPartner n a s) = commit_index s"
  "app (onNewPartner n a s) = app s"
  by (simp_all add: onNewPartner_def set_connected_def Let_def)

text \<open>
  C27. What a connection can do to the node before it has announced itself: nothing to the log,
  the term, the vote, the commit index and the ledger; nothing at all while the keys are not
  exchanged, if there is a password; otherwise it becomes a partner under a name of the cluster or a
  read-only node, or queues a membership or version command that is valid now. Any other name is
  refused: its connection is closed and forgotten.
\<close>

theorem hub_admission:
  "let h' = snd (hub_onMessage E key up i m h); s = raft_of h in
    raft_log (raft_of h') = raft_log s \<and> current_term (raft_of h') = current_term s \<and>
    voted_for (raft_of h') = voted_for s \<and> commit_index (raft_of h') = commit_index s \<and> app (raft_of h') = app s \<and>
    (raft_of h' \<noteq> s \<longrightarrow> key_known E i h \<and>
       ((\<exists>name. m = Text name \<and> (name \<in> peer_addr ` set (nodes s) \<or> name = ''readonly'')) \<or>
        (\<exists>args c t. m = Body (Args args) \<and> admin_entry E args s = Some (c, t)))) \<and>
    (key_known E i h \<and> m = Text name \<and> name \<notin> peer_addr ` set (nodes s) \<and> name \<noteq> ''readonly'' \<longrightarrow>
       \<not> has_socket (hub_conns h' i) \<and> cstate (hub_conns h' i) = DISCONNECTED \<and>
       unknown h' = pop_unknown (fileno (hub_conns h i)) (unknown h'))"
proof -
  define h' where "h' = snd (hub_onMessage E key up i m h)"
  define s where "s = raft_of h"
  have r: "raft_of h' = s \<or> key_known E i h \<and>
      ((\<exists>name. m = Text name \<and> (name \<in> peer_addr ` set (nodes s) \<or> name = ''readonly'') \<and>
          raft_of h' = onNewPartner name (str_nat (readonlyNodesCounter h)) s) \<or>
       (\<exists>args c t. m = Body (Args args) \<and> admin_entry E args s = Some (c, t) \<and>
          raft_of h' = applyCommand c (Some (Local_cb (next_cb h))) (Some t) s))"
    unfolding h'_def s_def hub_message_raft by (auto split: packet.split body.split option.split)
  then have "raft_log (raft_of h') = raft_log s \<and> current_term (raft_of h') = current_term s \<and>
    voted_for (raft_of h') = voted_for s \<and> commit_index (raft_of h') = commit_index s \<and> app (raft_of h') = app s"
    by (auto simp: frame)
  moreover have "\<not> has_socket (hub_conns h' i) \<and> cstate (hub_conns h' i) = DISCONNECTED \<and>
       unknown h' = pop_unknown (fileno (hub_conns h i)) (unknown h')"
    if "key_known E i h" "m = Text name" "name \<notin> peer_addr ` set (nodes s)" "name \<noteq> ''readonly''"
    using that unfolding h'_def s_def
    by (auto simp: hub_onMessage_def key_known_def bindE_def admit_def Let_def hub_disconnect_def hub_conn_def
        disconnect_def pop_unknown_def split: option.split)
  ultimately show ?thesis using r unfolding Let_def h'_def[symmetric] s_def[symmetric] by blast
qed


section \<open>A hub with one connection\<close>

definition ex_hub_env :: "bool \<Rightarrow> hub_env" where
  "ex_hub_env password = \<lparr>hub_conf = belcoin_conf,
     hub_codec = \<lparr>dumps = (\<lambda>_. [1]), loads = (\<lambda>_. Inl ValueError), compress = id, decompress = Inr, encrypt = id, decrypt = Inr\<rparr>,
     has_password = password, dumps_request = (\<lambda>r a. [4]), dumps_version = (\<lambda>n. [5]), exc_text = (\<lambda>_. []),
     revision = [], peer_status = (\<lambda>_. DISCONNECTED)\<rparr>"

definition ex_hub :: "bool \<Rightarrow> hub" where
  "ex_hub password = onNewConnection (ex_hub_env password) 0 0 5
     \<lparr>raft_of = ex_node ''b'' [''a''], unknown = (\<lambda>_. None), hub_conns = (\<lambda>_. TcpConnection (\<lambda>_. None) 0 0 None),
      given_to = (\<lambda>_. None), readonlyNodesCounter = 0, utility_cbs = (\<lambda>_. None), next_cb = 0\<rparr>"

text \<open>An unknown name, without a password.\<close>

theorem hub_admission_witness:
  "let h' = snd (hub_onMessage (ex_hub_env False) [7] 0 0 (Text ''z'') (ex_hub False))
   in raft_log (raft_of h') = raft_log (raft_of (ex_hub False)) \<and> \<not> has_socket (hub_conns h' 0) \<and>
      cstate (hub_conns h' 0) = DISCONNECTED \<and> unknown h' = (unknown h')(5 := None)"
proof -
  let ?h = "ex_hub False"
  have f: "key_known (ex_hub_env False) 0 ?h" "fileno (hub_conns ?h 0) = Some 5" "''z'' \<notin> peer_addr ` set (nodes (raft_of ?h))"
    by (simp_all add: key_known_def ex_hub_env_def ex_hub_def onNewConnection_def TcpConnection_def Let_def ex_node_def raft_init_def)
  show ?thesis
    using hub_admission[of "ex_hub_env False" "[7]" 0 0 "Text ''z''" ?h "''z''"] f by (simp add: Let_def pop_unknown_def)
qed

section \<open>The answer of a command whose client has gone\<close>

text \<open>
  The answer of an administration command is sent when the command is committed, on the
  connection it came from, and nobody checks that it is still there: if it was disconnected in
  between, the callback raises AttributeError, in the thread that applies the log.
\<close>

theorem utility_answer_after_disconnect:
  assumes "utility_cbs h k = Some (i, name, Str node)"
    and "length (payload (hub_codec E) False Nothing
           (Text ((if err = SUCCESS then ''SUCCESS'' else ''FAIL'') @ '' '' @ name @ '' '' @ node))) < 2 ^ 31"
  shows "fst (utilityCallback E k err (hub_disconnect i h)) = Inl AttributeError"
proof -
  let ?h = "hub_disconnect i h" let ?t = "hub_conns ?h i"
  have t: "encryptor ?t = False" "sendRandKey ?t = Nothing" "has_socket ?t = False"
    by (simp_all add: hub_disconnect_def hub_conn_def disconnect_def Let_def)
  have u: "utility_cbs ?h = utility_cbs h" by (simp add: hub_disconnect_def hub_conn_def Let_def)
  have send: "fst (tcp_send c gone m t) = Inl AttributeError"
    if "\<not> encryptor t" "sendRandKey t = Nothing" "\<not> has_socket t" "length (payload c False Nothing m) < 2 ^ 31"
    for c gone m and t :: "(table, body) tcp"
  proof -
    have p: "processSend gone (t\<lparr>writeBuffer := writeBuffer t @ x\<rparr>) = (Inl AttributeError, t\<lparr>writeBuffer := writeBuffer t @ x\<rparr>)"
      if "x \<noteq> []" for x using that \<open>\<not> has_socket t\<close> by (simp add: processSend_def)
    then have q: "fst (trySendBuffer gone (t\<lparr>writeBuffer := writeBuffer t @ x\<rparr>)) = Inl AttributeError" if "x \<noteq> []" for x
      using that by (subst trySendBuffer.simps) simp
    have "le_bytes 4 n @ d \<noteq> []" for n d
      using le_bytes_length[of 4 n] by (cases "le_bytes 4 n") simp_all
    moreover have "pack_sint 4 (int (length (payload c (encryptor t) (sendRandKey t) m))) =
        Inr (le_bytes 4 (length (payload c (encryptor t) (sendRandKey t) m)))"
      by (rule pack_length) (use that in simp)
    ultimately show ?thesis using q unfolding tcp_send_def Let_def by (simp only: sum.case not_False_eq_True)
  qed
  let ?m = "Text ((if err = SUCCESS then ''SUCCESS'' else ''FAIL'') @ '' '' @ name @ '' '' @ node)"
  have "fst (hub_send E i ?m ?h) =
      fst (tcp_send (hub_codec E) (pop_unknown (fileno (?t\<lparr>owner := unknown ?h\<rparr>))) ?m (?t\<lparr>owner := unknown ?h\<rparr>))"
    by (simp only: hub_send_def hub_conn_def Let_def case_prod_unfold fst_conv)
  also have "\<dots> = Inl AttributeError"
    by (rule send[OF _ _ _ assms(2)]) (simp_all add: t)
  finally show ?thesis unfolding utilityCallback_def u assms(1) by simp
qed

text \<open>A client asks to add a node, loses its connection, and the request is denied.\<close>

theorem utility_answer_after_disconnect_witness:
  "fst (utilityCallback (ex_hub_env False) 0 REQUEST_DENIED
     (hub_disconnect 0 (snd (hub_onMessage (ex_hub_env False) [7] 0 0 (Body (Args [Str ''add'', Str ''c''])) (ex_hub False))))) =
   Inl AttributeError"
proof (rule utility_answer_after_disconnect)
  show "utility_cbs (snd (hub_onMessage (ex_hub_env False) [7] 0 0 (Body (Args [Str ''add'', Str ''c''])) (ex_hub False))) 0 =
      Some (0, ''ADD'', Str ''c'')"
    by (simp add: hub_onMessage_def ex_hub_env_def ex_hub_def onNewConnection_def onUtilityMessage_def utility_command_def
        with_callback_def cluster_request_def bindE_def belcoin_conf_def TcpConnection_def Let_def)
qed (simp add: ex_hub_env_def payload_def tagged_def)

end
