(* ===== verification/RaftThread.thy ===== *)
theory RaftThread
  imports RaftHubSpec NodeSpec
begin

text \<open>
  What is around the protocol in \<open>pysyncobjbc/syncobj.py\<close>: the thread that ticks, the end of a node,
  the consumers and what is dumped of them, the decorator \<open>replicated_sync\<close>, the getters, and the
  messages by which nodes passed transactions to each other.
\<close>

section \<open>What a node is constructed from\<close>

text \<open>
  The first checks of the constructor: the configuration, the cipher a password needs, and the
  consumers, which are consumers themselves or objects that have one, as the lock manager has.
\<close>

datatype init_error = Conf_error py_error | Import_error | Consumer_error

datatype 'a given_consumer = Consumer 'a | With_consumer "'a option" | No_consumer

fun take_consumer :: "'a given_consumer \<Rightarrow> init_error + 'a" where
  "take_consumer (Consumer c) = Inr c"
| "take_consumer (With_consumer (Some c)) = Inr c"
| "take_consumer (With_consumer None) = Inl Consumer_error"
| "take_consumer No_consumer = Inl Consumer_error"

fun take_consumers :: "'a given_consumer list \<Rightarrow> init_error + 'a list" where
  "take_consumers [] = Inr []"
| "take_consumers (g # gs) =
     (case take_consumer g of
        Inl e \<Rightarrow> Inl e
      | Inr c \<Rightarrow> (case take_consumers gs of Inl e \<Rightarrow> Inl e | Inr cs \<Rightarrow> Inr (c # cs)))"

definition construct_checks ::
  "bool \<Rightarrow> bool \<Rightarrow> sync_obj_conf option \<Rightarrow> 'a given_consumer list \<Rightarrow> init_error + (sync_obj_conf \<times> 'a list)" where
  "construct_checks with_password has_crypto C given =
     (let C1 = (case C of None \<Rightarrow> default_conf | Some c \<Rightarrow> c) in
      (case conf_validate C1 of
         Inl e \<Rightarrow> Inl (Conf_error e)
       | Inr _ \<Rightarrow>
           if with_password \<and> \<not> has_crypto then Inl Import_error
           else (case take_consumers given of Inl e \<Rightarrow> Inl e | Inr cs \<Rightarrow> Inr (C1, cs))))"

section \<open>The thread of a node\<close>

text \<open>
  \<open>thread_runs\<close> is false when the thread has left its loop, by \<open>break\<close> or by an exception;
  \<open>init_event\<close> is what the constructor waits for.
\<close>

record 'p auto =
  auto_host :: "'p host"
  destroying :: bool
  thread_runs :: bool
  init_event :: bool
  thread_error :: "py_error option"

definition autoTick_start ::
  "sync_obj_conf \<Rightarrow> (nat \<Rightarrow> 'c \<Rightarrow> poll_flag set \<Rightarrow> 'p \<Rightarrow> 'p) \<Rightarrow> 'c \<Rightarrow> (addr \<Rightarrow> bool) \<Rightarrow> rat \<Rightarrow> bind_result \<Rightarrow> 'p auto \<Rightarrow> 'p auto" where
  "autoTick_start C sub me port_ok now res a =
     (case initInTickThread C sub me port_ok now res (auto_host a) of
        (Inr _, h) \<Rightarrow> a\<lparr>auto_host := h, thread_runs := True, init_event := True\<rparr>
      | (Inl e, h) \<Rightarrow>
          a\<lparr>auto_host := h, thread_runs := False, init_event := True,
            thread_error := (if e = BindError then None else Some e)\<rparr>)"

definition autoTick_round ::
  "raft_env \<Rightarrow> (nat \<Rightarrow> 'c \<Rightarrow> poll_flag set \<Rightarrow> 'p \<Rightarrow> 'p) \<Rightarrow> (nat \<Rightarrow> 'p \<Rightarrow> 'p) \<Rightarrow> 'c \<Rightarrow> (addr \<Rightarrow> bool) \<Rightarrow> bool \<Rightarrow> tick \<Rightarrow>
   'p auto \<Rightarrow> 'p auto" where
  "autoTick_round R sub unsub me port_ok main_alive tk a =
     (if \<not> thread_runs a then a
      else if \<not> main_alive then a\<lparr>thread_runs := False\<rparr>
      else if destroying a then a\<lparr>auto_host := doDestroy unsub (auto_host a), thread_runs := False\<rparr>
      else
        (case ticks R sub me port_ok [tk] (auto_host a) of
           (Inr _, h) \<Rightarrow> a\<lparr>auto_host := h\<rparr>
         | (Inl e, h) \<Rightarrow> a\<lparr>auto_host := h, thread_runs := False, thread_error := Some e\<rparr>))"

definition autoTick_rounds ::
  "raft_env \<Rightarrow> (nat \<Rightarrow> 'c \<Rightarrow> poll_flag set \<Rightarrow> 'p \<Rightarrow> 'p) \<Rightarrow> (nat \<Rightarrow> 'p \<Rightarrow> 'p) \<Rightarrow> 'c \<Rightarrow> (addr \<Rightarrow> bool) \<Rightarrow> (bool \<times> tick) list \<Rightarrow>
   'p auto \<Rightarrow> 'p auto" where
  "autoTick_rounds R sub unsub me port_ok xs a =
     fold (\<lambda>(alive, tk). autoTick_round R sub unsub me port_ok alive tk) xs a"

definition destroy :: "sync_obj_conf \<Rightarrow> (nat \<Rightarrow> 'p \<Rightarrow> 'p) \<Rightarrow> 'p auto \<Rightarrow> 'p auto" where
  "destroy C unsub a =
     (if autoTick C then a\<lparr>destroying := True\<rparr> else a\<lparr>auto_host := doDestroy unsub (auto_host a)\<rparr>)"

definition doTick ::
  "raft_env \<Rightarrow> (nat \<Rightarrow> 'c \<Rightarrow> poll_flag set \<Rightarrow> 'p \<Rightarrow> 'p) \<Rightarrow> 'c \<Rightarrow> (addr \<Rightarrow> bool) \<Rightarrow> tick \<Rightarrow> ('p host, unit) eff" where
  "doTick R sub me port_ok tk h = (if autoTick (conf R) then (Inl AssertionError, h) else ticks R sub me port_ok [tk] h)"

text \<open>A thread that has stopped stays as it is.\<close>

lemma stopped_rounds: "\<not> thread_runs a \<Longrightarrow> autoTick_rounds R sub unsub me port_ok xs a = a"
  unfolding autoTick_rounds_def by (induction xs) (auto simp: autoTick_round_def)

text \<open>Everything a node has closed: its partners, its read-only nodes and its listening socket.\<close>

definition shut_down :: "'p host \<Rightarrow> bool" where
  "shut_down h \<longleftrightarrow> (\<forall>p\<in>set (nodes (host_raft h)) \<union> set (readonly_nodes (host_raft h)). \<not> connected p) \<and>
     (\<forall>l. listener h = Some l \<longrightarrow> server_state l = UNBINDED \<and> server_fileno l = None)"

lemma doDestroy_shut_down: "shut_down (doDestroy unsub h)"
  by (auto simp: shut_down_def doDestroy_def Let_def server_unbind_def)

text \<open>
  The end of a node with a ticking thread. \<open>destroy\<close> takes effect with the next round of the thread:
  every connection and the listening socket are closed, the thread ends, and nothing happens to the
  node any more. The request is lost when the thread has ended before, which it also does when a tick
  raises or the main thread has gone: then the node stays as it was, its sockets open, for ever.
\<close>

theorem destroy_takes_effect:
  assumes "autoTick C"
  shows "let b = autoTick_rounds R sub unsub me port_ok ((alive, tk) # xs) (destroy C unsub a) in
    \<not> thread_runs b \<and> b = autoTick_round R sub unsub me port_ok alive tk (destroy C unsub a) \<and>
    (if thread_runs a \<and> alive then shut_down (auto_host b) else auto_host b = auto_host a)"
proof -
  let ?d = "destroy C unsub a"
  let ?b = "autoTick_round R sub unsub me port_ok alive tk ?d"
  have d: "?d = a\<lparr>destroying := True\<rparr>" using assms by (simp add: destroy_def)
  have stop: "\<not> thread_runs ?b" by (simp add: autoTick_round_def d)
  have "autoTick_rounds R sub unsub me port_ok ((alive, tk) # xs) ?d = autoTick_rounds R sub unsub me port_ok xs ?b"
    by (simp add: autoTick_rounds_def)
  also have "\<dots> = ?b" using stop by (rule stopped_rounds)
  finally show ?thesis
    using stop by (simp add: Let_def) (simp add: autoTick_round_def d doDestroy_shut_down)
qed

definition ex_auto :: "nat select_poller auto" where
  "ex_auto = \<lparr>auto_host = ex_host, destroying = False, thread_runs = True, init_event = True, thread_error = None\<rparr>"

theorem destroy_takes_effect_witness:
  "(let b = autoTick_rounds ex_renv select_subscribe select_unsubscribe 1 (\<lambda>_. True) [(True, hd ex_ticks)]
       (destroy belcoin_conf select_unsubscribe ex_auto)
    in \<not> thread_runs b \<and> shut_down (auto_host b)) \<and> \<not> shut_down (auto_host ex_auto)"
proof -
  have c: "autoTick belcoin_conf" by (simp add: belcoin_conf_def default_conf_def)
  have "\<not> shut_down (auto_host ex_auto)"
    by (simp add: ex_auto_def shut_down_def ex_host_def new_host_def ex_bound_def server_bind_def ex_listener_def)
  moreover note destroy_takes_effect[OF c, of ex_renv select_subscribe select_unsubscribe 1 "\<lambda>_. True" True "hd ex_ticks" "[]" ex_auto]
  moreover have "thread_runs ex_auto" by (simp add: ex_auto_def)
  ultimately show ?thesis unfolding Let_def by simp metis
qed

section \<open>Consumers\<close>

text \<open>
  The attributes of a replicated object, and the names that are not dumped: those it had when
  \<open>SyncObjConsumer.__init__\<close> ran.
\<close>

record 'v consumer =
  attrs :: "(string, 'v) store"
  properies :: "string set"

definition SyncObjConsumer :: "'v \<Rightarrow> 'v \<Rightarrow> 'v consumer" where
  "SyncObjConsumer no_obj names =
     (let d = store_put ''_SyncObjConsumer__properies'' names (store_put ''_syncObj'' no_obj [])
      in \<lparr>attrs = d, properies = set (map fst (store_items d))\<rparr>)"

definition consumer_destroy :: "'v \<Rightarrow> 'v consumer \<Rightarrow> 'v consumer" where
  "consumer_destroy none c = c\<lparr>attrs := store_put ''_syncObj'' none (attrs c)\<rparr>"

definition consumer_serialize :: "'v consumer \<Rightarrow> (string \<times> 'v) list" where
  "consumer_serialize c = filter (\<lambda>(k, v). k \<notin> properies c) (store_items (attrs c))"

definition consumer_deserialize :: "(string \<times> 'v) list \<Rightarrow> 'v consumer \<Rightarrow> 'v consumer" where
  "consumer_deserialize data c = c\<lparr>attrs := fold (\<lambda>(k, v). store_put k v) data (attrs c)\<rparr>"

lemma deserialize_get:
  assumes "distinct (map fst data)"
  shows "store_get (fold (\<lambda>(k, v). store_put k v) data d) k =
    (case map_of data k of None \<Rightarrow> store_get d k | Some v \<Rightarrow> Some v)"
  using assms
proof (induction data arbitrary: d)
  case (Cons x data)
  obtain k' v where x: "x = (k', v)" by (cases x)
  have "map_of data k' = None" using Cons.prems x by (simp add: map_of_eq_None_iff)
  with Cons x show ?case by (auto split: option.split)
qed simp

text \<open>
  A dump of a consumer that is read into another object of the same class gives it every attribute
  that was dumped; attributes the dump does not have, and those of \<open>SyncObjConsumer\<close>, stay.
\<close>

lemma consumer_dump:
  assumes "store_ok (attrs c)" and "properies c' = properies c"
  shows "store_get (attrs (consumer_deserialize (consumer_serialize c) c')) k =
    (if k \<in> properies c \<or> store_get (attrs c) k = None then store_get (attrs c') k else store_get (attrs c) k)"
proof -
  let ?d = "consumer_serialize c"
  have d: "distinct (map fst ?d)"
    unfolding consumer_serialize_def using kv.items_distinct[OF assms(1)] by (rule distinct_map_filter)
  have "map_of ?d k = (if k \<in> properies c then None else store_get (attrs c) k)"
  proof (cases "\<exists>v. (k, v) \<in> set ?d")
    case True
    then obtain v where v: "(k, v) \<in> set ?d" ..
    then have "map_of ?d k = Some v" using d by simp
    moreover have "store_get (attrs c) k = Some v" "k \<notin> properies c"
      using v kv.items_get[OF assms(1)] by (auto simp: consumer_serialize_def)
    ultimately show ?thesis by simp
  next
    case False
    then have "map_of ?d k = None" by (auto simp: map_of_eq_None_iff)
    moreover have "k \<in> properies c \<or> store_get (attrs c) k = None"
      using False kv.items_get[OF assms(1)] by (cases "store_get (attrs c) k") (auto simp: consumer_serialize_def)
    ultimately show ?thesis by auto
  qed
  then show ?thesis by (auto simp: consumer_deserialize_def deserialize_get[OF d] split: option.split)
qed

section \<open>Synchronous calls\<close>

text \<open>
  The named arguments of a call; \<open>callback\<close>, \<open>sync\<close> and \<open>timeout\<close> are taken out. The decision that a
  command has named arguments is made before \<open>sync\<close> and \<open>timeout\<close> are taken out of the same
  dictionary, which is pickled after.
\<close>

datatype 'v kw = Kw_none | Kw_true | Kw_false | Kw_val 'v

definition kw_truthy :: "('v \<Rightarrow> bool) \<Rightarrow> 'v kw \<Rightarrow> bool" where
  "kw_truthy T v = (case v of Kw_none \<Rightarrow> False | Kw_true \<Rightarrow> True | Kw_false \<Rightarrow> False | Kw_val x \<Rightarrow> T x)"

definition kw_pop :: "string \<Rightarrow> 'v kw \<Rightarrow> (string, 'v kw) store \<Rightarrow> 'v kw \<times> (string, 'v kw) store" where
  "kw_pop k d m = (case store_get m k of None \<Rightarrow> (d, m) | Some v \<Rightarrow> (v, store_del k m))"

definition kw_setdefault :: "string \<Rightarrow> 'v kw \<Rightarrow> (string, 'v kw) store \<Rightarrow> (string, 'v kw) store" where
  "kw_setdefault k d m = (if store_get m k = None then store_put k d m else m)"

record 'v call_plan =
  plan_kwargs :: "(string, 'v kw) store option"
  plan_callback :: "'v kw"
  plan_sync :: bool
  plan_timeout :: "'v kw"

definition plan_call :: "('v \<Rightarrow> bool) \<Rightarrow> (string, 'v kw) store \<Rightarrow> 'v call_plan" where
  "plan_call T kw =
     (let (cb, kw1) = kw_pop ''callback'' Kw_none kw;
          named = (kw1 \<noteq> []);
          (sy, kw2) = kw_pop ''sync'' Kw_false kw1;
          (tm, kw3) = kw_pop ''timeout'' Kw_none kw2
      in \<lparr>plan_kwargs = (if named then Some kw3 else None), plan_callback = cb,
          plan_sync = synchronous (kw_truthy T sy) (cb \<noteq> Kw_none), plan_timeout = tm\<rparr>)"

text \<open>
  \<open>replicated_sync\<close>. The arguments of the decorator are not passed to \<open>replicated_sync_impl\<close>, so its
  parameter \<open>timeout\<close> always has the default.
\<close>

definition replicated_sync_kwargs :: "(string, 'v kw) store \<Rightarrow> (string, 'v kw) store" where
  "replicated_sync_kwargs kw = kw_setdefault ''sync'' Kw_true (kw_setdefault ''timeout'' Kw_none kw)"

lemma sync_call_waits:
  assumes "store_get kw ''timeout'' = None" and "store_get kw ''sync'' = None" and "store_get kw ''callback'' = None"
  shows "plan_sync (plan_call T (replicated_sync_kwargs kw)) \<and>
    plan_timeout (plan_call T (replicated_sync_kwargs kw)) = Kw_none"
  using assms
  by (simp add: plan_call_def replicated_sync_kwargs_def kw_pop_def kw_setdefault_def synchronous_def kw_truthy_def Let_def)

section \<open>Getters\<close>

definition isLeader :: "raft \<Rightarrow> bool" where
  "isLeader s \<longleftrightarrow> state s = LEADER"

definition getLeader :: "raft \<Rightarrow> addr option" where
  "getLeader s = leader s"

definition isReady :: "raft \<Rightarrow> bool" where
  "isReady s \<longleftrightarrow> ready_called s"

definition getTerm :: "raft \<Rightarrow> int" where
  "getTerm s = current_term s"

definition getRaftLogSize :: "raft \<Rightarrow> nat" where
  "getRaftLogSize s = length (raft_log s)"

definition getCodeVersion :: "raft \<Rightarrow> int" where
  "getCodeVersion s = enabled_code_version s"

text \<open>The call that takes a node out of the cluster; \<open>cluster_request\<close> is also the one that adds one.\<close>

definition removeNodeFromCluster :: "hub_env \<Rightarrow> util_arg \<Rightarrow> callback option \<Rightarrow> raft \<Rightarrow> (string + unit) \<times> raft" where
  "removeNodeFromCluster E arg cb s = cluster_request E ''rem'' arg cb s"

text \<open>\<open>__setState\<close>: the new state, and the arguments of \<open>onStateChanged\<close> if it is called.\<close>

definition setState :: "bool \<Rightarrow> raft_state \<Rightarrow> raft \<Rightarrow> (raft_state \<times> raft_state) option \<times> raft" where
  "setState has_callback new s =
     (if has_callback \<and> state s \<noteq> new then Some (state s, new) else None, s\<lparr>state := new\<rparr>)"

section \<open>Transactions between nodes\<close>

text \<open>
  What \<open>self.mempool\<close> is: \<open>None\<close> in \<open>SyncObj\<close>, before a list of pairs, now the database of \<open>mempool.py\<close>.
  Iterating over the database asks it for the key 0, which \<open>Mempool.get\<close> asserts to be bytes.
\<close>

datatype mempool_ref = No_mempool | Listed "(bytes \<times> transaction) list" | Database

fun iterate_mempool :: "mempool_ref \<Rightarrow> py_error + (bytes \<times> transaction) list" where
  "iterate_mempool No_mempool = Inl TypeError"
| "iterate_mempool (Listed xs) = Inr xs"
| "iterate_mempool Database = Inl AssertionError"

datatype txn_message = Broadcast_txn bytes | Send_txn bytes | Request_txn bytes "addr option"

record relay =
  relay_self :: "addr option"
  relay_nodes :: "addr list"
  relay_leader :: "addr option"
  relay_mempool :: mempool_ref
  relay_db :: "bytes \<Rightarrow> transaction option"
  relay_sent :: "(addr \<times> txn_message) list"

definition relay_to :: "addr option \<Rightarrow> txn_message \<Rightarrow> relay \<Rightarrow> relay" where
  "relay_to a m r =
     (case a of
        Some x \<Rightarrow> if x \<in> set (relay_nodes r) then r\<lparr>relay_sent := relay_sent r @ [(x, m)]\<rparr> else r
      | None \<Rightarrow> r)"

definition syncobj_broadcast_txn :: "bytes \<Rightarrow> relay \<Rightarrow> relay" where
  "syncobj_broadcast_txn raw r = r\<lparr>relay_sent := relay_sent r @ map (\<lambda>a. (a, Broadcast_txn raw)) (relay_nodes r)\<rparr>"

definition syncobj_send_txn :: "wire \<Rightarrow> addr option \<Rightarrow> bytes \<Rightarrow> (relay, unit) eff" where
  "syncobj_send_txn W a i r =
     (case iterate_mempool (relay_mempool r) of
        Inl e \<Rightarrow> (Inl e, r)
      | Inr xs \<Rightarrow>
          (case (case filter (\<lambda>x. fst x = i) xs of x # _ \<Rightarrow> Some (snd x) | [] \<Rightarrow> relay_db r i) of
             None \<Rightarrow> (Inr (), r)
           | Some t \<Rightarrow> (Inr (), relay_to a (Send_txn (to_wire W t)) r)))"

definition syncobj_request_txn :: "bytes \<Rightarrow> relay \<Rightarrow> relay" where
  "syncobj_request_txn i r = relay_to (relay_leader r) (Request_txn i (relay_self r)) r"

text \<open>The beginning of \<open>_onMessageReceived\<close>; \<open>check_block\<close> does nothing.\<close>

definition on_txn_message :: "wire \<Rightarrow> txn_message \<Rightarrow> (relay, unit) eff" where
  "on_txn_message W m r =
     (let receive = (\<lambda>raw.
        case from_wire W raw of
          Inl e \<Rightarrow> (Inl e, r)
        | Inr t \<Rightarrow>
            (case iterate_mempool (relay_mempool r) of
               Inl e \<Rightarrow> (Inl e, r)
             | Inr xs \<Rightarrow>
                 (Inr (), if filter (\<lambda>x. fst x = txid t) xs = [] then r\<lparr>relay_mempool := Listed (xs @ [(txid t, t)])\<rparr> else r)))
      in case m of
           Broadcast_txn raw \<Rightarrow> receive raw
         | Send_txn raw \<Rightarrow> receive raw
         | Request_txn i a \<Rightarrow> syncobj_send_txn W a i r)"

text \<open>
  The exchange of a transaction by messages: a node that asks the leader for a transaction which
  the leader has, in its mempool or its database, ends up with it, as long as \<open>self.mempool\<close> is a list.
  With the database that \<open>Storage\<close> puts there, no transaction a node is sent arrives: the handler raises
  AssertionError in the thread that ticks.
\<close>

theorem relay_exchange:
  assumes "from_wire W (to_wire W t) = Inr t" and "relay_mempool n = Listed xs" and "relay_self n = Some a" and "relay_leader n = Some l"
    and "l \<in> set (relay_nodes n)" and "a \<in> set (relay_nodes p)"
    and "relay_mempool p = Listed ys" and "map_of ys i = Some t \<or> map_of ys i = None \<and> relay_db p i = Some t" and "txid t = i"
  shows "\<exists>p' n'. relay_sent (syncobj_request_txn i n) = relay_sent n @ [(l, Request_txn i (Some a))] \<and>
    on_txn_message W (Request_txn i (Some a)) p = (Inr (), p') \<and>
    relay_sent p' = relay_sent p @ [(a, Send_txn (to_wire W t))] \<and>
    on_txn_message W (Send_txn (to_wire W t)) n = (Inr (), n') \<and>
    (\<exists>zs u. relay_mempool n' = Listed zs \<and> map_of zs i = Some u) \<and>
    fst (on_txn_message W (Send_txn (to_wire W t)) (n\<lparr>relay_mempool := Database\<rparr>)) = Inl AssertionError"
proof -
  have f: "(case filter (\<lambda>x. fst x = i) zs of x # _ \<Rightarrow> Some (snd x) | [] \<Rightarrow> d) = (case map_of zs i of None \<Rightarrow> d | Some u \<Rightarrow> Some u)"
    for zs :: "(bytes \<times> transaction) list" and d by (induction zs) auto
  have g: "filter (\<lambda>x. fst x = i) zs = [] \<longleftrightarrow> map_of zs i = None" for zs :: "(bytes \<times> transaction) list"
    by (induction zs) auto
  let ?p = "p\<lparr>relay_sent := relay_sent p @ [(a, Send_txn (to_wire W t))]\<rparr>"
  let ?n = "if map_of xs i = None then n\<lparr>relay_mempool := Listed (xs @ [(i, t)])\<rparr> else n"
  have "on_txn_message W (Request_txn i (Some a)) p = (Inr (), ?p)"
    using assms(6-8) by (auto simp: on_txn_message_def syncobj_send_txn_def relay_to_def f)
  moreover have "on_txn_message W (Send_txn (to_wire W t)) n = (Inr (), ?n)"
    using assms(1,2,9) by (simp add: on_txn_message_def g)
  moreover have "\<exists>zs u. relay_mempool ?n = Listed zs \<and> map_of zs i = Some u"
    using assms(2) by (auto simp: map_add_def split: option.split)
  moreover have "fst (on_txn_message W (Send_txn (to_wire W t)) (n\<lparr>relay_mempool := Database\<rparr>)) = Inl AssertionError"
    using assms(1) by (simp add: on_txn_message_def)
  ultimately show ?thesis
    using assms(3-5) by (auto simp: syncobj_request_txn_def relay_to_def)
qed

definition ex_relay :: "addr \<Rightarrow> (bytes \<times> transaction) list \<Rightarrow> relay" where
  "ex_relay me xs = \<lparr>relay_self = Some me, relay_nodes = [''a'', ''b''], relay_leader = Some ''a'', relay_mempool = Listed xs,
     relay_db = (\<lambda>_. None), relay_sent = []\<rparr>"

theorem relay_exchange_witness:
  "\<exists>n'. on_txn_message ex_wire (Send_txn [2]) (ex_relay ''b'' []) = (Inr (), n') \<and>
    (\<exists>zs u. relay_mempool n' = Listed zs \<and> map_of zs [2] = Some u)"
proof -
  have w: "from_wire ex_wire (to_wire ex_wire ex_pay) = Inr ex_pay" by (simp add: ex_wire_def ex_pay_def)
  have "to_wire ex_wire ex_pay = [2]" by (simp add: ex_wire_def ex_pay_def)
  with relay_exchange[OF w, of "ex_relay ''b'' []" "[]" "''b''" "''a''" "ex_relay ''a'' [([2], ex_pay)]" "[([2], ex_pay)]" "[2]"]
  show ?thesis by (auto simp: ex_relay_def ex_pay_def)
qed

end
