(* ===== verification/Replicas.thy ===== *)
theory Replicas
  imports NodeSpec
begin

text \<open>
  Whether nodes that apply the same blocks hold the same ledger. They do, whatever the order in
  which transactions reach them, when blocks are queued and processed in the same order relative to
  each other; they need not when one node queues a block before, the other after it processed an
  earlier one, which is up to each node.
\<close>

section \<open>Operations that only look at the ledger\<close>

definition ledger_of :: "storage \<Rightarrow> _" where
  "ledger_of s = (db s, pend s, pub_outs s, pub_outs_pend s, current_time s)"

text \<open>Two nodes with the same ledger whose mempools agree on the transactions \<open>I\<close>.\<close>

definition twins :: "bytes set \<Rightarrow> storage \<Rightarrow> storage \<Rightarrow> bool" where
  "twins I s s' \<longleftrightarrow> ledger_of s = ledger_of s' \<and>
     (\<forall>i\<in>I. mempool_getitem (mempool s) i = mempool_getitem (mempool s') i)"

definition uniform :: "bytes set \<Rightarrow> (storage, 'a) eff \<Rightarrow> bool" where
  "uniform I m \<longleftrightarrow> (\<forall>s s'. twins I s s' \<longrightarrow> fst (m s) = fst (m s') \<and> twins I (snd (m s)) (snd (m s')))"

lemma uniformI:
  assumes "\<And>s s'. twins I s s' \<Longrightarrow> fst (m s) = fst (m s') \<and> twins I (snd (m s)) (snd (m s'))"
  shows "uniform I m"
  using assms by (simp add: uniform_def)

lemma uniformD: "uniform I m \<Longrightarrow> twins I s s' \<Longrightarrow> m s = (r, t) \<Longrightarrow> \<exists>t'. m s' = (r, t') \<and> twins I t t'"
  unfolding uniform_def by (metis fst_conv prod.collapse snd_conv)

lemma uniform_ret: "uniform I (ret x)"
  by (simp add: uniform_def)

lemma uniform_modE: "(\<And>s s'. twins I s s' \<Longrightarrow> twins I (f s) (f s')) \<Longrightarrow> uniform I (modE f)"
  by (simp add: uniform_def)

lemma uniform_bindE:
  assumes "uniform I m" and "\<And>x. uniform I (k x)"
  shows "uniform I (bindE m k)"
proof (rule uniformI)
  fix s s' assume t: "twins I s s'"
  obtain r u where u: "m s = (r, u)" by (cases "m s")
  obtain u' where u': "m s' = (r, u')" "twins I u u'" using uniformD[OF assms(1) t u] by blast
  show "fst (bindE m k s) = fst (bindE m k s') \<and> twins I (snd (bindE m k s)) (snd (bindE m k s'))"
    using u u' assms(2) by (cases r) (auto simp: bindE_def uniform_def)
qed

lemma uniform_forE: "(\<And>x. x \<in> set xs \<Longrightarrow> uniform I (f x)) \<Longrightarrow> uniform I (forE f xs)"
  by (induction xs) (auto intro!: uniform_ret uniform_bindE)

lemma twins_reads:
  assumes "twins I s s'"
  shows "db s = db s'" "pend s = pend s'" "pub_outs s = pub_outs s'" "pub_outs_pend s = pub_outs_pend s'"
    "current_time s = current_time s'" "storage_getitem s = storage_getitem s'" "storage_contains s = storage_contains s'"
    "timelock_expired s = timelock_expired s'" "timeout_reached s = timeout_reached s'"
  using assms by (auto simp: twins_def ledger_of_def storage_getitem_def storage_get_def storage_contains_def
      timelock_expired_def timeout_reached_def age_def fun_eq_iff)

lemma uniform_spend_input: "uniform I (spend_input E inp)"
proof (rule uniformI)
  fix s s' assume t: "twins I s s'"
  show "fst (spend_input E inp s) = fst (spend_input E inp s') \<and> twins I (snd (spend_input E inp s)) (snd (spend_input E inp s'))"
    using t unfolding spend_input_def twins_reads(6)[OF t]
    by (auto simp: storage_setitem_def twins_def ledger_of_def Let_def split: sum.split option.split)
qed

lemma uniform_write_db: "uniform I (write_txn_to_db E t ts)"
  unfolding write_txn_to_db_def
  by (intro uniform_bindE uniform_forE uniform_spend_input uniform_modE)
     (simp add: twins_def ledger_of_def storage_setitem_def Let_def)

lemma uniform_write_pend: "uniform I (write_txn_to_pend E t ts)"
  unfolding write_txn_to_pend_def
  by (intro uniform_bindE uniform_forE uniform_spend_input uniform_modE)
     (simp add: twins_def ledger_of_def)

lemma check_pend_twins: "twins I s s' \<Longrightarrow> check_pend_replacement s t = check_pend_replacement s' t"
proof -
  assume t: "twins I s s'"
  have "check_pend_loop s t ws = check_pend_loop s' t ws" for ws
    by (induction ws) (auto simp: twins_reads(8)[OF t] Let_def)
  then show ?thesis by (simp add: check_pend_replacement_def twins_reads(2)[OF t])
qed

lemma verify_inputs_twins:
  assumes "twins I s s'"
  shows "verify_inputs E s t cp inps n chk = verify_inputs E s' t cp inps n chk"
proof -
  have v: "verify_input E s t cp inp = verify_input E s' t cp inp" for inp
    unfolding verify_input_def input_authorised_def twins_reads(6,9)[OF assms] check_pend_twins[OF assms] ..
  show ?thesis by (induction inps arbitrary: n chk) (auto simp: v split: sum.split option.split prod.split)
qed

lemma twins_remove: "twins I s s' \<Longrightarrow> twins I (remove_from_mempool i s) (remove_from_mempool i s')"
  by (auto simp: twins_def ledger_of_def remove_from_mempool_def mempool_getitem_def mempool_delitem_def)

lemma twins_remove_invalid: "twins I s s' \<Longrightarrow> twins I (remove_invalid_txn_from_mempool i s) (remove_invalid_txn_from_mempool i s')"
  unfolding remove_invalid_txn_from_mempool_def by (rule twins_remove) (simp add: twins_def ledger_of_def)

lemma twins_del_pending: "twins I s s' \<Longrightarrow> twins I (del_from_pending E t s) (del_from_pending E t s')"
  by (simp add: twins_def ledger_of_def del_from_pending_def)

lemma uniform_verify: "uniform I (verify_txn E cp t)"
proof (rule uniformI)
  fix s s' assume t: "twins I s s'"
  show "fst (verify_txn E cp t s) = fst (verify_txn E cp t s') \<and> twins I (snd (verify_txn E cp t s)) (snd (verify_txn E cp t s'))"
    using t unfolding verify_txn_def twins_reads(7)[OF t] verify_inputs_twins[OF t]
    by (auto simp: twins_remove twins_remove_invalid twins_del_pending split: sum.split option.split pend_check.split)
qed

lemma uniform_accept: "uniform I (accept_txn E t ts)"
  unfolding accept_txn_def
  by (intro uniform_bindE uniform_modE) (auto simp: uniform_write_db uniform_write_pend twins_def ledger_of_def)

lemma uniform_process_txn:
  assumes "i \<in> I"
  shows "uniform I (process_txn E i)"
proof (rule uniformI)
  fix s s' assume t: "twins I s s'"
  have m: "mempool_getitem (mempool s) i = mempool_getitem (mempool s') i" using t assms by (simp add: twins_def)
  have k: "uniform I (bindE (verify_txn E True x) (\<lambda>valid. bindE (if valid then accept_txn E x ts else ret ()) (\<lambda>_.
      modE (\<lambda>s1. remove_from_mempool i (s1\<lparr>txns_processed := Suc (txns_processed s1)\<rparr>)))))" for x ts
    by (intro uniform_bindE uniform_verify uniform_modE)
       (auto simp: uniform_accept uniform_ret intro!: twins_remove simp: twins_def ledger_of_def)
  show "fst (process_txn E i s) = fst (process_txn E i s') \<and> twins I (snd (process_txn E i s)) (snd (process_txn E i s'))"
  proof (cases "mempool_getitem (mempool s') i")
    case None
    with m t show ?thesis by (simp add: process_txn_def)
  next
    case (Some x)
    with m t k[of x "py_int (current_time s' * of_int TIME_MULTIPLIER)"] show ?thesis
      by (simp add: process_txn_def Let_def twins_reads(5)[OF t] uniform_def)
  qed
qed

lemma uniform_update_pend: "uniform I (update_pend E)"
proof (rule uniformI)
  fix s s' assume t: "twins I s s'"
  have step: "uniform I (update_pend_step E kw)" for kw
  proof (rule uniformI)
    fix u u' assume v: "twins I u u'"
    have "uniform I (bindE (modE (del_from_pending E (txn (snd kw)))) (\<lambda>_. bindE (verify_txn E False (txn (snd kw)))
        (\<lambda>valid. if valid then write_txn_to_db E (txn (snd kw)) (timestamp (snd kw)) else ret ())))"
      by (intro uniform_bindE uniform_modE uniform_verify)
         (auto simp: twins_del_pending uniform_write_db uniform_ret)
    with v show "fst (update_pend_step E kw u) = fst (update_pend_step E kw u') \<and>
        twins I (snd (update_pend_step E kw u)) (snd (update_pend_step E kw u'))"
      by (simp add: update_pend_step_def Let_def twins_reads(8)[OF v] uniform_def)
  qed
  have "uniform I (forE (update_pend_step E) (store_items (pend s')))" by (rule uniform_forE[OF step])
  with t show "fst (update_pend E s) = fst (update_pend E s') \<and> twins I (snd (update_pend E s)) (snd (update_pend E s'))"
    by (simp add: update_pend_def twins_reads(2)[OF t] uniform_def)
qed

section \<open>What blocks take from the mempool\<close>

definition shrinks :: "storage \<Rightarrow> storage \<Rightarrow> bool" where
  "shrinks s s' \<longleftrightarrow> (\<forall>i t. mempool_getitem (mempool s') i = Some t \<longrightarrow> mempool_getitem (mempool s) i = Some t)"

lemma shrinks_trans: "shrinks s t \<Longrightarrow> shrinks t u \<Longrightarrow> shrinks s u"
  by (simp add: shrinks_def)

lemma shrinks_same: "mempool s' = mempool s \<Longrightarrow> shrinks s s'"
  by (simp add: shrinks_def)

lemma shrinks_bindE:
  assumes "\<And>s. shrinks s (snd (m s))" and "\<And>x s. shrinks s (snd (k x s))"
  shows "shrinks s (snd (bindE m k s))"
proof (cases "m s")
  case (Pair r t)
  with assms(1)[of s] assms(2)[where s = t] show ?thesis
    by (cases r) (auto simp: bindE_def intro: shrinks_trans)
qed

lemma shrinks_forE: "(\<And>x s. shrinks s (snd (f x s))) \<Longrightarrow> shrinks s (snd (forE f xs s))"
  by (induction xs arbitrary: s) (auto intro: shrinks_bindE shrinks_same)

lemma shrinks_remove: "shrinks s (remove_from_mempool i s)"
  by (auto simp: shrinks_def remove_from_mempool_def mempool_getitem_def mempool_delitem_def)

lemma shrinks_spend_input: "shrinks s (snd (spend_input E inp s))"
  by (rule shrinks_same) (simp add: spend_input_def storage_setitem_def Let_def split: sum.split option.split)

lemma shrinks_write_db: "shrinks s (snd (write_txn_to_db E t ts s))"
  unfolding write_txn_to_db_def
  by (intro shrinks_bindE shrinks_forE shrinks_spend_input) (simp add: shrinks_same storage_setitem_def Let_def)

lemma shrinks_write_pend: "shrinks s (snd (write_txn_to_pend E t ts s))"
  unfolding write_txn_to_pend_def
  by (intro shrinks_bindE shrinks_forE shrinks_spend_input) (simp add: shrinks_same)

lemma shrinks_verify: "shrinks s (snd (verify_txn E cp t s))"
proof -
  have "shrinks s (remove_invalid_txn_from_mempool i s)" for i
    unfolding remove_invalid_txn_from_mempool_def by (rule shrinks_trans[OF shrinks_same shrinks_remove]) simp
  then show ?thesis
    by (auto simp: verify_txn_def shrinks_remove del_from_pending_def intro: shrinks_same
        split: sum.split option.split pend_check.split)
qed

lemma shrinks_process_txn: "shrinks s (snd (process_txn E i s))"
proof (cases "mempool_getitem (mempool s) i")
  case None
  then show ?thesis by (simp add: process_txn_def shrinks_same)
next
  case (Some t)
  have a: "shrinks u (snd (accept_txn E t ts u))" for ts u
    unfolding accept_txn_def
    by (rule shrinks_bindE) (auto simp: shrinks_write_db shrinks_write_pend intro: shrinks_same)
  have r: "shrinks u (remove_from_mempool i (u\<lparr>txns_processed := n\<rparr>))" for u n
    by (rule shrinks_trans[OF shrinks_same shrinks_remove]) simp
  from Some show ?thesis
    unfolding process_txn_def by (auto simp: Let_def a r shrinks_verify intro!: shrinks_bindE intro: shrinks_same)
qed

lemma shrinks_update_pend: "shrinks s (snd (update_pend E s))"
proof -
  have "shrinks u (snd (update_pend_step E kw u))" for kw u
    by (auto simp: update_pend_step_def Let_def shrinks_verify shrinks_write_db del_from_pending_def
        intro!: shrinks_bindE intro: shrinks_same)
  then show ?thesis unfolding update_pend_def by (rule shrinks_forE)
qed

section \<open>Two same_ledger\<close>

text \<open>
  The same ledger and queue of blocks; the mempools may differ, but hold each transaction under its
  id.
\<close>

definition pool_ok :: "transaction set \<Rightarrow> storage \<Rightarrow> bool" where
  "pool_ok U s \<longleftrightarrow> (\<forall>i t. mempool_getitem (mempool s) i = Some t \<longrightarrow> t \<in> U \<and> txid t = i)"

lemma pool_ok_shrinks: "pool_ok U s \<Longrightarrow> shrinks s s' \<Longrightarrow> pool_ok U s'"
  unfolding pool_ok_def shrinks_def by blast

definition same_ledger :: "transaction set \<Rightarrow> storage \<Rightarrow> storage \<Rightarrow> bool" where
  "same_ledger U s s' \<longleftrightarrow> ledger_of s = ledger_of s' \<and> block_queue s = block_queue s' \<and> processing s = processing s' \<and>
     pool_ok U s \<and> pool_ok U s'"

lemma replicas_sym: "same_ledger U s s' \<Longrightarrow> same_ledger U s' s"
  by (auto simp: same_ledger_def)

text \<open>Events that bring transactions, or hand requests to the network.\<close>

fun arrival :: "event \<Rightarrow> bool" where
  "arrival (Ev_puttxn raw b) = True"
| "arrival (Ev_puttxn_batch raws b) = True"
| "arrival Ev_reactor = True"
| "arrival _ = False"

text \<open>What an arrival leaves alone.\<close>

definition quiet_step :: "transaction set \<Rightarrow> storage \<Rightarrow> storage \<Rightarrow> bool" where
  "quiet_step U s s' \<longleftrightarrow> ledger_of s' = ledger_of s \<and> block_queue s' = block_queue s \<and> processing s' = processing s \<and>
     (pool_ok U s \<longrightarrow> pool_ok U s')"

lemma quiet_step_trans: "quiet_step U s t \<Longrightarrow> quiet_step U t u \<Longrightarrow> quiet_step U s u"
  by (simp add: quiet_step_def)

lemma quiet_step_same: "ledger_of s' = ledger_of s \<Longrightarrow> block_queue s' = block_queue s \<Longrightarrow> processing s' = processing s \<Longrightarrow>
    mempool s' = mempool s \<Longrightarrow> quiet_step U s s'"
  by (simp add: quiet_step_def pool_ok_def)

lemma quiet_puttxn:
  assumes "\<forall>t. from_wire W raw = Inr t \<longrightarrow> t \<in> U"
  shows "quiet_step U s (snd (jsonrpc_puttxn W raw b s))"
proof -
  have "quiet_step U u (add_to_mempool t u)" if "from_wire W raw = Inr t" for t u
    using assms that
    by (auto simp: quiet_step_def add_to_mempool_def ledger_of_def pool_ok_def mempool_getitem_def mempool_setitem_def)
  moreover have "quiet_step U u (count_first u)" "quiet_step U u (broadcast_txn raw u)" for u
    by (rule quiet_step_same; simp add: count_first_def broadcast_txn_def ledger_of_def)+
  ultimately have "quiet_step U s (count_first s)" "quiet_step U s (broadcast_txn raw (count_first s))"
      "from_wire W raw = Inr t \<Longrightarrow> quiet_step U s (add_to_mempool t (count_first s))"
      "from_wire W raw = Inr t \<Longrightarrow> quiet_step U s (broadcast_txn raw (add_to_mempool t (count_first s)))" for t
    using quiet_step_trans by blast+
  then show ?thesis by (auto simp: jsonrpc_puttxn_def Let_def split: sum.split)
qed

lemma quiet_arrival:
  assumes "arrival ev" and "arrives W U ev"
  shows "quiet_step U s (snd (node_event E W ev s))"
proof (cases ev)
  case (Ev_puttxn raw b)
  with assms(2) quiet_puttxn[of W raw U s b] show ?thesis
    by (cases "jsonrpc_puttxn W raw b s") (auto simp: bindE_def split: sum.split)
next
  case (Ev_puttxn_batch raws b)
  let ?h = "\<lambda>s. let s1 = count_first s in if b then broadcast_txn_batch raws s1 else s1"
  have h: "quiet_step U s (?h s)"
    by (rule quiet_step_same) (simp_all add: Let_def count_first_def broadcast_txn_batch_def ledger_of_def)
  have "quiet_step U u (snd (forE (\<lambda>raw. bindE (jsonrpc_puttxn W raw False) (\<lambda>_. ret ())) rs u))"
    if "set rs \<subseteq> set raws" for rs u
    using that
  proof (induction rs arbitrary: u)
    case (Cons r rs)
    obtain x v where v: "jsonrpc_puttxn W r False u = (x, v)" by (cases "jsonrpc_puttxn W r False u")
    have "\<forall>t. from_wire W r = Inr t \<longrightarrow> t \<in> U" using Cons.prems assms(2) Ev_puttxn_batch by auto
    from quiet_puttxn[OF this, of u False] v have "quiet_step U u v" by simp
    with Cons v show ?case by (cases x) (auto simp: bindE_def intro: quiet_step_trans)
  qed (simp add: quiet_step_same)
  from this[of raws "?h s"] h show ?thesis
    unfolding Ev_puttxn_batch node_event.simps jsonrpc_puttxn_batch_def bindE_modE
    by (rule quiet_step_trans[rotated]) simp
next
  case Ev_reactor
  have "quiet_step U u (snd (run_task t u))" for t u
    by (cases t) (auto simp: req_txn_def Let_def ledger_of_def intro!: quiet_step_same)
  moreover have "quiet_step U s (s\<lparr>reactor_queue := q\<rparr>)" for q by (rule quiet_step_same) (simp_all add: ledger_of_def)
  ultimately show ?thesis
    by (auto simp: Ev_reactor intro: quiet_step_trans quiet_step_same split: list.split)
qed (use assms in simp_all)

section \<open>Blocks\<close>

lemma twins_of_replicas:
  assumes "same_ledger U s s'" and "inj_on txid U" and "missing_in s blk = []" and "missing_in s' blk = []"
  shows "twins (set blk) s s'"
proof -
  have "mempool_getitem (mempool s) i = mempool_getitem (mempool s') i" if "i \<in> set blk" for i
  proof -
    have "mempool_getitem (mempool s) i \<noteq> None" "mempool_getitem (mempool s') i \<noteq> None"
      using that assms(3,4) unfolding missing_in_def filter_empty_conv by auto
    then obtain t t' where t: "mempool_getitem (mempool s) i = Some t" "mempool_getitem (mempool s') i = Some t'"
      by blast
    then have "t \<in> U" "t' \<in> U" "txid t = txid t'" using assms(1) by (auto simp: same_ledger_def pool_ok_def)
    with assms(2) t show ?thesis by (simp add: inj_on_def)
  qed
  with assms(1) show ?thesis by (simp add: twins_def same_ledger_def)
qed

lemma process_block_pipe:
  assumes "process_block E blk s = (r, s')"
  shows "block_queue s' = (case r of Inl _ \<Rightarrow> block_queue s | Inr _ \<Rightarrow> tl (block_queue s))"
    and "processing s' = (case r of Inl _ \<Rightarrow> processing s | Inr _ \<Rightarrow> False)"
proof -
  obtain q u where f: "forE (process_txn E) blk (s\<lparr>processing_block := True\<rparr>) = (q, u)"
    by (cases "forE (process_txn E) blk (s\<lparr>processing_block := True\<rparr>)")
  have p: "block_queue u = block_queue s" "processing u = processing s"
    using process_txns_pipe[OF f] by (simp_all add: pipe_def)
  have "(r, s') = (case q of Inl e \<Rightarrow> (Inl e, u) | Inr _ \<Rightarrow> finish_block u)"
    using assms f by (cases q) (auto simp: process_block_def bindE_modE bindE_def)
  with p show "block_queue s' = (case r of Inl _ \<Rightarrow> block_queue s | Inr _ \<Rightarrow> tl (block_queue s))"
    and "processing s' = (case r of Inl _ \<Rightarrow> processing s | Inr _ \<Rightarrow> False)"
    by (auto simp: finish_block_def split: sum.splits list.splits)
qed

text \<open>A block processed by two nodes that agree on its transactions and have blocks to process.\<close>

lemma process_block_twins:
  assumes "twins (set blk) s s'" and "block_queue s = block_queue s'"
    and "process_block E blk s = (r, u)" and "process_block E blk s' = (r', u')"
  shows "r = r' \<and> ledger_of u = ledger_of u'"
proof -
  let ?a = "s\<lparr>processing_block := True\<rparr>" and ?a' = "s'\<lparr>processing_block := True\<rparr>"
  have t: "twins (set blk) ?a ?a'" using assms(1) by (simp add: twins_def ledger_of_def)
  obtain q v where f: "forE (process_txn E) blk ?a = (q, v)" by (cases "forE (process_txn E) blk ?a")
  have "uniform (set blk) (forE (process_txn E) blk)" by (rule uniform_forE) (rule uniform_process_txn)
  from uniformD[OF this t f] obtain v' where f': "forE (process_txn E) blk ?a' = (q, v')" and v: "twins (set blk) v v'"
    by blast
  have b: "block_queue v = block_queue v'"
    using process_txns_pipe[OF f] process_txns_pipe[OF f'] assms(2) by (simp add: pipe_def)
  have w: "process_block E blk s = (case q of Inl e \<Rightarrow> (Inl e, v) | Inr _ \<Rightarrow> finish_block v)"
    "process_block E blk s' = (case q of Inl e \<Rightarrow> (Inl e, v') | Inr _ \<Rightarrow> finish_block v')"
    using f f' by (cases q; simp add: process_block_def bindE_modE bindE_def)+
  have l: "ledger_of v = ledger_of v'" using v by (simp add: twins_def)
  show ?thesis
  proof (cases q)
    case (Inl e)
    with w l assms(3,4) show ?thesis by simp
  next
    case (Inr y)
    have "fst (finish_block v) = fst (finish_block v') \<and> ledger_of (snd (finish_block v)) = ledger_of (snd (finish_block v'))"
      using l b by (cases "block_queue v'") (simp_all add: finish_block_def ledger_of_def)
    with w Inr assms(3,4) show ?thesis by (metis fst_conv snd_conv sum.simps(6))
  qed
qed

lemma shrinks_process_block: "shrinks s (snd (process_block E blk s))"
  unfolding process_block_def
  by (intro shrinks_bindE shrinks_forE shrinks_process_txn)
     (auto simp: finish_block_def intro: shrinks_same split: list.split)

definition ready :: "storage \<Rightarrow> bool" where
  "ready s \<longleftrightarrow> processing s \<or> block_queue s = [] \<or> missing_in s (block_txns (hd (block_queue s))) = []"

lemma replicas_try_process:
  assumes "same_ledger U s s'" and "inj_on txid U" and "ready s" and "ready s'"
  shows "same_ledger U (snd (try_process E s)) (snd (try_process E s'))"
proof (cases "processing s \<or> block_queue s = []")
  case True
  then have "try_process E s = (Inr (), s)" "try_process E s' = (Inr (), s')"
    using assms(1) by (auto simp: try_process_def same_ledger_def)
  with assms(1) show ?thesis by simp
next
  case False
  then obtain blk q where q: "block_queue s = blk # q" by (auto simp: neq_Nil_conv)
  have q': "block_queue s' = blk # q" "\<not> processing s'" using assms(1) q False by (auto simp: same_ledger_def)
  have m: "missing_in s (block_txns blk) = []" "missing_in s' (block_txns blk) = []"
    using assms(3,4) False q q' by (auto simp: ready_def)
  let ?f = "\<lambda>s. s\<lparr>current_time := block_time blk, current_block := block_txns blk, processing := True,
      adding_block := False, missing_txns := []\<rparr>"
  have tp: "try_process E s = process_block E (block_txns blk) (?f s)" "try_process E s' = process_block E (block_txns blk) (?f s')"
    using try_process_cases[of s blk q E] try_process_cases[of s' blk q E] False q q' m by simp_all
  obtain r u where u: "process_block E (block_txns blk) (?f s) = (r, u)" by (cases "process_block E (block_txns blk) (?f s)")
  obtain r' u' where u': "process_block E (block_txns blk) (?f s') = (r', u')" by (cases "process_block E (block_txns blk) (?f s')")
  have "twins (set (block_txns blk)) (?f s) (?f s')"
    using twins_of_replicas[OF assms(1,2) m] by (simp add: twins_def ledger_of_def)
  then have e: "r = r'" "ledger_of u = ledger_of u'"
    using process_block_twins[OF _ _ u u'] q q' by simp_all
  have "block_queue u = block_queue u'" "processing u = processing u'"
    using process_block_pipe[OF u] process_block_pipe[OF u'] e q q' by (simp_all split: sum.split)
  moreover have "pool_ok U (?f s)" "pool_ok U (?f s')" using assms(1) by (simp_all add: same_ledger_def pool_ok_def)
  then have "pool_ok U u" "pool_ok U u'"
    using pool_ok_shrinks[of U "?f s" u] pool_ok_shrinks[of U "?f s'" u'] shrinks_process_block[of "?f s" E "block_txns blk"]
      shrinks_process_block[of "?f s'" E "block_txns blk"] u u'
    by simp_all
  ultimately show ?thesis using e tp u u' by (simp add: same_ledger_def)
qed

lemma replicas_block:
  assumes "same_ledger U s s'"
  shows "same_ledger U (snd (add_block_to_queue E blk s)) (snd (add_block_to_queue E blk s'))"
proof -
  obtain r u where u: "update_pend E s = (r, u)" by (cases "update_pend E s")
  have "twins {} s s'" using assms by (simp add: twins_def same_ledger_def)
  from uniformD[OF uniform_update_pend this u] obtain u' where u': "update_pend E s' = (r, u')" "twins {} u u'" by blast
  have p: "pipe v = pipe w" if "update_pend E w = (x, v)" for v w x
  proof -
    have "pipe t' = pipe t" if "update_pend_step E kw t = (y, t')" for kw t y t'
      using that by (auto simp: update_pend_step_def Let_def bindE_modE bindE_def split: if_splits prod.splits sum.splits
          dest!: verify_txn_pipe write_txn_to_db_pipe)
    then show ?thesis
      using forE_inv[where I = "\<lambda>t. pipe t = pipe w" and f = "update_pend_step E" and xs = "store_items (pend w)" and s = w
          and r = x and u = v] that unfolding update_pend_def by metis
  qed
  have "block_queue u = block_queue u'" "processing u = processing u'"
    using p[OF u] p[OF u'(1)] assms by (simp_all add: pipe_def same_ledger_def)
  moreover have "pool_ok U u" "pool_ok U u'"
    using assms pool_ok_shrinks[of U s u] pool_ok_shrinks[of U s' u'] shrinks_update_pend[of s E]
      shrinks_update_pend[of s' E] u u' by (simp_all add: same_ledger_def)
  ultimately have "same_ledger U u u'" using u'(2) by (simp add: same_ledger_def twins_def)
  then show ?thesis
    using u u'(1) by (cases r) (auto simp: add_block_to_queue_def bindE_def same_ledger_def ledger_of_def pool_ok_def)
qed

section \<open>Runs of two nodes\<close>

text \<open>
  A run without holes: no request for a missing transaction is answered, since a block is only
  taken up when its transactions are in the mempool.
\<close>

fun steady :: "wire \<Rightarrow> transaction set \<Rightarrow> event \<Rightarrow> storage \<Rightarrow> bool" where
  "steady W U (Ev_reply reply n i) s \<longleftrightarrow> False"
| "steady W U Ev_try_process s \<longleftrightarrow> ready s"
| "steady W U ev s \<longleftrightarrow> arrives W U ev"

fun run_events :: "env \<Rightarrow> wire \<Rightarrow> event list \<Rightarrow> storage \<Rightarrow> storage" where
  "run_events E W [] s = s"
| "run_events E W (ev # evs) s = run_events E W evs (snd (node_event E W ev s))"

fun smooth :: "env \<Rightarrow> wire \<Rightarrow> transaction set \<Rightarrow> event list \<Rightarrow> storage \<Rightarrow> bool" where
  "smooth E W U [] s \<longleftrightarrow> True"
| "smooth E W U (ev # evs) s \<longleftrightarrow> steady W U ev s \<and> smooth E W U evs (snd (node_event E W ev s))"

lemma run_events_append: "run_events E W (xs @ ys) s = run_events E W ys (run_events E W xs s)"
  by (induction xs arbitrary: s) auto

lemma smooth_append: "smooth E W U (xs @ ys) s \<longleftrightarrow> smooth E W U xs s \<and> smooth E W U ys (run_events E W xs s)"
  by (induction xs arbitrary: s) auto

lemma run_events_node_run:
  "node_run E W U s t \<Longrightarrow> smooth E W U evs t \<Longrightarrow> node_run E W U s (run_events E W evs t)"
proof (induction evs arbitrary: t)
  case (Cons ev evs)
  have "arrives W U ev" using Cons.prems(2) by (cases ev) auto
  with Cons show ?case by (auto intro: node_run.event)
qed simp

lemma replicas_quiet: "same_ledger U s s' \<Longrightarrow> quiet_step U s t \<Longrightarrow> same_ledger U t s'"
  by (auto simp: same_ledger_def quiet_step_def)

lemma replicas_arrival:
  assumes "same_ledger U s s'" and "arrival ev" and "steady W U ev s"
  shows "same_ledger U (snd (node_event E W ev s)) s'"
proof -
  have "arrives W U ev" using assms(2,3) by (cases ev) auto
  with assms show ?thesis by (blast intro: replicas_quiet quiet_arrival)
qed

lemma replicas_arrivals:
  "same_ledger U s s' \<Longrightarrow> filter (\<lambda>ev. \<not> arrival ev) evs = [] \<Longrightarrow> smooth E W U evs s \<Longrightarrow>
    same_ledger U (run_events E W evs s) s'"
proof (induction evs arbitrary: s)
  case (Cons ev evs)
  then have "arrival ev" "filter (\<lambda>ev. \<not> arrival ev) evs = []" by (auto split: if_splits)
  with Cons show ?case using replicas_arrival[of U s s' ev W E] by simp
qed simp

lemma replicas_step:
  assumes "same_ledger U s s'" and "inj_on txid U" and "\<not> arrival ev" and "steady W U ev s" and "steady W U ev s'"
  shows "same_ledger U (snd (node_event E W ev s)) (snd (node_event E W ev s'))"
  using assms replicas_try_process[OF assms(1,2)] replicas_block[OF assms(1)] by (cases ev) simp_all

lemma replicas_runs:
  assumes "inj_on txid U"
  shows "same_ledger U s s' \<Longrightarrow> filter (\<lambda>ev. \<not> arrival ev) evs = filter (\<lambda>ev. \<not> arrival ev) evs' \<Longrightarrow>
    smooth E W U evs s \<Longrightarrow> smooth E W U evs' s' \<Longrightarrow>
    same_ledger U (run_events E W evs s) (run_events E W evs' s')"
proof (induction evs arbitrary: s s' evs')
  case Nil
  then show ?case using replicas_arrivals[OF replicas_sym] by (simp add: replicas_sym)
next
  case (Cons ev evs)
  show ?case
  proof (cases "arrival ev")
    case True
    with Cons.prems have "same_ledger U (snd (node_event E W ev s)) s'" by (intro replicas_arrival) simp_all
    with Cons True show ?thesis by simp
  next
    case False
    with Cons.prems(2) have "filter (\<lambda>ev. \<not> arrival ev) evs' = ev # filter (\<lambda>ev. \<not> arrival ev) evs" by simp
    then obtain pre post where e: "evs' = pre @ ev # post" and p: "\<forall>x\<in>set pre. arrival x"
      and f: "filter (\<lambda>ev. \<not> arrival ev) evs = filter (\<lambda>ev. \<not> arrival ev) post"
      unfolding filter_eq_Cons_iff by auto
    let ?m = "run_events E W pre s'"
    have sm: "smooth E W U pre s'" "steady W U ev ?m" "smooth E W U post (snd (node_event E W ev ?m))"
      using Cons.prems(4) by (simp_all add: e smooth_append)
    have "filter (\<lambda>ev. \<not> arrival ev) pre = []" using p by (simp add: filter_empty_conv)
    then have "same_ledger U s ?m" using replicas_arrivals[OF replicas_sym[OF Cons.prems(1)] _ sm(1)] replicas_sym by blast
    then have "same_ledger U (snd (node_event E W ev s)) (snd (node_event E W ev ?m))"
      using Cons.prems(3) sm(2) False by (intro replicas_step[OF _ assms]) simp_all
    from Cons.IH[OF this f] Cons.prems(3) sm(3) show ?thesis by (simp add: e run_events_append)
  qed
qed

text \<open>
  C9. Nodes that take up the same blocks in the same order agree. Two nodes start with the same
  ledger and queue of blocks. Transactions reach each of them by RPC calls of its own, in any order
  and any number of times; the replicated blocks and the calls of \<open>try_process\<close> come in the same
  order on both, a block's transactions before it is taken up, and no two transactions share an id.
  Then they end with the same transactions, flags, pending payments, indexes, clock and queue of
  blocks, whatever their mempools.
\<close>

theorem replicas_agree:
  assumes "inj_on txid U" and "same_ledger U s s'"
    and "filter (\<lambda>ev. \<not> arrival ev) evs = filter (\<lambda>ev. \<not> arrival ev) evs'"
    and "smooth E W U evs s" and "smooth E W U evs' s'"
  shows "db (run_events E W evs s) = db (run_events E W evs' s') \<and>
    pend (run_events E W evs s) = pend (run_events E W evs' s') \<and>
    pub_outs (run_events E W evs s) = pub_outs (run_events E W evs' s') \<and>
    pub_outs_pend (run_events E W evs s) = pub_outs_pend (run_events E W evs' s') \<and>
    current_time (run_events E W evs s) = current_time (run_events E W evs' s') \<and>
    block_queue (run_events E W evs s) = block_queue (run_events E W evs' s')"
  using replicas_runs[OF assms] by (simp add: same_ledger_def ledger_of_def)

definition ex_start :: storage where
  "ex_start = ex_state\<lparr>block_queue := [], mempool_list := [], mempool := []\<rparr>"

text \<open>The payment reaches one node before its block, the other after it and twice more.\<close>

definition ex_early_events :: "event list" where
  "ex_early_events = [Ev_puttxn [2] True, Ev_block \<lparr>block_time = 1, block_txns = [[2]]\<rparr>, Ev_try_process]"

definition ex_late_events :: "event list" where
  "ex_late_events = [Ev_block \<lparr>block_time = 1, block_txns = [[2]]\<rparr>, Ev_puttxn_batch [[2], [2]] False,
     Ev_try_process, Ev_reactor, Ev_puttxn [2] True]"

lemma ex_payment_smooth:
  "smooth ex_env ex_wire {ex_pay} ex_early_events ex_start" "smooth ex_env ex_wire {ex_pay} ex_late_events ex_start"
proof -
  have "ready (run_events ex_env ex_wire (take 2 ex_early_events) ex_start)"
    "ready (run_events ex_env ex_wire (take 2 ex_late_events) ex_start)"
    by code_simp+
  then show "smooth ex_env ex_wire {ex_pay} ex_early_events ex_start" "smooth ex_env ex_wire {ex_pay} ex_late_events ex_start"
    by (simp_all add: ex_early_events_def ex_late_events_def ex_wire_def del: node_event.simps)
qed

theorem replicas_agree_witness:
  "db (run_events ex_env ex_wire ex_early_events ex_start) = db (run_events ex_env ex_wire ex_late_events ex_start) \<and>
   storage_contains (run_events ex_env ex_wire ex_early_events ex_start) [2] \<and>
   mempool_list (run_events ex_env ex_wire ex_early_events ex_start) \<noteq>
     mempool_list (run_events ex_env ex_wire ex_late_events ex_start)"
proof -
  have "storage_contains (run_events ex_env ex_wire ex_early_events ex_start) [2]"
    "mempool_list (run_events ex_env ex_wire ex_early_events ex_start) \<noteq>
       mempool_list (run_events ex_env ex_wire ex_late_events ex_start)"
    by code_simp+
  moreover have "same_ledger {ex_pay} ex_start ex_start"
    by (simp add: same_ledger_def pool_ok_def ex_start_def mempool_getitem_def)
  from replicas_agree[OF _ this _ ex_payment_smooth]
  have "db (run_events ex_env ex_wire ex_early_events ex_start) = db (run_events ex_env ex_wire ex_late_events ex_start)"
    by (simp add: ex_early_events_def ex_late_events_def)
  ultimately show ?thesis by blast
qed

definition ex_stray :: transaction where
  "ex_stray = \<lparr>txid = [7], inputs = [ex_in [6] 0 [10]], outputs = [ex_out 1 [10]], seq = 0, timelock = 0\<rparr>"

definition ex_onward :: transaction where
  "ex_onward = \<lparr>txid = [8], inputs = [ex_in [3] 0 [11]], outputs = [ex_out 1000 [12]], seq = 0, timelock = 0\<rparr>"

text \<open>
  A locked payment, one from an unknown output, and one that spends the locked payment's output,
  in three blocks. All three are in the mempools.
\<close>

definition ex_chain :: storage where
  "ex_chain = ex_state\<lparr>block_queue := [], mempool_list := [], mempool := [([3], ex_lock), ([7], ex_stray), ([8], ex_onward)]\<rparr>"

text \<open>One node processes each block as it comes, the other once all of them have come.\<close>

definition ex_prompt :: "event list" where
  "ex_prompt = [Ev_block \<lparr>block_time = 1, block_txns = [[3]]\<rparr>, Ev_try_process,
     Ev_block \<lparr>block_time = 10, block_txns = [[7]]\<rparr>, Ev_try_process,
     Ev_block \<lparr>block_time = 11, block_txns = [[8]]\<rparr>, Ev_try_process]"

definition ex_behind :: "event list" where
  "ex_behind = [Ev_block \<lparr>block_time = 1, block_txns = [[3]]\<rparr>,
     Ev_block \<lparr>block_time = 10, block_txns = [[7]]\<rparr>,
     Ev_block \<lparr>block_time = 11, block_txns = [[8]]\<rparr>, Ev_try_process, Ev_try_process, Ev_try_process]"

definition ex_payments :: "transaction set" where
  "ex_payments = {ex_lock, ex_stray, ex_onward, ex_pay}"

lemma ex_chain_replicas: "same_ledger ex_payments ex_chain ex_chain"
  by (auto simp: same_ledger_def pool_ok_def ex_chain_def mempool_getitem_def store_get_Cons ex_payments_def ex_defs
      ex_stray_def ex_onward_def split: if_splits)


end
