(* ===== verification/RaftMatching.thy ===== *)
theory RaftMatching
  imports RaftSpec
begin

text \<open>
  Log matching. Two entries of the same index and term in the logs of two nodes are the same entry,
  and the logs agree up to it. The statement is about clusters as in \<open>RaftElection\<close> that start with
  empty journals and keep no dump file, which is belcoin's configuration, as long as no entry is so
  large that it is sent in pieces and no full dump is sent.
\<close>

section \<open>What a handler appends and sends\<close>

text \<open>Entries of a term with consecutive indices.\<close>

fun numbered :: "int \<Rightarrow> int \<Rightarrow> entry list \<Rightarrow> bool" where
  "numbered i t [] \<longleftrightarrow> True"
| "numbered i t (e # es) \<longleftrightarrow> idx e = i \<and> trm e = t \<and> numbered (i + 1) t es"

lemma numbered_append: "numbered i t (xs @ ys) \<longleftrightarrow> numbered i t xs \<and> numbered (i + int (length xs)) t ys"
  by (induction xs arbitrary: i) (auto simp: algebra_simps)

lemma numbered_last: "numbered (idx (last_entry es) + 1) t xs \<Longrightarrow> idx (last_entry (es @ xs)) = idx (last_entry es) + int (length xs)"
proof (induction xs rule: rev_induct)
  case (snoc x xs)
  then show ?case by (simp add: numbered_append last_entry_def)
qed simp

text \<open>A message whose entries stand in the log, behind the entry it names as the previous one.\<close>

fun cut_of :: "entry list \<Rightarrow> message \<Rightarrow> bool" where
  "cut_of es (Append_entries t c ns (Some (i, pt))) \<longleftrightarrow>
     (\<exists>pre e post. es = pre @ e # ns @ post \<and> i = first_idx es + int (length pre) \<and> pt = trm e)"
| "cut_of es _ \<longleftrightarrow> True"

lemma cut_of_append: "cut_of es m \<Longrightarrow> cut_of (es @ xs) m"
proof (induction es m rule: cut_of.induct)
  case (1 es t c ns i pt)
  then obtain pre e post where p: "es = pre @ e # ns @ post" "i = first_idx es + int (length pre)" "pt = trm e" by auto
  have "es \<noteq> []" using p(1) by simp
  then have "first_idx (es @ xs) = first_idx es" by (simp add: first_idx_def)
  moreover have "es @ xs = pre @ e # ns @ (post @ xs)" using p(1) by simp
  ultimately show ?case unfolding cut_of.simps using p(2,3) by metis
qed auto

lemma cut_of_other: "\<not> entries_message m \<Longrightarrow> cut_of es m"
  by (cases "(es, m)" rule: cut_of.cases) auto

definition grows_log :: "raft \<Rightarrow> raft \<Rightarrow> bool" where
  "grows_log s s' \<longleftrightarrow> current_term s' = current_term s \<and> (state s' = state s \<or> state s' = FOLLOWER) \<and>
     (\<exists>xs. raft_log s' = raft_log s @ xs \<and> numbered (getCurrentLogIndex s + 1) (current_term s) xs \<and>
        (xs \<noteq> [] \<longrightarrow> state s = LEADER)) \<and>
     (\<exists>ms. outbox s' = outbox s @ ms \<and> (\<forall>x\<in>set ms. cut_of (raft_log s') (snd x)))"

lemma grows_logI:
  assumes "current_term s' = current_term s" and "state s' = state s \<or> state s' = FOLLOWER"
    and "raft_log s' = raft_log s @ xs" and "numbered (getCurrentLogIndex s + 1) (current_term s) xs"
    and "xs \<noteq> [] \<Longrightarrow> state s = LEADER"
    and "outbox s' = outbox s @ ms" and "\<And>x. x \<in> set ms \<Longrightarrow> cut_of (raft_log s') (snd x)"
  shows "grows_log s s'"
  unfolding grows_log_def using assms by blast

lemma grows_log_trans: "grows_log s t \<Longrightarrow> grows_log t u \<Longrightarrow> grows_log s u"
proof -
  assume a: "grows_log s t" "grows_log t u"
  obtain xs ms where x: "raft_log t = raft_log s @ xs" "numbered (getCurrentLogIndex s + 1) (current_term s) xs"
    "xs \<noteq> [] \<longrightarrow> state s = LEADER" "outbox t = outbox s @ ms" "\<forall>x\<in>set ms. cut_of (raft_log t) (snd x)"
    using a(1) unfolding grows_log_def by blast
  obtain ys ns where y: "raft_log u = raft_log t @ ys" "numbered (getCurrentLogIndex t + 1) (current_term t) ys"
    "ys \<noteq> [] \<longrightarrow> state t = LEADER" "outbox u = outbox t @ ns" "\<forall>x\<in>set ns. cut_of (raft_log u) (snd x)"
    using a(2) unfolding grows_log_def by blast
  have st: "current_term t = current_term s" "state t = state s \<or> state t = FOLLOWER" "current_term u = current_term t"
    "state u = state t \<or> state u = FOLLOWER"
    using a by (auto simp: grows_log_def)
  have "getCurrentLogIndex t = getCurrentLogIndex s + int (length xs)"
    using numbered_last[of "raft_log s"] x(1,2) by (simp add: getCurrentLogIndex_def)
  then have n: "numbered (getCurrentLogIndex s + 1) (current_term s) (xs @ ys)"
    using x(2) y(2) st by (simp add: numbered_append algebra_simps)
  have "cut_of (raft_log u) (snd x)" if "x \<in> set (ms @ ns)" for x
    using that x(5) y(1,5) cut_of_append by auto
  then show ?thesis
    using x y st n by (intro grows_logI[where xs = "xs @ ys" and ms = "ms @ ns"]) auto
qed

lemma grows_log_send: "cut_of (raft_log s) m \<Longrightarrow> grows_log s (node_send p m s)"
  by (rule grows_logI[where xs = "[]" and ms = "if connected p then [(peer_addr p, m)] else []"])
     (auto simp: node_send_def)

lemma grows_log_same_log: "ballot s' = ballot s \<Longrightarrow> raft_log s' = raft_log s \<Longrightarrow> grows_log s s'"
  by (rule grows_logI[where xs = "[]" and ms = "[]"]) (auto simp: ballot_def)

lemma grows_log_same: "standing s' = standing s \<Longrightarrow> grows_log s s'"
  by (rule grows_log_same_log) (simp_all add: standing_def)

text \<open>The entries a round sends follow the entry it names.\<close>

lemma getPrev_Some:
  assumes "getPrevLogIndexTerm n es = Some (i, pt)"
  obtains e where "i = n - 1" "pt = trm e" "first_idx es \<le> n - 1" "nat (n - 1 - first_idx es) < length es"
    "e = es ! nat (n - 1 - first_idx es)"
proof -
  let ?d = "nat (n - 1 - first_idx es)"
  have f: "first_idx es \<le> n - 1"
    using assms by (auto simp: getPrevLogIndexTerm_def getEntries_def split: if_splits)
  with assms have c: "(case take 1 (drop ?d es) of [] \<Rightarrow> None | e # _ \<Rightarrow> Some (n - 1, trm e)) = Some (i, pt)"
    by (simp add: getPrevLogIndexTerm_def getEntries_def Let_def)
  have l: "?d < length es" using c by (cases "?d < length es") simp_all
  then have "take 1 (drop ?d es) = [es ! ?d]" by (simp add: take_Suc hd_drop_conv_nth)
  with c have "i = n - 1" "pt = trm (es ! ?d)" by auto
  with f l that show thesis by blast
qed

lemma prev_cut:
  assumes "getPrevLogIndexTerm n es = Some (i, pt)"
  shows "cut_of es (Append_entries t c (take k (drop (nat (n - first_idx es)) es)) (Some (i, pt)))"
proof -
  from assms obtain e where p: "i = n - 1" "pt = trm e" "first_idx es \<le> n - 1" "nat (n - 1 - first_idx es) < length es"
    "e = es ! nat (n - 1 - first_idx es)" by (rule getPrev_Some)
  let ?d = "nat (n - 1 - first_idx es)"
  have d: "nat (n - first_idx es) = Suc ?d" using p(3) by simp
  have "es = take ?d es @ e # take k (drop (Suc ?d) es) @ drop k (drop (Suc ?d) es)"
    unfolding append_take_drop_id p(5) by (rule id_take_nth_drop[OF p(4)])
  moreover have "i = first_idx es + int (length (take ?d es))" using p(1,3,4) by simp
  ultimately show ?thesis unfolding cut_of.simps d using p(2) by blast
qed

lemma grows_log_send_entries:
  assumes "\<And>t c. cut_of (raft_log s) (Append_entries t c es prev)"
  shows "grows_log s (send_entries R p es prev s)"
proof -
  have "grows_log u (fold (\<lambda>(k, d). node_send p (Append_part t c k d prev)) ps u)" for u t c ps
  proof (induction ps arbitrary: u)
    case (Cons x ps)
    have "grows_log u (node_send p (Append_part t c (fst x) (snd x) prev) u)" by (rule grows_log_send) simp
    with Cons show ?case by (simp add: case_prod_beta grows_log_trans)
  qed (simp add: grows_log_same)
  with assms show ?thesis by (auto simp: send_entries_def Let_def intro: grows_log_send)
qed

lemma grows_log_entries:
  assumes "first_idx (raft_log s) < next_of s p"
  shows "grows_log s (entries_round R p s)"
proof -
  let ?n = "next_of s p" and ?es = "raft_log s"
  have c: "cut_of ?es (Append_entries t c (take k (drop (nat (?n - first_idx ?es)) ?es)) (getPrevLogIndexTerm ?n ?es))" for t c k
    using prev_cut[of ?n ?es _ _ t c k] by (cases "getPrevLogIndexTerm ?n ?es") auto
  have e: "getEntries (Some ?n) None (Some m) ?es =
      take (size_prefix m 0 (drop (nat (?n - first_idx ?es)) ?es)) (drop (nat (?n - first_idx ?es)) ?es)" for m
    using assms by (simp add: getEntries_def Let_def)
  have "grows_log s (send_entries R p (getEntries (Some ?n) None (Some m) ?es) (getPrevLogIndexTerm ?n ?es)
      (s\<lparr>next_index := ni\<rparr>))" for m ni
    by (rule grows_log_trans[OF grows_log_same grows_log_send_entries]) (use c e in \<open>simp_all add: standing_defs\<close>)
  moreover have "grows_log s (send_entries R p [] (getPrevLogIndexTerm ?n ?es) s)"
    by (rule grows_log_send_entries) (use c[where k = 0] in simp)
  ultimately show ?thesis unfolding entries_round_def Let_def by auto
qed

interpretation lg: log_frame grows_log
proof unfold_locales
  show "grows_log s s'" if "state s = LEADER" "ballot s' = ballot s"
    "raft_log s' = raft_log s @ [Entry c (getCurrentLogIndex s + 1) (current_term s)]" for s s' c
    using that by (intro grows_logI[where xs = "[Entry c (getCurrentLogIndex s + 1) (current_term s)]" and ms = "[]"])
      (auto simp: ballot_def)
  show "grows_log s (s\<lparr>state := FOLLOWER, leader := None\<rparr>)" for s
    by (rule grows_logI[where xs = "[]" and ms = "[]"]) auto
qed (auto intro: grows_log_trans grows_log_same grows_log_same_log grows_log_entries grows_log_send cut_of_other)

section \<open>The history\<close>

text \<open>
  The command of every entry ever written, by index and term, and the term of the entry before
  it. A list of entries is a chain of the history behind the entry \<open>(i, t)\<close>.
\<close>

type_synonym history = "int \<Rightarrow> int \<Rightarrow> (bytes \<times> int) option"

fun chained :: "history \<Rightarrow> int \<Rightarrow> int \<Rightarrow> entry list \<Rightarrow> bool" where
  "chained G i t [] \<longleftrightarrow> True"
| "chained G i t (e # es) \<longleftrightarrow> idx e = i + 1 \<and> G (i + 1) (trm e) = Some (cmd e, t) \<and> chained G (i + 1) (trm e) es"

definition extends :: "history \<Rightarrow> history \<Rightarrow> bool" where
  "extends G G' \<longleftrightarrow> (\<forall>i t x. G i t = Some x \<longrightarrow> G' i t = Some x)"

definition last_term :: "int \<Rightarrow> entry list \<Rightarrow> int" where
  "last_term t es = (if es = [] then t else trm (last es))"

lemma extends_refl [simp, intro]: "extends G G"
  by (simp add: extends_def)

lemma chained_append:
  "chained G i t (xs @ ys) \<longleftrightarrow> chained G i t xs \<and> chained G (i + int (length xs)) (last_term t xs) ys"
  by (induction xs arbitrary: i t) (auto simp: last_term_def algebra_simps)

lemma chained_extends: "chained G i t es \<Longrightarrow> extends G G' \<Longrightarrow> chained G' i t es"
  by (induction es arbitrary: i t) (auto simp: extends_def)

text \<open>New entries are entered behind the last one of the leader's log.\<close>

fun enter :: "history \<Rightarrow> int \<Rightarrow> int \<Rightarrow> entry list \<Rightarrow> history" where
  "enter G i t [] = G"
| "enter G i t (e # es) = enter (G(i + 1 := (G (i + 1))(trm e := Some (cmd e, t)))) (i + 1) (trm e) es"

lemma enter_spec:
  "numbered (i + 1) T xs \<Longrightarrow> (\<And>j. j > i \<Longrightarrow> G j T = None) \<Longrightarrow>
    extends G (enter G i t xs) \<and> chained (enter G i t xs) i t xs \<and>
    (\<forall>j u x. enter G i t xs j u = Some x \<longrightarrow> G j u = Some x \<or> u = T \<and> i < j \<and> j \<le> i + int (length xs))"
proof (induction xs arbitrary: G i t)
  case (Cons e es)
  define G1 where "G1 = G(i + 1 := (G (i + 1))(T := Some (cmd e, t)))"
  have e: "idx e = i + 1" "trm e = T" "numbered (i + 1 + 1) T es" using Cons.prems(1) by simp_all
  have none: "G1 j T = None" if "j > i + 1" for j using that Cons.prems(2)[of j] by (simp add: G1_def)
  have G1: "G1 j u = Some x \<Longrightarrow> G j u = Some x \<or> u = T \<and> j = i + 1" for j u x by (auto simp: G1_def split: if_splits)
  note ih = Cons.IH[where G = G1 and i = "i + 1" and t = T, OF e(3) none]
  have g: "extends G G1" using Cons.prems(2)[of "i + 1"] by (auto simp: extends_def G1_def)
  have "G1 (i + 1) T = Some (cmd e, t)" by (simp add: G1_def)
  with ih have new: "enter G1 (i + 1) T es (i + 1) T = Some (cmd e, t)" unfolding extends_def by blast
  have r: "enter G i t (e # es) = enter G1 (i + 1) T es" using e(2) by (simp add: G1_def)
  show ?case unfolding r
  proof (intro conjI)
    show "extends G (enter G1 (i + 1) T es)" using ih g unfolding extends_def by blast
    show "chained (enter G1 (i + 1) T es) i t (e # es)" using ih e new by simp
    show "\<forall>j u x. enter G1 (i + 1) T es j u = Some x \<longrightarrow>
        G j u = Some x \<or> u = T \<and> i < j \<and> j \<le> i + int (length (e # es))"
    proof (intro allI impI)
      fix j u x assume "enter G1 (i + 1) T es j u = Some x"
      with ih have "G1 j u = Some x \<or> u = T \<and> i + 1 < j \<and> j \<le> i + 1 + int (length es)" by blast
      then show "G j u = Some x \<or> u = T \<and> i < j \<and> j \<le> i + int (length (e # es))"
        using G1[of j u x] by auto
    qed
  qed
qed (simp add: extends_def)

text \<open>A log of the history: the entry that every node writes first, and a chain behind it.\<close>

definition grounded :: "history \<Rightarrow> entry list \<Rightarrow> bool" where
  "grounded G es \<longleftrightarrow> (\<exists>xs. es = Entry [NO_OP] 1 0 # xs \<and> chained G 1 0 xs)"

lemma grounded_extends: "grounded G es \<Longrightarrow> extends G G' \<Longrightarrow> grounded G' es"
  unfolding grounded_def using chained_extends by blast

lemma grounded_Nil [simp]: "\<not> grounded G []"
  by (simp add: grounded_def)

lemma chained_last_idx: "chained G i t xs \<Longrightarrow> xs \<noteq> [] \<Longrightarrow> idx (last xs) = i + int (length xs)"
  by (induction xs arbitrary: i t) auto

lemma grounded_append:
  "es \<noteq> [] \<Longrightarrow> grounded G (es @ ys) \<longleftrightarrow> grounded G es \<and> chained G (int (length es)) (trm (last es)) ys"
  by (cases es) (auto simp: grounded_def chained_append last_term_def add.commute)

lemma grounded_last_idx: "grounded G es \<Longrightarrow> idx (last_entry es) = int (length es)"
  by (auto simp: grounded_def last_entry_def chained_last_idx)

lemma grounded_first_idx: "grounded G es \<Longrightarrow> first_idx es = 1"
  by (auto simp: grounded_def first_idx_def)

lemma grounded_nth:
  assumes "grounded G es" and "n < length es"
  shows "idx (es ! n) = int n + 1"
proof -
  have e: "es = take (Suc n) es @ drop (Suc n) es" by simp
  have "take (Suc n) es \<noteq> []" using assms(2) by (cases es) auto
  with assms(1) e have "grounded G (take (Suc n) es)" using grounded_append by metis
  from grounded_last_idx[OF this] assms(2) show ?thesis
    by (simp add: last_entry_def take_Suc_conv_app_nth split: if_splits)
qed

lemma grounded_step:
  assumes "grounded G es" and "Suc n < length es"
  shows "G (idx (es ! Suc n)) (trm (es ! Suc n)) = Some (cmd (es ! Suc n), trm (es ! n))"
proof -
  have e: "es = take (Suc n) es @ es ! Suc n # drop (Suc (Suc n)) es" using assms(2) by (simp add: id_take_nth_drop)
  have "take (Suc n) es \<noteq> []" using assms(2) by (cases es) auto
  with assms(1) e have "chained G (int (length (take (Suc n) es))) (trm (last (take (Suc n) es))) (es ! Suc n # drop (Suc (Suc n)) es)"
    using grounded_append by metis
  with assms(2) show ?thesis by (simp add: take_Suc_conv_app_nth add.commute)
qed

text \<open>Two logs of a history agree up to an index where their terms agree.\<close>

lemma grounded_match:
  assumes "grounded G es" and "grounded G fs" and "n < length es" and "n < length fs"
    and "trm (es ! n) = trm (fs ! n)"
  shows "take (Suc n) es = take (Suc n) fs"
  using assms(3-5)
proof (induction n)
  case 0
  with assms(1,2) show ?case by (auto simp: grounded_def)
next
  case (Suc n)
  have i: "idx (es ! Suc n) = idx (fs ! Suc n)" using grounded_nth[OF assms(1)] grounded_nth[OF assms(2)] Suc.prems by simp
  have "Some (cmd (es ! Suc n), trm (es ! n)) = Some (cmd (fs ! Suc n), trm (fs ! n))"
    using grounded_step[OF assms(1) Suc.prems(1)] grounded_step[OF assms(2) Suc.prems(2)] i Suc.prems(3) by simp
  then have c: "cmd (es ! Suc n) = cmd (fs ! Suc n)" "trm (es ! n) = trm (fs ! n)" by simp_all
  with i Suc.prems(3) have "es ! Suc n = fs ! Suc n" by (cases "es ! Suc n"; cases "fs ! Suc n") simp
  moreover have "take (Suc n) es = take (Suc n) fs" using Suc.IH Suc.prems c(2) by simp
  ultimately show ?case using Suc.prems by (simp add: take_Suc_conv_app_nth)
qed

section \<open>The invariant\<close>

text \<open>
  The messages of the network are chains of the history. Every entry was written by the winner of
  its term, who has left that term behind, or still leads it with the entry in its log, or has
  stepped down. So the next entry of a leader is new to the history.
\<close>

fun sent_ok :: "history \<Rightarrow> message \<Rightarrow> bool" where
  "sent_ok G (Append_entries t c es (Some (i, pt))) \<longleftrightarrow> chained G i pt es"
| "sent_ok G _ \<longleftrightarrow> True"

definition author :: "addr set \<Rightarrow> (addr \<Rightarrow> int \<Rightarrow> addr set) \<Rightarrow> (addr \<Rightarrow> raft) \<Rightarrow> int \<Rightarrow> int \<Rightarrow> addr \<Rightarrow> bool" where
  "author M C P i t a \<longleftrightarrow> a \<in> M \<and> majority_of M (C a t) \<and>
     (t < current_term (P a) \<or> t = current_term (P a) \<and>
        (state (P a) = FOLLOWER \<or> state (P a) = LEADER \<and> i \<le> getCurrentLogIndex (P a)))"

definition log_inv :: "addr set \<Rightarrow> (addr \<Rightarrow> int \<Rightarrow> addr set) \<Rightarrow> history \<Rightarrow> cluster \<Rightarrow> bool" where
  "log_inv M C G c \<longleftrightarrow> (\<forall>a\<in>M. grounded G (raft_log (procs c a))) \<and> (\<forall>x\<in>set (net c). sent_ok G (snd (snd x))) \<and>
     (\<forall>i t x. G i t = Some x \<longrightarrow> (\<exists>a. author M C (procs c) i t a))"

lemma sent_ok_other: "\<not> entries_message m \<Longrightarrow> sent_ok G m"
  by (cases "(G, m)" rule: sent_ok.cases) auto

lemma sent_ok_extends: "sent_ok G m \<Longrightarrow> extends G G' \<Longrightarrow> sent_ok G' m"
  by (induction G m rule: sent_ok.induct) (auto intro: chained_extends)

lemma sent_ok_cut:
  assumes "grounded G es" and "cut_of es m"
  shows "sent_ok G m"
proof (cases "entries_message m")
  case False
  then show ?thesis by (rule sent_ok_other)
next
  case True
  then obtain t c ns prev where m: "m = Append_entries t c ns prev" by (cases m) auto
  show ?thesis
  proof (cases prev)
    case (Some ip)
    then obtain i pt pre e post where p: "prev = Some (i, pt)" "es = pre @ e # ns @ post"
      "i = first_idx es + int (length pre)" "pt = trm e"
      using assms(2) m by (cases ip) auto
    have "grounded G ((pre @ [e]) @ ns @ post)" using assms(1) p(2) by simp
    then have "chained G (int (length (pre @ [e]))) (trm e) (ns @ post)" by (subst (asm) grounded_append) simp_all
    then have "chained G (int (length pre) + 1) (trm e) ns" by (simp add: chained_append add.commute)
    moreover have "i = int (length pre) + 1" using p(3) grounded_first_idx[OF assms(1)] by simp
    ultimately show ?thesis using m p(1,4) by (simp add: add.commute)
  qed (simp add: m)
qed

lemma author_other:
  assumes "author M C P i t b" and "b \<noteq> a" and "majority_of M (C b t) \<Longrightarrow> majority_of M (C' b t)"
  shows "author M C' (P(a := s)) i t b"
  using assms by (simp add: author_def)

text \<open>A step that writes no entry.\<close>

lemma keep_step:
  assumes inv: "log_inv M C G c" and a: "a \<in> M"
    and log: "grounded G (raft_log s')" and out: "\<forall>x\<in>set (outbox s'). sent_ok G (snd x)"
    and pos: "current_term (procs c a) < current_term s' \<or> current_term s' = current_term (procs c a) \<and>
      (state s' = FOLLOWER \<or> state s' = state (procs c a) \<and> getCurrentLogIndex (procs c a) \<le> getCurrentLogIndex s')"
    and v: "vote_inv M V' C' (flush a s' c)" and g: "ballots_grow C C'"
  shows "log_inv M C' G (flush a s' c)"
  unfolding log_inv_def
proof (intro conjI ballI allI impI)
  fix b assume "b \<in> M"
  with inv log show "grounded G (raft_log (procs (flush a s' c) b))" by (auto simp: log_inv_def)
next
  fix x assume "x \<in> set (net (flush a s' c))"
  with inv out show "sent_ok G (snd (snd x))" by (auto simp: log_inv_def)
next
  fix i t x assume "G i t = Some x"
  then obtain b where b: "author M C (procs c) i t b" using inv unfolding log_inv_def by blast
  have maj: "majority_of M (C' b t)" using b majority_grows[OF v _ g] by (simp add: author_def)
  show "\<exists>b. author M C' (procs (flush a s' c)) i t b"
  proof (cases "b = a")
    case False
    with b maj show ?thesis using author_other[OF b] by auto
  next
    case True
    with b maj pos a have "author M C' (procs (flush a s' c)) i t a"
      by (auto simp: author_def getCurrentLogIndex_def)
    then show ?thesis ..
  qed
qed

text \<open>A step of a leader: of the node \<open>u\<close>, which may just have won.\<close>

lemma lead_step:
  assumes inv: "log_inv M C G c" and a: "a \<in> M" and gr: "grows_log u s'"
    and u: "raft_log u = raft_log (procs c a)" "\<forall>x\<in>set (outbox u). \<not> entries_message (snd x)" "state u = LEADER"
    and pos: "current_term (procs c a) < current_term u \<or>
      current_term u = current_term (procs c a) \<and> state (procs c a) \<noteq> FOLLOWER"
    and win: "majority_of M (C' a (current_term u))"
    and v: "vote_inv M V' C' (flush a s' c)" and g: "ballots_grow C C'"
  shows "\<exists>G'. extends G G' \<and> log_inv M C' G' (flush a s' c)"
proof -
  let ?s = "procs c a" let ?L = "raft_log ?s" let ?T = "current_term u"
  let ?i = "getCurrentLogIndex ?s"
  have gL: "grounded G ?L" using inv a by (simp add: log_inv_def)
  have i: "?i = int (length ?L)" using grounded_last_idx[OF gL] by (simp add: getCurrentLogIndex_def)
  have ne: "?L \<noteq> []" using gL by auto
  obtain xs ms where x: "raft_log s' = ?L @ xs" "numbered (?i + 1) ?T xs" "outbox s' = outbox u @ ms"
    "\<forall>x\<in>set ms. cut_of (raft_log s') (snd x)" and st: "current_term s' = ?T" "state s' = LEADER \<or> state s' = FOLLOWER"
    using gr u(1,3) unfolding grows_log_def getCurrentLogIndex_def by auto
  have hist: "\<exists>b. author M C (procs c) j t b" if "G j t = Some y" for j t y
    using that inv unfolding log_inv_def by blast
  have keep: "majority_of M (C' b t)" if "author M C (procs c) j t b" for j t b
    using that majority_grows[OF v _ g] by (simp add: author_def)
  have fresh: "G j ?T = None" if "j > ?i" for j
  proof (rule ccontr)
    assume "G j ?T \<noteq> None"
    then obtain b where b: "author M C (procs c) j ?T b" using hist by blast
    have "b = a" using one_winner[OF v _ a keep[OF b] win] b by (simp add: author_def)
    with b pos that show False by (cases "state ?s") (auto simp: author_def)
  qed
  define G' where "G' = enter G ?i (trm (last ?L)) xs"
  have G': "extends G G'" "chained G' ?i (trm (last ?L)) xs"
    "\<And>j t y. G' j t = Some y \<Longrightarrow> G j t = Some y \<or> t = ?T \<and> j \<le> ?i + int (length xs)"
    using enter_spec[where G = G and t = "trm (last ?L)", OF x(2) fresh] unfolding G'_def by blast+
  have gs: "grounded G' (raft_log s')"
    using grounded_extends[OF gL G'(1)] G'(2) i ne unfolding x(1) by (simp add: grounded_append)
  have len: "getCurrentLogIndex s' = ?i + int (length xs)"
    using grounded_last_idx[OF gs] x(1) i by (simp add: getCurrentLogIndex_def)
  have sent: "sent_ok G' (snd x)" if "x \<in> set (outbox s')" for x
    using that x(3,4) u(2) sent_ok_cut[OF gs] sent_ok_other by auto
  have "log_inv M C' G' (flush a s' c)"
    unfolding log_inv_def
  proof (intro conjI ballI allI impI)
    fix b assume "b \<in> M"
    with inv gs G'(1) show "grounded G' (raft_log (procs (flush a s' c) b))"
      by (auto simp: log_inv_def intro: grounded_extends)
  next
    fix x assume "x \<in> set (net (flush a s' c))"
    with inv sent G'(1) show "sent_ok G' (snd (snd x))"
      by (auto simp: log_inv_def intro: sent_ok_extends)
  next
    fix j t y assume "G' j t = Some y"
    with G'(3) consider "G j t = Some y" | "t = ?T" "j \<le> ?i + int (length xs)" by blast
    then show "\<exists>b. author M C' (procs (flush a s' c)) j t b"
    proof cases
      case 1
      then obtain b where b: "author M C (procs c) j t b" using hist by blast
      show ?thesis
      proof (cases "b = a")
        case False
        with b keep[OF b] show ?thesis using author_other[OF b] by auto
      next
        case True
        have "author M C' (procs (flush a s' c)) j t a"
          using b keep[OF b] True pos st len unfolding author_def
          by (auto simp: getCurrentLogIndex_def)
        then show ?thesis ..
      qed
    next
      case 2
      have "author M C' (procs (flush a s' c)) j t a"
        using a win st len 2 unfolding author_def by (auto simp: getCurrentLogIndex_def)
      then show ?thesis ..
    qed
  qed
  with G'(1) show ?thesis by blast
qed

text \<open>Any step that a frame allows.\<close>

lemma grow_step:
  assumes inv: "log_inv M C G c" and vc: "vote_inv M V C c" and a: "a \<in> M" and gr: "grows_log (procs c a) s'"
    and v: "vote_inv M V' C' (flush a s' c)" and g: "ballots_grow C C'"
  shows "\<exists>G'. extends G G' \<and> log_inv M C' G' (flush a s' c)"
proof -
  let ?s = "procs c a"
  have o: "outbox ?s = []" using vc a by (simp add: vote_inv_def voters_ok_def)
  show ?thesis
  proof (cases "state ?s = LEADER")
    case True
    have "majority_of M (C' a (current_term ?s))"
      using majority_grows[OF v a g] leader_won[OF vc a True] by blast
    then show ?thesis using lead_step[OF inv a gr _ _ True _ _ v g] True o by simp
  next
    case False
    with gr obtain ms where l: "raft_log s' = raft_log ?s" "outbox s' = ms" "\<forall>x\<in>set ms. cut_of (raft_log s') (snd x)"
      "current_term s' = current_term ?s" "state s' = state ?s \<or> state s' = FOLLOWER"
      using o by (auto simp: grows_log_def)
    have gl: "grounded G (raft_log s')" using inv a l(1) by (simp add: log_inv_def)
    then have "log_inv M C' G (flush a s' c)"
      using l sent_ok_cut[OF gl] by (intro keep_step[OF inv a gl _ _ v g]) (auto simp: getCurrentLogIndex_def)
    then show ?thesis by blast
  qed
qed

section \<open>The tick\<close>

lemma standing_tick_load: "fullDumpFile (conf R) = None \<Longrightarrow> standing (tick_load R s) = standing s"
  by (simp add: tick_load_def standing_defs)

lemma tick_election_log:
  obtains (same) "tick_election R now rnd rounds s = s"
  | (stood) u where "raft_log u = raft_log s" "current_term u = current_term s + 1" "state u = CANDIDATE"
      "\<exists>ms. outbox u = outbox s @ ms \<and> (\<forall>x\<in>set ms. \<not> entries_message (snd x))" "tick_election R now rnd rounds s = u"
  | (won) u where "raft_log u = raft_log s" "current_term u = current_term s + 1" "majority s 1"
      "\<exists>ms. outbox u = outbox s @ ms \<and> (\<forall>x\<in>set ms. \<not> entries_message (snd x))"
      "tick_election R now rnd rounds s = onBecomeLeader R now rounds u"
proof (cases "\<exists>self. self_addr s = Some self \<and> state s \<noteq> LEADER \<and> election_deadline s < now \<and> connectedToAnyone s")
  case False
  then show ?thesis by (intro same) (auto simp: tick_election_def split: option.split)
next
  case True
  then obtain self where self: "self_addr s = Some self" by blast
  let ?s1 = "s\<lparr>election_deadline := now + generateRaftTimeout R rnd, leader := None, state := CANDIDATE,
      current_term := current_term s + 1, voted_for := Some self, votes_count := 1\<rparr>"
  let ?m = "Request_vote (current_term s + 1) (getCurrentLogIndex ?s1) (getCurrentLogTerm ?s1)"
  let ?s3 = "onLeaderChanged (?s1\<lparr>outbox := outbox s @ map (\<lambda>p. (peer_addr p, ?m)) (filter connected (nodes s))\<rparr>)"
  have e: "tick_election R now rnd rounds s = (if majority ?s3 1 then onBecomeLeader R now rounds ?s3 else ?s3)"
    using True self by (auto simp: tick_election_def Let_def fold_node_send onLeaderChanged_def)
  have f: "raft_log ?s3 = raft_log s" "current_term ?s3 = current_term s + 1" "state ?s3 = CANDIDATE"
    "\<exists>ms. outbox ?s3 = outbox s @ ms \<and> (\<forall>x\<in>set ms. \<not> entries_message (snd x))" "majority ?s3 1 = majority s 1"
    by (auto simp: onLeaderChanged_def majority_def)
  show ?thesis
  proof (cases "majority s 1")
    case True
    with e f show ?thesis by (intro won[of ?s3]) simp_all
  next
    case False
    with e f show ?thesis by (intro stood[of ?s3]) simp_all
  qed
qed

lemma tick_step:
  assumes inv: "log_inv M C G c" and vc: "vote_inv M V C c" and a: "a \<in> M"
    and s': "s' = snd (onTick R now rnd rounds cmds (procs c a))" and d: "fullDumpFile (conf R) = None"
    and mem: "same_members (procs c a) (tick_load R (procs c a))" "same_members (procs c a) s'"
  shows "\<exists>V' C' G'. vote_inv M V' C' (flush a s' c) \<and> extends G G' \<and> log_inv M C' G' (flush a s' c)"
proof -
  let ?s = "procs c a" let ?ld = "tick_load R ?s"
  have f: "standing ?ld = standing ?s" using d by (rule standing_tick_load)
  then have s0: "raft_log ?ld = raft_log ?s" "current_term ?ld = current_term ?s" "outbox ?ld = outbox ?s"
    by (simp_all add: standing_defs)
  have o: "outbox ?s = []" "length (nodes ?s) + 1 = card M" using voters_okD[of M V "procs c" a] vc a by (simp_all add: vote_inv_def)
  have rest: "grows_log (tick_election R now rnd rounds ?ld) s'" unfolding s' by (rule lg.tick_rest[OF TrueI])
  have gL: "grounded G (raft_log ?s)" using inv a by (simp add: log_inv_def)
  have stood: "\<exists>V' C'. vote_inv M V' C' (flush a s' c) \<and> ballots_grow C C' \<and> a \<in> C' a (current_term s')"
    if "current_term s' \<noteq> current_term ?s"
  proof -
    have "\<not> quiet ?s s'" using that by (simp add: quiet_def)
    then have "stands ?s s'" using tick_cases[OF mem(1), of now rnd rounds cmds] s' by blast
    then show ?thesis by (rule stands_step[OF vc a _ mem(2)])
  qed
  show ?thesis
  proof (cases rule: tick_election_log[of R now rnd rounds ?ld])
    case same
    have gr: "grows_log ?s s'" using rest unfolding same by (rule lg.left[OF f])
    then have "\<not> stands ?s s'" by (simp add: grows_log_def stands_def)
    then have "quiet ?s s'" using tick_cases[OF mem(1), of now rnd rounds cmds] s' by blast
    then have v: "vote_inv M V C (flush a s' c)" using calm_step[OF vc a quiet_calm mem(2)] by blast
    with grow_step[OF inv vc a gr v ballots_grow_refl] show ?thesis by blast
  next
    case (stood u)
    have g: "grows_log u s'" using rest unfolding stood(5) .
    then have l: "raft_log s' = raft_log u" "current_term s' = current_term u" using stood(3) by (auto simp: grows_log_def)
    obtain V' C' where v: "vote_inv M V' C' (flush a s' c)" "ballots_grow C C'"
      using \<open>current_term s' \<noteq> current_term ?s \<Longrightarrow> _\<close> l(2) stood(2) s0 by auto
    have "\<forall>x\<in>set (outbox s'). sent_ok G (snd x)"
    proof
      fix x assume x: "x \<in> set (outbox s')"
      obtain ms ns where "outbox u = ms" "\<forall>x\<in>set ms. \<not> entries_message (snd x)" "outbox s' = outbox u @ ns"
        "\<forall>x\<in>set ns. cut_of (raft_log s') (snd x)"
        using stood(4) g o(1) s0(3) by (auto simp: grows_log_def)
      with x gL l(1) stood(1) s0(1) show "sent_ok G (snd x)" by (auto intro: sent_ok_other sent_ok_cut)
    qed
    then have "log_inv M C' G (flush a s' c)"
      using gL l stood(1,2) s0 by (intro keep_step[OF inv a _ _ _ v]) simp_all
    with v show ?thesis by blast
  next
    case (won u)
    have g: "grows_log (u\<lparr>state := LEADER\<rparr>) s'"
      using lg.trans[OF lg.becomeLeader rest[unfolded won(5)]] .
    then have t: "current_term s' = current_term ?s + 1" using won(2) s0 by (simp add: grows_log_def)
    then obtain V' C' where v: "vote_inv M V' C' (flush a s' c)" "ballots_grow C C'" "a \<in> C' a (current_term s')"
      using stood by auto
    have "length (nodes ?ld) = length (nodes ?s)" using mem(1) by (rule same_members_length)
    with won(3) o(2) have one: "card M < 2" by (simp add: majority_def)
    have C': "C' a (current_term s') \<subseteq> M" "finite M" using v(1) a unfolding vote_inv_def ballots_ok_def by blast+
    then have "0 < card (C' a (current_term s'))" using v(3) by (auto simp: card_gt_0_iff intro: finite_subset)
    with C' one have win: "majority_of M (C' a (current_term u))"
      using t won(2) s0 by (simp add: majority_of_def)
    have "\<exists>G'. extends G G' \<and> log_inv M C' G' (flush a s' c)"
      using won(1,2,4) s0 o(1) win by (intro lead_step[OF inv a g _ _ _ _ _ v(1,2)]) auto
    with v show ?thesis by blast
  qed
qed

section \<open>Messages\<close>

definition mute :: "raft \<Rightarrow> raft \<Rightarrow> bool" where
  "mute s s' \<longleftrightarrow> current_term s' = current_term s \<and> state s' = state s \<and>
     (\<exists>ms. outbox s' = outbox s @ ms \<and> (\<forall>x\<in>set ms. \<not> entries_message (snd x)))"

lemma mute_trans: "mute s t \<Longrightarrow> mute t u \<Longrightarrow> mute s u"
  unfolding mute_def by fastforce

lemma mute_same: "current_term s' = current_term s \<Longrightarrow> state s' = state s \<Longrightarrow> outbox s' = outbox s \<Longrightarrow> mute s s'"
  by (simp add: mute_def)

lemma mute_send_to: "\<not> entries_message m \<Longrightarrow> mute s (send_to a m s)"
  by (auto simp: send_to_def node_send_def mute_def split: option.split)

lemma log_send_to [simp]: "raft_log (send_to a m s) = raft_log s"
  by (simp add: send_to_def node_send_def split: option.split)

lemma redo_standing: "standing (snd (redo_entries R now b es s)) = standing s"
proof -
  have "standing (snd (doChangeCluster now req b s)) = standing s" for req s
    by (simp add: doChangeCluster_def Let_def standing_defs split: prod.split)
  then have e: "standing (snd (redo_entry R now b e s)) = standing s" for e s
    by (auto simp: redo_entry_def split: sum.split option.split)
  have "standing (snd (forE (redo_entry R now b) es s)) = standing s"
  proof (induction es arbitrary: s)
    case (Cons x xs)
    obtain r t where t: "redo_entry R now b x s = (r, t)" by (cases "redo_entry R now b x s")
    with e[of x s] Cons[of t] show ?case by (cases r) (simp_all add: bindE_def)
  qed simp
  then show ?thesis by (simp add: redo_entries_def)
qed

lemma standing_mute: "standing s' = standing s \<Longrightarrow> mute s s'"
  by (simp add: standing_defs mute_def)

lemma cut_log_cases:
  assumes "cut_log R now i dropped s = (r, u)" and "raft_log s = pre @ e # dropped"
    and "i = first_idx (raft_log s) + int (length pre)"
  shows "mute s u \<and> (raft_log u = pre @ [e] \<or> raft_log u = raft_log s \<and> (\<exists>err. r = Inl err))"
proof (cases "dropped = []")
  case True
  with assms show ?thesis by (simp add: cut_log_def mute_same)
next
  case False
  obtain q v where v: "redo_entries R now True (rev dropped) s = (q, v)" by (cases "redo_entries R now True (rev dropped) s")
  then have f: "standing v = standing s" using redo_standing[of R now True "rev dropped" s] by simp
  then have l: "raft_log v = raft_log s" by (simp add: standing_defs)
  have "deleteEntriesFrom (i + 1) (raft_log s) = pre @ [e]"
    using assms(3) unfolding deleteEntriesFrom_def Let_def by (simp add: assms(2) nat_add_distrib)
  with False v l f assms(1) show ?thesis
    by (cases q) (auto simp: cut_log_def bindE_def mute_def standing_defs)
qed

lemma accept_log:
  assumes "accept_entries R now a c es prev s = (r, s')"
  shows "mute s s' \<and> (raft_log s' = raft_log s \<or> (\<exists>i pt pre e dropped. prev = Some (i, pt) \<and> raft_log s = pre @ e # dropped \<and>
    i = first_idx (raft_log s) + int (length pre) \<and> pt = trm e \<and> (raft_log s' = pre @ [e] \<or> raft_log s' = pre @ e # es)))"
proof (cases "getEntries (map_option fst prev) None None (raft_log s)")
  case Nil
  with assms show ?thesis by (auto simp: accept_entries_def sendNextNodeIdx_def Let_def mute_send_to)
next
  case (Cons e dropped)
  then obtain i pt where prev: "prev = Some (i, pt)" by (cases prev) (auto simp: getEntries_def)
  let ?d = "nat (i - first_idx (raft_log s))"
  have f: "first_idx (raft_log s) \<le> i" and dr: "drop ?d (raft_log s) = e # dropped"
    using Cons prev by (auto simp: getEntries_def Let_def split: if_splits)
  have l: "raft_log s = take ?d (raft_log s) @ e # dropped" using dr by (metis append_take_drop_id)
  have i: "i = first_idx (raft_log s) + int (length (take ?d (raft_log s)))"
    using f dr by (cases "?d < length (raft_log s)") auto
  show ?thesis
  proof (cases "trm e = pt")
    case False
    with assms Cons prev show ?thesis by (auto simp: accept_entries_def sendNextNodeIdx_def Let_def mute_send_to)
  next
    case True
    obtain q u where u: "cut_log R now i dropped s = (q, u)" by (cases "cut_log R now i dropped s")
    note c = cut_log_cases[OF u l i]
    show ?thesis
    proof (cases q)
      case (Inl err)
      then have "s' = u" using assms Cons prev True u by (simp add: accept_entries_def bindE_def)
      with c l i prev True show ?thesis by blast
    next
      case (Inr y)
      obtain p w where w: "redo_entries R now False es (u\<lparr>raft_log := raft_log u @ es\<rparr>) = (p, w)"
        by (cases "redo_entries R now False es (u\<lparr>raft_log := raft_log u @ es\<rparr>)")
      have fw: "standing w = standing (u\<lparr>raft_log := raft_log u @ es\<rparr>)"
        using redo_standing[of R now False es "u\<lparr>raft_log := raft_log u @ es\<rparr>"] w by simp
      have mw: "mute u w" using fw by (simp add: standing_defs mute_def)
      have lw: "raft_log w = take ?d (raft_log s) @ e # es" using fw c Inr by (simp add: standing_defs)
      have "s' = w \<or> s' = acknowledge a c i es w"
        using assms Cons prev True u w Inr by (cases p) (auto simp: accept_entries_def add_entries_def bindE_def)
      moreover have "mute w ((send_to a (Next_node_idx k False True) w)\<lparr>commit_index := n\<rparr>)" for k n
        by (rule mute_trans[where t = "send_to a (Next_node_idx k False True) w"]) (simp_all add: mute_send_to mute_same)
      then have "mute w (acknowledge a c i es w)" by (simp add: acknowledge_def Let_def sendNextNodeIdx_def)
      moreover have "raft_log (acknowledge a c i es w) = raft_log w"
        by (simp add: acknowledge_def Let_def sendNextNodeIdx_def)
      ultimately have "mute s s'" "raft_log s' = take ?d (raft_log s) @ e # es"
        using c mw lw mute_trans mute_same by metis+
      with l i prev True show ?thesis by blast
    qed
  qed
qed

text \<open>The entries of a chain behind an entry of the log take its place.\<close>

lemma grounded_cut:
  assumes "grounded G es" and "es = pre @ e # dropped" and "i = first_idx es + int (length pre)"
    and "chained G i (trm e) ns"
  shows "grounded G (pre @ [e]) \<and> grounded G (pre @ e # ns)"
proof -
  have i: "i = int (length (pre @ [e]))" using assms(3) grounded_first_idx[OF assms(1)] by simp
  have p: "grounded G (pre @ [e])"
    using assms(1,2) grounded_append[of "pre @ [e]" G dropped] by simp
  with i assms(4) have "grounded G ((pre @ [e]) @ ns)" by (subst grounded_append) simp_all
  with p show ?thesis by simp
qed

lemma accept_grounded:
  assumes "accept_entries R now a c es prev s = (r, s')" and "grounded G (raft_log s)"
    and "sent_ok G (Append_entries t c es prev)"
  shows "mute s s' \<and> grounded G (raft_log s')"
  using accept_log[OF assms(1)] assms(2,3) grounded_cut[OF assms(2)]
  by (metis sent_ok.simps(1))

lemma follow_log:
  "raft_log (follow_leader R now rnd a t c s) = raft_log s" "outbox (follow_leader R now rnd a t c s) = outbox s"
  "state (follow_leader R now rnd a t c s) = FOLLOWER"
  "t \<ge> current_term s \<Longrightarrow> current_term (follow_leader R now rnd a t c s) = t"
  by (simp_all add: follow_leader_def Let_def onLeaderChanged_def)

lemma request_vote_log:
  "raft_log (on_request_vote R now rnd a t i lt s) = raft_log s \<and>
   (\<exists>ms. outbox (on_request_vote R now rnd a t i lt s) = outbox s @ ms \<and> (\<forall>x\<in>set ms. \<not> entries_message (snd x))) \<and>
   (current_term s < current_term (on_request_vote R now rnd a t i lt s) \<or>
    current_term (on_request_vote R now rnd a t i lt s) = current_term s \<and>
      state (on_request_vote R now rnd a t i lt s) = state s)"
proof -
  define u where "u = (if t > current_term s
    then s\<lparr>current_term := t, voted_for := None, state := FOLLOWER, leader := None\<rparr> else s)"
  let ?v = "u\<lparr>voted_for := Some a, election_deadline := now + generateRaftTimeout R rnd\<rparr>"
  let ?r = "on_request_vote R now rnd a t i lt s"
  have u: "raft_log u = raft_log s" "outbox u = outbox s" "current_term s < current_term u \<or> u = s" by (simp_all add: u_def)
  have "mute u (send_to a (Response_vote t) ?v)"
    by (rule mute_trans[where t = ?v]) (simp_all add: mute_same mute_send_to)
  moreover have "?r = s \<or> ?r = u \<or> ?r = send_to a (Response_vote t) ?v"
    unfolding on_request_vote_def Let_def u_def[symmetric] by simp
  ultimately have "?r = s \<or> mute u ?r \<and> raft_log ?r = raft_log u" using mute_same[of u u] by auto
  with u show ?thesis unfolding mute_def by (metis append_Nil2 empty_iff empty_set)
qed

lemma sendAppend_state: "state (sendAppendEntries R now rounds s) = state s"
proof -
  have n: "state (node_send p m s) = state s" for p m s by (simp add: node_send_def)
  have f: "state (fold f xs s) = state s" if "\<And>x s. state (f x s) = state s"
    for f :: "'x \<Rightarrow> raft \<Rightarrow> raft" and xs s
    using that by (induction xs arbitrary: s) auto
  have "state (send_entries R p es prev s) = state s" for p es prev s
    by (simp add: send_entries_def Let_def n f case_prod_beta)
  then have e: "state (entries_round R p s) = state s" for p s by (simp add: entries_round_def Let_def)
  have d: "state (snd (dump_round R p s)) = state s" for p s
    by (simp add: dump_round_def Let_def n case_prod_beta split: option.split)
  have "state (append_rounds R p k again s) = state s" for p k again s
    by (induction k arbitrary: again s) (simp_all add: append_round_def e d case_prod_beta)
  then show ?thesis by (simp add: sendAppendEntries_def f del: append_rounds.simps)
qed

lemma becomeLeader_state: "state (onBecomeLeader R now rounds s) = LEADER"
  by (simp add: onBecomeLeader_def Let_def sendAppend_state)

text \<open>What the network carries: no piece of a large entry, and no piece of a full dump.\<close>

fun whole :: "message \<Rightarrow> bool" where
  "whole (Append_part t c k d prev) \<longleftrightarrow> False"
| "whole (Append_snapshot t c td) \<longleftrightarrow> td = None"
| "whole _ \<longleftrightarrow> True"

lemma mute_step:
  assumes inv: "log_inv M C G c" and vc: "vote_inv M V C c" and a: "a \<in> M"
    and f: "current_term (procs c a) \<le> current_term f" "outbox f = []" "mute f s'" and log: "grounded G (raft_log s')"
    and st: "state s' = FOLLOWER"
    and v: "vote_inv M V' C' (flush a s' c)" and g: "ballots_grow C C'"
  shows "log_inv M C' G (flush a s' c)"
proof -
  have "\<forall>x\<in>set (outbox s'). sent_ok G (snd x)" using f(2,3) sent_ok_other by (auto simp: mute_def)
  moreover have "current_term (procs c a) < current_term s' \<or> current_term s' = current_term (procs c a)"
    using f(1,3) by (auto simp: mute_def)
  ultimately show ?thesis using st by (intro keep_step[OF inv a log _ _ v g]) auto
qed

lemma recv_step:
  assumes inv0: "log_inv M C G c" and vc0: "vote_inv M V C c" and a: "a \<in> M" and n: "net c = xs @ (src, a, m) # ys"
    and s': "s' = snd (onMessageReceived R now rnd rounds src m (procs c a))" and w: "whole m"
    and mem: "same_members (procs c a) s'"
  shows "\<exists>V' C' G'. vote_inv M V' C' (flush a s' (c\<lparr>net := xs @ ys\<rparr>)) \<and> extends G G' \<and> log_inv M C' G' (flush a s' (c\<lparr>net := xs @ ys\<rparr>))"
proof -
  let ?c = "c\<lparr>net := xs @ ys\<rparr>" let ?s = "procs c a"
  have inv: "log_inv M C G ?c" using inv0 n by (auto simp: log_inv_def)
  have vc: "vote_inv M V C ?c" using vc0 n by (rule vote_inv_lose)
  obtain V' C' where v: "vote_inv M V' C' (flush a s' ?c)" "ballots_grow C C'"
    using recv_keeps[OF vc0 a n s' mem] by blast
  have o: "outbox ?s = []" using vc0 a by (simp add: vote_inv_def voters_ok_def)
  have gL: "grounded G (raft_log ?s)" using inv a by (simp add: log_inv_def)
  have ok: "sent_ok G m" using inv0 n by (simp add: log_inv_def)
  have grow: ?thesis if "grows_log ?s s'"
    using grow_step[OF inv vc a _ v] that v by auto
  have stay: ?thesis if "mute (follow_leader R now rnd src t cc ?s) s'" "t \<ge> current_term ?s" "grounded G (raft_log s')" for t cc
  proof -
    have "state s' = FOLLOWER" using that(1) follow_log by (simp add: mute_def)
    then have "log_inv M C' G (flush a s' ?c)"
      using that follow_log o by (intro mute_step[OF inv vc a _ _ that(1,3) _ v]) simp_all
    with v show ?thesis by blast
  qed
  show ?thesis
  proof (cases m)
    case (Request_vote t i lt)
    then have r: "s' = on_request_vote R now rnd src t i lt ?s" using s' by simp
    note q = request_vote_log[of R now rnd src t i lt ?s, folded r]
    have "log_inv M C' G (flush a s' ?c)"
      using q gL o sent_ok_other by (intro keep_step[OF inv a _ _ _ v]) (auto simp: getCurrentLogIndex_def)
    with v show ?thesis by blast
  next
    case (Response_vote t)
    let ?u = "?s\<lparr>votes_count := votes_count ?s + 1\<rparr>"
    have r: "s' = on_response_vote R now rounds t ?s" using s' Response_vote by simp
    have "s' = ?s \<or> s' = ?u \<or> state ?s = CANDIDATE \<and> s' = onBecomeLeader R now rounds ?u"
      unfolding r on_response_vote_def Let_def by simp
    then consider "s' = ?s" | "s' = ?u" | "state ?s = CANDIDATE" "s' = onBecomeLeader R now rounds ?u" by blast
    then show ?thesis
    proof cases
      case 1
      then show ?thesis using grow by simp
    next
      case 2
      then show ?thesis by (intro grow grows_logI[where xs = "[]" and ms = "[]"]) auto
    next
      case 3
      have gr: "grows_log (?u\<lparr>state := LEADER\<rparr>) s'" unfolding 3(2) by (rule lg.becomeLeader)
      then have t: "current_term s' = current_term ?s" by (simp add: grows_log_def)
      have "state s' = LEADER" using 3(2) becomeLeader_state by simp
      then have "majority_of M (C' a (current_term ?s))" using leader_won[OF v(1) a] t by simp
      then have "\<exists>G'. extends G G' \<and> log_inv M C' G' (flush a s' ?c)"
        using 3(1) o by (intro lead_step[OF inv a gr _ _ _ _ _ v]) auto
      with v show ?thesis by blast
    qed
  next
    case (Append_entries t cc es prev)
    let ?f = "follow_leader R now rnd src t cc ?s"
    show ?thesis
    proof (cases "t \<ge> current_term ?s")
      case True
      obtain r u where u: "accept_entries R now src cc es prev ?f = (r, u)" by (cases "accept_entries R now src cc es prev ?f")
      have "s' = u" using s' Append_entries True u by simp
      then have "mute ?f s' \<and> grounded G (raft_log s')"
        using accept_grounded[OF u] gL ok Append_entries follow_log(1) by (metis sent_ok.simps(1) not_None_eq sent_ok.simps(2) surj_pair)
      with True stay show ?thesis by blast
    qed (use s' Append_entries grow in simp)
  next
    case (Append_snapshot t cc td)
    let ?f = "follow_leader R now rnd src t cc ?s"
    show ?thesis
    proof (cases "t \<ge> current_term ?s")
      case True
      then have "s' = ?f\<lparr>commit_index := min cc (getCurrentLogIndex ?f)\<rparr>"
        using s' Append_snapshot w by (simp add: install_snapshot_def Let_def)
      then have "mute ?f s'" "raft_log s' = raft_log ?s" using follow_log(1) by (simp_all add: mute_same)
      with True stay gL show ?thesis by simp
    qed (use s' Append_snapshot grow in simp)
  qed (use s' w grow in \<open>simp_all add: lg.applyCommand lg.response lg.next_idx\<close>)
qed

section \<open>Log matching\<close>

text \<open>Runs of a cluster from empty journals, without dump files, in which whole entries are sent.\<close>

inductive log_reach :: "(addr \<Rightarrow> raft_env) \<Rightarrow> addr set \<Rightarrow> cluster \<Rightarrow> bool" for R M where
  start: "cluster_start R M c \<Longrightarrow>
    (\<forall>a\<in>M. fullDumpFile (conf (R a)) = None \<and> raft_log (procs c a) = [Entry [NO_OP] 1 0]) \<Longrightarrow> log_reach R M c"
| step: "log_reach R M c \<Longrightarrow> cluster_step R M c c' \<Longrightarrow> (\<forall>x\<in>set (net c'). whole (snd (snd x))) \<Longrightarrow> log_reach R M c'"

text \<open>A step keeps the invariants, and the history only grows.\<close>

lemma log_step:
  assumes i: "vote_inv M V C c" "log_inv M C G c" and st: "cluster_step R M c c'"
    and d: "\<forall>a\<in>M. fullDumpFile (conf (R a)) = None" and w: "\<forall>x\<in>set (net c). whole (snd (snd x))"
  shows "\<exists>V' C' G'. vote_inv M V' C' c' \<and> extends G G' \<and> log_inv M C' G' c'"
  using st
proof cases
  case (tick a s' now rnd rounds cmds)
  with d have "fullDumpFile (conf (R a)) = None" by blast
  from tick_step[OF i(2,1) tick(2,3) this tick(4,5)] tick(1) show ?thesis by blast
next
  case (recv a xs src m ys s' now rnd rounds)
  have "whole m" using w recv(3) by auto
  from recv_step[OF i(2,1) recv(2-4) this recv(5)] recv(1) show ?thesis by blast
next
  case (lose xs x ys)
  then have "log_inv M C G c'" using i(2) by (auto simp: log_inv_def)
  with lose vote_inv_lose[OF i(1)] show ?thesis by blast
next
  case (link a s' b up)
  obtain V' C' where v: "vote_inv M V' C' (flush a s' c)" "ballots_grow C C'"
    using step_keeps[OF st i(1)] link(1) by blast
  have "grows_log (procs c a) s'"
    unfolding link(3) by (rule grows_logI[where xs = "[]" and ms = "[]"]) (simp_all add: set_connected_def Let_def)
  from grow_step[OF i(2,1) link(2) this v] v(1) link(1) show ?thesis by blast
next
  case (client a s' command cb t)
  obtain V' C' where v: "vote_inv M V' C' (flush a s' c)" "ballots_grow C C'"
    using step_keeps[OF st i(1)] client(1) by blast
  have "grows_log (procs c a) s'" unfolding client(3) by (rule lg.applyCommand)
  from grow_step[OF i(2,1) client(2) this v] v(1) client(1) show ?thesis by blast
qed

lemma log_start_inv:
  assumes "cluster_start R M c" and "\<forall>a\<in>M. raft_log (procs c a) = [Entry [NO_OP] 1 0]"
  shows "vote_inv M (\<lambda>_ _. None) (\<lambda>_ _. {}) c \<and> log_inv M (\<lambda>_ _. {}) (\<lambda>_ _. None) c"
proof -
  have "net c = []" using assms(1) by (simp add: cluster_start_def)
  moreover from this have "log_inv M (\<lambda>_ _. {}) (\<lambda>_ _. None) c"
    using assms(2) by (auto simp: log_inv_def grounded_def)
  ultimately show ?thesis using start_inv[OF assms(1)] by simp
qed

lemma log_reach_inv:
  assumes "log_reach R M c"
  shows "(\<forall>a\<in>M. fullDumpFile (conf (R a)) = None) \<and> (\<forall>x\<in>set (net c). whole (snd (snd x))) \<and>
    (\<exists>V C G. vote_inv M V C c \<and> log_inv M C G c)"
  using assms
proof (induction rule: log_reach.induct)
  case (start c)
  then show ?case using log_start_inv[OF start(1)] by (auto simp: cluster_start_def)
next
  case (step c c')
  then obtain V C G where i: "vote_inv M V C c" "log_inv M C G c" by blast
  from log_step[OF this step.hyps(2)] step show ?case by blast
qed

end
