(* ===== verification/RaftRuns.thy ===== *)
theory RaftRuns
  imports RaftMatching
begin

text \<open>
  Log matching, and what it is not enough for. Runs of a cluster are played by a function, so that
  they can be evaluated; one of them applies two different blocks at the same place of the log on
  two nodes.
\<close>

section \<open>Playing a run\<close>

text \<open>
  The steps of a run; \<open>Deliver k now\<close> hands over the message at position \<open>k\<close> of the network, \<open>Lose k\<close>
  drops it.
\<close>

datatype move = Link addr addr | Unlink addr addr | Tick addr rat nat | Deliver nat rat | Lose nat | Command addr bytes

definition play_tick :: "raft_env \<Rightarrow> addr \<Rightarrow> rat \<Rightarrow> nat \<Rightarrow> cluster \<Rightarrow> cluster option" where
  "play_tick R a now cmds c =
     (let s = procs c a; s' = snd (onTick R now 0 1 cmds s) in
      if same_members s (tick_load R s) \<and> same_members s s' then Some (flush a s' c) else None)"

definition play_deliver :: "raft_env \<Rightarrow> nat \<Rightarrow> rat \<Rightarrow> cluster \<Rightarrow> (addr \<times> cluster) option" where
  "play_deliver R k now c =
     (case drop k (net c) of
        [] \<Rightarrow> None
      | (src, a, m) # ys \<Rightarrow>
          let s = procs c a; s' = snd (onMessageReceived R now 0 1 src m s) in
          if same_members s s' then Some (a, flush a s' (c\<lparr>net := take k (net c) @ ys\<rparr>)) else None)"

fun play_move :: "raft_env \<Rightarrow> addr set \<Rightarrow> move \<Rightarrow> cluster \<Rightarrow> cluster option" where
  "play_move R M (Link a b) c = (if a \<in> M then Some (flush a (set_connected b True (procs c a)) c) else None)"
| "play_move R M (Unlink a b) c = (if a \<in> M then Some (flush a (set_connected b False (procs c a)) c) else None)"
| "play_move R M (Tick a now cmds) c = (if a \<in> M then play_tick R a now cmds c else None)"
| "play_move R M (Deliver k now) c =
     (case play_deliver R k now c of None \<Rightarrow> None | Some (a, c') \<Rightarrow> if a \<in> M then Some c' else None)"
| "play_move R M (Lose k) c =
     (if k < length (net c) then Some (c\<lparr>net := take k (net c) @ drop (Suc k) (net c)\<rparr>) else None)"
| "play_move R M (Command a x) c =
     (if a \<in> M then Some (flush a (applyCommand x None (Some REGULAR) (procs c a)) c) else None)"

fun play :: "raft_env \<Rightarrow> addr set \<Rightarrow> move list \<Rightarrow> cluster \<Rightarrow> cluster option" where
  "play R M [] c = Some c"
| "play R M (m # ms) c =
     (case play_move R M m c of
        None \<Rightarrow> None
      | Some c' \<Rightarrow> if list_all (\<lambda>x. whole (snd (snd x))) (net c') then play R M ms c' else None)"

text \<open>An empty mempool is seen without a look at the size of a block.\<close>

lemma tick_block_eval [code]:
  "tick_block R now s =
     (if mempool_list (app s) = [] then s\<lparr>tickctr := Suc (tickctr s)\<rparr>
      else
        let s1 = s\<lparr>tickctr := Suc (tickctr s)\<rparr>; n = length (mempool_list (app s1)) in
        if (tickctr s1 \<ge> BLOCK_TIMEOUT \<and> n > 0 \<or> n \<ge> BLOCK_SIZE) \<and>
           \<not> processing (app s1) \<and> \<not> adding_block (app s1) \<and> \<not> testing s1 then
          let s2 = s1\<lparr>app := (app s1)\<lparr>adding_block := True\<rparr>\<rparr>;
              s3 = (case send_block now now (app s2) of
                      None \<Rightarrow> s2
                    | Some blk \<Rightarrow> applyCommand (dumps_call R blk) None (Some REGULAR) s2)
          in s3\<lparr>tickctr := 0\<rparr>
        else s1)"
  by (simp add: tick_block_def Let_def BLOCK_SIZE_def)

lemma play_move_step:
  assumes "play_move R M m c = Some c'"
  shows "cluster_step (\<lambda>_. R) M c c'"
proof (cases m)
  case (Link a b)
  with assms show ?thesis by (auto split: if_splits intro: cluster_step.link)
next
  case (Unlink a b)
  with assms show ?thesis by (auto split: if_splits intro: cluster_step.link)
next
  case (Lose k)
  with assms have k: "k < length (net c)" "c' = c\<lparr>net := take k (net c) @ drop (Suc k) (net c)\<rparr>" by (auto split: if_splits)
  show ?thesis unfolding k(2) by (rule cluster_step.lose[OF id_take_nth_drop[OF k(1)]])
next
  case (Tick a now cmds)
  with assms show ?thesis
    by (auto simp: play_tick_def Let_def split: if_splits intro: cluster_step.tick[where R = "\<lambda>_. R"])
next
  case (Deliver k now)
  with assms obtain a where d: "play_deliver R k now c = Some (a, c')" "a \<in> M"
    by (auto split: option.splits if_splits)
  then obtain src m' ys where y: "drop k (net c) = (src, a, m') # ys"
    "same_members (procs c a) (snd (onMessageReceived R now 0 1 src m' (procs c a)))"
    "c' = flush a (snd (onMessageReceived R now 0 1 src m' (procs c a))) (c\<lparr>net := take k (net c) @ ys\<rparr>)"
    by (auto simp: play_deliver_def Let_def split: list.splits if_splits)
  have "net c = take k (net c) @ (src, a, m') # ys" using y(1) by (metis append_take_drop_id)
  from cluster_step.recv[where R = "\<lambda>_. R", OF d(2) this refl y(2)] show ?thesis unfolding y(3) .
next
  case (Command a x)
  with assms show ?thesis by (auto split: if_splits intro: cluster_step.client)
qed

lemma play_reach:
  "play R M ms c = Some c' \<Longrightarrow> log_reach (\<lambda>_. R) M c \<Longrightarrow> log_reach (\<lambda>_. R) M c'"
proof (induction ms arbitrary: c)
  case (Cons m ms)
  then obtain d where d: "play_move R M m c = Some d" "list_all (\<lambda>x. whole (snd (snd x))) (net d)" "play R M ms d = Some c'"
    by (auto split: option.splits if_splits)
  have "log_reach (\<lambda>_. R) M d"
    using log_reach.step[OF Cons.prems(2) play_move_step[OF d(1)]] d(2) by (simp add: list_all_iff)
  with Cons.IH[OF d(3)] show ?case .
qed simp

section \<open>A run of three nodes\<close>

definition ex_idle :: "addr \<Rightarrow> addr list \<Rightarrow> raft" where
  "ex_idle a others = raft_init ex_renv 0 1 (Some a) others [] None
     (ex_state\<lparr>block_queue := [], mempool_list := [], mempool := []\<rparr>)"

definition ex_trio :: cluster where
  "ex_trio = \<lparr>procs = (\<lambda>x. ex_idle x (filter (\<lambda>y. y \<noteq> x) [''a'', ''b'', ''c''])), net = []\<rparr>"

lemma ex_trio_start: "cluster_start (\<lambda>_. ex_renv) ex_members ex_trio"
  unfolding cluster_start_def
proof (intro conjI ballI)
  fix a assume "a \<in> ex_members"
  show "\<exists>now deadline others journal dfile st. distinct others \<and> set others = ex_members - {a} \<and>
      procs ex_trio a = raft_init ex_renv now deadline (Some a) others journal dfile st"
    by (rule exI[of _ 0], rule exI[of _ 1], rule exI[of _ "filter (\<lambda>y. y \<noteq> a) [''a'', ''b'', ''c'']"],
        rule exI[of _ "[]"], rule exI[of _ None],
        rule exI[of _ "ex_state\<lparr>block_queue := [], mempool_list := [], mempool := []\<rparr>"])
       (auto simp: ex_members_def ex_trio_def ex_idle_def)
qed (simp_all add: ex_members_def ex_trio_def)

lemma ex_trio_reach: "log_reach (\<lambda>_. ex_renv) ex_members ex_trio"
  using ex_trio_start
  by (rule log_reach.start)
     (simp add: ex_trio_def ex_idle_def raft_init_def Let_def ex_renv_def belcoin_conf_def default_conf_def)

text \<open>
  \<open>a\<close> leads term 1 and logs two blocks, 7 and 8, without reaching another node. \<open>c\<close> leads term 2 with
  the vote of \<open>b\<close> and logs block 9, without reaching \<open>b\<close>.
\<close>

definition ex_two_leaders :: "move list" where
  "ex_two_leaders = [Link ''a'' ''b'', Link ''b'' ''a'', Link ''b'' ''c'', Link ''c'' ''b'',
     Tick ''a'' 2 0, Deliver 0 2, Deliver 0 2, Command ''a'' [7], Command ''a'' [8], Tick ''a'' 2 2,
     Tick ''c'' 4 0, Tick ''c'' 5 0, Deliver 2 5, Deliver 2 5, Command ''c'' [9], Tick ''c'' 5 1]"

text \<open>\<open>a\<close> leads again, in term 3; its entries of term 1 reach \<open>b\<close>, and it commits block 7.\<close>

definition ex_first_commit :: "move list" where
  "ex_first_commit = [Tick ''a'' 100 0, Tick ''a'' 101 0, Tick ''a'' 102 0, Deliver 4 102, Deliver 4 102, Deliver 4 102,
     Deliver 4 102, Tick ''a'' 103 0, Deliver 4 103, Deliver 5 103, Tick ''a'' 104 0]"

text \<open>\<open>c\<close>, whose last entry is of term 2, gets the vote of \<open>b\<close> in term 4, replaces its log and commits block 9.\<close>

definition ex_second_commit :: "move list" where
  "ex_second_commit = [Tick ''c'' 200 0, Tick ''c'' 201 0, Tick ''c'' 202 0, Deliver 7 202, Deliver 7 202, Deliver 7 202,
     Deliver 7 202, Tick ''c'' 203 0, Deliver 7 203, Deliver 7 203, Tick ''c'' 204 0, Deliver 7 204, Deliver 7 204,
     Tick ''c'' 205 0]"

definition ex_run_of :: "move list \<Rightarrow> cluster option" where
  "ex_run_of ms = play ex_renv ex_members ms ex_trio"

definition ex_blocks :: "cluster \<Rightarrow> addr \<Rightarrow> bytes list list" where
  "ex_blocks c a = map block_txns (block_queue (app (procs c a)))"

lemma ex_run_end:
  "map_option (\<lambda>c. (ex_blocks c ''a'', last_applied (procs c ''a''), ex_blocks c ''c'', last_applied (procs c ''c''),
       map (\<lambda>x. raft_log (procs c x)) [''b'', ''c'']))
     (ex_run_of (ex_two_leaders @ ex_first_commit @ ex_second_commit)) =
   Some ([[[7]]], 3, [[[9]]], 3,
     replicate 2 [Entry [1] 1 0, Entry [1] 2 2, Entry [0, 9] 3 2, Entry [1] 4 4])"
  by code_simp

lemma ex_run_ends:
  obtains c where "log_reach (\<lambda>_. ex_renv) ex_members c"
    and "ex_blocks c ''a'' = [[[7]]]" "last_applied (procs c ''a'') = 3"
    and "ex_blocks c ''c'' = [[[9]]]" "last_applied (procs c ''c'') = 3"
    and "map (\<lambda>x. raft_log (procs c x)) [''b'', ''c''] =
      replicate 2 [Entry [1] 1 0, Entry [1] 2 2, Entry [0, 9] 3 2, Entry [1] 4 4]"
proof -
  obtain c where c: "ex_run_of (ex_two_leaders @ ex_first_commit @ ex_second_commit) = Some c"
    and e: "(ex_blocks c ''a'', last_applied (procs c ''a''), ex_blocks c ''c'', last_applied (procs c ''c''),
       map (\<lambda>x. raft_log (procs c x)) [''b'', ''c'']) = ([[[7]]], 3, [[[9]]], 3,
     replicate 2 [Entry [1] 1 0, Entry [1] 2 2, Entry [0, 9] 3 2, Entry [1] 4 4])"
    using ex_run_end unfolding map_option_eq_Some by blast
  have "log_reach (\<lambda>_. ex_renv) ex_members c" using play_reach[OF c[unfolded ex_run_of_def] ex_trio_reach] .
  with e show thesis by (intro that[of c]) simp_all
qed

section \<open>Log matching\<close>



text \<open>
  C18. Committed blocks are lost. There is a run of three nodes, without restarts and membership
  changes, in which one node commits and applies a block at place 3 of the log, and another node
  later commits and applies a different block at that place: entries of earlier terms are committed
  by counting the nodes that hold them, and a node without them can still win an election. The
  queues of blocks of the two ledgers differ from then on.
\<close>

theorem committed_block_lost:
  "\<exists>c. log_reach (\<lambda>_. ex_renv) ex_members c \<and>
     last_applied (procs c ''a'') = 3 \<and> map block_txns (block_queue (app (procs c ''a''))) = [[[7]]] \<and>
     last_applied (procs c ''c'') = 3 \<and> map block_txns (block_queue (app (procs c ''c''))) = [[[9]]]"
proof -
  obtain c where "log_reach (\<lambda>_. ex_renv) ex_members c" and "ex_blocks c ''a'' = [[[7]]]" "last_applied (procs c ''a'') = 3"
    "ex_blocks c ''c'' = [[[9]]]" "last_applied (procs c ''c'') = 3" by (rule ex_run_ends)
  then show ?thesis unfolding ex_blocks_def by (intro exI[of _ c] conjI)
qed

end
