(* ===== verification/RaftCuts.thy ===== *)
theory RaftCuts
  imports RaftRuns
begin

text \<open>
  A follower cuts its log behind the entry before the new ones, also when what it cuts off agrees
  with the leader's log. A leader that sends the same entries twice, as it does after it was told
  twice where the follower's log ends, takes back what the follower has acknowledged until it has
  sent the rest. The run below loses a committed block in that moment.
\<close>

section \<open>Messages in order\<close>

text \<open>Every message is handed over before all later ones from the same sender to the same receiver, as in a connection.\<close>

definition same_link :: "addr \<times> addr \<times> message \<Rightarrow> addr \<times> addr \<times> message \<Rightarrow> bool" where
  "same_link x y \<longleftrightarrow> fst x = fst y \<and> fst (snd x) = fst (snd y)"

definition first_of_link :: "nat \<Rightarrow> cluster \<Rightarrow> bool" where
  "first_of_link k c \<longleftrightarrow> k < length (net c) \<and> list_all (\<lambda>x. \<not> same_link x (net c ! k)) (take k (net c))"

fun play_orderly :: "raft_env \<Rightarrow> addr set \<Rightarrow> move list \<Rightarrow> cluster \<Rightarrow> bool" where
  "play_orderly R M [] c = True"
| "play_orderly R M (m # ms) c =
     ((case m of Deliver k now \<Rightarrow> first_of_link k c | Lose k \<Rightarrow> first_of_link k c | _ \<Rightarrow> True) \<and>
      (case play_move R M m c of None \<Rightarrow> False | Some c' \<Rightarrow> play_orderly R M ms c'))"

section \<open>The run\<close>

text \<open>
  \<open>a\<close> leads term 1. Its first message to \<open>b\<close> is lost, so \<open>b\<close> answers two heartbeats that its log ends
  before them. After the first answer \<open>a\<close> sends everything: the entries of the blocks 7, 8 and 6.
\<close>

definition ex_resend :: "move list" where
  "ex_resend = [Link ''a'' ''b'', Link ''b'' ''a'', Link ''b'' ''c'', Link ''c'' ''b'',
     Tick ''a'' 2 0, Deliver 0 2, Deliver 0 2, Lose 0, Tick ''a'' (22/10) 0, Tick ''a'' (24/10) 0,
     Deliver 0 3, Deliver 0 3, Deliver 0 3, Command ''a'' [7], Command ''a'' [8], Command ''a'' [6],
     Tick ''a'' 3 3, Tick ''a'' (32/10) 0, Tick ''a'' (34/10) 0]"

text \<open>
  The second answer makes it send everything again, in two messages. \<open>b\<close> acknowledges the entries, and
  \<open>a\<close> commits and applies them. Then the first of the two messages reaches \<open>b\<close> and cuts off the last entry.
\<close>

definition ex_again :: "move list" where
  "ex_again = [Deliver 0 (35/10), Tick ''a'' (36/10) 0, Deliver 0 (36/10), Deliver 0 (36/10), Deliver 0 (36/10),
     Deliver 0 (36/10), Deliver 2 (36/10), Deliver 2 (36/10), Deliver 2 (36/10), Deliver 2 (36/10),
     Tick ''a'' (36/10) 0, Deliver 0 (36/10)]"

text \<open>The connection breaks. \<open>b\<close> leads term 2 with the vote of \<open>c\<close> and commits block 9 after 7 and 8.\<close>

definition ex_successor :: "move list" where
  "ex_successor = [Unlink ''b'' ''a'', Tick ''b'' 20 0, Deliver 2 20, Deliver 2 20, Deliver 2 20, Deliver 2 20,
     Command ''b'' [9], Tick ''b'' (202/10) 1, Tick ''b'' (204/10) 0, Deliver 2 (205/10), Deliver 2 (205/10),
     Deliver 2 (205/10), Deliver 2 (205/10), Deliver 2 (205/10), Deliver 2 (205/10), Tick ''b'' (206/10) 0,
     Deliver 2 (206/10), Deliver 2 (206/10), Tick ''b'' (207/10) 0]"

definition ex_cut_run :: "move list" where
  "ex_cut_run = ex_resend @ ex_again @ ex_successor"

lemma ex_cut_orderly: "play_orderly ex_renv ex_members ex_cut_run ex_trio"
  by code_simp

lemma ex_cut_end:
  "map_option (\<lambda>c. (current_term (procs c ''a''), ex_blocks c ''a'', ex_blocks c ''b'',
       map (\<lambda>x. commit_index (procs c x)) [''a'', ''b''], map (\<lambda>x. last_applied (procs c x)) [''a'', ''b'']))
     (ex_run_of ex_cut_run) =
   Some (1, [[[7]], [[8]], [[6]]], [[[7]], [[8]], [[9]]], [5, 6], [5, 6])"
  by code_simp

lemma ex_acknowledged:
  "map_option (\<lambda>c. (commit_index (procs c ''a''), last_applied (procs c ''a''), map idx (raft_log (procs c ''b''))))
     (ex_run_of (ex_resend @ butlast ex_again)) = Some (5, 5, [1, 2, 3, 4, 5])"
  "map_option (\<lambda>c. map idx (raft_log (procs c ''b''))) (ex_run_of (ex_resend @ ex_again)) = Some [1, 2, 3, 4]"
  by code_simp+

text \<open>
  C19. An acknowledged block is taken back. There is a run of three nodes without restarts and membership
  changes, in which every connection delivers in order, such that a leader commits and applies three
  blocks of its own term, the term it is in to the end, and a node that held and acknowledged all three
  becomes leader of the next term, without the third, and commits another block instead. So the ledgers
  differ for ever. The rule that leaders should count replicas for entries of their own term only, whose
  absence loses a block in \<open>committed_block_lost\<close>, would not help here.
\<close>

theorem acknowledged_block_cut:
  "\<exists>c before after. log_reach (\<lambda>_. ex_renv) ex_members c \<and>
     play ex_renv ex_members (before @ after) ex_trio = Some c \<and> play_orderly ex_renv ex_members (before @ after) ex_trio \<and>
     (\<exists>d. play ex_renv ex_members before ex_trio = Some d \<and> commit_index (procs d ''a'') = 5 \<and>
        map idx (raft_log (procs d ''b'')) = [1, 2, 3, 4, 5]) \<and>
     current_term (procs c ''a'') = 1 \<and> last_applied (procs c ''a'') = 5 \<and> last_applied (procs c ''b'') = 6 \<and>
     map block_txns (block_queue (app (procs c ''a''))) = [[[7]], [[8]], [[6]]] \<and>
     map block_txns (block_queue (app (procs c ''b''))) = [[[7]], [[8]], [[9]]]"
proof -
  let ?b = "ex_resend @ butlast ex_again"
  let ?a = "[last ex_again] @ ex_successor"
  have r: "ex_cut_run = ?b @ ?a" by (simp add: ex_cut_run_def ex_again_def)
  obtain c where c: "ex_run_of ex_cut_run = Some c" "current_term (procs c ''a'') = 1"
    "ex_blocks c ''a'' = [[[7]], [[8]], [[6]]]" "ex_blocks c ''b'' = [[[7]], [[8]], [[9]]]"
    "last_applied (procs c ''a'') = 5" "last_applied (procs c ''b'') = 6"
    using ex_cut_end unfolding map_option_eq_Some by auto
  obtain d where d: "ex_run_of ?b = Some d" "commit_index (procs d ''a'') = 5" "map idx (raft_log (procs d ''b'')) = [1, 2, 3, 4, 5]"
    using ex_acknowledged(1) unfolding map_option_eq_Some by auto
  have "log_reach (\<lambda>_. ex_renv) ex_members c" using play_reach[OF c(1)[unfolded ex_run_of_def] ex_trio_reach] .
  moreover note c[unfolded ex_run_of_def ex_blocks_def r] d[unfolded ex_run_of_def] ex_cut_orderly[unfolded r]
  ultimately show ?thesis by (intro exI[of _ c] exI[of _ ?b] exI[of _ ?a] conjI exI[of _ d])
qed

end
