(* ===== verification/RaftLogSpec.thy ===== *)
theory RaftLogSpec
  imports RaftSpec
begin

text \<open>
  The properties of the replicated log: what a follower does with an \<open>append_entries\<close>, a round
  of replication, the commit index of a leader, the application of committed blocks, membership
  changes, large entries and the proposal of blocks.
\<close>

section \<open>A follower's log\<close>

lemma onLeaderChanged_fields [simp]:
  "raft_log (onLeaderChanged s) = raft_log s" "current_term (onLeaderChanged s) = current_term s"
  "commit_index (onLeaderChanged s) = commit_index s" "nodes (onLeaderChanged s) = nodes s"
  "readonly_nodes (onLeaderChanged s) = readonly_nodes s" "outbox (onLeaderChanged s) = outbox s"
  by (simp_all add: onLeaderChanged_def)

lemma follow_leader_fields:
  assumes "current_term s \<le> t"
  shows "raft_log (follow_leader R now rnd a t c s) = raft_log s"
    "commit_index (follow_leader R now rnd a t c s) = commit_index s"
    "current_term (follow_leader R now rnd a t c s) = t"
    "state (follow_leader R now rnd a t c s) = FOLLOWER"
    "leader (follow_leader R now rnd a t c s) = Some a"
    "nodes (follow_leader R now rnd a t c s) = nodes s"
    "readonly_nodes (follow_leader R now rnd a t c s) = readonly_nodes s"
    "outbox (follow_leader R now rnd a t c s) = outbox s"
  using assms by (simp_all add: follow_leader_def Let_def)

lemma acknowledge_fields:
  "current_term (acknowledge a c i es s) = current_term s" "state (acknowledge a c i es s) = state s"
  "leader (acknowledge a c i es s) = leader s"
  "commit_index (acknowledge a c i es s) = min c (getCurrentLogIndex s)"
  by (simp_all add: acknowledge_def Let_def sendNextNodeIdx_def send_to_def node_send_def getCurrentLogIndex_def
      split: option.split)

text \<open>A log, cut behind entry \<open>i\<close> and continued, stays well-formed when the new part is.\<close>

lemma log_ok_extend:
  assumes "log_ok xs" and "last_entry xs = e" and "log_ok (e # es)"
  shows "log_ok (xs @ es)"
  using assms
proof (induction es arbitrary: xs e)
  case (Cons x es)
  have ok: "log_ok (e # x # es)" by (rule Cons.prems(3))
  then have mono: "\<forall>i j. i \<le> j \<and> j < length (e # x # es) \<longrightarrow> trm ((e # x # es) ! i) \<le> trm ((e # x # es) ! j)"
    unfolding log_ok_def by blast
  have "idx x = idx e + 1" "trm e \<le> trm x"
  proof -
    have "idx ((e # x # es) ! 1) = first_idx (e # x # es) + int 1" using ok unfolding log_ok_def by auto
    then show "idx x = idx e + 1" by (simp add: first_idx_def)
    from mono[rule_format, of 0 1] have "trm ((e # x # es) ! 0) \<le> trm ((e # x # es) ! 1)" by simp
    then show "trm e \<le> trm x" by simp
  qed
  then have "log_ok (xs @ [x])" using log_ok_append[OF Cons.prems(1)] Cons.prems(2) by simp
  moreover have "log_ok (x # es)"
    unfolding log_ok_def
  proof (intro conjI allI impI)
    show "idx ((x # es) ! i) = first_idx (x # es) + int i" if "i < length (x # es)" for i
    proof -
      have "idx ((e # x # es) ! Suc i) = idx e + int (Suc i)"
        using ok that unfolding log_ok_def first_idx_def by auto
      then show ?thesis using \<open>idx x = idx e + 1\<close> by (simp add: first_idx_def)
    qed
    show "trm ((x # es) ! i) \<le> trm ((x # es) ! j)" if "i \<le> j \<and> j < length (x # es)" for i j
      using mono[rule_format, of "Suc i" "Suc j"] that by simp
  qed simp
  ultimately show ?case using Cons.IH[of "xs @ [x]" x] by (simp add: last_entry_def)
qed simp

lemma upto_idx_ok:
  assumes "log_ok es" and "getEntries (Some i) None None es = e # dropped"
  shows "log_ok (upto_idx i es) \<and> last_entry (upto_idx i es) = e \<and> idx e = i"
proof -
  note sp = getEntries_split[OF assms(2)]
  have "log_ok (upto_idx i es)"
    unfolding upto_idx_def by (rule log_ok_take[OF assms(1)]) (use sp(1) in simp)
  moreover have "idx e = i"
    using getEntries_nth[OF assms(1) sp(1), of 0, THEN conjunct2] by (simp add: assms(2))
  ultimately show ?thesis using sp(2) by (simp add: last_entry_def)
qed



section \<open>A round of replication\<close>

lemma getPrev_log:
  assumes "log_ok L" and "first_idx L < n" and "n \<le> idx (last_entry L) + 1"
  shows "getPrevLogIndexTerm n L = Some (n - 1, trm (L ! nat (n - 1 - first_idx L)))"
proof -
  let ?d = "nat (n - 1 - first_idx L)"
  have "?d < length L" using assms(2,3) log_ok_last_idx[OF assms(1)] by auto
  then have "take 1 (drop ?d L) = [L ! ?d]" by (simp add: take_Suc hd_drop_conv_nth)
  then have "getEntries (Some (n - 1)) (Some 1) None L = [L ! ?d]"
    using assms(2) by (simp add: getEntries_def Let_def)
  then show ?thesis by (simp add: getPrevLogIndexTerm_def)
qed

lemma batch_split:
  assumes ok: "log_ok L" and n: "first_idx L \<le> n" "n \<le> idx (last_entry L)"
    and es: "es = getEntries (Some n) None (Some m) L"
  shows "es \<noteq> []" and "idx (last_entry es) = n + int (length es) - 1" and "set es \<subseteq> set L"
    and "take (nat (n - first_idx L)) L @ es = upto_idx (idx (last_entry es)) L"
    and "idx (last_entry es) \<le> idx (last_entry L)"
proof -
  define d where "d = nat (n - first_idx L)"
  define k where "k = size_prefix m 0 (drop d L)"
  have lt: "d < length L" using n log_ok_last_idx[OF ok] by (auto simp: d_def)
  have e: "es = take k (drop d L)" using n(1) by (simp add: es getEntries_def d_def k_def Let_def)
  have k: "0 < k" "k \<le> length L - d"
    using lt size_prefix_pos[of "drop d L" m 0] size_prefix_le[of m 0 "drop d L"] by (auto simp: k_def)
  then have len: "length es = k" by (simp add: e)
  then show ne: "es \<noteq> []" using k by auto
  have "last es = L ! (d + k - 1)"
    using k lt ne by (simp add: last_conv_nth len) (simp add: e)
  moreover have "idx (L ! (d + k - 1)) = first_idx L + int (d + k - 1)"
    using ok k lt unfolding log_ok_def by auto
  ultimately show i: "idx (last_entry es) = n + int (length es) - 1"
    using ne k n(1) by (simp add: last_entry_def len d_def)
  show "set es \<subseteq> set L" unfolding e by (meson order_trans set_drop_subset set_take_subset)
  have "nat (idx (last_entry es) + 1 - first_idx L) = d + k" using i len n(1) k by (simp add: d_def)
  then show "take (nat (n - first_idx L)) L @ es = upto_idx (idx (last_entry es)) L"
    by (simp add: upto_idx_def e take_add flip: d_def)
  show "idx (last_entry es) \<le> idx (last_entry L)"
    using i len k lt n(1) log_ok_last_idx[OF ok] by (simp add: d_def)
qed

text \<open>A follower whose log agrees with the leader's up to \<open>n - 1\<close> finds the previous entry.\<close>

lemma prefix_agrees:
  assumes ok: "log_ok L" and n: "first_idx L < n" "n \<le> idx (last_entry L) + 1"
    and agree: "upto_idx (n - 1) F = upto_idx (n - 1) L"
  shows "\<exists>dropped. getEntries (Some (n - 1)) None None F = L ! nat (n - 1 - first_idx L) # dropped \<and>
    upto_idx (n - 1) F = take (nat (n - first_idx L)) L"
proof -
  let ?d = "nat (n - 1 - first_idx L)"
  have d: "nat (n - first_idx L) = Suc ?d" using n(1) by simp
  have lt: "?d < length L" using n log_ok_last_idx[OF ok] by auto
  have u: "upto_idx (n - 1) L = take (Suc ?d) L" using d by (simp add: upto_idx_def)
  have ne: "F \<noteq> []" "L \<noteq> []" using agree u lt by (auto simp: upto_idx_def)
  have "take (nat (n - 1 + 1 - first_idx F)) F = take (Suc ?d) L" using agree unfolding u unfolding upto_idx_def .
  moreover have "take (Suc ?d) L \<noteq> []" using ne by simp
  ultimately have "hd F = hd L" using ne by (metis hd_take take_eq_Nil gr0I)
  then have f: "first_idx F = first_idx L" using ne by (simp add: first_idx_def)
  have t: "take (Suc ?d) F = take (Suc ?d) L"
    using agree unfolding u unfolding upto_idx_def f using d by simp
  have len: "?d < length F"
  proof (rule ccontr)
    assume "\<not> ?d < length F"
    then have "length (take (Suc ?d) F) < Suc ?d" by simp
    with t lt show False by simp
  qed
  have "F ! ?d = L ! ?d" using t len lt by (metis lessI nth_take)
  then have "drop ?d F = L ! ?d # drop (Suc ?d) F" using len by (metis Cons_nth_drop_Suc)
  then show ?thesis using n(1) t d f agree u by (simp add: getEntries_def Let_def)
qed

text \<open>
  C11. A round of replication. A leader sends a connected partner the entries from its next
  index on, as many as fit into a batch, and moves the next index behind them; a follower of an
  older or equal term whose log agrees with the leader's before that index takes the message
  without an error and its log is then the leader's up to the last entry sent, its commit index
  the leader's as far as that. One round sends at least one entry, so rounds reach the end.
\<close>

theorem replication_round:
  assumes "log_ok (raft_log l)" and "next_index l (peer_addr p) = Some n" and "connected p"
    and "first_idx (raft_log l) < n" "n \<le> getCurrentLogIndex l"
    and "\<forall>e\<in>set (raft_log l). int (length (cmd e)) < appendEntriesBatchSizeBytes (conf R)"
    and "upto_idx (n - 1) (raft_log f) = upto_idx (n - 1) (raft_log l)"
    and "current_term f \<le> current_term l" and "plain (raft_log l)" "plain (raft_log f)"
  shows "\<exists>m n' f'. entries_round R p l =
      l\<lparr>next_index := (next_index l)(peer_addr p \<mapsto> n'), outbox := outbox l @ [(peer_addr p, m)]\<rparr> \<and>
    n < n' \<and> n' \<le> getCurrentLogIndex l + 1 \<and>
    onMessageReceived R' now rnd rounds a m f = (Inr (), f') \<and>
    raft_log f' = upto_idx (n' - 1) (raft_log l) \<and> commit_index f' = min (commit_index l) (n' - 1)"
proof -
  let ?L = "raft_log l" and ?c = "commit_index l" and ?t = "current_term l"
  define es where "es = getEntries (Some n) None (Some (appendEntriesBatchSizeBytes (conf R))) ?L"
  define pt where "pt = trm (?L ! nat (n - 1 - first_idx ?L))"
  let ?m = "Append_entries ?t ?c es (Some (n - 1, pt))"
  have n1: "n \<le> idx (last_entry ?L)" using assms(5) by (simp add: getCurrentLogIndex_def)
  note b = batch_split[OF assms(1) _ n1 es_def]
  have es: "es \<noteq> []" "set es \<subseteq> set ?L" using b assms(4) by simp_all
  have prev: "getPrevLogIndexTerm n ?L = Some (n - 1, pt)"
    unfolding pt_def using getPrev_log[OF assms(1,4)] n1 by simp
  have small: "\<not> (length es = 1 \<and> int (length (cmd (hd es))) \<ge> appendEntriesBatchSizeBytes (conf R))"
    using assms(6) es by (meson hd_in_set not_le subset_iff)
  have send: "send_entries R p es pr u = node_send p (Append_entries (current_term u) (commit_index u) es pr) u" for pr u
    unfolding send_entries_def Let_def using small by (simp only: if_False)
  have round: "entries_round R p l = l\<lparr>next_index := (next_index l)(peer_addr p \<mapsto> idx (last_entry es) + 1),
      outbox := outbox l @ [(peer_addr p, ?m)]\<rparr>"
    using assms(2,3,5) by (simp add: entries_round_def next_of_def send prev node_send_def Let_def flip: es_def)
  obtain dropped where g: "getEntries (Some (n - 1)) None None (raft_log f) = ?L ! nat (n - 1 - first_idx ?L) # dropped"
    and u: "upto_idx (n - 1) (raft_log f) = take (nat (n - first_idx ?L)) ?L"
    using prefix_agrees[OF assms(1,4) _ assms(7)] n1 by auto
  have f: "raft_log (follow_leader R' now rnd a ?t ?c f) = raft_log f"
    using assms(8) by (rule follow_leader_fields)
  have "set dropped \<subseteq> set (raft_log f)" using getEntries_split(4)[OF g] by (metis Un_upper2 set_append)
  then have pl: "plain dropped" "plain es" using assms(9,10) es(2) unfolding plain_def by blast+
  let ?f' = "acknowledge a ?c (n - 1) es ((follow_leader R' now rnd a ?t ?c f)\<lparr>raft_log := upto_idx (n - 1) (raft_log f) @ es\<rparr>)"
  have "onMessageReceived R' now rnd rounds a ?m f = (Inr (), ?f')"
    using accept_entries_match[OF _ _ pl, where i = "n - 1" and s = "follow_leader R' now rnd a ?t ?c f"
        and e = "?L ! nat (n - 1 - first_idx ?L)" and t = pt] g assms(8) f by (simp add: pt_def)
  moreover have "upto_idx (n - 1) (raft_log f) @ es = upto_idx (idx (last_entry es)) ?L"
    unfolding u using b(4) assms(4) by simp
  moreover have "idx (last_entry (upto_idx (n - 1) (raft_log f) @ es)) = idx (last_entry es)"
    using es(1) by (simp add: last_entry_def)
  moreover have "n < idx (last_entry es) + 1" "idx (last_entry es) \<le> getCurrentLogIndex l"
    using b(2,5) es(1) assms(4) by (simp_all add: getCurrentLogIndex_def)
  ultimately show ?thesis
    by (intro exI[of _ ?m] exI[of _ "idx (last_entry es) + 1"] exI[of _ ?f'])
       (simp add: round acknowledge_fields getCurrentLogIndex_def)
qed

text \<open>A leader of term 1 with three entries, and a follower with the first.\<close>

definition ex_leader :: raft where
  "ex_leader = (ex_node ''a'' [''b'', ''c''])
     \<lparr>state := LEADER, current_term := 1, leader := Some ''a'', commit_index := 1, noop_idx := Some 2,
      raft_log := [Entry [1] 1 0, Entry [1] 2 1, Entry [0, 7] 3 1],
      nodes := [\<lparr>peer_addr = ''b'', connected = True\<rparr>, \<lparr>peer_addr = ''c'', connected = False\<rparr>],
      next_index := [''b'' \<mapsto> 2, ''c'' \<mapsto> 4]\<rparr>"

lemma ex_leader_fields:
  "raft_log ex_leader = [Entry [1] 1 0, Entry [1] 2 1, Entry [0, 7] 3 1]" "current_term ex_leader = 1"
  "getCurrentLogIndex ex_leader = 3" "next_index ex_leader ''b'' = Some 2" "commit_index ex_leader = 1"
  "state ex_leader = LEADER" "outbox ex_leader = []"
  by (simp_all add: ex_leader_def getCurrentLogIndex_def last_entry_def ex_node_def raft_init_def Let_def)

lemma ex_leader_log: "log_ok (raft_log ex_leader)" "plain (raft_log ex_leader)"
  by (auto simp: ex_leader_fields log_ok_def first_idx_def plain_def command_types less_Suc_eq nth_Cons'
      numeral_eq_Suc)

lemma ex_follower_fields:
  "raft_log (ex_node ''b'' [''a'', ''c'']) = [Entry [1] 1 0]" "current_term (ex_node ''b'' [''a'', ''c'']) = 0"
  by (simp_all add: ex_node_def raft_init_def Let_def command_types)

theorem replication_round_witness:
  "\<exists>m n' f'. outbox (entries_round ex_renv \<lparr>peer_addr = ''b'', connected = True\<rparr> ex_leader) = [(''b'', m)] \<and> 2 < n' \<and>
     onMessageReceived ex_renv 2 0 1 ''a'' m (ex_node ''b'' [''a'', ''c'']) = (Inr (), f') \<and>
     raft_log f' = upto_idx (n' - 1) (raft_log ex_leader)"
proof -
  let ?f = "ex_node ''b'' [''a'', ''c'']" and ?p = "\<lparr>peer_addr = ''b'', connected = True\<rparr>"
  have "\<forall>e\<in>set (raft_log ex_leader). int (length (cmd e)) < appendEntriesBatchSizeBytes (conf ex_renv)"
    by (simp add: ex_leader_fields ex_renv_def)
  moreover have "upto_idx (2 - 1) (raft_log ?f) = upto_idx (2 - 1) (raft_log ex_leader)"
    by (simp add: ex_leader_fields ex_follower_fields upto_idx_def first_idx_def)
  moreover have "plain (raft_log ?f)" by (simp add: ex_follower_fields plain_def command_types)
  moreover have "first_idx (raft_log ex_leader) < 2" by (simp add: ex_leader_fields first_idx_def)
  ultimately show ?thesis
    using replication_round[OF ex_leader_log(1), of ?p 2 ex_renv ?f ex_renv 2 0 1 "''a''"] ex_leader_log(2)
    by (force simp: ex_leader_fields ex_follower_fields)
qed

section \<open>The commit index\<close>

text \<open>
  C21. The commit index of a leader. The loop of a leader's tick ends; the commit index does not
  fall and does not pass the end of the log, a majority of the nodes holds every entry it moved
  over, and it stops only where no majority holds the next entry. The terms of the entries play
  no part: an entry of an older term is committed by counting its replicas.
\<close>

theorem commit_loop_spec:
  assumes "peers_known s" and "commit_index s \<le> getCurrentLogIndex s"
  shows "\<exists>c. commit_loop s (commit_index s) = Inr c \<and> commit_index s \<le> c \<and> c \<le> getCurrentLogIndex s \<and>
    (\<forall>i. commit_index s < i \<and> i \<le> c \<longrightarrow> replicated s i) \<and>
    (c < getCurrentLogIndex s \<longrightarrow> \<not> replicated s (c + 1))"
  using commit_loop_result[OF assms(1), of "commit_index s"] assms(2) by fastforce

text \<open>The leader of term 5 commits an entry of term 1.\<close>

theorem commit_loop_spec_witness:
  "\<exists>c. commit_loop (ex_leader\<lparr>current_term := 5, match_index := [''b'' \<mapsto> 3, ''c'' \<mapsto> 0]\<rparr>) 1 = Inr c \<and> c = 3"
proof -
  let ?s = "ex_leader\<lparr>current_term := 5, match_index := [''b'' \<mapsto> 3, ''c'' \<mapsto> 0]\<rparr>"
  have n: "nodes ?s = [\<lparr>peer_addr = ''b'', connected = True\<rparr>, \<lparr>peer_addr = ''c'', connected = False\<rparr>]"
    by (simp add: ex_leader_def)
  have g: "getCurrentLogIndex ?s = 3" "commit_index ?s = 1"
    using ex_leader_fields(3,5) by (simp_all add: getCurrentLogIndex_def)
  have "peers_known ?s" by (simp add: peers_known_def n)
  moreover have r: "replicated ?s i \<longleftrightarrow> i \<le> 3" for i by (simp add: replicated_def holders_def n)
  ultimately obtain c where "commit_loop ?s 1 = Inr c" "1 \<le> c" "c \<le> 3" "c < 3 \<longrightarrow> \<not> replicated ?s (c + 1)"
    using commit_loop_spec[of ?s] g by auto
  then show ?thesis unfolding r by (intro exI[of _ c]) linarith
qed

text \<open>
  The acknowledgement of new entries is one short. A follower that took new entries answers
  with the index of the last one, where the leader expects the one after it: the leader counts
  the entry before as the last one the follower holds. Only the answer to an empty
  \<open>append_entries\<close> brings the match index to the end.
\<close>

theorem acknowledged_index:
  assumes "reachable f a" and "state l = LEADER"
  shows "\<exists>m. outbox (acknowledge a c i es f) = outbox f @ [(a, m)] \<and>
    (let l' = snd (onMessageReceived R now rnd rounds b m l) in
      match_index l' b = Some (if es = [] then i else idx (last es) - 1) \<and>
      next_index l' = next_index l \<and> last_response l' b = Some now)"
  using assms send_to_reachable[OF assms(1)]
  by (auto simp: acknowledge_def sendNextNodeIdx_def on_next_node_idx_def Let_def)

theorem acknowledged_index_witness:
  "\<exists>m. outbox (acknowledge ''a'' 1 1 [Entry [0, 7] 2 1] (set_connected ''a'' True (ex_node ''b'' [''a'', ''c'']))) = [(''a'', m)] \<and>
     match_index (snd (onMessageReceived ex_renv 2 0 1 ''b'' m ex_leader)) ''b'' = Some 1"
proof -
  let ?f = "set_connected ''a'' True (ex_node ''b'' [''a'', ''c''])"
  have "reachable ?f ''a''" "outbox ?f = []"
    by (simp_all add: reachable_def ex_node_def raft_init_def set_connected_def Let_def)
  with acknowledged_index[of ?f "''a''" ex_leader 1 1 "[Entry [0, 7] 2 1]" ex_renv 2 0 1 "''b''"] ex_leader_fields(6)
  show ?thesis by (auto simp: Let_def)
qed

section \<open>Applying committed entries\<close>

text \<open>The entries behind the applied ones, up to the commit index.\<close>

definition to_apply :: "raft \<Rightarrow> entry list" where
  "to_apply s = filter (\<lambda>e. last_applied s < idx e \<and> idx e \<le> commit_index s) (raft_log s)"

lemma log_range:
  assumes "log_ok es" and "first_idx es \<le> a + 1"
  shows "filter (\<lambda>e. a < idx e \<and> idx e \<le> b) es = take (nat (b - a)) (drop (nat (a + 1 - first_idx es)) es)"
proof -
  let ?P = "\<lambda>e. a < idx e \<and> idx e \<le> b" and ?d = "nat (a + 1 - first_idx es)" and ?k = "nat (b - a)"
  have i: "idx (es ! i) = first_idx es + int i" if "i < length es" for i
    using assms(1) that unfolding log_ok_def by blast
  have "filter ?P (take ?d es) = []"
    using i assms(2) by (auto simp: filter_empty_conv in_set_conv_nth)
  moreover have "filter ?P (take ?k (drop ?d es)) = take ?k (drop ?d es)"
    using i assms(2) by (auto simp: filter_id_conv in_set_conv_nth)
  moreover have "filter ?P (drop ?k (drop ?d es)) = []"
  proof -
    have "int ?k \<ge> b - a" "int ?d = a + 1 - first_idx es" using assms(2) by simp_all
    moreover have "idx x = first_idx es + int ?d + int ?k + int j"
      if "x = drop ?k (drop ?d es) ! j" "j < length (drop ?k (drop ?d es))" for x j
      using i[of "?k + ?d + j"] that by (simp add: add.commute add.left_commute)
    ultimately have "\<not> ?P x" if "x \<in> set (drop ?k (drop ?d es))" for x
      using that unfolding in_set_conv_nth by force
    then show ?thesis by (auto simp: filter_empty_conv)
  qed
  moreover have "filter ?P es = filter ?P (take ?d es @ take ?k (drop ?d es) @ drop ?k (drop ?d es))"
    by (simp only: append_take_drop_id)
  ultimately show ?thesis by (simp only: filter_append append_Nil append_Nil2)
qed

lemma apply_committed_eq:
  assumes "log_ok (raft_log s)" and "first_idx (raft_log s) \<le> last_applied s + 1"
  shows "apply_committed R s = forE (apply_entry R) (to_apply s) s"
proof -
  have "getEntries (Some (last_applied s + 1)) (Some (nat (commit_index s - last_applied s))) None (raft_log s) = to_apply s"
    using assms(2) unfolding to_apply_def log_range[OF assms] by (simp add: getEntries_def Let_def)
  moreover have "to_apply s = []" if "commit_index s \<le> last_applied s"
    using that by (auto simp: to_apply_def filter_empty_conv)
  ultimately show ?thesis by (auto simp: apply_committed_def)
qed

lemma to_apply_length:
  assumes "log_ok (raft_log s)" and "first_idx (raft_log s) \<le> last_applied s + 1"
    and "commit_index s \<le> getCurrentLogIndex s"
  shows "length (to_apply s) = nat (commit_index s - last_applied s)"
  using assms(2,3) log_ok_last_idx[OF assms(1)]
  unfolding to_apply_def log_range[OF assms(1,2)] getCurrentLogIndex_def by auto

lemma apply_committed_blocks_aux:
  assumes "ledger_inv (ledger_env R) (app s)" and "log_ok (raft_log s)"
    and "first_idx (raft_log s) \<le> last_applied s + 1" "commit_index s \<le> getCurrentLogIndex s"
    and "\<forall>e\<in>set (to_apply s). applicable R e"
  shows "\<exists>s'. apply_committed R s = (Inr (), s') \<and> last_applied s' = max (last_applied s) (commit_index s) \<and>
    block_queue (app s') = block_queue (app s) @ concat (map (block_of R) (to_apply s)) \<and>
    ledger_inv (ledger_env R) (app s')"
proof -
  obtain s' where s': "forE (apply_entry R) (to_apply s) s = (Inr (), s')"
    "last_applied s' = last_applied s + int (length (to_apply s))" "ledger_inv (ledger_env R) (app s')"
    "block_queue (app s') = block_queue (app s) @ concat (map (block_of R) (to_apply s))"
    using apply_entries_applicable[OF assms(1,5)] by blast
  then show ?thesis using apply_committed_eq[OF assms(2,3)] to_apply_length[OF assms(2,3,4)] by auto
qed

text \<open>The log and the commit index are not touched by applying.\<close>

lemma fold_fire_log [simp]:
  "raft_log (fold (\<lambda>(t, c). fire c (f t)) xs s) = raft_log s"
  "commit_index (fold (\<lambda>(t, c). fire c (f t)) xs s) = commit_index s"
  by (induction xs arbitrary: s) (auto simp: fire_def)

lemma apply_entry_frame:
  "apply_entry R e s = (r, s') \<Longrightarrow> raft_log s' = raft_log s \<and> commit_index s' = commit_index s"
  by (auto simp: apply_entry_def doApplyCommand_def Let_def
      split: prod.splits sum.splits py_error.splits list.splits if_splits)

lemma apply_entries_frame:
  assumes "forE (apply_entry R) es s = (r, s')"
  shows "raft_log s' = raft_log s \<and> commit_index s' = commit_index s"
  by (rule forE_inv[where I = "\<lambda>t. raft_log t = raft_log s \<and> commit_index t = commit_index s", OF _ _ assms])
     (auto dest: apply_entry_frame)

lemma to_apply_last:
  assumes "log_ok (raft_log s)" and "first_idx (raft_log s) \<le> last_applied s + 1"
    and "commit_index s \<le> getCurrentLogIndex s" and "to_apply s = xs @ [e]"
  shows "filter (\<lambda>x. commit_index s - 1 < idx x \<and> idx x \<le> commit_index s) (raft_log s) = [e]"
proof -
  let ?a = "last_applied s" and ?c = "commit_index s" and ?L = "raft_log s"
  have len: "nat (?c - ?a) = Suc (length xs)"
    using to_apply_length[OF assms(1-3)] assms(4) by simp
  then have c: "?c = ?a + int (length xs) + 1" by linarith
  have "filter (\<lambda>x. ?c - 1 < idx x \<and> idx x \<le> ?c) ?L = filter (\<lambda>x. ?c - 1 < idx x) (to_apply s)"
    unfolding to_apply_def filter_filter by (rule filter_cong) (use c in auto)
  also have "\<dots> = [e]"
  proof -
    let ?d = "nat (?a + 1 - first_idx ?L)"
    have t: "xs @ [e] = take (nat (?c - ?a)) (drop ?d ?L)"
      using assms(4) log_range[OF assms(1,2), of ?c] by (simp add: to_apply_def)
    have i: "idx ((xs @ [e]) ! i) = ?a + 1 + int i" if "i \<le> length xs" for i
    proof -
      have "length (xs @ [e]) \<le> length ?L - ?d" unfolding t by simp
      then have "i < nat (?c - ?a)" "?d + i < length ?L" using that len by auto
      then have "(xs @ [e]) ! i = ?L ! (?d + i)" unfolding t by simp
      moreover have "idx (?L ! (?d + i)) = first_idx ?L + int (?d + i)"
        using assms(1) \<open>?d + i < length ?L\<close> unfolding log_ok_def by blast
      ultimately show ?thesis using assms(2) by simp
    qed
    have "filter (\<lambda>x. ?c - 1 < idx x) xs = []"
    proof -
      have "idx (xs ! j) \<le> ?c - 1" if "j < length xs" for j using i[of j] that c by (simp add: nth_append)
      then show ?thesis by (auto simp: filter_empty_conv in_set_conv_nth not_less)
    qed
    moreover have "idx e = ?c" using i[of "length xs"] c by simp
    ultimately show ?thesis by (simp add: assms(4))
  qed
  finally show ?thesis .
qed

text \<open>
  C16. Committed blocks reach the ledger in the order of the log. A node applies exactly the
  entries behind its last applied one, up to the commit index: it returns, the applied index is
  then the commit index, the blocks of these entries are appended to the ledger's queue in
  their order, and the ledger's invariant is kept - for entries that carry a decodable block or
  no command of a version.
\<close>

theorem apply_committed_blocks:
  assumes "ledger_inv (ledger_env R) (app s)" and "log_ok (raft_log s)"
    and "first_idx (raft_log s) \<le> last_applied s + 1" "commit_index s \<le> getCurrentLogIndex s"
    and "\<forall>e\<in>set (to_apply s). applicable R e"
  shows "\<exists>s'. apply_committed R s = (Inr (), s') \<and> last_applied s' = max (last_applied s) (commit_index s) \<and>
    block_queue (app s') = block_queue (app s) @ concat (map (block_of R) (to_apply s)) \<and>
    ledger_inv (ledger_env R) (app s')"
  using assms by (rule apply_committed_blocks_aux)

theorem apply_committed_blocks_witness:
  "\<exists>s'. apply_committed ex_renv (ex_leader\<lparr>commit_index := 3\<rparr>) = (Inr (), s') \<and> last_applied s' = 3 \<and>
     block_queue (app s') = block_queue ex_state @ [\<lparr>block_time = 5, block_txns = [[7]]\<rparr>]"
proof -
  let ?s = "ex_leader\<lparr>commit_index := 3\<rparr>"
  have f: "raft_log ?s = raft_log ex_leader" "commit_index ?s = 3" "getCurrentLogIndex ?s = 3"
    using ex_leader_fields(3) by (simp_all add: getCurrentLogIndex_def)
  have a: "app ?s = ex_state" "last_applied ?s = 1"
    by (simp_all add: ex_leader_def ex_node_def raft_init_def Let_def)
  have t: "to_apply ?s = [Entry [1] 2 1, Entry [0, 7] 3 1]"
    unfolding to_apply_def f a by (simp add: ex_leader_fields)
  have "ledger_inv (ledger_env ex_renv) (app ?s)" unfolding a by (simp add: ex_renv_def ex_state_inv)
  moreover have "\<forall>e\<in>set (to_apply ?s). applicable ex_renv e"
    unfolding t by (simp add: applicable_def command_types ex_renv_def)
  moreover have "log_ok (raft_log ?s)" "first_idx (raft_log ?s) \<le> last_applied ?s + 1"
    using ex_leader_log(1) unfolding f a by (simp_all add: ex_leader_fields first_idx_def)
  ultimately have "\<exists>s'. apply_committed ex_renv ?s = (Inr (), s') \<and> last_applied s' = max (last_applied ?s) (commit_index ?s) \<and>
      block_queue (app s') = block_queue (app ?s) @ concat (map (block_of ex_renv) (to_apply ?s)) \<and>
      ledger_inv (ledger_env ex_renv) (app s')"
    by (intro apply_committed_blocks) (simp_all only: f order_refl)
  then show ?thesis unfolding t a f by (simp add: block_of_def command_types ex_renv_def) blast
qed

text \<open>
  C34. An unsupported version makes a block count twice. When the first entry to apply asks for a
  version the node does not have, it is passed over without being counted, so the applied index
  ends one below the commit index, and the next tick applies the last of the entries again: its
  block is in the ledger's queue twice.
\<close>

theorem wrong_version_applies_twice:
  assumes "ledger_inv (ledger_env R) (app s)" and "log_ok (raft_log s)"
    and "first_idx (raft_log s) \<le> last_applied s + 1" "commit_index s \<le> getCurrentLogIndex s"
    and "to_apply s = v # es @ [e]" and "\<forall>x\<in>set (es @ [e]). applicable R x"
    and "cmd v = VERSION # payload" "loads_version R payload = Inr n" "n > self_code_version s"
  shows "\<exists>s1 s2. apply_committed R s = (Inr (), s1) \<and> last_applied s1 = commit_index s - 1 \<and>
    apply_committed R s1 = (Inr (), s2) \<and> last_applied s2 = commit_index s \<and>
    block_queue (app s2) = block_queue (app s) @ concat (map (block_of R) (es @ [e])) @ block_of R e"
proof -
  let ?s0 = "s\<lparr>waiting_commit := (waiting_commit s)(idx v := [])\<rparr>"
  have v: "apply_entry R v s = (Inr (), ?s0)" using apply_entry_version[OF assms(7-9)] .
  obtain s1 where s1: "forE (apply_entry R) (es @ [e]) ?s0 = (Inr (), s1)"
    "last_applied s1 = last_applied s + int (length (es @ [e]))" "ledger_inv (ledger_env R) (app s1)"
    "block_queue (app s1) = block_queue (app s) @ concat (map (block_of R) (es @ [e]))"
    using apply_entries_applicable[of R ?s0 "es @ [e]"] assms(1,6) by auto
  have len: "commit_index s - last_applied s = int (length es) + 2"
  proof -
    have "nat (commit_index s - last_applied s) = length es + 2" using to_apply_length[OF assms(2-4)] assms(5) by simp
    then show ?thesis by linarith
  qed
  have r1: "apply_committed R s = (Inr (), s1)"
    using apply_committed_eq[OF assms(2,3), of R] s1(1) v by (simp add: assms(5) bindE_ok)
  have f: "raft_log s1 = raft_log s" "commit_index s1 = commit_index s"
    using apply_entries_frame[OF s1(1)] by simp_all
  have l1: "last_applied s1 = commit_index s - 1" using s1(2) len by simp
  have t1: "to_apply s1 = [e]"
    using to_apply_last[OF assms(2-4), of "v # es" e] assms(5) unfolding to_apply_def f l1 by simp
  have "\<forall>x\<in>set (to_apply s1). applicable R x" unfolding t1 using assms(6) by simp
  moreover have "log_ok (raft_log s1)" "first_idx (raft_log s1) \<le> last_applied s1 + 1"
    "commit_index s1 \<le> getCurrentLogIndex s1"
    using assms(2-4) len unfolding f l1 by (simp_all add: getCurrentLogIndex_def f)
  ultimately obtain s2 where s2: "apply_committed R s1 = (Inr (), s2)"
    "last_applied s2 = max (last_applied s1) (commit_index s1)"
    "block_queue (app s2) = block_queue (app s1) @ concat (map (block_of R) (to_apply s1))"
    using apply_committed_blocks_aux[OF s1(3)] by blast
  have "last_applied s2 = commit_index s" using s2(2) unfolding f l1 by simp
  with r1 l1 s2(1,3) s1(4) t1 show ?thesis by auto
qed

theorem wrong_version_applies_twice_witness:
  "\<exists>s1 s2. apply_committed ex_renv (ex_leader\<lparr>raft_log := [Entry [1] 1 0, Entry [3, 9] 2 1, Entry [0, 7] 3 1], commit_index := 3\<rparr>)
       = (Inr (), s1) \<and> apply_committed ex_renv s1 = (Inr (), s2) \<and>
     map block_txns (block_queue (app s2)) = map block_txns (block_queue ex_state) @ [[[7]], [[7]]]"
proof -
  let ?L = "[Entry [1] 1 0, Entry [3, 9] 2 1, Entry [0, 7] 3 1]"
  let ?s = "ex_leader\<lparr>raft_log := ?L, commit_index := 3\<rparr>"
  have f: "raft_log ?s = ?L" "commit_index ?s = 3" "getCurrentLogIndex ?s = 3"
    by (simp_all add: getCurrentLogIndex_def last_entry_def)
  have a: "app ?s = ex_state" "last_applied ?s = 1" "self_code_version ?s = 0"
    by (simp_all add: ex_leader_def ex_node_def raft_init_def Let_def)
  have t: "to_apply ?s = Entry [3, 9] 2 1 # [] @ [Entry [0, 7] 3 1]" unfolding to_apply_def f a by simp
  have l: "log_ok ?L" by (auto simp: log_ok_def first_idx_def less_Suc_eq nth_Cons' numeral_eq_Suc)
  have "ledger_inv (ledger_env ex_renv) (app ?s)" unfolding a by (simp add: ex_renv_def ex_state_inv)
  moreover have "\<forall>e\<in>set ([] @ [Entry [0, 7] 3 1]). applicable ex_renv e"
    by (simp add: applicable_def command_types ex_renv_def)
  moreover have "log_ok (raft_log ?s)" "first_idx (raft_log ?s) \<le> last_applied ?s + 1"
    "commit_index ?s \<le> getCurrentLogIndex ?s"
    using l unfolding f a by (simp_all add: first_idx_def)
  moreover have "cmd (Entry [3, 9] 2 1) = VERSION # [9]" "loads_version ex_renv [9] = Inr 9" "9 > self_code_version ?s"
    unfolding a by (simp_all add: command_types ex_renv_def)
  ultimately obtain s1 s2 where "apply_committed ex_renv ?s = (Inr (), s1)" "apply_committed ex_renv s1 = (Inr (), s2)"
    "block_queue (app s2) = block_queue (app ?s) @ concat (map (block_of ex_renv) ([] @ [Entry [0, 7] 3 1])) @ block_of ex_renv (Entry [0, 7] 3 1)"
    using wrong_version_applies_twice[where s = ?s and R = ex_renv, OF _ _ _ _ t] by blast
  then show ?thesis unfolding a by (simp add: block_of_def command_types ex_renv_def)
qed

section \<open>Membership\<close>

text \<open>
  C37. Changes of the cluster overlap. A leader whose no-op entry is applied takes two membership
  commands in a row: both are accepted and take effect at once, both entries are appended to
  the log, with nothing committed or applied in between. The guard against it,
  \<open>changeClusterIDx\<close>, is unset before and after.
\<close>

theorem membership_changes_overlap:
  assumes "dynamicMembershipChange (conf R)" "appendEntriesUseBatch (conf R)"
    and "noop_idx s = Some n" "n \<le> last_applied s" and "change_cluster_idx s = None"
    and "loads_request R p1 = Inr (''add'', a)" "loads_request R p2 = Inr (''add'', b)" and "a \<noteq> b"
    and "a \<notin> set (other_addrs s)" "Some a \<noteq> self_addr s" "b \<notin> set (other_addrs s)" "Some b \<noteq> self_addr s"
  shows "\<exists>s1 s2. leader_command R now rounds (MEMBERSHIP # p1) None s = (Inr (), s1) \<and>
    leader_command R now rounds (MEMBERSHIP # p2) None s1 = (Inr (), s2) \<and>
    other_addrs s2 = other_addrs s @ [a, b] \<and> length (nodes s2) = length (nodes s) + 2 \<and>
    map cmd (raft_log s2) = map cmd (raft_log s) @ [MEMBERSHIP # p1, MEMBERSHIP # p2] \<and>
    last_applied s2 = last_applied s \<and> commit_index s2 = commit_index s \<and> change_cluster_idx s2 = None"
  using assms
  by (simp add: leader_command_def parseChangeClusterRequest_def changeCluster_def doChangeCluster_def
      accept_command_def Let_def)

theorem membership_changes_overlap_witness:
  "\<exists>s1 s2. leader_command ex_renv 5 1 [2, 4] None (ex_leader\<lparr>last_applied := 2\<rparr>) = (Inr (), s1) \<and>
     leader_command ex_renv 5 1 [2, 6] None s1 = (Inr (), s2) \<and>
     other_addrs s2 = [''b'', ''c'', ''d'', ''e'']"
proof -
  let ?s = "ex_leader\<lparr>last_applied := 2\<rparr>"
  have s: "noop_idx ?s = Some 2" "change_cluster_idx ?s = None" "other_addrs ?s = [''b'', ''c'']" "self_addr ?s = Some ''a''"
    by (simp_all add: ex_leader_def ex_node_def raft_init_def Let_def)
  have c: "dynamicMembershipChange (conf ex_renv)" "appendEntriesUseBatch (conf ex_renv)"
    "loads_request ex_renv [4] = Inr (''add'', ''d'')" "loads_request ex_renv [6] = Inr (''add'', ''e'')"
    by (simp_all add: ex_renv_def belcoin_conf_def default_conf_def)
  obtain s1 s2 where "leader_command ex_renv 5 1 (MEMBERSHIP # [4]) None ?s = (Inr (), s1)"
    "leader_command ex_renv 5 1 (MEMBERSHIP # [6]) None s1 = (Inr (), s2)" "other_addrs s2 = other_addrs ?s @ [''d'', ''e'']"
    using membership_changes_overlap[OF c(1,2) s(1) _ s(2) c(3,4), of 5 1] unfolding s by auto
  then show ?thesis unfolding s by (simp add: command_types)
qed

abbreviation new_peer :: "addr \<Rightarrow> peer" where
  "new_peer a \<equiv> \<lparr>peer_addr = a, connected = False\<rparr>"

text \<open>An entry that asks to add a member.\<close>

definition adds :: "raft_env \<Rightarrow> addr \<Rightarrow> entry \<Rightarrow> bool" where
  "adds R a e \<longleftrightarrow> (\<exists>p. cmd e = MEMBERSHIP # p \<and> loads_request R p = Inr (''add'', a))"

lemma redo_adds:
  assumes "adds R a e" and "Some a \<noteq> self_addr s" "a \<notin> set (other_addrs s)"
  shows "\<exists>s'. redo_entry R now False e s = (Inr (), s') \<and> other_addrs s' = other_addrs s @ [a] \<and>
    nodes s' = nodes s @ [new_peer a] \<and> self_addr s' = self_addr s"
  using assms by (auto simp: adds_def redo_entry_def parseChangeClusterRequest_def doChangeCluster_def)

lemma undo_adds:
  assumes "adds R a e" and "Some a \<noteq> self_addr s" and "other_addrs s = os @ [a]" "a \<notin> set os"
    and "nodes s = ns @ [new_peer a]" "a \<notin> peer_addr ` set ns"
  shows "\<exists>s'. redo_entry R now True e s = (Inr (), s') \<and> other_addrs s' = os \<and> nodes s' = ns \<and>
    self_addr s' = self_addr s"
proof -
  have "takeWhile (\<lambda>p. peer_addr p \<noteq> a) (ns @ [new_peer a]) = ns"
    "dropWhile (\<lambda>p. peer_addr p \<noteq> a) (ns @ [new_peer a]) = [new_peer a]"
    using assms(6) by (induction ns) auto
  then show ?thesis
    using assms(1-5) by (auto simp: adds_def redo_entry_def parseChangeClusterRequest_def doChangeCluster_def
        remove1_append)
qed

lemma redo_adds_all:
  assumes "list_all2 (adds R) as es" and "distinct as"
    and "set as \<inter> (set (other_addrs s) \<union> set_option (self_addr s)) = {}"
  shows "\<exists>s'. forE (redo_entry R now False) es s = (Inr (), s') \<and> other_addrs s' = other_addrs s @ as \<and>
    nodes s' = nodes s @ map new_peer as \<and> self_addr s' = self_addr s"
  using assms
proof (induction arbitrary: s rule: list_all2_induct)
  case (Cons a as e es)
  then obtain s1 where s1: "redo_entry R now False e s = (Inr (), s1)" "other_addrs s1 = other_addrs s @ [a]"
    "nodes s1 = nodes s @ [new_peer a]" "self_addr s1 = self_addr s"
    using redo_adds[of R a e s] by (metis IntI UnCI distinct.simps(2) elem_set empty_iff list.set_intros(1))
  from Cons.prems have "distinct as" "set as \<inter> (set (other_addrs s1) \<union> set_option (self_addr s1)) = {}"
    by (auto simp: s1)
  from Cons.IH[OF this] s1 show ?case by (auto simp: bindE_ok)
qed simp

lemma undo_adds_all:
  assumes "list_all2 (adds R) as es" and "distinct as"
    and "other_addrs s = os @ as" "nodes s = ns @ map new_peer as"
    and "set as \<inter> (set os \<union> peer_addr ` set ns \<union> set_option (self_addr s)) = {}"
  shows "\<exists>s'. forE (redo_entry R now True) (rev es) s = (Inr (), s') \<and> other_addrs s' = os \<and> nodes s' = ns"
  using assms
proof (induction as arbitrary: es s rule: rev_induct)
  case (snoc a as)
  from snoc.prems(1) obtain es' e where es: "es = es' @ [e]" "list_all2 (adds R) as es'" "adds R a e"
    by (auto simp: list_all2_append1 list_all2_Cons1)
  have "a \<notin> peer_addr ` set (ns @ map new_peer as)" using snoc.prems(2,5) by auto
  moreover have "Some a \<noteq> self_addr s" "a \<notin> set (os @ as)" using snoc.prems(2,5) by auto
  ultimately obtain s1 where s1: "redo_entry R now True e s = (Inr (), s1)" "other_addrs s1 = os @ as"
    "nodes s1 = ns @ map new_peer as" "self_addr s1 = self_addr s"
    using undo_adds[OF es(3), of s "os @ as" "ns @ map new_peer as" now] snoc.prems(3,4) by auto
  from snoc.IH[OF es(2) _ s1(2,3)] snoc.prems(2,5) s1(1,4) show ?case
    by (auto simp: es(1) bindE_ok)
qed simp

text \<open>
  A dropped membership entry is undone. When a list of entries that add members was taken
  into the log and its changes were done, and it is dropped again, the node knows the members
  it knew before, and has the partners it had, given that the new members were not known before
  and are all different.
\<close>

theorem membership_undo:
  assumes "dynamicMembershipChange (conf R)" and "list_all2 (adds R) as es" and "distinct as"
    and "set as \<inter> (set (other_addrs s) \<union> peer_addr ` set (nodes s) \<union> set_option (self_addr s)) = {}"
  shows "\<exists>s1 s2. redo_entries R now False es s = (Inr (), s1) \<and> other_addrs s1 = other_addrs s @ as \<and>
    redo_entries R now' True (rev es) s1 = (Inr (), s2) \<and> other_addrs s2 = other_addrs s \<and> nodes s2 = nodes s"
proof -
  from assms(4) have "set as \<inter> (set (other_addrs s) \<union> set_option (self_addr s)) = {}" by blast
  from redo_adds_all[OF assms(2,3) this] obtain s1 where s1: "forE (redo_entry R now False) es s = (Inr (), s1)"
    "other_addrs s1 = other_addrs s @ as" "nodes s1 = nodes s @ map new_peer as" "self_addr s1 = self_addr s" by blast
  with undo_adds_all[OF assms(2,3) s1(2,3), of now'] assms(1,4) show ?thesis by (auto simp: redo_entries_def)
qed

theorem membership_undo_witness:
  "\<exists>s1 s2. redo_entries ex_renv 5 False [Entry [2, 4] 4 1, Entry [2, 6] 5 1] ex_leader = (Inr (), s1) \<and>
     other_addrs s1 = [''b'', ''c'', ''d'', ''e''] \<and>
     redo_entries ex_renv 6 True [Entry [2, 6] 5 1, Entry [2, 4] 4 1] s1 = (Inr (), s2) \<and> other_addrs s2 = [''b'', ''c'']"
proof -
  have s: "other_addrs ex_leader = [''b'', ''c'']" "self_addr ex_leader = Some ''a''" "peer_addr ` set (nodes ex_leader) = {''b'', ''c''}"
    by (simp_all add: ex_leader_def ex_node_def raft_init_def Let_def)
  have "dynamicMembershipChange (conf ex_renv)"
    "list_all2 (adds ex_renv) [''d'', ''e''] [Entry [2, 4] 4 1, Entry [2, 6] 5 1]"
    by (simp_all add: ex_renv_def belcoin_conf_def default_conf_def adds_def command_types)
  from membership_undo[OF this, of ex_leader 5 6] show ?thesis unfolding s by auto
qed

end
