(* ===== verification/RaftSteady.thy ===== *)
theory RaftSteady
  imports RaftCuts RaftLogSpec
begin

text \<open>
  What holds in spite of the faults: as long as the entries of one leader are the only ones in the
  logs, all nodes apply the same blocks in the same order, however messages are lost, delayed and
  reordered, and whatever followers cut off and get again.
\<close>

section \<open>Handlers that apply nothing\<close>

definition keeps :: "raft \<Rightarrow> raft \<Rightarrow> bool" where
  "keeps s s' \<longleftrightarrow> applied s' = applied s"

lemma keeps_send: "keeps s (node_send p m s)"
  by (simp add: keeps_def node_send_def applied_def)

lemma keeps_entries: "keeps s (entries_round R p s)"
proof -
  have f: "applied (fold f xs s) = applied s" if "\<And>x s. applied (f x s) = applied s"
    for f :: "'x \<Rightarrow> raft \<Rightarrow> raft" and xs s
    using that by (induction xs arbitrary: s) auto
  have e: "applied (send_entries R p es prev s) = applied s" for R p es prev s
    by (simp add: send_entries_def Let_def keeps_send[unfolded keeps_def] f case_prod_beta)
  have n: "applied (s\<lparr>next_index := n\<rparr>) = applied s" for n s by (simp add: applied_def)
  show ?thesis by (simp add: keeps_def entries_round_def Let_def e n)
qed

interpretation keep: handler_frame keeps
  by unfold_locales (simp_all add: keeps_send keeps_entries, simp_all add: keeps_def standing_defs)

lemma redo_applied: "applied (snd (redo_entries R now b es s)) = applied s"
  using redo_standing[of R now b es s] by (simp add: standing_def)

lemma keeps_cong: "app s' = app s \<Longrightarrow> last_applied s' = last_applied s \<Longrightarrow> self_code_version s' = self_code_version s \<Longrightarrow> keeps s s'"
  by (simp add: keeps_def applied_def)

lemma keeps_accept: "keeps s (snd (accept_entries R now a c es prev s))"
proof -
  have "keeps s (snd (redo_entries R now b es s))" for b es s by (simp add: keeps_def redo_applied)
  note redo = this
  have "keeps s (snd (cut_log R now i dropped s))" for i dropped s
    by (auto simp: cut_log_def intro!: keep.bindE redo) (simp add: keeps_cong)
  moreover have "keeps s (snd (add_entries R now es s))" for s
    unfolding add_entries_def by (rule keep.trans[OF keeps_cong redo]) simp_all
  moreover have "keeps s (acknowledge a c i es s)" for i s
    unfolding acknowledge_def Let_def by (rule keep.trans[OF keep.sendNext keeps_cong]) simp_all
  ultimately show ?thesis
    unfolding accept_entries_def by (auto intro!: keep.bindE keep.sendNext split: list.split)
qed

lemma keeps_follow: "keeps s (follow_leader R now rnd a t c s)"
  by (rule keeps_cong) (simp_all add: follow_leader_def Let_def onLeaderChanged_def)

lemma keeps_request_vote: "keeps s (on_request_vote R now rnd a t i lt s)"
  by (rule keeps_cong) (simp_all add: on_request_vote_def Let_def send_to_def node_send_def split: option.split)

lemma keeps_becomeLeader: "keeps s (onBecomeLeader R now rounds s)"
  by (rule keep.trans[OF keeps_cong keep.becomeLeader]) simp_all

text \<open>No message makes a node apply anything; only the tick does.\<close>

lemma message_applied:
  assumes "whole m"
  shows "keeps s (snd (onMessageReceived R now rnd rounds a m s))"
proof (cases m)
  case (Append_entries t c es prev)
  then show ?thesis using keep.trans[OF keeps_follow keeps_accept] by simp
next
  case (Append_snapshot t c td)
  have "keeps (follow_leader R now rnd a t c s) (install_snapshot R a c None (follow_leader R now rnd a t c s))"
    by (rule keeps_cong) (simp_all add: install_snapshot_def Let_def)
  then show ?thesis using assms Append_snapshot keep.trans[OF keeps_follow] by simp
next
  case (Response_vote t)
  have "keeps s (onBecomeLeader R now rounds (s\<lparr>votes_count := n\<rparr>))" for n
    by (rule keep.trans[OF keeps_cong keeps_becomeLeader]) simp_all
  then show ?thesis using Response_vote by (simp add: on_response_vote_def Let_def keeps_cong)
qed (use assms in \<open>simp_all add: keeps_request_vote keep.applyCommand keep.response keep.next_idx\<close>)

section \<open>Applying\<close>

text \<open>
  What a tick applies are the next entries of the log the node has after it. The environments of
  the nodes may differ but in what makes a block of a command and in the ledger; no entry asks for a
  version they do not have.
\<close>

definition supports :: "raft_env \<Rightarrow> raft_env \<Rightarrow> bool" where
  "supports R0 R \<longleftrightarrow> ledger_env R = ledger_env R0 \<and> loads_call R = loads_call R0 \<and>
     (\<forall>p. loads_call R p \<noteq> Inl WrongVersion) \<and> (\<forall>p. loads_version R p \<noteq> Inl WrongVersion) \<and>
     (\<forall>p v. loads_version R p = Inr v \<longrightarrow> v \<le> 0)"

definition ready_to_apply :: "raft_env \<Rightarrow> raft \<Rightarrow> bool" where
  "ready_to_apply R0 s \<longleftrightarrow> self_code_version s = 0 \<and> ledger_inv (ledger_env R0) (app s)"

definition applies :: "raft_env \<Rightarrow> raft \<Rightarrow> raft \<Rightarrow> bool" where
  "applies R0 s s' \<longleftrightarrow> (\<exists>xs. raft_log s' = raft_log s @ xs) \<and>
     (ready_to_apply R0 s \<and> raft_log s \<noteq> [] \<and> first_idx (raft_log s) \<le> last_applied s + 1 \<longrightarrow>
      ready_to_apply R0 s' \<and>
      (\<exists>es. block_queue (app s') = block_queue (app s) @ concat (map (block_of R0) es) \<and>
         last_applied s' = last_applied s + int (length es) \<and>
         es = take (length es) (drop (nat (last_applied s + 1 - first_idx (raft_log s))) (raft_log s'))))"

lemma ready_cong:
  assumes "applied s' = applied s" and "ready_to_apply R0 s"
  shows "ready_to_apply R0 s'"
proof -
  have a: "(app s')\<lparr>adding_block := False\<rparr> = (app s)\<lparr>adding_block := False\<rparr>" and v: "self_code_version s' = self_code_version s"
    using assms(1) by (simp_all add: applied_def)
  have "ledger_inv (ledger_env R0) ((app s)\<lparr>adding_block := False\<rparr>)"
    using assms(2) by (auto simp: ready_to_apply_def intro: ledger_inv_cong[where s = "app s"])
  then have "ledger_inv (ledger_env R0) ((app s')\<lparr>adding_block := False\<rparr>)" by (simp only: a)
  then have "ledger_inv (ledger_env R0) (app s')" by (rule ledger_inv_cong) simp_all
  with v assms(2) show ?thesis by (simp add: ready_to_apply_def)
qed

lemma applies_same:
  assumes "applied s' = applied s" and "raft_log s' = raft_log s @ xs"
  shows "applies R0 s s'"
proof -
  have "block_queue ((app s')\<lparr>adding_block := False\<rparr>) = block_queue ((app s)\<lparr>adding_block := False\<rparr>)" "last_applied s' = last_applied s"
    using assms(1) by (simp_all add: applied_def)
  then show ?thesis using assms ready_cong[OF assms(1), of R0] by (auto simp: applies_def)
qed

lemma take_segments:
  assumes "es = take (length es) (drop n xs)" and "fs = take (length fs) (drop (n + length es) (xs @ ys))"
  shows "es @ fs = take (length (es @ fs)) (drop n (xs @ ys))"
proof -
  have l: "length es \<le> length (drop n xs)" using assms(1) by (metis length_take min.cobounded1)
  have e: "take (length es) (drop n (xs @ ys)) = es"
    using l assms(1) by (simp del: length_drop)
  have "take (length (es @ fs)) (drop n (xs @ ys)) =
      take (length es) (drop n (xs @ ys)) @ take (length fs) (drop (n + length es) (xs @ ys))"
    unfolding length_append take_add drop_drop by (simp only: add.commute)
  then show ?thesis unfolding e assms(2)[symmetric] ..
qed

lemma applies_trans:
  assumes a: "applies R0 s t" and b: "applies R0 t u"
  shows "applies R0 s u"
proof -
  obtain xs ys where l: "raft_log t = raft_log s @ xs" "raft_log u = raft_log t @ ys"
    using a b unfolding applies_def by blast
  let ?r = "ready_to_apply R0 s \<and> raft_log s \<noteq> [] \<and> first_idx (raft_log s) \<le> last_applied s + 1"
  have "ready_to_apply R0 u \<and> (\<exists>es. block_queue (app u) = block_queue (app s) @ concat (map (block_of R0) es) \<and>
      last_applied u = last_applied s + int (length es) \<and>
      es = take (length es) (drop (nat (last_applied s + 1 - first_idx (raft_log s))) (raft_log u)))" if r: ?r
  proof -
    let ?n = "nat (last_applied s + 1 - first_idx (raft_log s))"
    obtain es where es: "ready_to_apply R0 t" "block_queue (app t) = block_queue (app s) @ concat (map (block_of R0) es)"
      "last_applied t = last_applied s + int (length es)" "es = take (length es) (drop ?n (raft_log t))"
      using a r unfolding applies_def by blast
    have f: "first_idx (raft_log t) = first_idx (raft_log s)" "raft_log t \<noteq> []" using l(1) r by (simp_all add: first_idx_def)
    then have "first_idx (raft_log t) \<le> last_applied t + 1" using es(3) r by simp
    with b es(1) f(2) obtain fs where fs: "ready_to_apply R0 u" "block_queue (app u) = block_queue (app t) @ concat (map (block_of R0) fs)"
      "last_applied u = last_applied t + int (length fs)"
      "fs = take (length fs) (drop (nat (last_applied t + 1 - first_idx (raft_log t))) (raft_log u))"
      unfolding applies_def by blast
    have d: "nat (last_applied t + 1 - first_idx (raft_log t)) = ?n + length es" using es(3) f(1) r by linarith
    have "fs = take (length fs) (drop (?n + length es) (raft_log t @ ys))" using fs(4) unfolding d l(2) .
    then have "es @ fs = take (length (es @ fs)) (drop ?n (raft_log u))" unfolding l(2) by (rule take_segments[OF es(4)])
    moreover have "block_queue (app u) = block_queue (app s) @ concat (map (block_of R0) (es @ fs))"
      "last_applied u = last_applied s + int (length (es @ fs))" using es(2,3) fs(2,3) by simp_all
    ultimately show ?thesis using fs(1) by blast
  qed
  then show ?thesis unfolding applies_def using l by auto
qed

lemma block_of_supports: "supports R0 R \<Longrightarrow> block_of R = block_of R0"
  by (rule ext) (simp add: block_of_def supports_def split: list.split)

text \<open>An entry is applied and counted, or raises and is not.\<close>

lemma apply_entry_effect:
  assumes sup: "supports R0 R" and ready: "ready_to_apply R0 s" and ap: "apply_entry R e s = (r, s')"
  shows "ready_to_apply R0 s' \<and> raft_log s' = raft_log s \<and>
    (r = Inr () \<and> last_applied s' = last_applied s + 1 \<and> block_queue (app s') = block_queue (app s) @ block_of R0 e \<or>
     (\<exists>err. r = Inl err) \<and> last_applied s' = last_applied s \<and> block_queue (app s') = block_queue (app s))"
proof -
  have inv: "ledger_inv (ledger_env R) (app s)" and v: "self_code_version s = 0"
    using sup ready by (simp_all add: supports_def ready_to_apply_def)
  let ?s1 = "s\<lparr>waiting_commit := (waiting_commit s)(idx e := [])\<rparr>"
  have log: "raft_log (fold (\<lambda>(t, c). fire c (f t)) xs u) = raft_log u \<and>
      self_code_version (fold (\<lambda>(t, c). fire c (f t)) xs u) = self_code_version u" for f xs u
    by (induction xs arbitrary: u) (auto simp: fire_def)
  obtain q u where d: "doApplyCommand R (cmd e) ?s1 = (q, u)" by (cases "doApplyCommand R (cmd e) ?s1")
  have wv: "q \<noteq> Inl WrongVersion" and u: "raft_log u = raft_log s" "self_code_version u = 0" "last_applied u = last_applied s"
    "ledger_inv (ledger_env R) (app u)"
    "block_queue (app u) = (case q of Inr _ \<Rightarrow> block_queue (app s) @ block_of R e | Inl _ \<Rightarrow> block_queue (app s))"
  proof -
    have "q \<noteq> Inl WrongVersion \<and> raft_log u = raft_log s \<and> self_code_version u = 0 \<and> last_applied u = last_applied s \<and>
        ledger_inv (ledger_env R) (app u) \<and>
        block_queue (app u) = (case q of Inr _ \<Rightarrow> block_queue (app s) @ block_of R e | Inl _ \<Rightarrow> block_queue (app s))"
    proof (cases "applicable R e")
      case True
      with doApply_applicable[of R ?s1 e] inv d v show ?thesis by auto
    next
      case False
      have "\<not> 0 < n" if "loads_version R p = Inr n" for p n using sup that by (auto simp: supports_def not_less)
      with False show ?thesis
        using d inv v sup
        by (auto simp: applicable_def doApplyCommand_def supports_def block_of_def command_types
            split: list.splits sum.splits if_splits)
    qed
    then show "q \<noteq> Inl WrongVersion" "raft_log u = raft_log s" "self_code_version u = 0" "last_applied u = last_applied s"
      "ledger_inv (ledger_env R) (app u)"
      "block_queue (app u) = (case q of Inr _ \<Rightarrow> block_queue (app s) @ block_of R e | Inl _ \<Rightarrow> block_queue (app s))"
      by blast+
  qed
  have e: "ledger_env R0 = ledger_env R" "block_of R0 = block_of R" using sup block_of_supports[OF sup] by (simp_all add: supports_def)
  show ?thesis
  proof (cases q)
    case (Inl err)
    then have "err \<noteq> WrongVersion" using wv by simp
    then have "(r, s') = (Inl err, u)" using ap d Inl unfolding apply_entry_def Let_def by (auto split: py_error.splits)
    with u Inl show ?thesis by (simp add: ready_to_apply_def e)
  next
    case (Inr x)
    then show ?thesis using ap d u unfolding apply_entry_def Let_def by (auto simp: ready_to_apply_def e log)
  qed
qed

lemma apply_loop_effect:
  assumes "supports R0 R" and "ready_to_apply R0 s"
  shows "ready_to_apply R0 (snd (forE (apply_entry R) es s)) \<and> raft_log (snd (forE (apply_entry R) es s)) = raft_log s \<and>
    (\<exists>fs. fs = take (length fs) es \<and> last_applied (snd (forE (apply_entry R) es s)) = last_applied s + int (length fs) \<and>
       block_queue (app (snd (forE (apply_entry R) es s))) = block_queue (app s) @ concat (map (block_of R0) fs))"
  using assms(2)
proof (induction es arbitrary: s)
  case Nil
  then show ?case by simp
next
  case (Cons e es)
  obtain r s1 where a: "apply_entry R e s = (r, s1)" by (cases "apply_entry R e s")
  note f = apply_entry_effect[OF assms(1) Cons.prems a]
  show ?case
  proof (cases r)
    case (Inl err)
    with f a show ?thesis by (auto simp: bindE_def intro!: exI[of _ "[]"])
  next
    case (Inr x)
    then have e: "forE (apply_entry R) (e # es) s = forE (apply_entry R) es s1" using a by (simp add: bindE_def)
    from f Inr have s1: "ready_to_apply R0 s1" "raft_log s1 = raft_log s" "last_applied s1 = last_applied s + 1"
      "block_queue (app s1) = block_queue (app s) @ block_of R0 e" by auto
    obtain fs where "fs = take (length fs) es" "last_applied (snd (forE (apply_entry R) es s1)) = last_applied s1 + int (length fs)"
      "block_queue (app (snd (forE (apply_entry R) es s1))) = block_queue (app s1) @ concat (map (block_of R0) fs)"
      using Cons.IH[OF s1(1)] by blast
    then show ?thesis unfolding e using Cons.IH[OF s1(1)] s1 by (auto intro!: exI[of _ "e # fs"])
  qed
qed

lemma applies_committed:
  assumes "supports R0 R"
  shows "applies R0 s (snd (apply_committed R s))"
proof (cases "commit_index s > last_applied s")
  case False
  then show ?thesis by (simp add: apply_committed_def applies_same)
next
  case True
  let ?n = "nat (last_applied s + 1 - first_idx (raft_log s))" and ?c = "nat (commit_index s - last_applied s)"
  let ?es = "getEntries (Some (last_applied s + 1)) (Some ?c) None (raft_log s)"
  have a: "apply_committed R s = forE (apply_entry R) ?es s" using True by (simp add: apply_committed_def)
  have quiet: "raft_log (snd (forE (apply_entry R) es t)) = raft_log t" for es t
  proof (induction es arbitrary: t)
    case (Cons e es)
    obtain r t1 where e: "apply_entry R e t = (r, t1)" by (cases "apply_entry R e t")
    have f: "raft_log (fold (\<lambda>(t, c). fire c (f t)) xs u) = raft_log u" for f xs u
      by (induction xs arbitrary: u) (auto simp: fire_def)
    have d: "raft_log (snd (doApplyCommand R c u)) = raft_log u" for c u
      by (auto simp: doApplyCommand_def split: list.split sum.split prod.split)
    have "raft_log (snd (apply_entry R e t)) = raft_log t"
      using d[of "cmd e" "t\<lparr>waiting_commit := (waiting_commit t)(idx e := [])\<rparr>"]
      by (auto simp: apply_entry_def Let_def f split: prod.splits sum.splits py_error.splits)
    with e Cons.IH[of t1] show ?case by (cases r) (simp_all add: bindE_def)
  qed simp
  show ?thesis
    unfolding applies_def a
  proof (intro conjI impI)
    show "\<exists>xs. raft_log (snd (forE (apply_entry R) ?es s)) = raft_log s @ xs" by (simp add: quiet)
  next
    assume r: "ready_to_apply R0 s \<and> raft_log s \<noteq> [] \<and> first_idx (raft_log s) \<le> last_applied s + 1"
    then have ready: "ready_to_apply R0 s" by blast
    have es: "?es = take ?c (drop ?n (raft_log s))" using r by (simp add: getEntries_def Let_def)
    note l = apply_loop_effect[OF assms ready, of ?es]
    then show "ready_to_apply R0 (snd (forE (apply_entry R) ?es s))" by blast
    obtain fs where fs: "fs = take (length fs) ?es"
      "last_applied (snd (forE (apply_entry R) ?es s)) = last_applied s + int (length fs)"
      "block_queue (app (snd (forE (apply_entry R) ?es s))) = block_queue (app s) @ concat (map (block_of R0) fs)"
      using l by blast
    have "length fs \<le> ?c" using fs(1) unfolding es by (metis length_take min.bounded_iff min.cobounded1)
    then have "fs = take (length fs) (drop ?n (raft_log s))" using fs(1) unfolding es by (simp add: min_def)
    with fs show "\<exists>fs. block_queue (app (snd (forE (apply_entry R) ?es s))) = block_queue (app s) @ concat (map (block_of R0) fs) \<and>
        last_applied (snd (forE (apply_entry R) ?es s)) = last_applied s + int (length fs) \<and>
        fs = take (length fs) (drop ?n (raft_log (snd (forE (apply_entry R) ?es s))))"
      unfolding quiet by blast
  qed
qed

lemma applies_if:
  assumes "keeps s s'" and "grows_log s s'"
  shows "applies R0 s s'"
proof -
  obtain xs where "raft_log s' = raft_log s @ xs" using assms(2) unfolding grows_log_def by blast
  with assms(1) show ?thesis unfolding keeps_def by (rule applies_same)
qed

interpretation ap: tick_frame "applies R0" "supports R0" for R0
proof unfold_locales
  show "applies R0 s (node_send p m s)" for s p m
    using keeps_send[of s p m] by (intro applies_same[where xs = "[]"]) (simp_all add: keeps_def node_send_def)
  show "applies R0 s (entries_round R p s)" if "first_idx (raft_log s) < next_of s p" for s R p
    using keeps_entries lg.entries[OF that] by (rule applies_if)
qed (auto intro: applies_trans applies_committed applies_same[where xs = "[]"] applies_same simp: standing_def,
     simp add: applies_same applied_def)

section \<open>The tick\<close>

lemma applies_election: "applies R0 s (tick_election R now rnd rounds s)"
proof (cases "\<exists>self. self_addr s = Some self \<and> state s \<noteq> LEADER \<and> election_deadline s < now \<and> connectedToAnyone s")
  case False
  then have "tick_election R now rnd rounds s = s" by (auto simp: tick_election_def split: option.split)
  then show ?thesis by simp
next
  case True
  then obtain self where self: "self_addr s = Some self" by blast
  let ?s1 = "s\<lparr>election_deadline := now + generateRaftTimeout R rnd, leader := None, state := CANDIDATE,
      current_term := current_term s + 1, voted_for := Some self, votes_count := 1\<rparr>"
  let ?m = "Request_vote (current_term s + 1) (getCurrentLogIndex ?s1) (getCurrentLogTerm ?s1)"
  let ?s3 = "onLeaderChanged (?s1\<lparr>outbox := outbox s @ map (\<lambda>p. (peer_addr p, ?m)) (filter connected (nodes s))\<rparr>)"
  have e: "tick_election R now rnd rounds s = (if majority ?s3 1 then onBecomeLeader R now rounds ?s3 else ?s3)"
    using True self by (auto simp: tick_election_def Let_def fold_node_send onLeaderChanged_def)
  have a: "applies R0 s ?s3" "applies R0 s (?s3\<lparr>state := LEADER\<rparr>)"
    by (rule applies_same[where xs = "[]"], simp_all add: onLeaderChanged_def applied_def)+
  show ?thesis unfolding e using a(1) ap.trans[OF a(2) ap.becomeLeader] by simp
qed

lemma tick_applies:
  assumes "supports R0 R" and "fullDumpFile (conf R) = None"
  shows "applies R0 s (snd (onTick R now rnd rounds cmds s))"
proof -
  have "applies R0 s (tick_load R s)" using standing_tick_load[OF assms(2)] by (rule ap.same)
  then show ?thesis using ap.trans applies_election ap.tick_rest[OF assms(1)] by blast
qed

section \<open>One leader\<close>

text \<open>All entries of the logs but the first, which every log has, are of term \<open>T\<close>.\<close>

definition one_term :: "addr set \<Rightarrow> int \<Rightarrow> cluster \<Rightarrow> bool" where
  "one_term M T c \<longleftrightarrow> (\<forall>a\<in>M. \<forall>e\<in>set (tl (raft_log (procs c a))). trm e = T)"

inductive steady_reach :: "(addr \<Rightarrow> raft_env) \<Rightarrow> addr set \<Rightarrow> int \<Rightarrow> cluster \<Rightarrow> bool" for R M T where
  start: "cluster_start R M c \<Longrightarrow>
    (\<forall>a\<in>M. fullDumpFile (conf (R a)) = None \<and> raft_log (procs c a) = [Entry [NO_OP] 1 0] \<and>
       ledger_inv (ledger_env (R a)) (app (procs c a)) \<and> block_queue (app (procs c a)) = []) \<Longrightarrow> steady_reach R M T c"
| step: "steady_reach R M T c \<Longrightarrow> cluster_step R M c c' \<Longrightarrow> (\<forall>x\<in>set (net c'). whole (snd (snd x))) \<Longrightarrow>
    one_term M T c' \<Longrightarrow> steady_reach R M T c'"

lemma steady_log: "steady_reach R M T c \<Longrightarrow> log_reach R M c"
  by (induction rule: steady_reach.induct) (auto intro: log_reach.intros)

text \<open>Entries of term \<open>T\<close> from index 2 on, all in the history.\<close>

definition written :: "history \<Rightarrow> int \<Rightarrow> entry list \<Rightarrow> bool" where
  "written G T es \<longleftrightarrow> (\<forall>k<length es. idx (es ! k) = int k + 2 \<and> trm (es ! k) = T \<and>
     (\<exists>t. G (int k + 2) T = Some (cmd (es ! k), t)))"

lemma written_agree:
  assumes "written G T es" and "written G T fs" and "length es \<le> length fs"
  shows "es = take (length es) fs"
proof (rule nth_equalityI)
  fix k assume k: "k < length es"
  then have k': "k < length fs" using assms(3) by simp
  note w = assms(1)[unfolded written_def, rule_format, OF k] assms(2)[unfolded written_def, rule_format, OF k']
  then have "cmd (es ! k) = cmd (fs ! k)" by auto
  with w have "es ! k = fs ! k" by (intro entry.expand) simp
  then show "es ! k = take (length es) fs ! k" using k by simp
qed (use assms(3) in simp)

lemma written_extends: "written G T es \<Longrightarrow> extends G G' \<Longrightarrow> written G' T es"
  unfolding written_def extends_def by blast

lemma written_take: "written G T es \<Longrightarrow> written G T (take k es)"
  by (simp add: written_def)

lemma written_log:
  assumes "grounded G es" and "\<forall>e\<in>set (tl es). trm e = T"
  shows "written G T (tl es)"
  unfolding written_def
proof (intro allI impI)
  fix k assume "k < length (tl es)"
  then have k: "Suc k < length es" and n: "tl es ! k = es ! Suc k" by (simp_all add: nth_tl)
  have "trm (tl es ! k) = T" using assms(2) \<open>k < length (tl es)\<close> by simp
  with grounded_step[OF assms(1) k] grounded_nth[OF assms(1) k] n
  show "idx (tl es ! k) = int k + 2 \<and> trm (tl es ! k) = T \<and> (\<exists>t. G (int k + 2) T = Some (cmd (tl es ! k), t))"
    by (simp add: add.commute)
qed

definition steady_node :: "raft_env \<Rightarrow> history \<Rightarrow> int \<Rightarrow> raft \<Rightarrow> bool" where
  "steady_node R0 G T s \<longleftrightarrow> ready_to_apply R0 s \<and>
     (\<exists>es. written G T es \<and> block_queue (app s) = concat (map (block_of R0) es) \<and> last_applied s = int (length es) + 1)"

lemma steady_extends: "steady_node R0 G T s \<Longrightarrow> extends G G' \<Longrightarrow> steady_node R0 G' T s"
  unfolding steady_node_def using written_extends by blast

lemma steady_keeps:
  assumes "steady_node R0 G T s" and "keeps s s'"
  shows "steady_node R0 G T s'"
proof -
  have a: "applied s' = applied s" using assms(2) by (simp add: keeps_def)
  then have "block_queue ((app s')\<lparr>adding_block := False\<rparr>) = block_queue ((app s)\<lparr>adding_block := False\<rparr>)" "last_applied s' = last_applied s"
    by (simp_all add: applied_def)
  with assms(1) ready_cong[OF a] show ?thesis by (simp add: steady_node_def)
qed

lemma steady_applies:
  assumes s: "steady_node R0 G T s" and ap: "applies R0 s s'"
    and g: "grounded G (raft_log s)" "grounded G' (raft_log s')" "extends G G'" and t: "\<forall>e\<in>set (tl (raft_log s')). trm e = T"
  shows "steady_node R0 G' T s'"
proof -
  obtain es where es: "ready_to_apply R0 s" "written G T es" "block_queue (app s) = concat (map (block_of R0) es)"
    "last_applied s = int (length es) + 1" using s unfolding steady_node_def by blast
  have ne: "raft_log s \<noteq> []" and f: "first_idx (raft_log s) = 1" using g(1) grounded_first_idx[OF g(1)] by auto
  then have "first_idx (raft_log s) \<le> last_applied s + 1" using es(4) by simp
  with ap es(1) ne obtain fs where fs: "ready_to_apply R0 s'" "block_queue (app s') = block_queue (app s) @ concat (map (block_of R0) fs)"
    "last_applied s' = last_applied s + int (length fs)"
    "fs = take (length fs) (drop (nat (last_applied s + 1 - first_idx (raft_log s))) (raft_log s'))"
    unfolding applies_def by blast
  have "nat (last_applied s + 1 - first_idx (raft_log s)) = Suc (length es)" using es(4) f by simp
  then have seg: "fs = take (length fs) (drop (length es) (tl (raft_log s')))" using fs(4) by (simp add: drop_Suc)
  have w: "written G' T (tl (raft_log s'))" using g(2) t by (rule written_log)
  have "written G' T (es @ fs)"
  proof (cases "fs = []")
    case True
    with es(2) g(3) written_extends show ?thesis by simp
  next
    case False
    let ?L = "tl (raft_log s')"
    have "length es \<le> length ?L" using seg False by (metis drop_eq_Nil2 linear take_eq_Nil2)
    then have "es = take (length es) ?L" using written_agree[OF written_extends[OF es(2) g(3)] w] by simp
    then have "es @ fs = take (length es + length fs) ?L" using seg by (simp add: take_add)
    then show ?thesis using written_take[OF w] by simp
  qed
  moreover have "block_queue (app s') = concat (map (block_of R0) (es @ fs))" "last_applied s' = int (length (es @ fs)) + 1"
    using es(3,4) fs(2,3) by simp_all
  ultimately show ?thesis using fs(1) unfolding steady_node_def by blast
qed

lemma steady_inv:
  assumes "steady_reach R M T c" and sup: "\<forall>a\<in>M. supports R0 (R a)"
  shows "\<exists>V C G. vote_inv M V C c \<and> log_inv M C G c \<and> one_term M T c \<and> (\<forall>a\<in>M. steady_node R0 G T (procs c a))"
  using assms(1)
proof induction
  case (start c)
  have "steady_node R0 G T (procs c a)" if "a \<in> M" for a G
  proof -
    have "last_applied (procs c a) = 1 \<and> self_code_version (procs c a) = 0"
      using start(1) that by (auto simp: cluster_start_def raft_init_def Let_def)
    moreover have "ledger_inv (ledger_env R0) (app (procs c a)) \<and> block_queue (app (procs c a)) = []"
      using start(2) sup that by (auto simp: supports_def)
    ultimately show ?thesis by (auto simp: steady_node_def ready_to_apply_def written_def intro!: exI[of _ "[]"])
  qed
  moreover have "one_term M T c" using start(2) by (simp add: one_term_def)
  ultimately show ?case using log_start_inv[OF start(1)] start(2) by blast
next
  case (step c c')
  then obtain V C G where i: "vote_inv M V C c" "log_inv M C G c" "one_term M T c" "\<forall>a\<in>M. steady_node R0 G T (procs c a)" by blast
  have lr: "(\<forall>a\<in>M. fullDumpFile (conf (R a)) = None) \<and> (\<forall>x\<in>set (net c). whole (snd (snd x)))"
    using log_reach_inv[OF steady_log[OF step.hyps(1)]] by blast
  obtain V' C' G' where i': "vote_inv M V' C' c'" "extends G G'" "log_inv M C' G' c'"
    using log_step[OF i(1,2) step.hyps(2)] lr by blast
  have old: "steady_node R0 G' T (procs c a)" if "a \<in> M" for a using i(4) that i'(2) steady_extends by blast
  have keep: "\<forall>b\<in>M. steady_node R0 G' T (procs c' b)" if "procs c' = (procs c)(a := s'\<lparr>outbox := []\<rparr>)" "keeps (procs c a) s'" for a s'
  proof
    fix b assume b: "b \<in> M"
    have "keeps s' (s'\<lparr>outbox := []\<rparr>)" by (rule keeps_cong) simp_all
    with old[OF b] that steady_keeps keep.trans show "steady_node R0 G' T (procs c' b)" by (cases "b = a") auto
  qed
  have "\<forall>a\<in>M. steady_node R0 G' T (procs c' a)"
    using step.hyps(2)
  proof cases
    case (lose xs x ys)
    with old show ?thesis by simp
  next
    case (tick a s' now rnd rounds cmds)
    have ap: "applies R0 (procs c a) s'" unfolding tick(3) using sup lr tick(2) by (intro tick_applies) auto
    have "applies R0 (procs c a) (s'\<lparr>outbox := []\<rparr>)"
      using ap by (rule ap.trans) (rule applies_same[where xs = "[]"], simp_all add: applied_def)
    moreover have "procs c' a = s'\<lparr>outbox := []\<rparr>" using tick(1) by (simp add: flush_def)
    moreover have "grounded G (raft_log (procs c a))" "grounded G' (raft_log (procs c' a))"
      "\<forall>e\<in>set (tl (raft_log (procs c' a))). trm e = T"
      using i(2) i'(3) step.hyps(4) tick(2) by (auto simp only: log_inv_def one_term_def)
    ultimately have "steady_node R0 G' T (procs c' a)"
      by (intro steady_applies[OF bspec[OF i(4) tick(2)] _ _ _ i'(2)]) simp_all
    with old tick(1) show ?thesis by (auto simp: flush_def)
  next
    case (recv a xs src m ys s' now rnd rounds)
    have "whole m" using lr recv(3) by auto
    then have "keeps (procs c a) s'" unfolding recv(4) by (rule message_applied)
    with recv(1) show ?thesis by (intro keep) (simp_all add: flush_def)
  next
    case (link a s' b up)
    have "keeps (procs c a) s'" unfolding link(3) by (rule keeps_cong) (simp_all add: set_connected_def Let_def)
    with link(1) show ?thesis by (intro keep) (simp_all add: flush_def)
  next
    case (client a s' command cb t)
    have "keeps (procs c a) s'" unfolding client(3) by (rule keep.applyCommand)
    with client(1) show ?thesis by (intro keep) (simp_all add: flush_def)
  qed
  with i' step.hyps(4) show ?case by blast
qed

section \<open>Agreement\<close>


text \<open>
  The run that cuts off an acknowledged block, with the leader still there: it sends the block again,
  and all nodes that hear of it end with the same blocks.
\<close>

definition ex_renv1 :: raft_env where
  "ex_renv1 = ex_renv\<lparr>loads_version := (\<lambda>_. Inr 0)\<rparr>"

fun play_steady :: "raft_env \<Rightarrow> addr set \<Rightarrow> int \<Rightarrow> move list \<Rightarrow> cluster \<Rightarrow> bool" where
  "play_steady R M T [] c = True"
| "play_steady R M T (m # ms) c =
     (case play_move R M m c of None \<Rightarrow> False | Some c' \<Rightarrow> one_term M T c' \<and> play_steady R M T ms c')"

lemma play_steady_reach:
  "play R M ms c = Some c' \<Longrightarrow> play_steady R M T ms c \<Longrightarrow> steady_reach (\<lambda>_. R) M T c \<Longrightarrow> steady_reach (\<lambda>_. R) M T c'"
proof (induction ms arbitrary: c)
  case (Cons m ms)
  then obtain d where d: "play_move R M m c = Some d" "list_all (\<lambda>x. whole (snd (snd x))) (net d)" "play R M ms d = Some c'"
    by (auto split: option.splits if_splits)
  have o: "one_term M T d" "play_steady R M T ms d" using Cons.prems(2) d(1) by simp_all
  have "steady_reach (\<lambda>_. R) M T d"
    using steady_reach.step[OF Cons.prems(3) play_move_step[OF d(1)] _ o(1)] d(2) by (simp add: list_all_iff)
  with Cons.IH[OF d(3) o(2)] show ?case .
qed simp

lemma ex_trio_steady: "steady_reach (\<lambda>_. ex_renv1) ex_members 1 ex_trio"
proof (rule steady_reach.start)
  have r: "raft_init ex_renv = raft_init ex_renv1" by (simp add: fun_eq_iff raft_init_def ex_renv1_def)
  show "cluster_start (\<lambda>_. ex_renv1) ex_members ex_trio"
    using ex_trio_start unfolding cluster_start_def r .
  have "ledger_inv ex_env (ex_state\<lparr>block_queue := [], mempool_list := [], mempool := []\<rparr>)"
    by (rule ledger_inv_cong[OF ex_state_inv]) simp_all
  then show "\<forall>a\<in>ex_members. fullDumpFile (conf ex_renv1) = None \<and> raft_log (procs ex_trio a) = [Entry [NO_OP] 1 0] \<and>
      ledger_inv (ledger_env ex_renv1) (app (procs ex_trio a)) \<and> block_queue (app (procs ex_trio a)) = []"
    by (simp add: ex_trio_def ex_idle_def raft_init_def Let_def ex_renv1_def ex_renv_def belcoin_conf_def default_conf_def)
qed

definition ex_resumed :: "move list" where
  "ex_resumed = ex_resend @ ex_again @ [Deliver 0 (37/10), Tick ''a'' (38/10) 0, Deliver 2 (38/10), Tick ''b'' (39/10) 0]"

lemma ex_resumed_steady: "play_steady ex_renv1 ex_members 1 ex_resumed ex_trio"
  by code_simp

lemma ex_resumed_end:
  "map_option (\<lambda>c. (map (ex_blocks c) [''a'', ''b'', ''c''], map (\<lambda>x. last_applied (procs c x)) [''a'', ''b'', ''c''],
       length (raft_log (procs c ''b''))))
     (play ex_renv1 ex_members ex_resumed ex_trio) =
   Some ([[[[7]], [[8]], [[6]]], [[[7]], [[8]], [[6]]], []], [5, 5, 1], 5)"
  by code_simp


end
