(* ===== verification/RaftTickSpec.thy ===== *)
theory RaftTickSpec
  imports RaftLogSpec
begin

text \<open>
  Properties of the replication that follow from belcoin's own additions and limits: entries
  larger than a batch, and the block a leader proposes in its tick.
\<close>

section \<open>Large entries\<close>

lemma pieces_of_mono: "0 < batch \<Longrightarrow> m \<le> n \<Longrightarrow> pieces_of batch m \<le> pieces_of batch n"
  unfolding pieces_of_def by (intro div_le_mono) simp

lemma pieces_of_2: "0 < batch \<Longrightarrow> batch < n \<Longrightarrow> 2 \<le> pieces_of batch n"
  using pieces_of_le[of batch 1 n] by auto

lemma receive_split:
  "receive_pieces R now a c prev (xs @ ys) s =
    (case receive_pieces R now a c prev xs s of (Inl e, t) \<Rightarrow> (Inl e, t) | (Inr _, t) \<Rightarrow> receive_pieces R now a c prev ys t)"
  unfolding receive_pieces_def
  by (induction xs arbitrary: s) (auto simp: bindE_def split: prod.splits sum.splits)

text \<open>
  C32. An entry that is sent in pieces. The pickled entry goes out in pieces of a batch, and the
  piece that is called the last is computed from the length of the command alone. When the
  pickled entry needs no more pieces than its command (and at least two), the follower puts the
  entry together and takes it as it takes any other; when it needs more, the first piece called
  the last arrives too early: the follower unpickles a part of the entry and the exception
  leaves its tick, with the log as it was.
\<close>

theorem large_entry_pieces:
  assumes "0 < batch" "batch \<le> length (cmd e)" "length (cmd e) < length (dumps_entry R e)"
    and "loads_entry R (dumps_entry R e) = Inr e"
    and "\<forall>k<length (dumps_entry R e). loads_entry R (take k (dumps_entry R e)) = Inl err"
  shows "let pickled = dumps_entry R e; ps = entry_pieces batch (length (cmd e)) pickled in
    concat (map snd ps) = pickled \<and>
    (if pieces_of batch (length pickled) = max 2 (pieces_of batch (length (cmd e)))
     then \<exists>s'. same_log s s' \<and> receive_pieces R now a c prev ps s = accept_entries R now a c [e] prev s'
     else \<exists>s'. same_log s s' \<and> receive_pieces R now a c prev ps s = (Inl err, s'))"
proof -
  let ?P = "dumps_entry R e" and ?n = "length (cmd e)"
  let ?m = "max 2 (pieces_of batch ?n)" and ?N = "pieces_of batch (length ?P)"
  have mN: "?m \<le> ?N"
    using pieces_of_mono[OF assms(1), of ?n "length ?P"] pieces_of_2[OF assms(1), of "length ?P"] assms(2,3) by simp
  obtain d0 ps d rest where ep: "entry_pieces batch ?n ?P = (Part_start, d0) # ps @ [(Part_finish, d)] @ rest"
    and proc: "\<forall>x\<in>set ps. fst x = Part_process" and cat: "d0 @ concat (map snd ps) @ d = take (?m * batch) ?P"
    and rest: "length rest = ?N - ?m"
    using entry_pieces_split[OF assms(1) refl mN] by blast
  obtain s' where s': "receive_pieces R now a c prev ((Part_start, d0) # ps @ [(Part_finish, d)]) s =
      on_append_part R now a c Part_finish d prev s'" "same_log s s'"
    "recv_transmission s' = Some (d0 @ concat (map snd ps))"
    using receive_until_finish[OF proc] by blast
  let ?b = "d0 @ concat (map snd ps)"
  have buf: "?b @ d = take (?m * batch) ?P" using cat by simp
  have run: "receive_pieces R now a c prev (entry_pieces batch ?n ?P) s =
      (case on_append_part R now a c Part_finish d prev s' of
         (Inl x, t) \<Rightarrow> (Inl x, t) | (Inr _, t) \<Rightarrow> receive_pieces R now a c prev rest t)"
    using receive_split[of R now a c prev "(Part_start, d0) # ps @ [(Part_finish, d)]" rest s] s'(1) ep by simp
  show ?thesis
  proof (cases "?N = ?m")
    case True
    have "length ?P \<le> ?m * batch" using pieces_of_covers[OF assms(1), of "length ?P"] True by simp
    then have "?b @ d = ?P" using buf by simp
    then have "on_append_part R now a c Part_finish d prev s' =
        accept_entries R now a c [e] prev (s'\<lparr>recv_transmission := None\<rparr>)"
      using s'(3) by (simp add: on_append_part_def assms(4))
    moreover have "receive_pieces R now a c prev rest t = (Inr (), t)" for t
      using rest True by (simp add: receive_pieces_def)
    ultimately have "receive_pieces R now a c prev (entry_pieces batch ?n ?P) s =
        accept_entries R now a c [e] prev (s'\<lparr>recv_transmission := None\<rparr>)"
      unfolding run by (auto split: prod.split sum.split)
    moreover have "same_log s (s'\<lparr>recv_transmission := None\<rparr>)" using s'(2) by (simp add: same_log_def)
    ultimately show ?thesis using True entry_pieces_concat[OF assms(1)] by (auto simp: Let_def)
  next
    case False
    then have "?m < ?N" using mN le_neq_implies_less by metis
    then have "?m * batch < length ?P" using pieces_of_le[OF assms(1)] by blast
    then have "loads_entry R (?b @ d) = Inl err" unfolding buf using assms(5) by blast
    then have fin: "on_append_part R now a c Part_finish d prev s' =
        (Inl err, s'\<lparr>recv_transmission := Some (?b @ d)\<rparr>)"
      using s'(3) by (simp add: on_append_part_def)
    have "same_log s (s'\<lparr>recv_transmission := Some (?b @ d)\<rparr>)" using s'(2) by (simp add: same_log_def)
    moreover have "receive_pieces R now a c prev (entry_pieces batch ?n ?P) s =
        (Inl err, s'\<lparr>recv_transmission := Some (?b @ d)\<rparr>)" unfolding run fin by simp
    ultimately show ?thesis using False entry_pieces_concat[OF assms(1)] by (auto simp: Let_def)
  qed
qed

text \<open>A batch of four bytes: a command of seven bytes arrives too early, one of six does not.\<close>

lemma ex_pickle:
  "loads_entry ex_renv (dumps_entry ex_renv (Entry xs 2 1)) = Inr (Entry xs 2 1)"
  "dumps_entry ex_renv (Entry xs 2 1) = xs @ [9, 9]"
  by (simp_all add: ex_renv_def)

theorem large_entry_pieces_witness:
  "(\<exists>s'. receive_pieces ex_renv 2 ''a'' 1 (Some (1, 0)) (entry_pieces 4 8 ([0, 1, 2, 3, 4, 5, 6, 7] @ [9, 9])) ex_leader
      = (Inl ValueError, s') \<and> raft_log s' = raft_log ex_leader) \<and>
   (\<exists>s'. receive_pieces ex_renv 2 ''a'' 1 (Some (1, 0)) (entry_pieces 4 5 ([0, 1, 2, 3, 4] @ [9, 9])) ex_leader
      = accept_entries ex_renv 2 ''a'' 1 [Entry [0, 1, 2, 3, 4] 2 1] (Some (1, 0)) s' \<and> raft_log s' = raft_log ex_leader)"
proof -
  let ?e = "Entry [0, 1, 2, 3, 4, 5, 6, 7] 2 1" and ?f = "Entry [0, 1, 2, 3, 4] 2 1"
  have cut: "\<forall>k<length (dumps_entry ex_renv (Entry xs 2 1)).
      loads_entry ex_renv (take k (dumps_entry ex_renv (Entry xs 2 1))) = Inl ValueError"
    if "9 \<notin> set xs" for xs
  proof (intro allI impI)
    fix k assume k: "k < length (dumps_entry ex_renv (Entry xs 2 1))"
    let ?b = "take k (xs @ [9, 9])"
    have len: "length ?b = k" using k by (simp add: ex_pickle)
    have "drop (length ?b - 2) ?b \<noteq> [9, 9]" if "2 \<le> length ?b"
    proof
      assume d: "drop (length ?b - 2) ?b = [9, 9]"
      have "?b ! (k - 2) = hd (drop (k - 2) ?b)" using that len by (intro hd_drop_conv_nth[symmetric]) simp
      then have "?b ! (k - 2) = 9" by (simp only: d[unfolded len] list.sel)
      moreover have "k - 2 < length xs" "?b ! (k - 2) = xs ! (k - 2)"
        using k that len by (auto simp: ex_pickle nth_append)
      ultimately show False using \<open>9 \<notin> set xs\<close> by (metis nth_mem)
    qed
    then show "loads_entry ex_renv (take k (dumps_entry ex_renv (Entry xs 2 1))) = Inl ValueError"
      unfolding ex_pickle(2) by (auto simp: ex_renv_def)
  qed
  have len: "length (cmd ?e) = 8" "length (cmd ?f) = 5" by simp_all
  have 1: "pieces_of 4 (length (dumps_entry ex_renv ?e)) = 3" "pieces_of 4 (length (cmd ?e)) = 2"
    "pieces_of 4 (length (dumps_entry ex_renv ?f)) = 2" "pieces_of 4 (length (cmd ?f)) = 2"
    by (simp_all add: pieces_of_def ex_pickle)
  have "\<exists>s'. same_log ex_leader s' \<and> receive_pieces ex_renv 2 ''a'' 1 (Some (1, 0))
      (entry_pieces 4 (length (cmd ?e)) (dumps_entry ex_renv ?e)) ex_leader = (Inl ValueError, s')"
    using large_entry_pieces[of 4 ?e ex_renv ValueError ex_leader 2 "''a''" 1 "Some (1, 0)", OF _ _ _ ex_pickle(1) cut]
    unfolding Let_def 1 by (simp add: ex_pickle)
  moreover have "\<exists>s'. same_log ex_leader s' \<and> receive_pieces ex_renv 2 ''a'' 1 (Some (1, 0))
      (entry_pieces 4 (length (cmd ?f)) (dumps_entry ex_renv ?f)) ex_leader = accept_entries ex_renv 2 ''a'' 1 [?f] (Some (1, 0)) s'"
    using large_entry_pieces[of 4 ?f ex_renv ValueError ex_leader 2 "''a''" 1 "Some (1, 0)", OF _ _ _ ex_pickle(1) cut]
    unfolding Let_def 1 by (simp add: ex_pickle)
  ultimately show ?thesis unfolding ex_pickle(2) same_log_def len by blast
qed

section \<open>The proposal of a block\<close>

definition proposes :: "raft \<Rightarrow> bool" where
  "proposes s \<longleftrightarrow>
     (Suc (tickctr s) \<ge> BLOCK_TIMEOUT \<and> mempool_list (app s) \<noteq> [] \<or> length (mempool_list (app s)) \<ge> BLOCK_SIZE) \<and>
     \<not> processing (app s) \<and> \<not> adding_block (app s) \<and> \<not> testing s"

lemma callErr_None [simp]: "callErrCallback err None s = s"
  by (simp add: callErrCallback_def)

text \<open>
  What a leader's tick proposes: with a full mempool, or a mempool that is not empty after the
  block time, and no block in progress, the block \<open>send_block\<close> makes goes into the queue of
  commands; the mark that a block is being added is set whether or not a block was queued.
\<close>

lemma tick_block_effect:
  "let s' = tick_block R now s in
    app s' = (if proposes s then (app s)\<lparr>adding_block := True\<rparr> else app s) \<and>
    tickctr s' = (if proposes s then 0 else Suc (tickctr s)) \<and> raft_log s' = raft_log s \<and>
    commands_queue s' =
      (if proposes s
       then (case send_block now now (app s) of None \<Rightarrow> commands_queue s
             | Some blk \<Rightarrow> snd (put_nowait (REGULAR # dumps_call R blk, None) (commands_queue s)))
       else commands_queue s)"
proof -
  have "send_block now now ((app s)\<lparr>adding_block := True\<rparr>) = send_block now now (app s)"
    by (simp add: send_block_def Let_def)
  then show ?thesis
    by (auto simp: tick_block_def proposes_def Let_def applyCommand_def put_nowait_def
        split: option.split prod.split sum.split)
qed

text \<open>
  A proposal that was not queued stops the leader. When \<open>send_block\<close> refuses, because the
  oldest transactions of the mempool overlap with the block processed last, or the queue of
  commands is full, the tick has marked a block as being added all the same; the mark goes only
  when a block is processed, so however many ticks follow, none of them proposes a block.
\<close>

theorem proposal_wedges:
  assumes "proposes s"
    and "send_block now now (app s) = None \<or> (\<forall>v. snd (put_nowait v (commands_queue s)) = commands_queue s)"
  shows "let s' = fold (tick_block R) nows (tick_block R now s) in
    commands_queue s' = commands_queue s \<and> adding_block (app s') \<and> \<not> proposes s'"
proof -
  note spec = tick_block_effect[of R now s, unfolded Let_def]
  have "commands_queue (tick_block R now s) = commands_queue s" "adding_block (app (tick_block R now s))"
    using spec assms by (auto split: option.splits)
  then have "commands_queue (fold (tick_block R) nows (tick_block R now s)) = commands_queue s \<and>
      adding_block (app (fold (tick_block R) nows (tick_block R now s)))"
  proof (induction nows arbitrary: s rule: rev_induct)
    case (snoc x xs)
    let ?t = "fold (tick_block R) xs (tick_block R now s)"
    have t: "commands_queue ?t = commands_queue s" "adding_block (app ?t)" using snoc by blast+
    then have "\<not> proposes ?t" by (simp add: proposes_def)
    then show ?case using tick_block_effect[of R x ?t, unfolded Let_def] t by simp
  qed simp
  then show ?thesis by (simp add: Let_def proposes_def)
qed

theorem proposal_wedges_witness:
  "(let s = ex_leader\<lparr>app := ex_state\<lparr>current_block := [[2]]\<rparr>, tickctr := BLOCK_TIMEOUT\<rparr>;
        s' = fold (tick_block ex_renv) [6, 7, 8] (tick_block ex_renv 5 s) in
      mempool_list (app s) = [[2]] \<and> commands_queue s' = commands_queue s \<and> \<not> proposes s')"
proof -
  let ?s = "ex_leader\<lparr>app := ex_state\<lparr>current_block := [[2]]\<rparr>, tickctr := BLOCK_TIMEOUT\<rparr>"
  have "proposes ?s"
    by (simp add: proposes_def ex_leader_def ex_node_def raft_init_def Let_def ex_state_def)
  moreover have "send_block 5 5 (app ?s) = None" by (simp add: send_block_def ex_state_def BLOCK_SIZE_def)
  ultimately show ?thesis using proposal_wedges[of ?s 5 ex_renv "[6, 7, 8]"] by (simp add: Let_def ex_state_def)
qed

end
