(* ===== verification/JournalSpec.thy ===== *)
theory JournalSpec
  imports Journal
begin

text \<open>
  The file journal implements the contract: the invariant of its file, the interpretation of the locale \<open>entry_journal\<close>, reopening, and what a record that is too large or a crash does.
\<close>

section \<open>The bytes of a record\<close>

definition packable :: "entry \<Rightarrow> bool" where
  "packable e \<longleftrightarrow> 0 \<le> idx e \<and> idx e < 256 ^ 8 \<and> 0 \<le> trm e \<and> trm e < 256 ^ 8 \<and> 16 + int (length (cmd e)) < 256 ^ 4"

definition rec_of :: "entry \<Rightarrow> bytes" where
  "rec_of e = (let l = le_bytes 4 (16 + length (cmd e)) in
     l @ le_bytes 8 (nat (idx e)) @ le_bytes 8 (nat (trm e)) @ cmd e @ l)"

abbreviation records :: "entry list \<Rightarrow> bytes" where
  "records es \<equiv> concat (map rec_of es)"

lemma rec_of_length [simp]: "length (rec_of e) = 24 + length (cmd e)"
  by (simp add: rec_of_def Let_def)

lemma record_bytes_eq: "packable e \<Longrightarrow> record_bytes e = Inr (rec_of e)"
  by (simp add: packable_def record_bytes_def rec_of_def pack_uint_def Let_def nat_add_distrib)

lemma unpack_le: "v < 256 ^ k \<Longrightarrow> unpack_uint k (le_bytes k v) = Inr (int v)"
  by (simp add: unpack_uint_def le_val_bytes)

lemma unpack_le_int: "0 \<le> n \<Longrightarrow> n < 256 ^ k \<Longrightarrow> unpack_uint k (le_bytes k (nat n)) = Inr n"
  by (subst unpack_le) (simp_all add: nat_less_iff)

section \<open>Reads and writes\<close>

lemma rf_read_at:
  assumes "off = int (length xs)" and "n = int (length ys)"
  shows "rf_read off n (xs @ ys @ zs) = ys"
  unfolding rf_read_def using assms py_slice_at[of off xs "off + n" ys zs] by simp

lemma rf_write_at:
  assumes "off = int (length xs)" and "length vs = length ys"
  shows "rf_write off vs (xs @ ys @ zs) = (Inr (), xs @ vs @ zs)"
proof -
  have b: "slice_bound (xs @ ys @ zs) off = length xs"
    "slice_bound (xs @ ys @ zs) (off + int (length vs)) = length xs + length vs"
    using slice_bound_pos[of "xs @ ys @ zs" "length xs"] slice_bound_pos[of "xs @ ys @ zs" "length xs + length vs"] assms
    by simp_all
  show ?thesis unfolding rf_write_def Let_def using assms b by simp
qed

text \<open>A write at the end of the used part: the file doubles when the rest is too short.\<close>

definition grown :: "bytes \<Rightarrow> bytes \<Rightarrow> nat \<Rightarrow> bytes" where
  "grown xs zs n = (if length zs < n then zs @ replicate (length xs + length zs) 0 else zs)"

lemma rf_write_grow:
  assumes "off = int (length xs)"
  shows "rf_write off vs (xs @ zs) =
    (let zs1 = grown xs zs (length vs) in
     if length vs \<le> length zs1 then (Inr (), xs @ vs @ drop (length vs) zs1) else (Inl IndexError, xs @ zs1))"
proof -
  let ?zs1 = "grown xs zs (length vs)"
  have m: "(if off + int (length vs) > int (length (xs @ zs)) then (xs @ zs) @ replicate (length (xs @ zs)) 0 else xs @ zs)
      = xs @ ?zs1"
    using assms by (simp add: grown_def)
  have b: "slice_bound (xs @ ?zs1) off = length xs"
    "slice_bound (xs @ ?zs1) (off + int (length vs)) = min (length xs + length ?zs1) (length xs + length vs)"
    using slice_bound_pos[of "xs @ ?zs1" "length xs"] slice_bound_pos[of "xs @ ?zs1" "length xs + length vs"] assms
    by simp_all
  show ?thesis
    unfolding rf_write_def Let_def m b by auto
qed

section \<open>The invariant\<close>

definition used :: "entry list \<Rightarrow> int" where
  "used es = 40 + int (length (records es))"

text \<open>The file: a header, the last offset, the records, the rest.\<close>

definition fj_layout :: "bytes \<Rightarrow> bytes \<Rightarrow> entry list \<Rightarrow> bytes \<Rightarrow> bool" where
  "fj_layout m header es pad \<longleftrightarrow> length header = 36 \<and> m = header @ le_bytes 4 (nat (used es)) @ records es @ pad"

definition fj_ok :: "file_journal \<Rightarrow> bool" where
  "fj_ok j \<longleftrightarrow> (\<exists>header pad. fj_layout (jfile j) header (jentries j) pad) \<and>
     joff j = used (jentries j) \<and> used (jentries j) < 256 ^ 4 \<and> (\<forall>e\<in>set (jentries j). packable e)"

lemma used_append [simp]: "used (es @ fs) = used es + int (length (records fs))"
  by (simp add: used_def)

lemma used_pos: "0 \<le> used es" by (simp add: used_def)

text \<open>The last offset can be set whatever follows.\<close>

lemma setLast_layout:
  assumes "length header = 36" "length l = 4" and "0 \<le> n" "n < 256 ^ 4"
  shows "setLastRecordOffset n (header @ l @ rest) = (Inr (), header @ le_bytes 4 (nat n) @ rest)"
proof -
  have "rf_write LAST_RECORD_OFFSET_OFFSET (le_bytes 4 (nat n)) (header @ l @ rest) = (Inr (), header @ le_bytes 4 (nat n) @ rest)"
    by (rule rf_write_at) (simp_all add: assms LAST_RECORD_OFFSET_OFFSET_def)
  then show ?thesis using assms(3,4) by (simp add: setLastRecordOffset_def pack_uint_def)
qed

lemma read_records_ok:
  assumes "\<forall>e\<in>set es. packable e" and "int (length front) = off"
  shows "read_records (front @ records es @ pad) off (off + int (length (records es))) = Inr (es, off + int (length (records es)))"
  using assms
proof (induction es arbitrary: front off)
  case Nil
  then show ?case by (simp add: read_records.simps)
next
  case (Cons e es)
  let ?n = "length (cmd e)" and ?m = "front @ records (e # es) @ pad"
  let ?l = "le_bytes 4 (16 + ?n)" and ?i = "le_bytes 8 (nat (idx e))" and ?t = "le_bytes 8 (nat (trm e))"
  let ?rest = "records es @ pad"
  have p: "packable e" using Cons.prems(1) by simp
  have m: "?m = front @ ?l @ (?i @ ?t @ cmd e) @ ?l @ ?rest" by (simp add: rec_of_def Let_def)
  have l: "unpack_uint 4 ?l = Inr (16 + int ?n)"
    using p unpack_le[of "16 + ?n" 4] by (simp add: packable_def)
  have r1: "rf_read off 4 ?m = ?l" unfolding m by (rule rf_read_at) (simp_all add: Cons.prems(2))
  have r2: "rf_read (off + 4) (16 + int ?n) ?m = ?i @ ?t @ cmd e"
  proof -
    have "?m = (front @ ?l) @ (?i @ ?t @ cmd e) @ ?l @ ?rest" unfolding m by simp
    then show ?thesis by (simp only:) (rule rf_read_at; simp add: Cons.prems(2)[symmetric])
  qed
  have q: "unpack_QQ (take 16 (?i @ ?t @ cmd e)) = Inr (idx e, trm e)"
    using p unpack_le_int[of "idx e" 8] unpack_le_int[of "trm e" 8] by (simp add: unpack_QQ_def packable_def)
  have "read_records ((front @ rec_of e) @ records es @ pad) (off + (24 + int ?n)) (off + (24 + int ?n) + int (length (records es)))
      = Inr (es, off + (24 + int ?n) + int (length (records es)))"
    using Cons.prems by (intro Cons.IH) simp_all
  then have rest: "read_records ?m (off + (16 + int ?n) + 8) (off + int (length (records (e # es))))
      = Inr (es, off + int (length (records (e # es))))" by (simp add: algebra_simps)
  have "off < off + int (length (records (e # es)))" by simp
  then show ?case
    by (subst read_records.simps) (simp only: if_True r1 l sum.case Let_def r2 q prod.case rest,
      simp)
qed

text \<open>Opening a file of this layout reads the entries back.\<close>

lemma FileJournal_layout:
  assumes "fj_layout m header es pad" and "used es < 256 ^ 4" and "\<forall>e\<in>set es. packable e"
  shows "\<exists>pad'. FileJournal (Some m) = Inr \<lparr>jfile = m @ pad', jentries = es, joff = used es\<rparr>"
proof -
  have h: "length header = 36" and m: "m = header @ le_bytes 4 (nat (used es)) @ records es @ pad"
    using assms(1) by (simp_all add: fj_layout_def)
  let ?pad = "replicate (1024 - length m) (0::byte)"
  let ?front = "header @ le_bytes 4 (nat (used es))"
  have o: "rf_open (Some m) default_header 1024 = Inr (m @ ?pad)"
  proof -
    have "m \<noteq> []" using h m by auto
    then show ?thesis by (simp add: rf_open_def)
  qed
  have m': "m @ ?pad = header @ le_bytes 4 (nat (used es)) @ (records es @ pad @ ?pad)" unfolding m by simp
  have l: "getLastRecordOffset (m @ ?pad) = Inr (used es)"
  proof -
    have "rf_read LAST_RECORD_OFFSET_OFFSET 4 (m @ ?pad) = le_bytes 4 (nat (used es))"
      unfolding m' by (rule rf_read_at) (simp_all add: h LAST_RECORD_OFFSET_OFFSET_def)
    then show ?thesis using unpack_le_int[OF used_pos assms(2)] by (simp add: getLastRecordOffset_def)
  qed
  have "read_records (?front @ records es @ pad @ ?pad) 40 (40 + int (length (records es))) = Inr (es, 40 + int (length (records es)))"
    by (rule read_records_ok[OF assms(3)]) (simp add: h)
  then have "read_records (m @ ?pad) FIRST_RECORD_OFFSET (used es) = Inr (es, used es)"
    unfolding m' by (simp add: used_def FIRST_RECORD_OFFSET_def)
  with o l show ?thesis by (auto simp: FileJournal_def)
qed

text \<open>Only the part up to the last offset matters.\<close>

lemma fj_ok_reopen:
  assumes "fj_ok j"
  shows "\<exists>j'. FileJournal (Some (jfile j)) = Inr j' \<and> jentries j' = jentries j \<and> joff j' = joff j"
  using assms FileJournal_layout unfolding fj_ok_def by (metis file_journal.select_convs(2,3))

section \<open>The operations\<close>

text \<open>An entry can be packed, and its record fits into the file, doubled at most once.\<close>

definition fj_fits :: "entry \<Rightarrow> file_journal \<Rightarrow> bool" where
  "fj_fits e j \<longleftrightarrow> packable e \<and> joff j + int (length (rec_of e)) < 256 ^ 4 \<and>
     joff j + int (length (rec_of e)) \<le> 2 * int (length (jfile j))"

lemma fj_layout_length: "fj_layout m header es pad \<Longrightarrow> int (length m) = used es + int (length pad)"
  by (auto simp: fj_layout_def used_def)

text \<open>What a record that does not fit at once does to the file.\<close>

lemma write_record:
  assumes "fj_layout m header es pad"
  shows "rf_write (used es) (rec_of e) m =
    (let pad1 = grown (header @ le_bytes 4 (nat (used es)) @ records es) pad (length (rec_of e)) in
     if length (rec_of e) \<le> length pad1
     then (Inr (), header @ le_bytes 4 (nat (used es)) @ records (es @ [e]) @ drop (length (rec_of e)) pad1)
     else (Inl IndexError, header @ le_bytes 4 (nat (used es)) @ records es @ pad1))"
proof -
  let ?xs = "header @ le_bytes 4 (nat (used es)) @ records es"
  have m: "m = ?xs @ pad" and u: "used es = int (length ?xs)" using assms by (simp_all add: fj_layout_def used_def)
  show ?thesis unfolding m using rf_write_grow[OF u, of "rec_of e" pad] by (simp add: Let_def)
qed

lemma fj_add_ok:
  assumes "fj_ok j" and "fj_fits e j"
  shows "\<exists>j'. fj_add e j = (Inr (), j') \<and> fj_ok j' \<and> jentries j' = jentries j @ [e] \<and> length (jfile j) \<le> length (jfile j')"
proof -
  let ?es = "jentries j" and ?r = "rec_of e"
  obtain header pad where lay: "fj_layout (jfile j) header ?es pad" using assms(1) unfolding fj_ok_def by blast
  have ok: "joff j = used ?es" "\<forall>x\<in>set ?es. packable x" using assms(1) by (simp_all add: fj_ok_def)
  have h: "length header = 36" using lay by (simp add: fj_layout_def)
  let ?xs = "header @ le_bytes 4 (nat (used ?es)) @ records ?es"
  let ?pad1 = "grown ?xs pad (length ?r)"
  have fit: "length ?r \<le> length ?pad1"
    using assms(2) fj_layout_length[OF lay] ok(1) h by (auto simp: fj_fits_def grown_def used_def)
  have n: "0 \<le> used ?es + int (length ?r)" "used ?es + int (length ?r) < 256 ^ 4"
    using assms(2) ok(1) by (simp_all add: fj_fits_def used_def)
  let ?n = "used ?es + int (length ?r)" and ?rest = "records (?es @ [e]) @ drop (length ?r) ?pad1"
  have w: "rf_write (used ?es) ?r (jfile j) = (Inr (), header @ le_bytes 4 (nat (used ?es)) @ ?rest)"
    using write_record[OF lay, of e] fit by (simp add: Let_def)
  have s: "setLastRecordOffset ?n (header @ le_bytes 4 (nat (used ?es)) @ ?rest) = (Inr (), header @ le_bytes 4 (nat ?n) @ ?rest)"
    by (rule setLast_layout[OF h _ n]) simp
  let ?j = "\<lparr>jfile = header @ le_bytes 4 (nat ?n) @ ?rest, jentries = ?es @ [e], joff = ?n\<rparr>"
  have "fj_add e j = (Inr (), ?j)"
    using assms(2) w s ok(1)
    by (simp add: fj_add_def fj_fits_def record_bytes_eq on_file_def bindE_def Let_def)
  moreover have "fj_ok ?j"
  proof -
    have "used (?es @ [e]) = ?n" by simp
    then show ?thesis using h n(2) ok(2) assms(2)
      unfolding fj_ok_def fj_layout_def by (auto simp: fj_fits_def)
  qed
  moreover have "length (jfile j) \<le> length (jfile ?j)"
    using lay fit by (simp add: fj_layout_def grown_def)
  ultimately show ?thesis by auto
qed

lemma fj_clear_ok:
  assumes "fj_ok j"
  shows "\<exists>j'. fj_clear j = (Inr (), j') \<and> fj_ok j' \<and> jentries j' = [] \<and> length (jfile j') = length (jfile j)"
proof -
  obtain header pad where lay: "fj_layout (jfile j) header (jentries j) pad" using assms unfolding fj_ok_def by blast
  let ?m = "header @ le_bytes 4 (nat 40) @ records (jentries j) @ pad"
  have s: "setLastRecordOffset 40 (jfile j) = (Inr (), ?m)"
    using lay setLast_layout[of header "le_bytes 4 (nat (used (jentries j)))" 40 "records (jentries j) @ pad"]
    by (simp add: fj_layout_def)
  let ?j = "j\<lparr>jfile := ?m, jentries := [], joff := 40\<rparr>"
  have "fj_clear j = (Inr (), ?j)"
    using s by (simp add: fj_clear_def on_file_def FIRST_RECORD_OFFSET_def bindE_def)
  moreover have "fj_ok ?j"
    using lay unfolding fj_ok_def fj_layout_def by (auto simp: used_def)
  moreover have "length (jfile ?j) = length (jfile j)" using lay by (simp add: fj_layout_def)
  ultimately show ?thesis by auto
qed

lemma delete_loop_ok:
  assumes "length header = 36" "length l = 4" and "\<forall>e\<in>set ds. packable e" and "used (es @ ds) < 256 ^ 4"
  shows "\<exists>l'. length l' = 4 \<and> delete_loop (length ds) k (used (es @ ds)) (header @ l @ records (es @ ds) @ pad) =
    (Inr (used es), header @ l' @ records (es @ ds) @ pad)"
  using assms
proof (induction ds arbitrary: l k pad rule: rev_induct)
  case (snoc d ds)
  let ?n = "length (cmd d)" and ?m = "header @ l @ records (es @ ds @ [d]) @ pad"
  let ?l = "le_bytes 4 (16 + ?n)" and ?off = "used (es @ ds @ [d])" and ?off' = "used (es @ ds)"
  have p: "packable d" using snoc.prems(3) by simp
  have m: "?m = (header @ l @ records (es @ ds) @ ?l @ le_bytes 8 (nat (idx d)) @ le_bytes 8 (nat (trm d)) @ cmd d) @ ?l @ pad"
    by (simp add: rec_of_def Let_def)
  have off: "?off = ?off' + 24 + int ?n" by simp
  have r: "rf_read (?off - 4) 4 ?m = ?l"
    unfolding m by (rule rf_read_at) (simp_all add: snoc.prems(1,2) used_def)
  have u: "unpack_uint 4 ?l = Inr (16 + int ?n)" using p unpack_le[of "16 + ?n" 4] by (simp add: packable_def)
  have o': "?off - (16 + int ?n + 8) = ?off'" using off by simp
  have lt: "?off' < 256 ^ 4" using snoc.prems(4) off by simp
  have IH: "\<exists>l'. length l' = 4 \<and> delete_loop (length ds) k' ?off' (header @ l0 @ records (es @ ds) @ rec_of d @ pad) =
      (Inr (used es), header @ l' @ records (es @ ds) @ rec_of d @ pad)" if "length l0 = 4" for l0 k'
    using snoc.IH[of l0 k' "rec_of d @ pad"] that snoc.prems lt by simp
  have m0: "header @ l0 @ records (es @ ds @ [d]) @ pad = header @ l0 @ records (es @ ds) @ rec_of d @ pad" for l0 by simp
  show ?case
  proof (cases "Suc k mod 10 = 0")
    case False
    then show ?thesis using IH[OF snoc.prems(2), of "Suc k"] unfolding m0
      by (simp only: length_append_singleton delete_loop.simps r[unfolded m0] u sum.case Let_def o' if_False)
  next
    case True
    let ?l1 = "le_bytes 4 (nat ?off')"
    have s: "setLastRecordOffset ?off' (header @ l @ records (es @ ds) @ rec_of d @ pad) =
        (Inr (), header @ ?l1 @ records (es @ ds) @ rec_of d @ pad)"
      using setLast_layout[OF snoc.prems(1,2) used_pos lt] by simp
    have b: "bindE (setLastRecordOffset ?off') K (header @ l @ records (es @ ds) @ rec_of d @ pad) =
        K () (header @ ?l1 @ records (es @ ds) @ rec_of d @ pad)" for K :: "unit \<Rightarrow> (bytes, int) eff"
      by (simp add: bindE_def s del: concat_append map_append used_append)
    show ?thesis using IH[of ?l1 "Suc k", OF le_bytes_length] unfolding m0
      by (simp only: length_append_singleton delete_loop.simps r[unfolded m0] u sum.case Let_def o' True if_True b)
       simp
  qed
qed auto

lemma fj_deleteFrom_ok:
  assumes "fj_ok j"
  shows "\<exists>j'. fj_deleteEntriesFrom (int n) j = (Inr (), j') \<and> fj_ok j' \<and> jentries j' = take n (jentries j)"
proof -
  let ?es = "take n (jentries j)" and ?ds = "drop n (jentries j)"
  obtain header pad where lay: "fj_layout (jfile j) header (?es @ ?ds) pad" using assms unfolding fj_ok_def by auto
  have ok: "joff j = used (?es @ ?ds)" "used (?es @ ?ds) < 256 ^ 4" "\<forall>x\<in>set (?es @ ?ds). packable x"
    unfolding append_take_drop_id using assms unfolding fj_ok_def by blast+
  have h: "length header = 36" and m: "jfile j = header @ le_bytes 4 (nat (used (?es @ ?ds))) @ records (?es @ ?ds) @ pad"
    using lay by (simp_all add: fj_layout_def)
  have lt: "used ?es < 256 ^ 4" and dp: "\<forall>x\<in>set ?ds. packable x"
    using ok(2,3) by (simp_all only: used_append set_append) auto
  have len: "nat (int (length (jentries j)) - int n) = length ?ds" by simp
  obtain l' where l': "length l' = 4" and loop: "delete_loop (length ?ds) 0 (used (?es @ ?ds)) (jfile j) =
      (Inr (used ?es), header @ l' @ records (?es @ ?ds) @ pad)"
    using delete_loop_ok[OF h le_bytes_length dp ok(2), of 0 "nat (used (?es @ ?ds))" pad] unfolding m by blast
  have s: "setLastRecordOffset (used ?es) (header @ l' @ records (?es @ ?ds) @ pad) =
      (Inr (), header @ le_bytes 4 (nat (used ?es)) @ records (?es @ ?ds) @ pad)"
    by (rule setLast_layout[OF h l' used_pos lt])
  define M where "M = header @ l' @ records (?es @ ?ds) @ pad"
  define M' where "M' = header @ le_bytes 4 (nat (used ?es)) @ records (?es @ ?ds) @ pad"
  let ?j = "\<lparr>jfile = M', jentries = ?es, joff = used ?es\<rparr>"
  have sb: "take (slice_bound (jentries j) (int n)) (jentries j) = ?es" by (simp add: slice_bound_pos min_def)
  have "delete_loop (length ?ds) 0 (joff j) (jfile j) = (Inr (used ?es), M)" using loop unfolding ok(1) M_def .
  moreover have "setLastRecordOffset (used ?es) M = (Inr (), M')" using s unfolding M_def M'_def .
  ultimately have "fj_deleteEntriesFrom (int n) j = (Inr (), ?j)"
    unfolding fj_deleteEntriesFrom_def Let_def sb len by (simp add: on_file_def bindE_def)
  moreover have "fj_ok ?j"
  proof -
    have "M' = header @ le_bytes 4 (nat (used ?es)) @ records ?es @ (records ?ds @ pad)" by (simp add: M'_def del: append_take_drop_id)
    moreover have "\<forall>x\<in>set ?es. packable x" using ok(3) by (auto dest: in_set_takeD)
    ultimately show ?thesis using h lt unfolding fj_ok_def fj_layout_def by auto
  qed
  ultimately show ?thesis by auto
qed

lemma fj_add_all:
  assumes "fj_ok j" and "\<forall>e\<in>set ds. packable e" and "used (jentries j @ ds) < 256 ^ 4"
    and "used (jentries j @ ds) \<le> 2 * int (length (jfile j))"
  shows "\<exists>j'. forE fj_add ds j = (Inr (), j') \<and> fj_ok j' \<and> jentries j' = jentries j @ ds"
  using assms
proof (induction ds arbitrary: j)
  case (Cons d ds)
  have "joff j = used (jentries j)" using Cons.prems(1) by (simp add: fj_ok_def)
  then have "fj_fits d j" using Cons.prems(2-4) by (auto simp: fj_fits_def)
  then obtain j1 where j1: "fj_add d j = (Inr (), j1)" "fj_ok j1" "jentries j1 = jentries j @ [d]"
    "length (jfile j) \<le> length (jfile j1)"
    using fj_add_ok[OF Cons.prems(1)] by blast
  have "\<exists>j'. forE fj_add ds j1 = (Inr (), j') \<and> fj_ok j' \<and> jentries j' = jentries j1 @ ds"
    by (rule Cons.IH) (use j1 Cons.prems in auto)
  with j1 show ?case by (auto simp: bindE_ok)
qed simp

lemma records_prefix: "length (records (take n es)) \<le> length (records es)"
  by (metis append_take_drop_id concat_append length_append le_add1 map_append)

lemma records_suffix: "length (records (drop n es)) \<le> length (records es)"
  by (metis append_take_drop_id concat_append length_append le_add2 map_append)

lemma fj_deleteTo_ok:
  assumes "fj_ok j"
  shows "\<exists>j'. fj_deleteEntriesTo (int n) j = (Inr (), j') \<and> fj_ok j' \<and> jentries j' = drop n (jentries j)"
proof -
  let ?ds = "drop n (jentries j)"
  obtain j1 where j1: "fj_clear j = (Inr (), j1)" "fj_ok j1" "jentries j1 = []" "length (jfile j1) = length (jfile j)"
    using fj_clear_ok[OF assms] by blast
  have le: "used ?ds \<le> used (jentries j)" using records_suffix[of n "jentries j"] by (simp add: used_def)
  have len: "used (jentries j) \<le> int (length (jfile j))"
    using assms fj_layout_length unfolding fj_ok_def by force
  have "\<forall>e\<in>set ?ds. packable e" using assms by (auto simp: fj_ok_def dest: in_set_dropD)
  moreover have "used ?ds < 256 ^ 4" using assms le by (simp add: fj_ok_def)
  ultimately obtain j' where "forE fj_add ?ds j1 = (Inr (), j')" "fj_ok j'" "jentries j' = ?ds"
    using fj_add_all[OF j1(2), of ?ds] j1(3,4) le len by auto
  moreover have "drop (slice_bound (jentries j) (int n)) (jentries j) = ?ds" by (simp add: slice_bound_pos min_def)
  ultimately show ?thesis using j1(1) by (simp add: fj_deleteEntriesTo_def bindE_ok)
qed

interpretation fj: entry_journal jentries fj_ok fj_fits fj_add fj_clear fj_deleteEntriesFrom fj_deleteEntriesTo
  by unfold_locales (use fj_add_ok fj_clear_ok fj_deleteFrom_ok fj_deleteTo_ok in blast)+


section \<open>Runs of operations\<close>

fun fj_op :: "journal_op \<Rightarrow> (file_journal, unit) eff" where
  "fj_op (Add e) = fj_add e"
| "fj_op Clear = fj_clear"
| "fj_op (Delete_from n) = fj_deleteEntriesFrom (int n)"
| "fj_op (Delete_to n) = fj_deleteEntriesTo (int n)"

fun all_fits :: "journal_op list \<Rightarrow> file_journal \<Rightarrow> bool" where
  "all_fits [] j = True"
| "all_fits (p # ps) j = ((case p of Add e \<Rightarrow> fj_fits e j | _ \<Rightarrow> True) \<and> all_fits ps (snd (fj_op p j)))"

lemma fj_op_eq: "fj.do_op = fj_op"
proof
  show "fj.do_op p = fj_op p" for p by (cases p) simp_all
qed

lemma all_fits_eq: "all_fits ps j = fj.all_fit ps j"
  by (induction ps arbitrary: j) (simp_all add: fj_op_eq)

lemmas fj_run = fj.run_refines[folded all_fits_eq, unfolded fj_op_eq]

text \<open>The journal of a new file.\<close>

definition new_journal :: file_journal where
  "new_journal = \<lparr>jfile = default_header @ replicate 984 0, jentries = [], joff = 40\<rparr>"

lemma default_header_length: "length default_header = 40" by (simp add: default_header_def)

lemma new_journal_ok: "fj_ok new_journal"
proof -
  define header :: bytes where "header = [80, 89, 83, 89, 78, 67, 79, 66, 74] @ replicate 15 0 @ [48, 46, 51, 46, 51] @ replicate 3 0 @ le_bytes 4 1"
  have "fj_layout (default_header @ replicate 984 0) header [] (replicate 984 0)"
    by (simp add: fj_layout_def header_def default_header_def used_def)
  then show ?thesis by (auto simp: fj_ok_def new_journal_def used_def)
qed

lemma new_journal_fits: "length c < 1900 \<Longrightarrow> fj_fits (Entry c 1 1) new_journal"
  by (simp add: fj_fits_def packable_def new_journal_def default_header_length)

text \<open>
  C12. The file journal implements the list of log entries, across restarts. For every sequence of
  operations whose added records fit (numbers in 8 bytes, the file below 4 GB, each record within
  the doubled file) no operation raises, the entries in memory are those the list operations give,
  and opening the file again reads exactly these entries and continues at the same offset.
\<close>

theorem journal_refines_list:
  assumes "fj_ok j" and "all_fits ps j"
  shows "\<exists>j1 j2. forE fj_op ps j = (Inr (), j1) \<and> jentries j1 = fold list_op ps (jentries j) \<and> fj_ok j1 \<and>
    FileJournal (Some (jfile j1)) = Inr j2 \<and> jentries j2 = jentries j1 \<and> joff j2 = joff j1"
  using fj_run[OF assms] fj_ok_reopen by metis

theorem journal_refines_list_witness:
  "\<exists>j1 j2. forE fj_op [Add (Entry [7] 1 1), Delete_to 1] new_journal = (Inr (), j1) \<and>
    jentries j1 = [] \<and> fj_ok j1 \<and>
    FileJournal (Some (jfile j1)) = Inr j2 \<and> jentries j2 = jentries j1 \<and> joff j2 = joff j1"
proof -
  have "all_fits [Add (Entry [7] 1 1), Delete_to 1] new_journal" using new_journal_fits[of "[7]"] by simp
  from journal_refines_list[OF new_journal_ok this] show ?thesis by (simp add: new_journal_def)
qed

section \<open>A record that is too large\<close>

text \<open>
  The file is doubled at most once per write. A record that does not fit into the doubled file
  raises IndexError after the entry was appended in memory: memory has the entry, the file does
  not, and the node that restarts from the file has the log without it.
\<close>

theorem oversized_record_diverges:
  assumes "fj_ok j" and "packable e" and "joff j + int (length (rec_of e)) > 2 * int (length (jfile j))"
  shows "\<exists>j1 j2. fj_add e j = (Inl IndexError, j1) \<and> jentries j1 = jentries j @ [e] \<and> joff j1 = joff j \<and>
    FileJournal (Some (jfile j1)) = Inr j2 \<and> jentries j2 = jentries j"
proof -
  let ?es = "jentries j" and ?r = "rec_of e"
  obtain header pad where lay: "fj_layout (jfile j) header ?es pad" using assms(1) unfolding fj_ok_def by blast
  have ok: "joff j = used ?es" "used ?es < 256 ^ 4" "\<forall>x\<in>set ?es. packable x" using assms(1) by (simp_all add: fj_ok_def)
  have h: "length header = 36" using lay by (simp add: fj_layout_def)
  define m1 where "m1 = header @ le_bytes 4 (nat (used ?es)) @ records ?es @ grown (header @ le_bytes 4 (nat (used ?es)) @ records ?es) pad (length ?r)"
  have w: "rf_write (used ?es) ?r (jfile j) = (Inl IndexError, m1)"
    using write_record[OF lay, of e] assms(3) fj_layout_length[OF lay] ok(1) h
    by (auto simp: Let_def grown_def used_def m1_def)
  let ?j = "j\<lparr>jentries := ?es @ [e], jfile := m1\<rparr>"
  have "fj_add e j = (Inl IndexError, ?j)"
    using w by (simp add: fj_add_def record_bytes_eq assms(2) on_file_def bindE_def ok(1))
  moreover have "\<exists>j2. FileJournal (Some m1) = Inr j2 \<and> jentries j2 = ?es"
  proof -
    have "fj_ok \<lparr>jfile = m1, jentries = ?es, joff = used ?es\<rparr>"
      using h ok unfolding fj_ok_def fj_layout_def m1_def by auto
    from fj_ok_reopen[OF this] show ?thesis by auto
  qed
  ultimately show ?thesis by auto
qed

theorem oversized_record_diverges_witness:
  "\<exists>j1 j2. fj_add (Entry (replicate 2000 1) 1 1) new_journal = (Inl IndexError, j1) \<and>
    jentries j1 = jentries new_journal @ [Entry (replicate 2000 1) 1 1] \<and> joff j1 = joff new_journal \<and>
    FileJournal (Some (jfile j1)) = Inr j2 \<and> jentries j2 = jentries new_journal"
  by (rule oversized_record_diverges[OF new_journal_ok])
     (simp_all add: packable_def new_journal_def default_header_length)

section \<open>A crash in between\<close>

lemma forE_append: "forE f (xs @ ys) = (\<lambda>j. bindE (forE f xs) (\<lambda>_. forE f ys) j)"
  by (induction xs) (auto simp: fun_eq_iff bindE_def split: sum.splits prod.splits)

text \<open>
  C39. deleteEntriesTo clears the file and adds the entries it keeps again, one at a time. A node
  that stops after k of them restarts with only the first k of the entries it had to keep: from
  the moment of the clear until the last add, durable log entries are lost.
\<close>

theorem deleteEntriesTo_not_crash_safe:
  assumes "fj_ok j"
  shows "fj_deleteEntriesTo (int n) j =
      bindE (bindE fj_clear (\<lambda>_. forE fj_add (take k (drop n (jentries j)))))
        (\<lambda>_. forE fj_add (drop k (drop n (jentries j)))) j \<and>
    (\<exists>j1 j2. bindE fj_clear (\<lambda>_. forE fj_add (take k (drop n (jentries j)))) j = (Inr (), j1) \<and>
       FileJournal (Some (jfile j1)) = Inr j2 \<and> jentries j2 = take k (drop n (jentries j)))"
proof
  let ?es = "drop n (jentries j)"
  have d: "drop (slice_bound (jentries j) (int n)) (jentries j) = ?es" by (simp add: slice_bound_pos min_def)
  have "forE fj_add ?es = (\<lambda>j. bindE (forE fj_add (take k ?es)) (\<lambda>_. forE fj_add (drop k ?es)) j)"
    by (rule forE_append[of fj_add "take k ?es" "drop k ?es", unfolded append_take_drop_id])
  then show "fj_deleteEntriesTo (int n) j =
      bindE (bindE fj_clear (\<lambda>_. forE fj_add (take k ?es))) (\<lambda>_. forE fj_add (drop k ?es)) j"
    unfolding fj_deleteEntriesTo_def Let_def d by (simp add: bindE_def split: sum.splits prod.splits)
  obtain j1 where j1: "fj_clear j = (Inr (), j1)" "fj_ok j1" "jentries j1 = []" "length (jfile j1) = length (jfile j)"
    using fj_clear_ok[OF assms] by blast
  obtain header pad where lay: "fj_layout (jfile j) header (jentries j) pad" using assms unfolding fj_ok_def by blast
  have le: "used (take k ?es) \<le> used (jentries j)"
    using records_suffix[of n "jentries j"] records_prefix[of k ?es] by (simp add: used_def)
  have "\<forall>e\<in>set (take k ?es). packable e" using assms by (auto simp: fj_ok_def dest: in_set_takeD in_set_dropD)
  moreover have "used (take k ?es) < 256 ^ 4" using assms le by (simp add: fj_ok_def)
  ultimately obtain j' where "forE fj_add (take k ?es) j1 = (Inr (), j')" "fj_ok j'" "jentries j' = take k ?es"
    using fj_add_all[OF j1(2), of "take k ?es"] j1(3,4) le fj_layout_length[OF lay] by auto
  then show "\<exists>j1 j2. bindE fj_clear (\<lambda>_. forE fj_add (take k ?es)) j = (Inr (), j1) \<and>
       FileJournal (Some (jfile j1)) = Inr j2 \<and> jentries j2 = take k ?es"
    using j1(1) fj_ok_reopen by (fastforce simp: bindE_ok)
qed

theorem deleteEntriesTo_not_crash_safe_witness:
  "\<exists>j j1 j2. jentries j = [Entry [7] 1 1] \<and> bindE fj_clear (\<lambda>_. forE fj_add (take 0 (drop 0 (jentries j)))) j = (Inr (), j1) \<and>
     FileJournal (Some (jfile j1)) = Inr j2 \<and> jentries j2 = []"
proof -
  obtain j where "fj_ok j" "jentries j = [Entry [7] 1 1]"
    using fj_add_ok[OF new_journal_ok new_journal_fits[of "[7]"]] by (auto simp: new_journal_def)
  with deleteEntriesTo_not_crash_safe[of j 0 0] show ?thesis by auto
qed

end
