(* ===== verification/RaftCompaction.thy ===== *)
theory RaftCompaction
  imports RaftSpec
begin

text \<open>
  Compaction of the log, \<open>SyncObj.__tryLogCompaction\<close>: a full dump of the state is serialized,
  and once it is stored the entries it covers are dropped. belcoin has switched the call off
  (\<open>because there is some bug\<close>); the function is modelled as it is written.
\<close>

section \<open>State\<close>

record compacting = raft +
  last_serialized_time :: rat
  last_serialized_entry :: "int option"
  force_compaction :: bool

type_synonym dump_data = "storage option \<times> entry \<times> entry \<times> addr list"

text \<open>
  What a call takes from outside: the answer of a configured \<open>serializeChecker\<close>, that of
  \<open>waitpid\<close>, the child of a \<open>fork\<close>, the bytes of a dump.
\<close>

record compaction_io =
  checker :: "serializer_state option"
  wait_result :: "(int \<times> int) option"
  child_pid :: int
  dumps_state :: "dump_data \<Rightarrow> bytes"

section \<open>The steps\<close>

definition forceLogCompaction :: "compacting \<Rightarrow> compacting" where
  "forceLogCompaction s = s\<lparr>force_compaction := True\<rparr>"

definition compaction_done :: "raft_env \<Rightarrow> compaction_io \<Rightarrow> rat \<Rightarrow> compacting \<Rightarrow> serializer_state \<times> compacting" where
  "compaction_done R io now s =
     (let ((st, i), z) = checkSerializing (checker io) (wait_result io) (dump s);
          s1 = s\<lparr>dump := z\<rparr>
      in (st,
          (case (st, i) of
             (SUCCESS_SERIALIZED, Some n) \<Rightarrow>
               s1\<lparr>last_serialized_time := now, raft_log := deleteEntriesTo n (raft_log s1),
                  last_serialized_entry := Some n\<rparr>
           | _ \<Rightarrow> s1)))"

definition compaction_due :: "raft_env \<Rightarrow> rat \<Rightarrow> compacting \<Rightarrow> bool" where
  "compaction_due R now s \<longleftrightarrow>
     \<not> (int (length (raft_log s)) \<le> logCompactionMinEntries (conf R) \<and>
        now - last_serialized_time s \<le> logCompactionMinTime (conf R) \<and> \<not> force_compaction s)"

text \<open>
  The window of a node when the nodes are to take turns; \<open>int(currTime) / interval * interval\<close> is
  a true division, as it is in Python 3. Sorting fails when this node has no address.
\<close>

definition in_window :: "raft_env \<Rightarrow> rat \<Rightarrow> compacting \<Rightarrow> py_error + bool" where
  "in_window R now s =
     (case self_addr s of
        None \<Rightarrow> Inl TypeError
      | Some self \<Rightarrow>
          let allNodes = sort (other_addrs s @ [self]);
              selfIdx = length (takeWhile (\<lambda>a. a \<noteq> self) allNodes);
              interval = logCompactionMinTime (conf R);
              periodStart = of_int (py_int now) / interval * interval;
              nodeInterval = interval / of_nat (length allNodes);
              nodeIntervalStart = periodStart + of_nat selfIdx * nodeInterval;
              nodeIntervalEnd = nodeIntervalStart + 3 / 10 * nodeInterval
          in Inr (\<not> (now < nodeIntervalStart \<or> now \<ge> nodeIntervalEnd)))"

definition start_compaction :: "raft_env \<Rightarrow> compaction_io \<Rightarrow> rat \<Rightarrow> compacting \<Rightarrow> compacting" where
  "start_compaction R io now s =
     (let s1 = s\<lparr>force_compaction := False\<rparr>;
          es = getEntries (Some (last_applied s1 - 1)) (Some 2) None (raft_log s1) in
      if length es < 2 \<or> Some (idx (es ! 0)) = last_serialized_entry s1
      then s1\<lparr>last_serialized_time := now\<rparr>
      else
        let data = (if has_serializer (conf R) then None else Some (app s1));
            cluster = other_addrs s1 @ (case self_addr s1 of None \<Rightarrow> [] | Some a \<Rightarrow> [a])
        in s1\<lparr>dump := serialize (disk R) (child_pid io) (dumps_state io) (data, es ! 1, es ! 0, cluster) (idx (es ! 0)) (dump s1)\<rparr>)"

definition tryLogCompaction :: "raft_env \<Rightarrow> compaction_io \<Rightarrow> rat \<Rightarrow> (compacting, unit) eff" where
  "tryLogCompaction R io now s =
     (let (st, s1) = compaction_done R io now s in
      if st \<noteq> NOT_SERIALIZING then (Inr (), s1)
      else if \<not> compaction_due R now s1 then (Inr (), s1)
      else
        (case (if logCompactionSplit (conf R) then in_window R now s1 else Inr True) of
           Inl e \<Rightarrow> (Inl e, s1)
         | Inr False \<Rightarrow> (Inr (), s1)
         | Inr True \<Rightarrow> (Inr (), start_compaction R io now s1)))"

section \<open>A node that has no turn\<close>

text \<open>
  When the nodes are to take turns (\<open>logCompactionSplit\<close>), only the node whose address is
  the least ever compacts its log: the start of the period is the current second instead of a
  multiple of the interval, so the window of every other node always lies in the future, as soon
  as the share of a node is a second or more.
\<close>

theorem split_starves_nodes:
  assumes "logCompactionSplit (conf R)" and "self_addr s = Some self" and "b \<in> set (other_addrs s)" and "b < self"
    and "logCompactionMinTime (conf R) \<ge> of_nat (Suc (length (other_addrs s)))" and "0 \<le> now"
    and "compaction_done R io now s = (NOT_SERIALIZING, s1)"
  shows "tryLogCompaction R io now s = (Inr (), s1) \<and> pid (dump s1) = pid (dump s) \<and> raft_log s1 = raft_log s"
proof -
  let ?all = "sort (other_addrs s @ [self])"
  let ?i = "length (takeWhile (\<lambda>a. a \<noteq> self) ?all)"
  let ?t = "logCompactionMinTime (conf R)" and ?n = "length ?all"
  have s1: "s1 = s\<lparr>dump := dump s1\<rparr>" "pid (dump s1) = pid (dump s)"
    using assms(7) by (auto simp: compaction_done_def checkSerializing_def Let_def split: option.splits if_splits prod.splits)
  have "?all \<noteq> []" and "hd ?all \<noteq> self"
  proof -
    show ne: "?all \<noteq> []" by (metis set_empty2 set_sort snoc_eq_iff_butlast)
    have "b \<in> set ?all" using assms(3) by simp
    then have "hd ?all \<le> b" using ne by (metis sorted_sort hd_Cons_tl order_refl set_ConsD sorted_simps(2))
    with assms(4) show "hd ?all \<noteq> self" by auto
  qed
  then have i: "1 \<le> ?i" by (cases ?all) auto
  have n: "?n = Suc (length (other_addrs s))" by simp
  have t: "0 < ?t" using assms(5) by (rule less_le_trans[rotated]) simp
  have share: "1 \<le> ?t / of_nat ?n" using assms(5) unfolding n by (simp add: le_divide_eq)
  have "1 * 1 \<le> of_nat ?i * (?t / of_nat ?n)"
    by (rule mult_mono) (use i share in \<open>simp_all add: Suc_le_eq\<close>)
  moreover have "now < of_int (py_int now) + 1" using assms(6) by (simp add: py_int_def) linarith
  moreover have "of_int (py_int now) / ?t * ?t = of_int (py_int now)" using t by simp
  ultimately have "now < of_int (py_int now) / ?t * ?t + of_nat ?i * (?t / of_nat ?n)" by linarith
  then have "in_window R now s = Inr False" using assms(2) by (simp add: in_window_def Let_def)
  moreover have "in_window R now s1 = in_window R now s" by (subst s1(1)) (simp add: in_window_def split: option.split)
  ultimately have "in_window R now s1 = Inr False" by simp
  then have "tryLogCompaction R io now s = (Inr (), s1)"
    using assms(1,7) by (simp add: tryLogCompaction_def)
  moreover have "raft_log s1 = raft_log s" by (subst s1(1)) simp
  ultimately show ?thesis using s1(2) by simp
qed


text \<open>Node b of a cluster of three, with an applied log of three entries.\<close>

definition ex_compacting :: compacting where
  "ex_compacting = raft.extend ((ex_node ''b'' [''a'', ''c''])
     \<lparr>raft_log := [Entry [1] 1 0, Entry [1] 2 1, Entry [1] 3 1], commit_index := 3, last_applied := 3\<rparr>)
     (compacting.fields 0 None True)"

definition ex_data :: dump_data where
  "ex_data = (Some (app ex_compacting), Entry [1] 3 1, Entry [1] 2 1, [''a'', ''c'', ''b''])"

definition ex_io :: compaction_io where
  "ex_io = \<lparr>checker = None, wait_result = None, child_pid = 7, dumps_state = (\<lambda>_. [1, 2, 3])\<rparr>"

lemma ex_compacting_simps:
  "raft_log ex_compacting = [Entry [1] 1 0, Entry [1] 2 1, Entry [1] 3 1]" "last_applied ex_compacting = 3"
  "self_addr ex_compacting = Some ''b''" "other_addrs ex_compacting = [''a'', ''c'']"
  "last_serialized_entry ex_compacting = None" "force_compaction ex_compacting" "pid (dump ex_compacting) = 0"
  "has_file (dump ex_compacting) = False"
  by (simp_all add: ex_compacting_def ex_node_def raft_init_def raft.defs compacting.defs Serializer_def Let_def
      ex_renv_def belcoin_conf_def default_conf_def)

theorem split_starves_nodes_witness:
  "\<exists>s1. tryLogCompaction (ex_renv\<lparr>conf := belcoin_conf\<lparr>logCompactionSplit := True\<rparr>\<rparr>) ex_io 1000 ex_compacting = (Inr (), s1) \<and>
     pid (dump s1) = pid (dump ex_compacting) \<and> raft_log s1 = raft_log ex_compacting"
proof -
  let ?R = "ex_renv\<lparr>conf := belcoin_conf\<lparr>logCompactionSplit := True\<rparr>\<rparr>"
  obtain s1 where "compaction_done ?R ex_io 1000 ex_compacting = (NOT_SERIALIZING, s1)"
    by (simp add: compaction_done_def ex_io_def checkSerializing_def ex_compacting_simps)
  moreover have "''a'' < ''b''" by simp
  ultimately show ?thesis
    using split_starves_nodes[of ?R ex_compacting "''b''" "''a''" 1000 ex_io s1]
    by (auto simp: ex_compacting_simps belcoin_conf_def default_conf_def)
qed

section \<open>Compaction and restart\<close>

text \<open>The dump of a state: its ledger, the last applied entry and the one before, the cluster.\<close>

definition dump_data_of :: "compacting \<Rightarrow> dump_data" where
  "dump_data_of s =
     (let n = nat (last_applied s - 1 - first_idx (raft_log s)) in
      (Some (app s), raft_log s ! Suc n, raft_log s ! n,
       other_addrs s @ (case self_addr s of None \<Rightarrow> [] | Some a \<Rightarrow> [a])))"

text \<open>The child that writes the dump, if there is one, ends.\<close>

definition child_ends :: "raft_env \<Rightarrow> compaction_io \<Rightarrow> dump_data \<Rightarrow> compacting \<Rightarrow> compacting" where
  "child_ends R io d s =
     (if has_file (dump s) \<and> use_fork (dump s)
      then s\<lparr>dump := snd (child_writes (disk R) (dumps_state io) d (dump s))\<rparr> else s)"

lemma idle_check: "pid z = 0 \<Longrightarrow> checkSerializing None w z = ((NOT_SERIALIZING, None), z)"
  by (simp add: checkSerializing_def)

lemma getEntries_two:
  assumes "log_ok es" and "first_idx es \<le> i" and "i + 1 \<le> idx (last_entry es)"
  shows "getEntries (Some i) (Some 2) None es = [es ! nat (i - first_idx es), es ! Suc (nat (i - first_idx es))]"
proof -
  let ?n = "nat (i - first_idx es)"
  have "Suc ?n < length es" using assms log_ok_last_idx[OF assms(1)] by linarith
  then have "take 2 (drop ?n es) = [es ! ?n, es ! Suc ?n]"
    by (simp add: Cons_nth_drop_Suc[symmetric] numeral_2_eq_2)
  with assms(2) show ?thesis by (simp add: getEntries_def Let_def)
qed

lemma updateClusterConfiguration_frame:
  "raft_log (updateClusterConfiguration u) = raft_log u \<and> app (updateClusterConfiguration u) = app u \<and>
   last_applied (updateClusterConfiguration u) = last_applied u"
  by (simp add: updateClusterConfiguration_def Let_def)




end
