(* ===== verification/NodeConnSpec.thy ===== *)
theory NodeConnSpec
  imports NodeConn TcpSpec
begin

text \<open>
  The partner and its connections: whenever a partner counts as connected there is a socket to
  send on; and what goes wrong when a name cannot be resolved, when an encrypted connection is
  made a second time, and when a partner comes back before its old connection is given up.
\<close>

section \<open>What an operation of a connection does to its partner\<close>

definition dead :: "'m conn \<Rightarrow> bool" where
  "dead t \<longleftrightarrow> cstate t = DISCONNECTED \<and> \<not> has_socket t \<and> fileno t = None \<and> status (owner t) = DISCONNECTED"

text \<open>Nothing to its status, or a disconnection that the status shows.\<close>

definition shown_by :: "'m conn \<Rightarrow> 'm conn \<Rightarrow> bool" where
  "shown_by t t' \<longleftrightarrow> should_connect (owner t') = should_connect (owner t) \<and>
     (cstate t' = cstate t \<and> has_socket t' = has_socket t \<and> fileno t' = fileno t \<and> status (owner t') = status (owner t) \<or>
      dead t')"

lemmas shown_defs = shown_by_def dead_def disconnect_def node_onDisconnected_def

definition live :: "'m conn \<Rightarrow> bool" where
  "live t \<longleftrightarrow> has_socket t \<and> cstate t \<noteq> DISCONNECTED"

lemma shown_refl: "shown_by t t"
  by (simp add: shown_by_def)

lemma disconnect_shown: "live t0 \<Longrightarrow> shown_by t0 t \<Longrightarrow> shown_by t0 (disconnect node_onDisconnected t)"
  by (auto simp: shown_defs live_def)

lemma processSend_shown:
  "live t0 \<Longrightarrow> shown_by t0 t \<Longrightarrow> processSend node_onDisconnected t = (r, t') \<Longrightarrow> shown_by t0 t'"
  by (auto simp: processSend_def shown_defs live_def Let_def split: if_splits list.splits send_result.splits)

lemma processRead_shown:
  "live t0 \<Longrightarrow> shown_by t0 t \<Longrightarrow> processRead node_onDisconnected t = (r, t') \<Longrightarrow> shown_by t0 t'"
  by (auto simp: processRead_def shown_defs live_def Let_def split: if_splits list.splits recv_result.splits)

lemma parse_shown:
  "live t0 \<Longrightarrow> shown_by t0 t \<Longrightarrow> processParseMessage c node_onDisconnected t = (m, t') \<Longrightarrow> shown_by t0 t'"
  by (auto simp: processParseMessage_def shown_defs live_def Let_def split: if_splits sum.splits)

lemma trySendBuffer_shown:
  assumes "live t0" and "shown_by t0 t" and "trySendBuffer node_onDisconnected t = (r, t')"
  shows "shown_by t0 t'"
  by (rule trySendBuffer_inv[where P = "shown_by t0", OF _ assms(2,3)]) (erule (1) processSend_shown[OF assms(1)])

lemma tcp_send_shown:
  assumes "live t0" and "shown_by t0 t" and "tcp_send c node_onDisconnected m t = (r, t')"
  shows "shown_by t0 t'"
proof -
  have "shown_by t0 (t\<lparr>writeBuffer := w\<rparr>)" for w using assms(2) by (simp add: shown_by_def dead_def)
  with trySendBuffer_shown[OF assms(1)] assms(2,3) show ?thesis
    by (auto simp: tcp_send_def Let_def split: sum.splits)
qed

lemma node_onMessage_shown:
  assumes "live t0" and "shown_by t0 t" and "node_onMessage E m t = (r, t')"
  shows "shown_by t0 t'"
proof (cases "has_encryptor (owner t) \<and> \<not> truthy (sendRandKey t)")
  case True
  have "shown_by t0 (t\<lparr>sendRandKey := m\<rparr>)" using assms(2) by (simp add: shown_by_def dead_def)
  from tcp_send_shown[OF assms(1) this] assms(3) True show ?thesis by (auto simp: node_onMessage_def)
next
  case False
  with assms(2,3) show ?thesis by (auto simp: node_onMessage_def shown_by_def dead_def)
qed

lemma read_event_shown:
  assumes "live t0" and "shown_by t0 t"
    and "read_event n c node_onDisconnected (node_onMessage E) now t = Some (r, t')"
  shows "shown_by t0 t'"
proof (rule read_event_inv[where P = "shown_by t0", OF _ _ _ _ assms(2,3)])
  show "shown_by t0 t \<Longrightarrow> shown_by t0 (t\<lparr>lastReadTime := x\<rparr>)" for t x by (simp add: shown_by_def dead_def)
qed (erule (1) processRead_shown[OF assms(1)] parse_shown[OF assms(1)] node_onMessage_shown[OF assms(1)])+

lemma write_event_shown:
  assumes "live t0" and "shown_by t0 t" and "write_event node_onDisconnected d t = (r, t')"
  shows "shown_by t0 t'"
proof -
  obtain r1 t1 where l: "trySendBuffer node_onDisconnected t = (r1, t1)" by (cases "trySendBuffer node_onDisconnected t")
  have "shown_by t0 t1" by (rule trySendBuffer_shown[OF assms(1,2) l])
  moreover have "shown_by t0 (t1\<lparr>polled := p\<rparr>)" for p using calculation by (simp add: shown_by_def dead_def)
  ultimately show ?thesis using assms(3) l by (auto simp: write_event_def bindE_def split: sum.splits if_splits)
qed

text \<open>A whole event of a connection that is alive: as above, or it is now connected.\<close>

lemma event_shown:
  assumes "live t" and ev: "processConnection n c node_onDisconnected (node_onConnected E key) (node_onMessage E) now d ev so t = Some (r, t')"
  shows "shown_by t t' \<or>
    (cstate t = CONNECTING \<and> fileno t = Some d \<and>
     (shown_by (t\<lparr>owner := (owner t)\<lparr>status := CONNECTED\<rparr>\<rparr>) t' \<or>
      (\<exists>t1. shown_by (t\<lparr>owner := (owner t)\<lparr>status := CONNECTED\<rparr>\<rparr>) t1 \<and> t' = t1\<lparr>cstate := CONNECTED, lastReadTime := now\<rparr>)))"
proof -
  let ?u = "t\<lparr>owner := (owner t)\<lparr>status := CONNECTED\<rparr>\<rparr>"
  have lu: "live ?u" using assms(1) by (simp add: live_def)
  have conn: "shown_by ?u t1" if "node_onConnected E key t = (r1, t1)" for r1 t1
  proof -
    have "shown_by ?u (?u\<lparr>recvRandKey := k\<rparr>)" for k by (simp add: shown_by_def)
    note k = tcp_send_shown[OF lu this] and p = tcp_send_shown[OF lu shown_refl]
    from that show ?thesis unfolding node_onConnected_def Let_def
      by (simp split: if_splits) (erule k, erule p)
  qed
  have d: "shown_by t (disconnect node_onDisconnected t)" by (rule disconnect_shown[OF assms(1) shown_refl])
  have p: "shown_by t (t\<lparr>polled := p\<rparr>)" for p by (simp add: shown_by_def)
  have rest: "shown_by t t'" if w: "(if WRITE \<in> ev then write_event node_onDisconnected d t else (Inr (), t)) = (r1, t1)"
    and t': "t' = t1 \<or> read_event n c node_onDisconnected (node_onMessage E) now t1 = Some (r, t')" for r1 t1
  proof -
    have "shown_by t t1" using w write_event_shown[OF assms(1) shown_refl] shown_refl by (auto split: if_splits)
    with t' read_event_shown[OF assms(1)] show ?thesis by blast
  qed
  show ?thesis
  proof (cases "fileno t = Some d \<and> ERROR \<notin> ev \<and> \<not> now - lastReadTime t > conn_timeout t \<and>
      \<not> ((READ \<in> ev \<or> WRITE \<in> ev) \<and> \<not> has_socket t) \<and> \<not> ((READ \<in> ev \<or> WRITE \<in> ev) \<and> so)")
    case False
    with ev d p assms(1) show ?thesis
      by (auto simp: processConnection_def live_def split: if_splits)
  next
    case True
    note T = True
    show ?thesis
    proof (cases "(READ \<in> ev \<or> WRITE \<in> ev) \<and> cstate t = CONNECTING")
      case True
      obtain r1 t1 where oc: "node_onConnected E key t = (r1, t1)" by (cases "node_onConnected E key t")
      with ev T True have "t' = t1 \<or> t' = t1\<lparr>cstate := CONNECTED, lastReadTime := now\<rparr>"
        by (auto simp: processConnection_def split: sum.splits)
      with conn[OF oc] T True show ?thesis by blast
    next
      case False
      obtain r1 t1 where w: "(if WRITE \<in> ev then write_event node_onDisconnected d t else (Inr (), t)) = (r1, t1)"
        by (cases "if WRITE \<in> ev then write_event node_onDisconnected d t else (Inr (), t)")
      from ev T False w have "t' = t1 \<or> read_event n c node_onDisconnected (node_onMessage E) now t1 = Some (r, t')"
        by (simp add: processConnection_def split: sum.splits if_splits)
      with rest[OF w] show ?thesis by blast
    qed
  qed
qed


section \<open>The runs of a partner\<close>

text \<open>
  Sending, trying to connect, an event of one of its connections, a connection accepted from it
  (only by a partner that does not connect itself), the end; and the socket's answers change.
\<close>

inductive partner_step :: "'m node_env \<Rightarrow> 'm node \<Rightarrow> 'm node \<Rightarrow> bool" for E where
  Step_send: "partner_send E m s = (r, s') \<Longrightarrow> partner_step E s s'"
| Step_connect: "connectIfRequired E now res s = (r, s') \<Longrightarrow> partner_step E s s'"
| Step_event: "conn_event E n key i now d ev so s = Some (r, s') \<Longrightarrow> partner_step E s s'"
| Step_accept: "\<not> should_connect (partner s) \<Longrightarrow> cstate t = CONNECTED \<Longrightarrow> has_socket t \<Longrightarrow> fileno t \<noteq> None \<Longrightarrow>
    partner_step E s (onPartnerConnected i (s\<lparr>conns := (conns s)(i := t)\<rparr>))"
| Step_destroy: "partner_step E s (node_destroy s)"
| Step_socket: "partner_step E s (s\<lparr>conns := (conns s)(i := (conns s i)\<lparr>answers := as, incoming := rs\<rparr>)\<rparr>)"

inductive partner_reach :: "'m node_env \<Rightarrow> 'm node \<Rightarrow> bool" for E where
  Reach_init: "partner_reach E (Node E addr should hst encr now)"
| Reach_step: "partner_reach E s \<Longrightarrow> partner_step E s s' \<Longrightarrow> partner_reach E s'"

definition partner_ok :: "'m node \<Rightarrow> bool" where
  "partner_ok s \<longleftrightarrow>
     (\<forall>i. fileno (conns s i) \<noteq> None \<longrightarrow> live (conns s i)) \<and>
     (status (partner s) = CONNECTED \<longrightarrow> (case current s of None \<Rightarrow> False | Some i \<Rightarrow> fileno (conns s i) \<noteq> None)) \<and>
     (should_connect (partner s) \<longrightarrow> current s = Some 0 \<and> (\<forall>i. i \<noteq> 0 \<longrightarrow> fileno (conns s i) = None)) \<and>
     (\<not> should_connect (partner s) \<longrightarrow> (\<forall>i. fileno (conns s i) \<noteq> None \<longrightarrow> cstate (conns s i) \<noteq> CONNECTING))"

lemma partner_ok_init: "partner_ok (Node E addr should hst encr now)"
  by (simp add: partner_ok_def Node_def TcpConnection_def Let_def)

text \<open>An operation of one connection that the partner's status shown_by.\<close>

lemma partner_ok_conn:
  assumes "partner_ok s" and "fileno (conns s i) \<noteq> None"
    and "shown_by ((conns s i)\<lparr>owner := partner s\<rparr>) t"
  shows "partner_ok (s\<lparr>partner := owner t, conns := (conns s)(i := t)\<rparr>)"
  using assms by (auto simp: partner_ok_def shown_by_def dead_def live_def split: option.splits)

lemma live_owner [simp]: "live (t\<lparr>owner := p\<rparr>) = live t"
  by (simp add: live_def)

lemma partner_ok_on_conn:
  assumes "partner_ok s" and "fileno (conns s i) \<noteq> None" and "on_conn i f s = (r, s')"
    and "\<And>t r t'. live t \<Longrightarrow> f t = (r, t') \<Longrightarrow> shown_by t t'"
  shows "partner_ok s'"
proof -
  obtain r1 t where f: "f ((conns s i)\<lparr>owner := partner s\<rparr>) = (r1, t)" by (cases "f ((conns s i)\<lparr>owner := partner s\<rparr>)")
  have "live ((conns s i)\<lparr>owner := partner s\<rparr>)" using assms(1,2) by (simp add: partner_ok_def)
  from partner_ok_conn[OF assms(1,2) assms(4)[OF this f]] assms(3) f show ?thesis by (auto simp: on_conn_def)
qed

lemma partner_ok_send:
  assumes "partner_ok s" and "partner_send E m s = (r, s')"
  shows "partner_ok s'"
proof (cases "status (partner s) = CONNECTED")
  case True
  then obtain i where i: "current s = Some i" "fileno (conns s i) \<noteq> None" using assms(1) by (auto simp: partner_ok_def split: option.splits)
  obtain r1 s1 where o: "on_conn i (tcp_send (codec_of E) node_onDisconnected m) s = (r1, s1)"
    by (cases "on_conn i (tcp_send (codec_of E) node_onDisconnected m) s")
  have "partner_ok s1" by (rule partner_ok_on_conn[OF assms(1) i(2) o]) (erule tcp_send_shown[OF _ shown_refl])
  with assms(2) True i(1) o show ?thesis by (auto simp: partner_send_def bindE_def split: sum.splits)
qed (use assms in \<open>simp add: partner_send_def\<close>)

lemma partner_ok_connect:
  assumes "partner_ok s" and "connectIfRequired E now res s = (r, s')"
  shows "partner_ok s'"
proof (cases "should_connect (partner s) \<and> status (partner s) = DISCONNECTED \<and> \<not> now - last_attempt (partner s) < retry_time E")
  case True
  then have c: "current s = Some 0" "\<forall>i. i \<noteq> 0 \<longrightarrow> fileno (conns s i) = None" using assms(1) by (auto simp: partner_ok_def)
  with True assms(2) show ?thesis
    by (auto simp: connectIfRequired_def Let_def on_conn_def connect_def bindE_def partner_ok_def live_def
        split: option.splits bool.splits connect_result.splits if_splits)
qed (use assms in \<open>auto simp: connectIfRequired_def split: if_splits\<close>)

lemma partner_ok_event:
  assumes "partner_ok s" and "conn_event E n key i now d ev so s = Some (r, s')"
  shows "partner_ok s'"
proof -
  let ?t = "(conns s i)\<lparr>owner := partner s\<rparr>" and ?u = "(conns s i)\<lparr>owner := (partner s)\<lparr>status := CONNECTED\<rparr>\<rparr>"
  obtain t' where p: "processConnection n (codec_of E) node_onDisconnected (node_onConnected E key) (node_onMessage E) now d ev so ?t = Some (r, t')"
    and s': "s' = s\<lparr>partner := owner t', conns := (conns s)(i := t')\<rparr>"
    using assms(2) by (auto simp: conn_event_def split: option.splits)
  show ?thesis
  proof (cases "fileno (conns s i) = None")
    case True
    then have "t' = ?t\<lparr>polled := (polled ?t)(d := None)\<rparr>" using p by (simp add: processConnection_def)
    with assms(1) True s' show ?thesis by (auto simp: partner_ok_def live_def split: option.splits)
  next
    case False
    then have l: "live ?t" using assms(1) by (simp add: partner_ok_def)
    from event_shown[OF l p] consider "shown_by ?t t'"
      | "cstate (conns s i) = CONNECTING" "shown_by ?u t'"
      | t1 where "cstate (conns s i) = CONNECTING" "shown_by ?u t1" "t' = t1\<lparr>cstate := CONNECTED, lastReadTime := now\<rparr>"
      by auto
    then show ?thesis
    proof cases
      case 1
      from partner_ok_conn[OF assms(1) False this] s' show ?thesis by simp
    next
      case 2
      with assms(1) False s' show ?thesis by (auto simp: partner_ok_def shown_by_def dead_def live_def split: option.splits)
    next
      case 3
      with assms(1) False s' show ?thesis by (auto simp: partner_ok_def shown_by_def dead_def live_def split: option.splits)
    qed
  qed
qed

lemma partner_ok_destroy: "partner_ok s \<Longrightarrow> partner_ok (node_destroy s)"
  by (auto simp: partner_ok_def node_destroy_def Let_def on_conn_def disconnect_def node_onDisconnected_def live_def
      split: option.splits if_splits)

lemma partner_ok_step:
  assumes "partner_ok s" and "partner_step E s s'"
  shows "partner_ok s'"
  using assms(2)
proof cases
  case Step_destroy
  with partner_ok_destroy[OF assms(1)] show ?thesis by simp
next
  case (Step_event n key i now d ev so r)
  from partner_ok_event[OF assms(1) this] show ?thesis .
next
  case (Step_accept t i)
  with assms(1) show ?thesis by (auto simp: onPartnerConnected_def partner_ok_def live_def split: option.splits)
next
  case (Step_socket i as rs)
  with assms(1) show ?thesis by (auto simp: partner_ok_def live_def split: option.splits)
qed (use assms(1) partner_ok_send partner_ok_connect in blast)+

lemma partner_reach_ok: "partner_reach E s \<Longrightarrow> partner_ok s"
  by (induction rule: partner_reach.induct) (auto intro: partner_ok_init partner_ok_step)


text \<open>A node and a codec to try things on.\<close>

definition env_b :: "unit node_env" where
  "env_b = \<lparr>codec_of = plain_codec, own_addr = Some ''b'', retry_time = 5, timeout_time = 10\<rparr>"

section \<open>Sending\<close>

lemma trySendBuffer_returns: "has_socket t \<Longrightarrow> fst (trySendBuffer onDisc t) = Inr ()"
proof (induction onDisc t rule: trySendBuffer.induct)
  case (1 onDisc t)
  obtain r1 t1 where p: "processSend onDisc t = (r1, t1)" by (cases "processSend onDisc t")
  then have r: "r1 = Inr False \<or> r1 = Inr True \<and> has_socket t1" using "1.prems"
    by (auto simp: processSend_def Let_def split: if_splits list.splits send_result.splits)
  then show ?case
  proof
    assume "r1 = Inr False"
    with p show ?case by (simp add: trySendBuffer.simps[of _ t])
  next
    assume t: "r1 = Inr True \<and> has_socket t1"
    then have "fst (trySendBuffer onDisc t1) = Inr ()" using "1.IH"[OF p[symmetric] _ refl] by blast
    with p t show ?case by (simp add: trySendBuffer.simps[of _ t])
  qed
qed

lemma tcp_send_returns:
  assumes "has_socket t"
  shows "fst (tcp_send c onDisc m t) = Inr () \<or>
    fst (tcp_send c onDisc m t) = Inl StructError \<and> 2 ^ 31 \<le> length (payload c (encryptor t) (sendRandKey t) m)"
proof -
  let ?d = "payload c (encryptor t) (sendRandKey t) m"
  show ?thesis
  proof (cases "pack_sint 4 (int (length ?d))")
    case (Inl e)
    then have "fst (tcp_send c onDisc m t) = Inl StructError" "2 ^ 31 \<le> length ?d"
      by (auto simp: tcp_send_def Let_def pack_sint_def split: if_splits)
    then show ?thesis by blast
  next
    case (Inr l)
    then have "tcp_send c onDisc m t = trySendBuffer onDisc (t\<lparr>writeBuffer := writeBuffer t @ l @ ?d\<rparr>)"
      by (simp add: tcp_send_def Let_def)
    moreover have "has_socket (t\<lparr>writeBuffer := writeBuffer t @ l @ ?d\<rparr>)" using assms by simp
    ultimately show ?thesis using trySendBuffer_returns by metis
  qed
qed



section \<open>A name that cannot be resolved\<close>

definition gives_up :: "'m node \<Rightarrow> bool" where
  "gives_up s \<longleftrightarrow> status (partner s) = CONNECTING \<and> should_connect (partner s) \<and> (\<forall>i. fileno (conns s i) = None)"

lemma gives_up_step:
  assumes "gives_up s" and "partner_step E s s'" and "should_connect (partner s')"
  shows "gives_up s'"
  using assms(2)
proof cases
  case (Step_event n key i now d ev so r)
  then show ?thesis using assms(1)
    by (auto simp: conn_event_def processConnection_def gives_up_def split: option.splits)
next
  case Step_destroy
  with assms(3) show ?thesis
    by (auto simp: node_destroy_def Let_def on_conn_def disconnect_def node_onDisconnected_def split: option.splits)
next
  case (Step_send m r)
  then show ?thesis using assms(1) by (simp add: partner_send_def gives_up_def)
next
  case (Step_connect now res r)
  then show ?thesis using assms(1) by (simp add: connectIfRequired_def gives_up_def)
qed (use assms(1) in \<open>auto simp: gives_up_def\<close>)

text \<open>
  The address of a partner is resolved once, when the partner is made. If that failed, the
  first attempt to connect raises TypeError in the tick that made it and leaves the status at
  CONNECTING; from then on, whatever happens short of removing the partner, no attempt is made.
\<close>

theorem unresolved_host_gives_up:
  assumes "s = Node E addr should None encr now0" and "should_connect (partner s)" and "retry_time E \<le> now"
    and "connectIfRequired E now res s = (r, s1)"
    and "(\<lambda>s s'. partner_step E s s' \<and> should_connect (partner s'))\<^sup>*\<^sup>* s1 s2"
  shows "r = Inl TypeError \<and> status (partner s2) = CONNECTING \<and>
    connectIfRequired E now' res' s2 = (Inr (), s2)"
proof -
  have "r = Inl TypeError \<and> gives_up s1"
    using assms(1-4) unfolding assms(1)
    by (auto simp: Node_def connectIfRequired_def Let_def connect_def on_conn_def bindE_def gives_up_def
        TcpConnection_def split: if_splits)
  moreover from assms(5) calculation have "gives_up s2"
    by (induction rule: rtranclp_induct) (auto intro: gives_up_step)
  ultimately show ?thesis by (auto simp: gives_up_def connectIfRequired_def)
qed

theorem unresolved_host_gives_up_witness:
  "\<exists>r s1. connectIfRequired env_b 9 Connect_fails (Node env_b ''a'' None None False 9) = (r, s1) \<and>
     r = Inl TypeError \<and> status (partner s1) = CONNECTING \<and> connectIfRequired env_b 99 Connect_fails s1 = (Inr (), s1)"
proof -
  obtain r s1 where c: "connectIfRequired env_b 9 Connect_fails (Node env_b ''a'' None None False 9) = (r, s1)"
    by (cases "connectIfRequired env_b 9 Connect_fails (Node env_b ''a'' None None False 9)")
  have "should_connect (partner (Node env_b ''a'' None None False 9))" by (simp add: Node_def env_b_def Let_def)
  from unresolved_host_gives_up[OF refl this _ c rtranclp.rtrancl_refl, of 99 Connect_fails] c
  show ?thesis by (auto simp: env_b_def)
qed


section \<open>A second connection\<close>

text \<open>
  The cipher is set when a partner is made, and cleared when its connection breaks. The
  second time, a partner of an encrypted cluster sends its session key in the clear; and the node
  that accepts the connection, which expects the cipher, cannot read it and closes: once an
  encrypted connection has broken, it is never made again.
\<close>

theorem reconnection_unencrypted:
  assumes "current s = Some 0" and "should_connect (partner s)" and "has_encryptor (partner s)" and "host (partner s) = Some True"
    and "fileno (conns s 0) = Some fd" and "cstate (conns s 0) \<noteq> DISCONNECTED" and "answers (conns s 0) = []"
    and "\<not> now - last_attempt (partner s) < retry_time E" and "0 \<le> conn_timeout (conns s 0)"
    and "length (payload (codec_of E) False Nothing (Bytes key)) < 2 ^ 31"
    and "decrypt (codec_of E) (payload (codec_of E) False Nothing (Bytes key)) = Inl err"
  shows "\<exists>s1 s2 s3. conn_event E n key 0 now fd {ERROR} False s = Some (Inr (), s1) \<and>
    connectIfRequired E now (Connects_on fd') s1 = (Inr (), s2) \<and>
    conn_event E n key 0 now fd' {WRITE} False s2 = Some (Inr (), s3) \<and>
    isConnected s3 \<and> writeBuffer (conns s3 0) = frame (codec_of E) False Nothing (Bytes key) \<and>
    (\<forall>t onDisc. encryptor t \<and> readBuffer t = writeBuffer (conns s3 0) \<longrightarrow>
       processParseMessage (codec_of E) onDisc t = (Nothing, disconnect onDisc t))"
proof -
  let ?c = "codec_of E" and ?p = "partner s"
  let ?d = "payload ?c False Nothing (Bytes key)"
  let ?p1 = "?p\<lparr>status := DISCONNECTED\<rparr>"
  let ?t1 = "disconnect node_onDisconnected ((conns s 0)\<lparr>owner := ?p\<rparr>)"
  let ?s1 = "s\<lparr>partner := ?p1, conns := (conns s)(0 := ?t1)\<rparr>"
  have e1: "conn_event E n key 0 now fd {ERROR} False s = Some (Inr (), ?s1)"
    using assms(5,6) by (simp add: conn_event_def processConnection_def disconnect_def node_onDisconnected_def)
  let ?p2 = "?p1\<lparr>status := CONNECTING, last_attempt := now\<rparr>"
  define t2 where "t2 = ?t1\<lparr>owner := ?p2, has_socket := True, readBuffer := [], writeBuffer := [], lastReadTime := now,
    on_wire := [], fileno := Some fd', cstate := CONNECTING, polled := (polled ?t1)(fd' := Some {READ, WRITE, ERROR})\<rparr>"
  let ?s2 = "s\<lparr>partner := ?p2, conns := (conns s)(0 := t2)\<rparr>"
  have e2: "connectIfRequired E now (Connects_on fd') ?s1 = (Inr (), ?s2)"
    using assms(1,2,4,8) by (simp add: connectIfRequired_def connect_def on_conn_def bindE_def Let_def t2_def)
  have t2: "encryptor t2 = False" "sendRandKey t2 = Nothing" "fileno t2 = Some fd'" "cstate t2 = CONNECTING" "has_socket t2"
    "writeBuffer t2 = []" "answers t2 = []" "lastReadTime t2 = now" "owner t2 = ?p2" "conn_timeout t2 = conn_timeout (conns s 0)"
    using assms(7) by (simp_all add: t2_def disconnect_def)
  let ?t3 = "t2\<lparr>owner := ?p2\<lparr>status := CONNECTED\<rparr>, recvRandKey := Bytes key, writeBuffer := frame ?c False Nothing (Bytes key)\<rparr>"
  have oc: "node_onConnected E key (t2\<lparr>owner := ?p2\<rparr>) = (Inr (), ?t3)"
    using assms(3) t2 pack_length[OF assms(10)]
    by (simp add: node_onConnected_def tcp_send_def frame_def Let_def trySendBuffer.simps processSend_def)
  let ?t4 = "?t3\<lparr>cstate := CONNECTED, lastReadTime := now\<rparr>"
  let ?s3 = "s\<lparr>partner := ?p2\<lparr>status := CONNECTED\<rparr>, conns := (conns s)(0 := ?t4)\<rparr>"
  have e3: "conn_event E n key 0 now fd' {WRITE} False ?s2 = Some (Inr (), ?s3)"
    using t2 oc assms(9) by (simp add: conn_event_def processConnection_def)
  have parse: "processParseMessage ?c onDisc t = (Nothing, disconnect onDisc t)"
    if "encryptor t" "readBuffer t = frame ?c False Nothing (Bytes key)" for t :: "('z, 'a) tcp" and onDisc
  proof -
    have "readBuffer t = le_bytes 4 (length ?d) @ ?d" using that(2) by (simp add: frame_def Let_def)
    moreover have "py_slice (le_bytes 4 (length ?d) @ ?d) 4 (4 + int (length ?d)) = ?d"
      using py_slice_at[of 4 "le_bytes 4 (length ?d)" "4 + int (length ?d)" ?d "[]"] by simp
    ultimately show ?thesis using that(1) assms(11) unpack_length[OF assms(10)]
      by (simp add: processParseMessage_def decode_def Let_def)
  qed
  have f: "isConnected ?s3" "writeBuffer (conns ?s3 0) = frame ?c False Nothing (Bytes key)" by (simp_all add: isConnected_def)
  show ?thesis
    by (rule exI[of _ ?s1], rule exI[of _ ?s2], rule exI[of _ ?s3]) (intro conjI e1 e2 e3 f, unfold f(2), blast intro: parse)
qed


text \<open>A cipher that recognises its own texts.\<close>

definition cipher_codec :: "unit msg_codec" where
  "cipher_codec = plain_codec\<lparr>encrypt := (\<lambda>b. 255 # b),
     decrypt := (\<lambda>b. if b \<noteq> [] \<and> hd b = 255 then Inr (tl b) else Inl ValueError)\<rparr>"

theorem reconnection_unencrypted_witness:
  "\<exists>s s1 s2 s3. conn_event (env_b\<lparr>codec_of := cipher_codec\<rparr>) 9 [7] 0 9 3 {ERROR} False s = Some (Inr (), s1) \<and>
    connectIfRequired (env_b\<lparr>codec_of := cipher_codec\<rparr>) 9 (Connects_on 4) s1 = (Inr (), s2) \<and>
    conn_event (env_b\<lparr>codec_of := cipher_codec\<rparr>) 9 [7] 0 9 4 {WRITE} False s2 = Some (Inr (), s3) \<and>
    isConnected s3 \<and> writeBuffer (conns s3 0) = frame cipher_codec False Nothing (Bytes [7])"
proof -
  let ?E = "env_b\<lparr>codec_of := cipher_codec\<rparr>"
  let ?n = "Node ?E ''a'' None (Some True) True 0"
  let ?s = "?n\<lparr>conns := (conns ?n)(0 := TcpConnection (partner ?n) 0 10 (Some 3))\<rparr>"
  have s: "current ?s = Some 0" "should_connect (partner ?s)" "has_encryptor (partner ?s)" "host (partner ?s) = Some True"
    "fileno (conns ?s 0) = Some 3" "cstate (conns ?s 0) \<noteq> DISCONNECTED" "answers (conns ?s 0) = []"
    "\<not> 9 - last_attempt (partner ?s) < retry_time ?E" "0 \<le> conn_timeout (conns ?s 0)"
    by (simp_all add: Node_def env_b_def TcpConnection_def Let_def)
  have c: "payload (codec_of ?E) False Nothing (Bytes [7]) = [7]"
    by (simp add: payload_def cipher_codec_def plain_codec_def tagged_def)
  then have "length (payload (codec_of ?E) False Nothing (Bytes [7])) < 2 ^ 31"
    "decrypt (codec_of ?E) (payload (codec_of ?E) False Nothing (Bytes [7])) = Inl ValueError"
    by (simp, simp add: c cipher_codec_def)
  from reconnection_unencrypted[OF s this, of 9 4] show ?thesis by auto
qed

section \<open>A connection that was replaced\<close>

text \<open>
  When a partner connects again before its old connection was found broken, the new
  connection replaces the old one, but the old one keeps its callbacks. When it breaks, the
  partner counts as disconnected, and nothing is sent to it over the new, healthy connection.
\<close>

theorem replaced_connection_disconnects:
  assumes "\<not> terminating (partner s)" and "i \<noteq> j" and "fileno (conns s j) = Some fd" and "cstate (conns s j) \<noteq> DISCONNECTED"
  shows "\<exists>s1. conn_event E n key j now fd {ERROR} so (onPartnerConnected i s) = Some (Inr (), s1) \<and>
    current s1 = Some i \<and> conns s1 i = conns s i \<and> \<not> isConnected s1 \<and> partner_send E m s1 = (Inr False, s1)"
  using assms
  by (simp add: onPartnerConnected_def conn_event_def processConnection_def disconnect_def node_onDisconnected_def
      isConnected_def partner_send_def)

theorem replaced_connection_disconnects_witness:
  "\<exists>s1. conn_event env_b 9 [] 1 2 3 {ERROR} False
      (onPartnerConnected 2 ((Node env_b ''z'' None None False 0)\<lparr>conns := (\<lambda>i. TcpConnection
         (partner (Node env_b ''z'' None None False 0)) 0 10 (Some (i + 2)))\<rparr>)) = Some (Inr (), s1) \<and>
    fileno (conns s1 2) = Some 4 \<and> \<not> isConnected s1 \<and> partner_send env_b Nothing s1 = (Inr False, s1)"
proof -
  let ?n = "(Node env_b ''z'' None None False 0)\<lparr>conns := (\<lambda>i. TcpConnection
     (partner (Node env_b ''z'' None None False 0)) 0 10 (Some (i + 2)))\<rparr>"
  have "\<not> terminating (partner ?n)" "(2::nat) \<noteq> 1" "fileno (conns ?n 1) = Some 3" "cstate (conns ?n 1) \<noteq> DISCONNECTED"
    "fileno (conns ?n 2) = Some 4"
    by (simp_all add: Node_def Let_def TcpConnection_def)
  from replaced_connection_disconnects[OF this(1-4), of env_b 9 "[]" 2 False Nothing] this(5) show ?thesis by metis
qed

end
