(* ===== verification/Batteries.thy ===== *)
theory Batteries
  imports Stores Struct "HOL-Library.AList"
begin

text \<open>
  The replicated data types, \<open>pysyncobjbc/batteries.py\<close>: a counter, a list, a dictionary, a set
  and locks that expire. A method marked replicated is a command of the log; every node applies
  the commands in the order of the log, so each is a function of the state of the object, its
  result and the exception it may raise.
\<close>

section \<open>Dictionaries in insertion order\<close>

text \<open>
  A Python dictionary: a new key goes to the end, an existing one keeps its place. It meets the
  contract of the keyed stores.
\<close>

type_synonym ('k, 'v) dict = "('k \<times> 'v) list"

interpretation dict: kv_store map_of AList.update AList.delete "\<lambda>d. d" "\<lambda>d. distinct (map fst d)"
proof
  show "map_of (AList.update k v d) k' = (if k' = k then Some v else map_of d k')" for k k' and v :: 'b and d
    by (simp add: update_conv')
  show "map_of (AList.delete k d) k' = (if k' = k then None else map_of d k')" for k k' and d :: "('a, 'b) dict"
    by (simp add: delete_conv')
  show "distinct (map fst d) \<Longrightarrow> distinct (map fst (AList.update k v d))" for k and v :: 'b and d by (rule distinct_update)
  show "distinct (map fst d) \<Longrightarrow> distinct (map fst (AList.delete k d))" for k and d :: "('a, 'b) dict" by (rule distinct_delete)
qed simp_all

lemma update_skip: "k \<notin> fst ` set xs \<Longrightarrow> AList.update k v (xs @ ys) = xs @ AList.update k v ys"
  by (induction xs) auto

lemma map_of_here: "k \<notin> fst ` set xs \<Longrightarrow> map_of (xs @ (k, v) # ys) k = Some v"
  by (induction xs) auto

lemma delete_skip: "k \<notin> fst ` set xs \<Longrightarrow> AList.delete k (xs @ ys) = xs @ AList.delete k ys"
  by (induction xs) auto

section \<open>ReplCounter\<close>

definition counter_set :: "int \<Rightarrow> (int, int) eff" where "counter_set v c = (Inr v, v)"
definition counter_add :: "int \<Rightarrow> (int, int) eff" where "counter_add v c = (Inr (c + v), c + v)"
definition counter_sub :: "int \<Rightarrow> (int, int) eff" where "counter_sub v c = (Inr (c - v), c - v)"
definition counter_inc :: "(int, int) eff" where "counter_inc c = (Inr (c + 1), c + 1)"
definition counter_get :: "int \<Rightarrow> int" where "counter_get c = c"

section \<open>ReplList\<close>

text \<open>\<open>None\<close> for an argument that is not a list.\<close>

definition rl_reset :: "'a list option \<Rightarrow> ('a list, unit) eff" where
  "rl_reset new xs = (case new of None \<Rightarrow> (Inl AssertionError, xs) | Some ys \<Rightarrow> (Inr (), ys))"

definition rl_set :: "int \<Rightarrow> 'a \<Rightarrow> ('a list, unit) eff" where
  "rl_set i v xs = (case py_set xs i v of None \<Rightarrow> (Inl IndexError, xs) | Some ys \<Rightarrow> (Inr (), ys))"

definition rl_append :: "'a \<Rightarrow> ('a list, unit) eff" where
  "rl_append x xs = (Inr (), xs @ [x])"

definition rl_extend :: "'a list \<Rightarrow> ('a list, unit) eff" where
  "rl_extend ys xs = (Inr (), xs @ ys)"

definition rl_insert :: "int \<Rightarrow> 'a \<Rightarrow> ('a list, unit) eff" where
  "rl_insert i x xs = (let b = slice_bound xs i in (Inr (), take b xs @ x # drop b xs))"

definition rl_remove :: "'a \<Rightarrow> ('a list, unit) eff" where
  "rl_remove x xs = (if x \<in> set xs then (Inr (), remove1 x xs) else (Inl ValueError, xs))"

text \<open>Without a position the method passes None on to \<open>list.pop\<close>, which takes only integers.\<close>

definition rl_pop :: "int option \<Rightarrow> ('a list, 'a) eff" where
  "rl_pop position xs =
     (case position of
        None \<Rightarrow> (Inl TypeError, xs)
      | Some i \<Rightarrow> (case py_pos xs i of None \<Rightarrow> (Inl IndexError, xs) | Some j \<Rightarrow> (Inr (xs ! j), take j xs @ drop (Suc j) xs)))"

definition rl_sort :: "bool \<Rightarrow> ('a::linorder list, unit) eff" where
  "rl_sort reverse xs = (Inr (), if reverse then rev (sort xs) else sort xs)"

fun rl_index :: "'a \<Rightarrow> 'a list \<Rightarrow> py_error + nat" where
  "rl_index x [] = Inl ValueError"
| "rl_index x (y # ys) = (if y = x then Inr 0 else (case rl_index x ys of Inl e \<Rightarrow> Inl e | Inr n \<Rightarrow> Inr (Suc n)))"

definition rl_count :: "'a \<Rightarrow> 'a list \<Rightarrow> nat" where "rl_count x xs = count_list xs x"

definition rl_get :: "int \<Rightarrow> 'a list \<Rightarrow> py_error + 'a" where
  "rl_get i xs = (case py_get xs i of None \<Rightarrow> Inl IndexError | Some x \<Rightarrow> Inr x)"

definition rl_len :: "'a list \<Rightarrow> nat" where "rl_len xs = length xs"

section \<open>ReplDict\<close>

definition rd_reset :: "('k, 'v) dict option \<Rightarrow> (('k, 'v) dict, unit) eff" where
  "rd_reset new d = (case new of None \<Rightarrow> (Inl AssertionError, d) | Some d' \<Rightarrow> (Inr (), d'))"

definition rd_set :: "'k \<Rightarrow> 'v \<Rightarrow> (('k, 'v) dict, unit) eff" where
  "rd_set k v d = (Inr (), AList.update k v d)"

definition rd_setdefault :: "'k \<Rightarrow> 'v \<Rightarrow> (('k, 'v) dict, 'v) eff" where
  "rd_setdefault k v d = (case map_of d k of Some w \<Rightarrow> (Inr w, d) | None \<Rightarrow> (Inr v, AList.update k v d))"

definition rd_update :: "('k, 'v) dict \<Rightarrow> (('k, 'v) dict, unit) eff" where
  "rd_update new d = (Inr (), fold (\<lambda>(k, v). AList.update k v) new d)"

definition rd_pop :: "'k \<Rightarrow> 'v \<Rightarrow> (('k, 'v) dict, 'v) eff" where
  "rd_pop k v d = (case map_of d k of Some w \<Rightarrow> (Inr w, AList.delete k d) | None \<Rightarrow> (Inr v, d))"

definition rd_clear :: "(('k, 'v) dict, unit) eff" where "rd_clear d = (Inr (), [])"

definition rd_getitem :: "'k \<Rightarrow> ('k, 'v) dict \<Rightarrow> py_error + 'v" where
  "rd_getitem k d = (case map_of d k of None \<Rightarrow> Inl KeyError | Some v \<Rightarrow> Inr v)"

definition rd_get :: "'k \<Rightarrow> 'v \<Rightarrow> ('k, 'v) dict \<Rightarrow> 'v" where
  "rd_get k v d = (case map_of d k of None \<Rightarrow> v | Some w \<Rightarrow> w)"

definition rd_len :: "('k, 'v) dict \<Rightarrow> nat" where "rd_len d = length d"
definition rd_contains :: "'k \<Rightarrow> ('k, 'v) dict \<Rightarrow> bool" where "rd_contains k d = (map_of d k \<noteq> None)"
definition rd_keys :: "('k, 'v) dict \<Rightarrow> 'k list" where "rd_keys d = map fst d"
definition rd_values :: "('k, 'v) dict \<Rightarrow> 'v list" where "rd_values d = map snd d"
definition rd_items :: "('k, 'v) dict \<Rightarrow> ('k \<times> 'v) list" where "rd_items d = d"

section \<open>ReplSet\<close>

definition rs_reset :: "'a set option \<Rightarrow> ('a set, unit) eff" where
  "rs_reset new s = (case new of None \<Rightarrow> (Inl AssertionError, s) | Some s' \<Rightarrow> (Inr (), s'))"

definition rs_add :: "'a \<Rightarrow> ('a set, unit) eff" where "rs_add x s = (Inr (), insert x s)"

definition rs_remove :: "'a \<Rightarrow> ('a set, unit) eff" where
  "rs_remove x s = (if x \<in> s then (Inr (), s - {x}) else (Inl KeyError, s))"

definition rs_discard :: "'a \<Rightarrow> ('a set, unit) eff" where "rs_discard x s = (Inr (), s - {x})"

text \<open>Which element \<open>pop\<close> takes depends on the process: \<open>pick\<close> is its choice.\<close>

definition rs_pop :: "('a set \<Rightarrow> 'a) \<Rightarrow> ('a set, 'a) eff" where
  "rs_pop pick s = (if s = {} then (Inl KeyError, s) else (Inr (pick s), s - {pick s}))"

definition rs_clear :: "('a set, unit) eff" where "rs_clear s = (Inr (), {})"
definition rs_update :: "'a set \<Rightarrow> ('a set, unit) eff" where "rs_update new s = (Inr (), s \<union> new)"
definition rs_len :: "'a set \<Rightarrow> nat" where "rs_len s = card s"
definition rs_contains :: "'a \<Rightarrow> 'a set \<Rightarrow> bool" where "rs_contains x s = (x \<in> s)"

section \<open>Locks\<close>

text \<open>A lock: who holds it, and the time of the last sign of life.\<close>

record lock_manager =
  locks :: "(string, string \<times> rat) dict"
  autoUnlockTime :: rat

definition expired :: "rat \<Rightarrow> rat \<Rightarrow> string \<times> rat \<Rightarrow> bool" where
  "expired auto now l = (now - snd l > auto)"

definition acquire :: "string \<Rightarrow> string \<Rightarrow> rat \<Rightarrow> (lock_manager, bool) eff" where
  "acquire path client now s =
     (let l = (case map_of (locks s) path of
                 None \<Rightarrow> None
               | Some l \<Rightarrow> if expired (autoUnlockTime s) now l then None else Some l) in
      if (case l of None \<Rightarrow> True | Some (c, t) \<Rightarrow> c = client)
      then (Inr True, s\<lparr>locks := AList.update path (client, now) (locks s)\<rparr>)
      else (Inr False, s))"

text \<open>
  The loop of \<open>prolongate\<close> over the keys of the dictionary it changes: before each step, and at
  the end, Python compares the size with the size at the start (\<open>n\<close>).
\<close>

fun prolong_loop :: "nat \<Rightarrow> string list \<Rightarrow> string \<Rightarrow> rat \<Rightarrow> (lock_manager, unit) eff" where
  "prolong_loop n [] client now s = (if length (locks s) \<noteq> n then (Inl RuntimeError, s) else (Inr (), s))"
| "prolong_loop n (p # ps) client now s =
     (if length (locks s) \<noteq> n then (Inl RuntimeError, s)
      else
        (case map_of (locks s) p of
           None \<Rightarrow> (Inl KeyError, s)
         | Some l \<Rightarrow>
             if expired (autoUnlockTime s) now l
             then prolong_loop n ps client now (s\<lparr>locks := AList.delete p (locks s)\<rparr>)
             else if fst l = client
             then prolong_loop n ps client now (s\<lparr>locks := AList.update p (client, now) (locks s)\<rparr>)
             else prolong_loop n ps client now s))"

definition prolongate :: "string \<Rightarrow> rat \<Rightarrow> (lock_manager, unit) eff" where
  "prolongate client now s = prolong_loop (length (locks s)) (map fst (locks s)) client now s"

definition release :: "string \<Rightarrow> string \<Rightarrow> (lock_manager, unit) eff" where
  "release path client s =
     (case map_of (locks s) path of
        None \<Rightarrow> (Inr (), s)
      | Some l \<Rightarrow> (Inr (), if fst l = client then s\<lparr>locks := AList.delete path (locks s)\<rparr> else s))"

definition isAcquired :: "string \<Rightarrow> string \<Rightarrow> rat \<Rightarrow> lock_manager \<Rightarrow> bool" where
  "isAcquired path client now s =
     (case map_of (locks s) path of
        None \<Rightarrow> False
      | Some l \<Rightarrow> fst l = client \<and> now - snd l < autoUnlockTime s)"

section \<open>The user of the locks\<close>

record lock_user =
  self_id :: string
  user_auto :: rat
  last_prolongate :: rat

datatype lock_cmd = Acquire string string rat | Prolongate string rat | Release string string

text \<open>
  A round of the background thread: \<open>attached\<close> when the object belongs to a \<open>SyncObj\<close>,
  \<open>has_leader\<close> when that knows a leader; the command it sends, if any.
\<close>

definition autoAcquire_round :: "rat \<Rightarrow> bool \<Rightarrow> bool \<Rightarrow> lock_user \<Rightarrow> lock_cmd option \<times> lock_user" where
  "autoAcquire_round now attached has_leader u =
     (if now - last_prolongate u < user_auto u / 4 then (None, u)
      else if \<not> attached then (None, u)
      else if has_leader then (Some (Prolongate (self_id u) now), u\<lparr>last_prolongate := now\<rparr>)
      else (None, u))"

text \<open>The constructor; \<open>host_pid_id\<close> is the name it makes up when it gets none.\<close>

definition ReplLockManager :: "string \<Rightarrow> rat \<Rightarrow> string option \<Rightarrow> lock_user" where
  "ReplLockManager host_pid_id auto selfID =
     \<lparr>self_id = (case selfID of None \<Rightarrow> host_pid_id | Some i \<Rightarrow> i), user_auto = auto, last_prolongate = 0\<rparr>"

text \<open>
  The loop of the thread, a round for each element of the list: whether the main thread lives, whether
  \<open>destroy\<close> was called before, the time after the sleep, and what the round finds. The commands it sends.
\<close>

fun autoAcquireThread :: "(bool \<times> bool \<times> rat \<times> bool \<times> bool) list \<Rightarrow> lock_user \<Rightarrow> lock_cmd list \<times> lock_user" where
  "autoAcquireThread [] u = ([], u)"
| "autoAcquireThread ((main_alive, destroyed, now, attached, has_leader) # rounds) u =
     (if \<not> main_alive \<or> destroyed then ([], u)
      else
        (case autoAcquire_round now attached has_leader u of
           (c, u1) \<Rightarrow> (case autoAcquireThread rounds u1 of (cs, u2) \<Rightarrow> ((case c of None \<Rightarrow> cs | Some x \<Rightarrow> x # cs), u2))))"

text \<open>
  While a leader is known every round leaves the last prolongation less than a quarter of the
  validity ago; the commands carry the times of their rounds.
\<close>

lemma prolongs_in_time:
  assumes "\<forall>(alive, gone, now, attached, has_leader)\<in>set (rounds @ [x]). alive \<and> \<not> gone \<and> attached \<and> has_leader"
    and "0 < user_auto u"
  shows "fst (snd (snd x)) - last_prolongate (snd (autoAcquireThread (rounds @ [x]) u)) < user_auto u / 4"
  using assms
proof (induction rounds arbitrary: u)
  case Nil
  obtain alive gone now attached has_leader where x: "x = (alive, gone, now, attached, has_leader)" by (cases x)
  with Nil show ?case by (simp add: autoAcquire_round_def)
next
  case (Cons y rounds)
  obtain alive gone now attached has_leader where y: "y = (alive, gone, now, attached, has_leader)" by (cases y)
  obtain c u1 where r: "autoAcquire_round now attached has_leader u = (c, u1)"
    by (cases "autoAcquire_round now attached has_leader u")
  have "user_auto u1 = user_auto u" using r by (auto simp: autoAcquire_round_def split: if_splits)
  with Cons.IH[of u1] Cons.prems y r show ?case
    by (cases "autoAcquireThread (rounds @ [x]) u1") simp
qed

definition tryAcquire :: "string \<Rightarrow> rat \<Rightarrow> lock_user \<Rightarrow> lock_cmd" where
  "tryAcquire path now u = Acquire path (self_id u) now"

definition user_isAcquired :: "string \<Rightarrow> rat \<Rightarrow> lock_user \<Rightarrow> lock_manager \<Rightarrow> bool" where
  "user_isAcquired path now u s = isAcquired path (self_id u) now s"

definition user_release :: "string \<Rightarrow> lock_user \<Rightarrow> lock_cmd" where
  "user_release path u = Release path (self_id u)"

text \<open>A command of the log, applied.\<close>

fun apply_lock :: "lock_cmd \<Rightarrow> (lock_manager, unit) eff" where
  "apply_lock (Acquire p c t) = bindE (acquire p c t) (\<lambda>_. ret ())"
| "apply_lock (Prolongate c t) = prolongate c t"
| "apply_lock (Release p c) = release p c"

section \<open>What prolongate does\<close>

definition prolonged :: "string \<Rightarrow> rat \<Rightarrow> string \<times> string \<times> rat \<Rightarrow> string \<times> string \<times> rat" where
  "prolonged client now e = (if fst (snd e) = client then (fst e, client, now) else e)"

lemma prolonged_fst [simp]: "fst (prolonged c now e) = fst e"
  by (simp add: prolonged_def)

lemma prolong_loop_ok:
  assumes "locks s = map (prolonged c now) pre @ rest" and "distinct (map fst (pre @ rest))"
    and "length (pre @ rest) = n" and "\<forall>e\<in>set rest. \<not> expired (autoUnlockTime s) now (snd e)"
  shows "prolong_loop n (map fst rest) c now s = (Inr (), s\<lparr>locks := map (prolonged c now) (pre @ rest)\<rparr>)"
  using assms
proof (induction rest arbitrary: pre s)
  case (Cons e rest)
  have fresh: "fst e \<notin> fst ` set (map (prolonged c now) pre)" using Cons.prems(2) by (simp add: image_image)
  have m: "map_of (locks s) (fst e) = Some (snd e)"
    using map_of_here[OF fresh, of "snd e" "rest"] unfolding Cons.prems(1) by simp
  let ?s = "if fst (snd e) = c then s\<lparr>locks := AList.update (fst e) (c, now) (locks s)\<rparr> else s"
  have l: "locks ?s = map (prolonged c now) (pre @ [e]) @ rest"
    using Cons.prems(1) fresh by (cases e) (auto simp: update_skip prolonged_def)
  have "prolong_loop n (map fst rest) c now ?s = (Inr (), ?s\<lparr>locks := map (prolonged c now) ((pre @ [e]) @ rest)\<rparr>)"
    by (rule Cons.IH[OF l]) (use Cons.prems in \<open>auto split: if_splits\<close>)
  with m Cons.prems(1,3,4) show ?case by (auto split: if_splits)
qed simp

lemma prolong_loop_expired:
  assumes "locks s = map (prolonged c now) pre @ rest @ e # post" and "distinct (map fst (pre @ rest @ e # post))"
    and "length (pre @ rest @ e # post) = n" and "\<forall>e\<in>set rest. \<not> expired (autoUnlockTime s) now (snd e)"
    and "expired (autoUnlockTime s) now (snd e)"
  shows "prolong_loop n (map fst (rest @ e # post)) c now s =
    (Inl RuntimeError, s\<lparr>locks := map (prolonged c now) (pre @ rest) @ post\<rparr>)"
  using assms
proof (induction rest arbitrary: pre s)
  case Nil
  have fresh: "fst e \<notin> fst ` set (map (prolonged c now) pre)" using Nil.prems(2) by (simp add: image_image)
  have m: "map_of (locks s) (fst e) = Some (snd e)"
    using map_of_here[OF fresh, of "snd e" "post"] unfolding Nil.prems(1) by simp
  have d: "AList.delete (fst e) (locks s) = map (prolonged c now) pre @ post"
    using Nil.prems(1,2) fresh by (auto simp: delete_skip)
  have "prolong_loop n ps c now (s\<lparr>locks := map (prolonged c now) pre @ post\<rparr>) =
      (Inl RuntimeError, s\<lparr>locks := map (prolonged c now) pre @ post\<rparr>)" for ps
    using Nil.prems(3) by (cases ps) auto
  with m d Nil.prems show ?case by simp
next
  case (Cons f rest)
  have fresh: "fst f \<notin> fst ` set (map (prolonged c now) pre)" using Cons.prems(2) by (simp add: image_image)
  have m: "map_of (locks s) (fst f) = Some (snd f)"
    using map_of_here[OF fresh, of "snd f" "rest @ e # post"] unfolding Cons.prems(1) by simp
  let ?s = "if fst (snd f) = c then s\<lparr>locks := AList.update (fst f) (c, now) (locks s)\<rparr> else s"
  have l: "locks ?s = map (prolonged c now) (pre @ [f]) @ rest @ e # post"
    using Cons.prems(1) fresh by (cases f) (auto simp: update_skip prolonged_def)
  have "prolong_loop n (map fst (rest @ e # post)) c now ?s =
      (Inl RuntimeError, ?s\<lparr>locks := map (prolonged c now) ((pre @ [f]) @ rest) @ post\<rparr>)"
    by (rule Cons.IH[OF l]) (use Cons.prems in \<open>auto split: if_splits\<close>)
  with m Cons.prems(1,3,4) show ?case by (auto split: if_splits)
qed


text \<open>
  A command to prolong the locks of a client works only while no lock at all has expired.
  The first expired lock in the order of the dictionary is deleted, the next step of the
  iteration raises RuntimeError, and the locks behind it keep their old times, the client's too.
\<close>

theorem prolongate_spec:
  assumes "distinct (map fst (locks s))"
  shows "prolongate c now s =
    (let alive = takeWhile (\<lambda>e. \<not> expired (autoUnlockTime s) now (snd e)) (locks s) in
     (case dropWhile (\<lambda>e. \<not> expired (autoUnlockTime s) now (snd e)) (locks s) of
        [] \<Rightarrow> (Inr (), s\<lparr>locks := map (prolonged c now) alive\<rparr>)
      | e # post \<Rightarrow> (Inl RuntimeError, s\<lparr>locks := map (prolonged c now) alive @ post\<rparr>)))"
proof -
  let ?P = "\<lambda>e. \<not> expired (autoUnlockTime s) now (snd e)"
  let ?a = "takeWhile ?P (locks s)" and ?b = "dropWhile ?P (locks s)"
  note split = takeWhile_dropWhile_id[of ?P "locks s"]
  have a: "\<forall>e\<in>set ?a. ?P e" by (auto dest: set_takeWhileD)
  show ?thesis
  proof (cases ?b)
    case Nil
    have l: "?a = locks s" using split unfolding Nil append_Nil2 .
    have "prolongate c now s = (Inr (), s\<lparr>locks := map (prolonged c now) (locks s)\<rparr>)"
      using prolong_loop_ok[of s c now "[]" "locks s" "length (locks s)"] a assms unfolding l by (simp add: prolongate_def)
    then show ?thesis unfolding Let_def Nil l by simp
  next
    case (Cons e post)
    have l: "locks s = ?a @ e # post" using split unfolding Cons by (rule sym)
    have e: "\<not> ?P e" using hd_dropWhile[of ?P "locks s"] Cons by simp
    have "prolong_loop (length (locks s)) (map fst (?a @ e # post)) c now s =
        (Inl RuntimeError, s\<lparr>locks := map (prolonged c now) ([] @ ?a) @ post\<rparr>)"
    proof (rule prolong_loop_expired)
      show "locks s = map (prolonged c now) [] @ ?a @ e # post" using l by simp
      show "distinct (map fst ([] @ ?a @ e # post))" using assms unfolding append_Nil l[symmetric] .
      show "length ([] @ ?a @ e # post) = length (locks s)" unfolding append_Nil l[symmetric] ..
    qed (use a e in simp_all)
    then show ?thesis unfolding prolongate_def l[symmetric] Cons Let_def by simp
  qed
qed

theorem prolongate_spec_witness:
  "prolongate ''a'' 10 \<lparr>locks = [(''p'', ''a'', 8), (''q'', ''b'', 1), (''r'', ''a'', 7)], autoUnlockTime = 5\<rparr> =
     (Inl RuntimeError, \<lparr>locks = [(''p'', ''a'', 10), (''r'', ''a'', 7)], autoUnlockTime = 5\<rparr>)"
  using prolongate_spec[of "\<lparr>locks = [(''p'', ''a'', 8), (''q'', ''b'', 1), (''r'', ''a'', 7)], autoUnlockTime = 5\<rparr>" "''a''" 10]
  by (simp add: expired_def prolonged_def)

section \<open>A lock is held\<close>

definition held :: "string \<Rightarrow> string \<Rightarrow> rat \<Rightarrow> rat \<Rightarrow> lock_manager \<Rightarrow> bool" where
  "held p a t0 auto s \<longleftrightarrow> autoUnlockTime s = auto \<and> (\<exists>t\<ge>t0. map_of (locks s) p = Some (a, t))"

text \<open>A command of the time the lock is valid for, that does not release it.\<close>

fun harmless :: "string \<Rightarrow> string \<Rightarrow> rat \<Rightarrow> rat \<Rightarrow> lock_cmd \<Rightarrow> bool" where
  "harmless p a t0 auto (Acquire q c t) = (t0 \<le> t \<and> t \<le> t0 + auto)"
| "harmless p a t0 auto (Prolongate c t) = (t0 \<le> t \<and> t \<le> t0 + auto)"
| "harmless p a t0 auto (Release q c) = (q \<noteq> p \<or> c \<noteq> a)"

lemma prolong_loop_held:
  "held p a t0 auto s \<Longrightarrow> t0 \<le> now \<Longrightarrow> now \<le> t0 + auto \<Longrightarrow> prolong_loop n ps c now s = (r, s') \<Longrightarrow> held p a t0 auto s'"
proof (induction ps arbitrary: s)
  case (Cons q ps)
  show ?case
  proof (cases "map_of (locks s) q")
    case None
    with Cons.prems show ?thesis by (auto split: if_splits)
  next
    case (Some l)
    have "held p a t0 auto (s\<lparr>locks := AList.delete q (locks s)\<rparr>)" if "expired (autoUnlockTime s) now l"
      using Cons.prems(1,3) that Some by (auto simp: held_def dict.get_del expired_def)
    moreover have "held p a t0 auto (s\<lparr>locks := AList.update q (c, now) (locks s)\<rparr>)" if "fst l = c"
      using Cons.prems(1,2) that Some by (auto simp: held_def dict.get_put)
    ultimately show ?thesis using Cons Some by (auto split: if_splits)
  qed
qed (auto split: if_splits)

lemma apply_lock_held:
  assumes "held p a t0 auto s" and "harmless p a t0 auto x" and "apply_lock x s = (r, s')"
  shows "held p a t0 auto s'"
proof (cases x)
  case (Acquire q c t)
  with assms show ?thesis
    by (auto simp: acquire_def bindE_def held_def dict.get_put expired_def Let_def split: option.splits if_splits)
next
  case (Prolongate c t)
  with assms prolong_loop_held show ?thesis by (auto simp: prolongate_def)
next
  case (Release q c)
  with assms show ?thesis by (auto simp: release_def held_def dict.get_del split: option.splits if_splits)
qed

text \<open>
  C23. A lock that was acquired is held for the time of its validity: whatever commands the log
  contains after it, stamped within that time, and even when one of them raises, no other client
  gets it or is told it has it, unless the holder releases it; and the holder is told it has it.
\<close>

theorem lock_held:
  assumes "acquire p a t0 s = (Inr True, s1)" and "\<forall>x\<in>set xs. harmless p a t0 (autoUnlockTime s) x"
    and "forE apply_lock xs s1 = (r, s2)"
  shows "(\<forall>b t. b \<noteq> a \<longrightarrow> \<not> isAcquired p b t s2) \<and>
    (\<forall>b t. b \<noteq> a \<and> t \<le> t0 + autoUnlockTime s \<longrightarrow> acquire p b t s2 = (Inr False, s2)) \<and>
    (\<forall>t. t < t0 + autoUnlockTime s \<longrightarrow> isAcquired p a t s2)"
proof -
  have "held p a t0 (autoUnlockTime s) s1"
    using assms(1) by (auto simp: acquire_def held_def Let_def dict.get_put split: if_splits)
  then have "held p a t0 (autoUnlockTime s) s2"
    using forE_inv[where I = "held p a t0 (autoUnlockTime s)" and f = apply_lock and xs = xs and s = s1] assms(2,3)
      apply_lock_held by blast
  then show ?thesis
    by (auto simp: held_def isAcquired_def acquire_def expired_def Let_def)
qed

theorem lock_held_witness:
  "\<exists>s1 r s2. acquire ''p'' ''a'' 3 \<lparr>locks = [(''p'', ''b'', 1)], autoUnlockTime = 1\<rparr> = (Inr True, s1) \<and>
     forE apply_lock [Acquire ''p'' ''b'' 4, Prolongate ''a'' 4, Release ''p'' ''b''] s1 = (r, s2) \<and>
     acquire ''p'' ''b'' 4 s2 = (Inr False, s2) \<and> isAcquired ''p'' ''a'' (7 / 2) s2"
proof -
  let ?s = "\<lparr>locks = [(''p'', ''b'', 1)], autoUnlockTime = 1\<rparr>"
  obtain s1 where s1: "acquire ''p'' ''a'' 3 ?s = (Inr True, s1)" by (simp add: acquire_def expired_def)
  obtain r s2 where s2: "forE apply_lock [Acquire ''p'' ''b'' 4, Prolongate ''a'' 4, Release ''p'' ''b''] s1 = (r, s2)"
    by (cases "forE apply_lock [Acquire ''p'' ''b'' 4, Prolongate ''a'' 4, Release ''p'' ''b''] s1")
  from lock_held[OF s1 _ s2] s1 s2 show ?thesis by simp
qed

end
