(* ===== verification/AdminTool.thy ===== *)
theory AdminTool
  imports RaftHub
begin

text \<open>
  The command line tool of the cluster, \<open>pysyncobjbc/syncobj_admin.py\<close>: it checks its arguments,
  connects to a node, sends one command and prints the answer. What \<open>argparse\<close> returns is a
  \<open>cli\<close>; \<open>render\<close> is the text of a status dictionary.
\<close>

section \<open>Numbers and addresses as text\<close>

fun is_space :: "char \<Rightarrow> bool" where
  "is_space c \<longleftrightarrow> (let n = of_char c :: nat in n = 32 \<or> (9 \<le> n \<and> n \<le> 13) \<or> (28 \<le> n \<and> n \<le> 31))"

definition strip :: "string \<Rightarrow> string" where
  "strip s = rev (dropWhile is_space (rev (dropWhile is_space s)))"

text \<open>Digits, with single underscores between them.\<close>

fun digits :: "bool \<Rightarrow> nat \<Rightarrow> string \<Rightarrow> nat option" where
  "digits after_digit acc [] = (if after_digit then Some acc else None)"
| "digits after_digit acc (c # cs) =
     (let n = of_char c :: nat in
      if 48 \<le> n \<and> n \<le> 57 then digits True (acc * 10 + (n - 48)) cs
      else if n = 95 \<and> after_digit then digits False acc cs
      else None)"

text \<open>Python's \<open>int\<close> of a string of ASCII characters; \<open>None\<close> is ValueError.\<close>

definition int_of_text :: "string \<Rightarrow> int option" where
  "int_of_text s =
     (case strip s of
        [] \<Rightarrow> None
      | c # cs \<Rightarrow>
          if c = CHR ''-'' then map_option (\<lambda>n. - int n) (digits False 0 cs)
          else if c = CHR ''+'' then map_option int (digits False 0 cs)
          else map_option int (digits False 0 (c # cs)))"

text \<open>\<open>rsplit(':', 1)\<close>, when there is a colon.\<close>

definition rsplit_colon :: "string \<Rightarrow> (string \<times> string) option" where
  "rsplit_colon s =
     (if CHR '':'' \<in> set s
      then Some (rev (tl (dropWhile (\<lambda>c. c \<noteq> CHR '':'') (rev s))), rev (takeWhile (\<lambda>c. c \<noteq> CHR '':'') (rev s)))
      else None)"

definition checkCorrectAdress :: "string option \<Rightarrow> bool" where
  "checkCorrectAdress adr =
     (case Option.bind adr rsplit_colon of
        None \<Rightarrow> False
      | Some (hst, port) \<Rightarrow> (case int_of_text port of None \<Rightarrow> False | Some n \<Rightarrow> 0 < n \<and> n < 65536))"

section \<open>The arguments\<close>

record cli =
  cli_connection :: "string option"
  cli_password :: "string option"
  cli_status :: bool
  cli_add :: "string option"
  cli_remove :: "string option"
  cli_version :: "string option"

record request =
  req_host :: string
  req_port :: int
  req_data :: "util_arg list"

fun given :: "string option \<Rightarrow> bool" where
  "given None = False"
| "given (Some s) = (s \<noteq> [])"

definition command_of :: "cli \<Rightarrow> string option + util_arg list" where
  "command_of a =
     (if cli_status a then Inr [Str ''status'']
      else if given (cli_add a)
      then (if checkCorrectAdress (cli_add a) then Inr [Str ''add'', Str (the (cli_add a))]
            else Inl (Some ''invalid adress to command add''))
      else if given (cli_remove a)
      then (if checkCorrectAdress (cli_remove a) then Inr [Str ''remove'', Str (the (cli_remove a))]
            else Inl (Some ''invalid adress to command remove''))
      else
        (case cli_version a of
           None \<Rightarrow> Inl (Some ''invalid command'')
         | Some v \<Rightarrow> (case int_of_text v of None \<Rightarrow> Inl None | Some n \<Rightarrow> Inr [Str ''set_version'', Num n])))"

text \<open>Either the request, or what the attribute \<open>result\<close> is left at.\<close>

definition getData :: "cli \<Rightarrow> string option + request" where
  "getData a =
     (if \<not> checkCorrectAdress (cli_connection a) then Inl (Some ''invalid adress to connect'')
      else
        (case command_of a of
           Inl r \<Rightarrow> Inl r
         | Inr data \<Rightarrow>
             (case the (rsplit_colon (the (cli_connection a))) of
                (hst, port) \<Rightarrow> Inr \<lparr>req_host = hst, req_port = the (int_of_text port), req_data = data\<rparr>)))"

section \<open>The session\<close>

record tool =
  tool_result :: "string option"
  tool_connected :: bool

type_synonym session = "(tool, body) tcp"

definition tool_onDisconnected :: "tool \<Rightarrow> tool" where
  "tool_onDisconnected t =
     t\<lparr>tool_connected := False,
       tool_result := (case tool_result t of None \<Rightarrow> Some ''connection lost'' | r \<Rightarrow> r)\<rparr>"

text \<open>\<open>py_str\<close> is \<open>str\<close> of a value that is neither a string nor a dictionary.\<close>

definition tool_onMessage ::
  "body msg_codec \<Rightarrow> util_arg list \<Rightarrow> ((string \<Rightarrow> status_val option) \<Rightarrow> string) \<Rightarrow> (body packet \<Rightarrow> string) \<Rightarrow> body packet \<Rightarrow> (session, unit) eff" where
  "tool_onMessage c data render py_str m t =
     (if encryptor t \<and> \<not> truthy (sendRandKey t)
      then tcp_send c tool_onDisconnected (Body (Args data)) (t\<lparr>sendRandKey := m\<rparr>)
      else
        let r = (case m of Text s \<Rightarrow> s | Body (Status d) \<Rightarrow> render d | _ \<Rightarrow> py_str m)
        in (Inr (), disconnect tool_onDisconnected (t\<lparr>owner := (owner t)\<lparr>tool_result := Some r\<rparr>\<rparr>)))"

definition tool_onConnected :: "body msg_codec \<Rightarrow> util_arg list \<Rightarrow> bytes \<Rightarrow> (session, unit) eff" where
  "tool_onConnected c data key t =
     (if encryptor t then tcp_send c tool_onDisconnected (Bytes key) (t\<lparr>recvRandKey := Bytes key\<rparr>)
      else tcp_send c tool_onDisconnected (Body (Args data)) t)"

text \<open>The constructor up to its loop: the result, or the session that is polled.\<close>

definition tool_start ::
  "cli \<Rightarrow> rat \<Rightarrow> bool option \<Rightarrow> connect_result \<Rightarrow> py_error + (string option + session \<times> util_arg list)" where
  "tool_start a now hst res =
     (case getData a of
        Inl r \<Rightarrow> Inr (Inl r)
      | Inr req \<Rightarrow>
          let t = (TcpConnection \<lparr>tool_result = None, tool_connected = False\<rparr> now 900 None)\<lparr>encryptor := (cli_password a \<noteq> None)\<rparr> in
          (case connect now hst res t of
             (Inl e, _) \<Rightarrow> Inl e
           | (Inr ok, t1) \<Rightarrow>
               if ok then Inr (Inr (t1\<lparr>owner := (owner t1)\<lparr>tool_connected := True\<rparr>\<rparr>, req_data req))
               else Inr (Inl (Some (''can'' @ [CHR 0x27] @ ''t connected'')))))"

definition tool_event ::
  "nat \<Rightarrow> body msg_codec \<Rightarrow> util_arg list \<Rightarrow> ((string \<Rightarrow> status_val option) \<Rightarrow> string) \<Rightarrow> (body packet \<Rightarrow> string) \<Rightarrow> bytes \<Rightarrow>
   rat \<Rightarrow> nat \<Rightarrow> poll_flag set \<Rightarrow> bool \<Rightarrow> session \<Rightarrow> ((py_error + unit) \<times> session) option" where
  "tool_event n c data render py_str key =
     processConnection n c tool_onDisconnected (tool_onConnected c data key) (tool_onMessage c data render py_str)"

text \<open>What \<open>main\<close> writes; writing \<open>None\<close> is a TypeError.\<close>

definition tool_print :: "string option \<Rightarrow> py_error + string" where
  "tool_print r = (case r of None \<Rightarrow> Inl TypeError | Some s \<Rightarrow> Inr s)"

section \<open>What the tool prints\<close>

text \<open>Once the loop ends, there is a result.\<close>

definition reported :: "session \<Rightarrow> bool" where
  "reported t \<longleftrightarrow> tool_connected (owner t) \<or> tool_result (owner t) \<noteq> None"

lemma disconnect_reported: "reported t \<Longrightarrow> reported (disconnect tool_onDisconnected t)"
  by (auto simp: reported_def disconnect_def tool_onDisconnected_def split: option.split)

lemma reported_updates [simp]:
  "reported (t\<lparr>incoming := a\<rparr>) = reported t" "reported (t\<lparr>answers := b\<rparr>) = reported t"
  "reported (t\<lparr>readBuffer := x\<rparr>) = reported t" "reported (t\<lparr>writeBuffer := y\<rparr>) = reported t"
  "reported (t\<lparr>on_wire := z\<rparr>) = reported t" "reported (t\<lparr>sendRandKey := k\<rparr>) = reported t"
  "reported (t\<lparr>recvRandKey := l\<rparr>) = reported t" "reported (t\<lparr>polled := p\<rparr>) = reported t"
  "reported (t\<lparr>lastReadTime := q\<rparr>) = reported t" "reported (t\<lparr>cstate := c\<rparr>) = reported t"
  by (simp_all add: reported_def)

lemma processSend_reported: "reported t \<Longrightarrow> processSend tool_onDisconnected t = (r, t') \<Longrightarrow> reported t'"
  by (auto simp: processSend_def Let_def intro!: disconnect_reported split: if_splits list.splits send_result.splits)


lemma trySendBuffer_reported:
  "reported t \<Longrightarrow> trySendBuffer tool_onDisconnected t = (r, t') \<Longrightarrow> reported t'"
  by (rule trySendBuffer_inv[where P = reported]) (erule (1) processSend_reported)

lemma tcp_send_reported: "reported t \<Longrightarrow> tcp_send c tool_onDisconnected m t = (r, t') \<Longrightarrow> reported t'"
  by (auto simp: tcp_send_def Let_def intro: trySendBuffer_reported[rotated] split: sum.splits)

lemma processRead_reported: "reported t \<Longrightarrow> processRead tool_onDisconnected t = (r, t') \<Longrightarrow> reported t'"
  by (auto simp: processRead_def Let_def intro!: disconnect_reported split: if_splits list.splits recv_result.splits)

lemma parse_reported: "reported t \<Longrightarrow> processParseMessage c tool_onDisconnected t = (m, t') \<Longrightarrow> reported t'"
  by (auto simp: processParseMessage_def Let_def intro!: disconnect_reported split: if_splits sum.splits)

lemma message_reported:
  assumes "reported t" and "tool_onMessage c data render py_str m t = (r, t')"
  shows "reported t'"
proof (cases "encryptor t \<and> \<not> truthy (sendRandKey t)")
  case True
  then show ?thesis using assms by (auto simp: tool_onMessage_def intro: tcp_send_reported[rotated])
next
  case False
  have "reported (t\<lparr>owner := (owner t)\<lparr>tool_result := Some x\<rparr>\<rparr>)" for x by (simp add: reported_def)
  then show ?thesis using False assms(2) disconnect_reported by (auto simp: tool_onMessage_def Let_def)
qed

lemma connected_reported: "reported t \<Longrightarrow> tool_onConnected c data key t = (r, t') \<Longrightarrow> reported t'"
  by (auto simp: tool_onConnected_def intro: tcp_send_reported[rotated] split: if_splits)

lemma read_event_reported:
  assumes "reported t" and "read_event n c tool_onDisconnected (tool_onMessage c data render py_str) now t = Some (r, t')"
  shows "reported t'"
  by (rule read_event_inv[where P = reported, OF _ _ _ _ assms])
     (erule (1) processRead_reported, erule (1) parse_reported, erule (1) message_reported, simp)

lemma write_event_reported:
  assumes "reported t" and "write_event tool_onDisconnected d t = (r, t')"
  shows "reported t'"
proof -
  obtain r1 t1 where s: "trySendBuffer tool_onDisconnected t = (r1, t1)" by (cases "trySendBuffer tool_onDisconnected t")
  have "reported t1" by (rule trySendBuffer_reported[OF assms(1) s])
  with assms(2) s show ?thesis by (auto simp: write_event_def bindE_def split: sum.splits if_splits)
qed

lemma tool_event_reported:
  assumes "reported t" and "tool_event n c data render py_str key now d ev err t = Some (r, t')"
  shows "reported t'"
proof -
  obtain rc tc where c: "tool_onConnected c data key t = (rc, tc)" by (cases "tool_onConnected c data key t")
  have tc: "reported tc" "reported (tc\<lparr>cstate := CONNECTED, lastReadTime := now\<rparr>)"
    using connected_reported[OF assms(1) c] by simp_all
  obtain rw tw where w: "(if WRITE \<in> ev then write_event tool_onDisconnected d t else (Inr (), t)) = (rw, tw)" by fastforce
  have tw: "reported tw" using w assms(1) write_event_reported by (auto split: if_splits)
  have fin: "t' \<in> {t\<lparr>polled := (polled t)(d := None)\<rparr>, disconnect tool_onDisconnected t, t, tc, tc\<lparr>cstate := CONNECTED, lastReadTime := now\<rparr>, tw} \<or>
      read_event n c tool_onDisconnected (tool_onMessage c data render py_str) now tw = Some (r, t')"
    using assms(2) unfolding tool_event_def processConnection_def c w
    by (auto split: if_splits sum.splits)
  then show ?thesis using tc tw assms(1) reported_updates(8) disconnect_reported[OF assms(1)] read_event_reported[OF tw] by blast
qed

inductive tool_run :: "body msg_codec \<Rightarrow> ((string \<Rightarrow> status_val option) \<Rightarrow> string) \<Rightarrow> (body packet \<Rightarrow> string) \<Rightarrow> cli \<Rightarrow> session \<Rightarrow> util_arg list \<Rightarrow> bool"
  for c render py_str a where
  tool_started: "tool_start a now hst res = Inr (Inr (t, data)) \<Longrightarrow> tool_run c render py_str a t data"
| tool_polled: "tool_run c render py_str a t data \<Longrightarrow>
    tool_event n c data render py_str key now d ev err t = Some (r, t') \<Longrightarrow> tool_run c render py_str a t' data"

text \<open>
  What the tool ends with: a session whose loop has ended has a result to print, whatever the
  events were; the one way to end without a result, and with a TypeError instead of a message, is a
  version that is no number, given with a good address and no other command.
\<close>

theorem tool_reports:
  assumes "tool_run c render py_str a t data" and "\<not> tool_connected (owner t)"
  shows "(\<exists>m. tool_print (tool_result (owner t)) = Inr m) \<and>
    (\<forall>b. getData b = Inl None \<longleftrightarrow> checkCorrectAdress (cli_connection b) \<and> \<not> cli_status b \<and>
       \<not> given (cli_add b) \<and> \<not> given (cli_remove b) \<and> (\<exists>v. cli_version b = Some v \<and> int_of_text v = None))"
proof
  have "reported t" using assms(1)
  proof (induction rule: tool_run.induct)
    case (tool_started now hst res t data)
    then show ?case
      by (auto simp: tool_start_def Let_def reported_def split: sum.splits prod.splits if_splits)
  next
    case (tool_polled t data n key now d ev err r t')
    then show ?case using tool_event_reported by blast
  qed
  with assms(2) show "\<exists>m. tool_print (tool_result (owner t)) = Inr m" by (auto simp: reported_def tool_print_def)
  show "\<forall>b. getData b = Inl None \<longleftrightarrow> checkCorrectAdress (cli_connection b) \<and> \<not> cli_status b \<and>
       \<not> given (cli_add b) \<and> \<not> given (cli_remove b) \<and> (\<exists>v. cli_version b = Some v \<and> int_of_text v = None)"
    by (auto simp: getData_def command_of_def split: sum.splits prod.splits option.splits if_splits)
qed

definition ex_cli :: cli where
  "ex_cli = \<lparr>cli_connection = Some ''n1:4321'', cli_password = None, cli_status = True, cli_add = None,
     cli_remove = None, cli_version = None\<rparr>"

theorem tool_reports_witness:
  "\<exists>t. tool_run c render py_str ex_cli t [Str ''status''] \<and> \<not> tool_connected (owner t) \<and>
     tool_print (tool_result (owner t)) = Inr ''connection lost'' \<and> getData (ex_cli\<lparr>cli_status := False, cli_version := Some ''x''\<rparr>) = Inl None"
proof -
  have ok: "checkCorrectAdress (Some ''n1:4321'')"
    by (simp add: checkCorrectAdress_def rsplit_colon_def int_of_text_def strip_def of_char_def)
  obtain t where t: "tool_start ex_cli 0 (Some True) (Connects_on 3) = Inr (Inr (t, [Str ''status'']))"
      and f: "fileno t = Some 3" "cstate t = CONNECTING" "tool_result (owner t) = None" "lastReadTime t = 0" "conn_timeout t = 900"
    using ok by (simp add: tool_start_def getData_def command_of_def ex_cli_def connect_def TcpConnection_def Let_def split: prod.split)
  let ?t = "disconnect tool_onDisconnected t"
  have "tool_event 0 c [Str ''status''] render py_str [] 1 3 {ERROR} False t = Some (Inr (), ?t)"
    using f by (simp add: tool_event_def processConnection_def)
  then have run: "tool_run c render py_str ex_cli ?t [Str ''status'']" by (rule tool_polled[OF tool_started[OF t]])
  have d: "\<not> tool_connected (owner ?t)" "tool_result (owner ?t) = Some ''connection lost''"
    using f by (simp_all add: disconnect_def tool_onDisconnected_def)
  have "getData (ex_cli\<lparr>cli_status := False, cli_version := Some ''x''\<rparr>) = Inl None"
    using tool_reports[OF run d(1)] ok by (simp add: ex_cli_def int_of_text_def strip_def of_char_def)
  with run d show ?thesis by (auto simp: tool_print_def)
qed

end
