(* ===== verification/Spec2Isabelle.thy ===== *)
theory Spec2Isabelle
  imports CoinSafety Crypto Client NodeMain Glue RaftThread Replicas RaftSteady RaftTickSpec JournalSpec RaftCompaction NodeConnSpec Batteries DnsCache RaftHubSpec AdminTool
begin

text \<open>
  Verification library of belcoin.

  \<^bold>\<open>The program.\<close> belcoin is a ledger of transactions with unspent outputs. A node
  (\<open>src/belcoin_node\<close>) keeps its transactions in key-value databases with an index of outputs by
  public key, verifies the transactions of a block, holds back those that are locked in time
  (the pending set), and offers JSON-RPC and GRPC calls. The nodes agree on a sequence of blocks
  through \<open>src/pysyncobjbc\<close>, a replication library based on Raft: the class \<open>Storage\<close> inherits from
  \<open>SyncObj\<close>, and a block becomes part of the ledger when the replicated log applies the command
  \<open>add_block_to_queue\<close>. Below the protocol lie a journal file, a serializer of full dumps, a queue of
  commands, TCP connections driven by a poller, and a caching resolver.

  \<^bold>\<open>Conventions\<close> (\<open>Prelude\<close>). A method that changes its object and may raise is a function
  \<open>'s \<Rightarrow> (py_error + 'a) \<times> 's\<close> (type \<open>eff\<close>), so that what was changed before an exception stays
  changed. Objects are records with the names of the attributes, or close to them. Times are rationals,
  as no proof needs the rounding of floats; integers are unbounded, as in Python, and bytes are 8-bit
  words. The clock, random numbers, the answers of sockets and of the file system, and what comes out
  of pickle, zlib, the cipher and the package \<open>tesseract\<close> (transactions, signatures, hashes) are
  arguments or fields of an environment record; their laws are named hypotheses.

  \<^bold>\<open>The ledger\<close>, \<open>storage.py\<close> and the files it uses.
    \<^item> \<open>Stores\<close>: dictionaries and databases as association lists, \<open>mempool.py\<close>, \<open>pendingdb.py\<close>.
    \<^item> \<open>Txn\<close>: transactions, \<open>txnwrapper.py\<close> with its byte format; \<open>Crypto\<close>: signing.
    \<^item> \<open>Ledger\<close>: the state \<open>storage\<close>, the index of outputs, balances and queries, the pending set.
    \<^item> \<open>Verify\<close>: \<open>verify_txn\<close> and \<open>check_pend_replacement\<close>; \<open>Blocks\<close>: \<open>process_block\<close>, \<open>update_pend\<close>,
      the requests for missing transactions.
    \<^item> \<open>LedgerInv\<close>, \<open>LedgerValue\<close>, \<open>BlockProps\<close>, \<open>LedgerSpec\<close>: the invariant \<open>ledger_inv\<close> (index and
      databases agree), the value of the unspent outputs, what a block keeps; \<open>verify_txn\<close> against an
      independent predicate; termination of a block; the errors.
    \<^item> \<open>Node\<close>, \<open>NodeRun\<close>, \<open>NodeSpec\<close>: the start of a node, \<open>rpcserver.py\<close>, \<open>grpcinterface.py\<close>, the
      step relation \<open>node_run\<close> of a whole node with its invariant, restarts.
    \<^item> \<open>Replicas\<close>: nodes that take up the same blocks in the same order hold the same ledger, and how
      the order of queueing and processing makes them differ.
    \<^item> \<open>Coins\<close>: an abstract machine of coins, with spending, replacement, time locks and the clock as its only
      steps, and the proof that every run of a node is a run of it. \<open>CoinSafety\<close>: what follows from the machine
      alone, that a coin leaves only with the signatures of its owners or a hash preimage, and that no two
      transactions of the ledger spend the same output.
    \<^item> \<open>NodeMain\<close>: \<open>node.py\<close>, the arguments and the console, the calls that pass on, the table of balances.
      \<open>Client\<close>: \<open>client.py\<close>, its load, in whatever order the answers come, and its console.

  \<^bold>\<open>Replication\<close>, \<open>syncobj.py\<close>.
    \<^item> \<open>RaftState\<close>, \<open>RaftNode\<close>: the state \<open>raft\<close>, the messages, every handler and the tick. Loops that the
      code ends after a period of time get the number of rounds that fit (\<open>rounds\<close>, \<open>cmds\<close>), and all
      statements hold for every such number.
    \<^item> \<open>RaftFrame\<close>: what the handlers leave alone, by a contract (\<open>handler_frame\<close>) that every relation
      between states that is used below is shown to meet; \<open>RaftElection\<close>: clusters with a network that
      loses, delays and reorders (\<open>cluster_step\<close>), the invariant of votes, election safety.
    \<^item> \<open>RaftMatching\<close>, \<open>RaftRuns\<close>: the history of all entries and the invariant of logs and messages; log
      matching; runs that can be evaluated, and one in which two nodes apply different blocks at the same
      place, for the log alone does not make committed entries last.
    \<^item> \<open>RaftCuts\<close>: a run with connections that deliver in order, in which a follower takes back what it
      acknowledged. \<open>RaftSteady\<close>: what holds nevertheless, that all nodes queue the same blocks while the logs hold
      the entries of one leader; the composition of the log, its replication and the application of entries.
    \<^item> \<open>RaftProps\<close>, \<open>RaftSpec\<close>, \<open>RaftLogSpec\<close>, \<open>RaftTickSpec\<close>: logs, commitment, application, large
      entries, membership, proposals, restarts.
    \<^item> \<open>RaftCompaction\<close>: compaction of the log into a dump; \<open>Methods\<close>: replicated methods, their
      numbers and code versions, the decorator.
    \<^item> \<open>RaftHost\<close>, \<open>RaftHostSpec\<close>: binding, retries, the tick around the protocol, read-only nodes,
      destruction; \<open>RaftHub\<close>, \<open>RaftHubSpec\<close>: accepted connections until they are known, administration.
    \<^item> \<open>RaftThread\<close>: the checks of the constructor, the thread that ticks, the end of a node, consumers and
      their dumps, synchronous calls, getters, the messages by which nodes passed transactions.
    \<^item> \<open>FastQueue\<close>, \<open>Config\<close>, \<open>Serializer\<close>, \<open>Struct\<close>, \<open>Journal\<close>, \<open>JournalSpec\<close>: \<open>fast_queue.py\<close>,
      \<open>config.py\<close>, \<open>serializer.py\<close>, the formats of \<open>struct\<close>, \<open>journal.py\<close>.

  \<^bold>\<open>Connections.\<close>
    \<^item> \<open>TcpConn\<close>, \<open>TcpSpec\<close>: \<open>tcp_connection.py\<close>, framing and the stream of messages.
    \<^item> \<open>NodeConn\<close>, \<open>NodeConnSpec\<close>: \<open>node.py\<close>, a partner with its connections.
    \<^item> \<open>Poller\<close>, \<open>TcpServer\<close>, \<open>DnsCache\<close>, \<open>AdminTool\<close>: \<open>poller.py\<close>, \<open>tcp_server.py\<close>,
      \<open>dns_resolver.py\<close>, \<open>syncobj_admin.py\<close>.
    \<^item> \<open>Batteries\<close>: \<open>batteries.py\<close>, replicated data types and locks.
    \<^item> \<open>Glue\<close>: \<open>pipe_notifier.py\<close>, \<open>pickle.py\<close>, \<open>atomic_replace.py\<close>, \<open>encryptor.py\<close>, \<open>win_inet_pton.py\<close>.

  \<^bold>\<open>Interfaces.\<close> The locale \<open>kv_store\<close> states what the ledger and the replicated dictionary use of a
  store, \<open>entry_journal\<close> what the protocol uses of a journal (interpreted by the list in memory and by
  the mapped file), \<open>event_source\<close> what connections and the server use of a poller (interpreted by both
  pollers). The code runs one implementation behind the other; so do the interpretations. The locale
  \<open>bounded_fifo\<close> states what the protocol uses of its queue of commands, \<open>quorum_system\<close> what elections use of
  majorities. Two locales are contracts of relations between states: \<open>handler_frame\<close> for the handlers of the
  protocol (extended by \<open>tick_frame\<close> for the whole tick and by \<open>log_frame\<close>, which gives the former, for relations
  that look only at elections and logs), and \<open>node_frame\<close> for the operations of the ledger, the latter interpreted by the invariant
  (\<open>evolves\<close>) and by the simulation of the coin machine (\<open>refines\<close>); each gives the statement for whole
  runs once.

  \<^bold>\<open>Fuel.\<close> \<open>message_loop\<close> of \<open>TcpConn\<close> takes a number of rounds, since a negative length field can make
  it loop; \<open>TcpSpec\<close> proves that the number of messages in the buffer, plus one, is enough. All other
  loops are recursions whose termination is proved.

  \<^bold>\<open>Not modelled.\<close> Threads as such: every operation runs to its end before the next one starts, which is
  what the reactor thread and the tick thread do; the locks of the queue make its operations atomic, and a
  thread with a loop is the sequence of its rounds. The bodies of system calls and packages, whose answers
  are arguments. Printing and log output, \<open>ADD_NETWORK_DELAY\<close> (the delays of a network are steps that
  have not happened yet). \<open>grpcclient.py\<close>, \<open>util.py\<close>, \<open>keys\<close>, \<open>test\<close>, \<open>tester.py\<close>, \<open>test_network.py\<close>: tests, keys
  and transactions for tests. \<open>mempoolwrapper.py\<close> is commented out.
\<close>

end
